(* ===== verification/Rust_Prelude.thy ===== *)
theory Rust_Prelude
  imports Main "HOL-Library.Word"
begin

text \<open>
  What every component of the model shares: the machine integers and byte strings of the
  Rust sources, the result type with a panic branch, checked arithmetic and checked
  slicing, the byte orders of \<open>to_be_bytes\<close> and \<open>to_le_bytes\<close>, and the lemma
  collections the component proofs draw on.

  A Rust call that may return \<open>Err\<close> or panic has a value of type \<open>('a, 'e) result\<close>;
  the \<open>?\<close> operator is \<open>and_then\<close>. A call into code outside the repository (bincode,
  the codecs, the kernel) returns a sum, since it is a parameter that only succeeds or
  fails; \<open>from_sum\<close> embeds it.
\<close>

unbundle bit_operations_syntax

section \<open>Numbers\<close>

type_synonym u8 = "8 word"
type_synonym u16 = "16 word"
type_synonym u32 = "32 word"
type_synonym u64 = "64 word"

text \<open>
  \<open>usize\<close> values are \<open>nat\<close>; the targets that run the desktop program have 64-bit
  addresses, so a \<open>checked_\<close> operation fails above \<open>USIZE_MAX\<close>.
\<close>

definition USIZE_MAX :: nat where
  "USIZE_MAX = 2 ^ 64 - 1"

definition checked_add_usize :: "nat \<Rightarrow> nat \<Rightarrow> nat option" where
  "checked_add_usize a b = (if a + b \<le> USIZE_MAX then Some (a + b) else None)"

definition checked_mul_usize :: "nat \<Rightarrow> nat \<Rightarrow> nat option" where
  "checked_mul_usize a b = (if a * b \<le> USIZE_MAX then Some (a * b) else None)"

lemma checked_add_usize_Some [simp]:
  "checked_add_usize a b = Some c \<longleftrightarrow> c = a + b \<and> a + b \<le> USIZE_MAX"
  by (auto simp: checked_add_usize_def)

lemma checked_add_usize_None [simp]:
  "checked_add_usize a b = None \<longleftrightarrow> USIZE_MAX < a + b"
  by (auto simp: checked_add_usize_def)

lemma checked_mul_usize_Some [simp]:
  "checked_mul_usize a b = Some c \<longleftrightarrow> c = a * b \<and> a * b \<le> USIZE_MAX"
  by (auto simp: checked_mul_usize_def)

lemma checked_mul_usize_None [simp]:
  "checked_mul_usize a b = None \<longleftrightarrow> USIZE_MAX < a * b"
  by (auto simp: checked_mul_usize_def)

section \<open>Results\<close>

datatype ('a, 'e) result = Ok 'a | Err 'e | Panic

primrec and_then :: "('a, 'e) result \<Rightarrow> ('a \<Rightarrow> ('b, 'e) result) \<Rightarrow> ('b, 'e) result" where
  "and_then (Ok x) f = f x"
| "and_then (Err e) f = Err e"
| "and_then Panic f = Panic"

primrec map_err :: "('e \<Rightarrow> 'f) \<Rightarrow> ('a, 'e) result \<Rightarrow> ('a, 'f) result" where
  "map_err g (Ok x) = Ok x"
| "map_err g (Err e) = Err (g e)"
| "map_err g Panic = Panic"

primrec from_sum :: "'e + 'a \<Rightarrow> ('a, 'e) result" where
  "from_sum (Inl e) = Err e"
| "from_sum (Inr x) = Ok x"

primrec ok_or :: "'e \<Rightarrow> 'a option \<Rightarrow> ('a, 'e) result" where
  "ok_or e None = Err e"
| "ok_or e (Some x) = Ok x"

primrec is_ok :: "('a, 'e) result \<Rightarrow> bool" where
  "is_ok (Ok x) = True"
| "is_ok (Err e) = False"
| "is_ok Panic = False"

definition is_err :: "('a, 'e) result \<Rightarrow> bool" where
  "is_err r \<longleftrightarrow> \<not> is_ok r"

named_theorems result_eqs \<open>when a composed result is \<open>Ok\<close>, \<open>Err\<close> or \<open>Panic\<close>\<close>

lemma and_then_eq_Ok [result_eqs]: "and_then m f = Ok y \<longleftrightarrow> (\<exists>x. m = Ok x \<and> f x = Ok y)"
  by (cases m) auto

lemma and_then_eq_Err [result_eqs]:
  "and_then m f = Err e \<longleftrightarrow> m = Err e \<or> (\<exists>x. m = Ok x \<and> f x = Err e)"
  by (cases m) auto

lemma and_then_eq_Panic [result_eqs]:
  "and_then m f = Panic \<longleftrightarrow> m = Panic \<or> (\<exists>x. m = Ok x \<and> f x = Panic)"
  by (cases m) auto

lemma map_err_eq_Ok [result_eqs]: "map_err g m = Ok y \<longleftrightarrow> m = Ok y"
  by (cases m) auto

lemma map_err_eq_Err [result_eqs]: "map_err g m = Err e' \<longleftrightarrow> (\<exists>e. m = Err e \<and> e' = g e)"
  by (cases m) auto

lemma map_err_eq_Panic [result_eqs]: "map_err g m = Panic \<longleftrightarrow> m = Panic"
  by (cases m) auto

lemma from_sum_eq_Ok [result_eqs]: "from_sum s = Ok y \<longleftrightarrow> s = Inr y"
  by (cases s) auto

lemma from_sum_eq_Err [result_eqs]: "from_sum s = Err e \<longleftrightarrow> s = Inl e"
  by (cases s) auto

lemma from_sum_eq_Panic [result_eqs]: "from_sum s = Panic \<longleftrightarrow> False"
  by (cases s) auto

lemma ok_or_eq_Ok [result_eqs]: "ok_or e m = Ok y \<longleftrightarrow> m = Some y"
  by (cases m) auto

lemma ok_or_eq_Err [result_eqs]: "ok_or e m = Err e' \<longleftrightarrow> m = None \<and> e' = e"
  by (cases m) auto

lemma ok_or_eq_Panic [result_eqs]: "ok_or e m = Panic \<longleftrightarrow> False"
  by (cases m) auto

lemma and_then_cong [fundef_cong]:
  "m = m' \<Longrightarrow> (\<And>x. m' = Ok x \<Longrightarrow> f x = f' x) \<Longrightarrow> and_then m f = and_then m' f'"
  by (cases m') auto

lemma is_ok_iff: "is_ok r \<longleftrightarrow> (\<exists>x. r = Ok x)"
  by (cases r) auto

section \<open>Slices and indices\<close>

text \<open>Rust panics where HOL's list operations are unspecified; the model panics too.\<close>

definition at_index :: "'a list \<Rightarrow> nat \<Rightarrow> ('a, 'e) result" where
  "at_index xs i = (if i < length xs then Ok (xs ! i) else Panic)"

definition slice :: "'a list \<Rightarrow> nat \<Rightarrow> nat \<Rightarrow> ('a list, 'e) result" where
  "slice xs i j = (if i \<le> j \<and> j \<le> length xs then Ok (take (j - i) (drop i xs)) else Panic)"

definition slice_from :: "'a list \<Rightarrow> nat \<Rightarrow> ('a list, 'e) result" where
  "slice_from xs i = (if i \<le> length xs then Ok (drop i xs) else Panic)"

text \<open>\<open>slice.try_into().expect(..)\<close> towards \<open>[T; N]\<close>.\<close>

definition as_array :: "nat \<Rightarrow> 'a list \<Rightarrow> ('a list, 'e) result" where
  "as_array n xs = (if length xs = n then Ok xs else Panic)"

definition starts_with :: "'a list \<Rightarrow> 'a list \<Rightarrow> bool" where
  "starts_with pre xs \<longleftrightarrow> take (length pre) xs = pre"

lemma at_index_ok [simp]: "i < length xs \<Longrightarrow> at_index xs i = Ok (xs ! i)"
  by (simp add: at_index_def)

lemma slice_ok [simp]: "i \<le> j \<Longrightarrow> j \<le> length xs \<Longrightarrow> slice xs i j = Ok (take (j - i) (drop i xs))"
  by (simp add: slice_def)

lemma slice_from_ok [simp]: "i \<le> length xs \<Longrightarrow> slice_from xs i = Ok (drop i xs)"
  by (simp add: slice_from_def)

lemma as_array_ok [simp]: "length xs = n \<Longrightarrow> as_array n xs = Ok xs"
  by (simp add: as_array_def)

lemma starts_with_append [simp]: "starts_with pre (pre @ xs)"
  by (simp add: starts_with_def)

lemma starts_with_iff: "starts_with pre xs \<longleftrightarrow> (\<exists>zs. xs = pre @ zs)"
proof
  assume "starts_with pre xs"
  then have "xs = pre @ drop (length pre) xs"
    by (metis append_take_drop_id starts_with_def)
  then show "\<exists>zs. xs = pre @ zs" ..
qed auto

lemma starts_with_Nil [simp]: "starts_with [] xs"
  by (simp add: starts_with_def)

lemma starts_with_drop_Cons [simp]:
  "starts_with (b # bs) (drop i xs) \<longleftrightarrow> i < length xs \<and> xs ! i = b \<and> starts_with bs (drop (Suc i) xs)"
proof (cases "i < length xs")
  case True
  then have "drop i xs = xs ! i # drop (Suc i) xs" by (simp add: Cons_nth_drop_Suc)
  then show ?thesis using True by (simp add: starts_with_def)
qed (simp add: starts_with_def)

section \<open>Loops\<close>

text \<open>A \<open>for\<close> loop whose body may return early or panic.\<close>

primrec for_each :: "('s \<Rightarrow> 'x \<Rightarrow> ('s, 'e) result) \<Rightarrow> 'x list \<Rightarrow> 's \<Rightarrow> ('s, 'e) result" where
  "for_each f [] s = Ok s"
| "for_each f (x # xs) s = and_then (f s x) (for_each f xs)"

lemma for_each_extend:
  assumes "\<And>acc x. x \<in> set xs \<Longrightarrow> f acc x = Ok (acc @ g x)"
  shows "for_each f xs acc = Ok (acc @ concat (map g xs))"
  using assms by (induction xs arbitrary: acc) auto

lemma for_each_no_panic:
  assumes "\<And>s x. x \<in> set xs \<Longrightarrow> f s x \<noteq> Panic"
  shows "for_each f xs s \<noteq> Panic"
  using assms by (induction xs arbitrary: s) (auto simp: result_eqs)

text \<open>Reading back from blocks of equal length.\<close>

lemma length_concat_uniform:
  "(\<And>x. x \<in> set xs \<Longrightarrow> length (g x) = k) \<Longrightarrow> length (concat (map g xs)) = length xs * k"
  by (induction xs) auto

lemma nth_concat_uniform:
  assumes "\<And>x. x \<in> set xs \<Longrightarrow> length (g x) = k" "i < length xs" "j < k"
  shows "concat (map g xs) ! (i * k + j) = g (xs ! i) ! j"
  using assms
proof (induction xs arbitrary: i)
  case Nil
  then show ?case by simp
next
  case (Cons x xs)
  then have len: "length (g x) = k" by simp
  show ?case
  proof (cases i)
    case 0
    with Cons.prems len show ?thesis by (simp add: nth_append)
  next
    case (Suc i')
    with Cons.prems have "concat (map g xs) ! (i' * k + j) = g (xs ! i') ! j"
      by (intro Cons.IH) auto
    with Suc len show ?thesis by (simp add: nth_append)
  qed
qed

section \<open>Byte orders\<close>

definition to_le_bytes :: "'a::len word \<Rightarrow> u8 list" where
  "to_le_bytes w = map (\<lambda>i. ucast (drop_bit (8 * i) w)) [0..<LENGTH('a) div 8]"

definition to_be_bytes :: "'a::len word \<Rightarrow> u8 list" where
  "to_be_bytes w = rev (to_le_bytes w)"

definition from_le_bytes :: "u8 list \<Rightarrow> 'a::len word" where
  "from_le_bytes bs = foldr (\<lambda>b acc. push_bit 8 acc OR ucast b) bs 0"

definition from_be_bytes :: "u8 list \<Rightarrow> 'a::len word" where
  "from_be_bytes bs = foldl (\<lambda>acc b. push_bit 8 acc OR ucast b) 0 bs"

lemma length_to_le_bytes [simp]: "length (to_le_bytes (w :: 'a::len word)) = LENGTH('a) div 8"
  by (simp add: to_le_bytes_def)

lemma length_to_be_bytes [simp]: "length (to_be_bytes (w :: 'a::len word)) = LENGTH('a) div 8"
  by (simp add: to_be_bytes_def)

lemma from_be_bytes_rev: "from_be_bytes bs = from_le_bytes (rev bs)"
  by (simp add: from_be_bytes_def from_le_bytes_def foldl_conv_foldr)

lemma bit_from_le_bytes:
  "bit (from_le_bytes bs :: 'a::len word) n \<longleftrightarrow>
     n < LENGTH('a) \<and> n div 8 < length bs \<and> bit (bs ! (n div 8)) (n mod 8)"
proof (induction bs arbitrary: n)
  case Nil
  then show ?case by (simp add: from_le_bytes_def)
next
  case (Cons b bs)
  have step: "bit (from_le_bytes (b # bs) :: 'a word) n \<longleftrightarrow>
      n < LENGTH('a) \<and> (8 \<le> n \<and> bit (from_le_bytes bs :: 'a word) (n - 8) \<or> bit b n)"
    by (auto simp: from_le_bytes_def bit_simps)
  show ?case
  proof (cases "n < 8")
    case True
    then show ?thesis by (auto simp: step)
  next
    case False
    then obtain m where n: "n = 8 + m" by (metis le_Suc_ex not_less)
    then have "n div 8 = Suc (m div 8)" and "n mod 8 = m mod 8" and "\<not> bit b n"
      by (auto dest: bit_imp_le_length)
    with n step Cons.IH [of m] show ?thesis by auto
  qed
qed

lemma from_to_le_bytes [simp]:
  assumes "8 dvd LENGTH('a)"
  shows "from_le_bytes (to_le_bytes w) = (w :: 'a::len word)"
proof (rule bit_word_eqI)
  fix n
  assume n: "n < LENGTH('a)"
  with assms have "n div 8 < LENGTH('a) div 8" by (auto elim!: dvdE)
  with n show "bit (from_le_bytes (to_le_bytes w) :: 'a word) n = bit w n"
    by (simp add: bit_from_le_bytes to_le_bytes_def bit_simps mult_div_mod_eq)
qed

lemma from_to_be_bytes [simp]:
  "8 dvd LENGTH('a) \<Longrightarrow> from_be_bytes (to_be_bytes w) = (w :: 'a::len word)"
  by (simp add: from_be_bytes_rev to_be_bytes_def)

lemma to_from_le_bytes:
  assumes "length bs = LENGTH('a) div 8"
  shows "to_le_bytes (from_le_bytes bs :: 'a::len word) = bs"
proof (rule nth_equalityI)
  fix i
  assume "i < length (to_le_bytes (from_le_bytes bs :: 'a word))"
  then have i: "i < LENGTH('a) div 8" by simp
  have "ucast (drop_bit (8 * i) (from_le_bytes bs :: 'a word)) = bs ! i"
  proof (rule bit_word_eqI)
    fix n
    assume n: "n < LENGTH(8)"
    with i have "8 * i + n < LENGTH('a)" by simp
    with n i assms show "bit (ucast (drop_bit (8 * i) (from_le_bytes bs :: 'a word)) :: u8) n = bit (bs ! i) n"
      by (simp add: bit_simps bit_from_le_bytes)
  qed
  with i show "to_le_bytes (from_le_bytes bs :: 'a word) ! i = bs ! i"
    by (simp add: to_le_bytes_def)
qed (use assms in simp)

lemma to_from_be_bytes:
  "length bs = LENGTH('a) div 8 \<Longrightarrow> to_be_bytes (from_be_bytes bs :: 'a::len word) = bs"
  by (simp add: from_be_bytes_rev to_be_bytes_def to_from_le_bytes)

section \<open>Text\<close>

text \<open>
  A Rust string is a list of Unicode scalar values; \<open>lit\<close> turns a literal into one.
\<close>

type_synonym ustr = "nat list"

definition lit :: "string \<Rightarrow> ustr" where
  "lit s = map of_char s"

lemma lit_simps [simp]: "lit [] = []" "lit (c # s) = of_char c # lit s"
  by (simp_all add: lit_def)

lemma lit_append [simp]: "lit (s @ t) = lit s @ lit t"
  by (simp add: lit_def)

text \<open>\<open>char::is_whitespace\<close> (the Unicode property White_Space) and \<open>str::trim\<close>.\<close>

definition is_whitespace :: "nat \<Rightarrow> bool" where
  "is_whitespace c \<longleftrightarrow>
     9 \<le> c \<and> c \<le> 13 \<or> c = 32 \<or> c = 0x85 \<or> c = 0xA0 \<or> c = 0x1680 \<or> 0x2000 \<le> c \<and> c \<le> 0x200A \<or>
     c = 0x2028 \<or> c = 0x2029 \<or> c = 0x202F \<or> c = 0x205F \<or> c = 0x3000"

definition trim_start :: "ustr \<Rightarrow> ustr" where
  "trim_start s = dropWhile is_whitespace s"

definition trim :: "ustr \<Rightarrow> ustr" where
  "trim s = rev (dropWhile is_whitespace (rev (trim_start s)))"

definition trim_matches :: "(nat \<Rightarrow> bool) \<Rightarrow> ustr \<Rightarrow> ustr" where
  "trim_matches P s = rev (dropWhile P (rev (dropWhile P s)))"

lemma trim_alt: "trim = trim_matches is_whitespace"
  by (auto simp: trim_def trim_start_def trim_matches_def fun_eq_iff)

lemma hd_trim_matches: "trim_matches P s \<noteq> [] \<Longrightarrow> \<not> P (hd (trim_matches P s))"
proof -
  assume nonempty: "trim_matches P s \<noteq> []"
  obtain zs where zs: "dropWhile P s = trim_matches P s @ zs"
    by (metis append_Nil2 rev_append rev_rev_ident takeWhile_dropWhile_id trim_matches_def)
  then have "dropWhile P s \<noteq> []" using nonempty by auto
  then have "\<not> P (hd (dropWhile P s))" by (rule hd_dropWhile)
  with zs nonempty show ?thesis by simp
qed

lemma last_trim_matches: "trim_matches P s \<noteq> [] \<Longrightarrow> \<not> P (last (trim_matches P s))"
  by (metis hd_dropWhile last_rev rev_is_Nil_conv trim_matches_def)

end
