(* ===== verification/Step_Systems.thy ===== *)
theory Step_Systems
  imports Rust_Prelude
begin

text \<open>
  The machines of this development are step relations with a predicate for what their runs
  reach. This theory holds what they share as interfaces: a machine whose runs are the least
  set with its starts and steps, a simulation of one machine by another, and the special case
  in which the state of the other is a function of the state.
\<close>

section \<open>Machines\<close>

inductive reaches :: "('s \<Rightarrow> bool) \<Rightarrow> ('s \<Rightarrow> 's \<Rightarrow> bool) \<Rightarrow> 's \<Rightarrow> bool" for starts steps where
  reaches_start: "starts s \<Longrightarrow> reaches starts steps s"
| reaches_step: "reaches starts steps s \<Longrightarrow> steps s s' \<Longrightarrow> reaches starts steps s'"

locale step_system =
  fixes starts :: "'s \<Rightarrow> bool"
    and steps :: "'s \<Rightarrow> 's \<Rightarrow> bool"
    and runs :: "'s \<Rightarrow> bool"
  assumes runs_iff: "runs s \<longleftrightarrow> reaches starts steps s"
begin

lemma runs_start: "starts s \<Longrightarrow> runs s"
  by (simp add: runs_iff reaches_start)

lemma runs_step: "runs s \<Longrightarrow> steps s s' \<Longrightarrow> runs s'"
  by (auto simp: runs_iff intro: reaches_step)

lemma runs_more: "runs s \<Longrightarrow> steps\<^sup>=\<^sup>= s s' \<Longrightarrow> runs s'"
  by (auto intro: runs_step)

lemma invariant:
  assumes "runs s" "\<And>s. starts s \<Longrightarrow> I s" "\<And>s s'. runs s \<Longrightarrow> I s \<Longrightarrow> steps s s' \<Longrightarrow> I s'"
  shows "I s"
proof -
  from assms(1) have "reaches starts steps s" by (simp add: runs_iff)
  then show ?thesis
    by (induction rule: reaches.induct) (use assms(2,3) in \<open>auto simp: runs_iff\<close>)
qed

end

section \<open>Simulations\<close>

text \<open>
  Every start of the detailed machine has a matching start of the abstract one, and every step
  from matching states one that matches it, or none at all.
\<close>

locale simulates =
  detailed: step_system c_starts c_steps c_runs + abstract: step_system a_starts a_steps a_runs
  for c_starts :: "'c \<Rightarrow> bool" and c_steps and c_runs
    and a_starts :: "'a \<Rightarrow> bool" and a_steps and a_runs +
  fixes rel :: "'c \<Rightarrow> 'a \<Rightarrow> bool"
  assumes sim_start: "c_starts c \<Longrightarrow> \<exists>a. a_starts a \<and> rel c a"
    and sim_step: "c_runs c \<Longrightarrow> a_runs a \<Longrightarrow> rel c a \<Longrightarrow> c_steps c c' \<Longrightarrow>
      \<exists>a'. a_steps\<^sup>=\<^sup>= a a' \<and> rel c' a'"
begin

lemma represented:
  assumes "c_runs c"
  shows "\<exists>a. a_runs a \<and> rel c a"
  using assms
proof (rule detailed.invariant)
  fix c
  assume "c_starts c"
  then show "\<exists>a. a_runs a \<and> rel c a" using sim_start abstract.runs_start by blast
next
  fix c c'
  assume "c_runs c" "\<exists>a. a_runs a \<and> rel c a" "c_steps c c'"
  then show "\<exists>a. a_runs a \<and> rel c' a" using sim_step abstract.runs_more by metis
qed

end

text \<open>The abstract state as a function of the detailed one.\<close>

locale refinement_map =
  detailed: step_system c_starts c_steps c_runs + abstract: step_system a_starts a_steps a_runs
  for c_starts :: "'c \<Rightarrow> bool" and c_steps and c_runs
    and a_starts :: "'a \<Rightarrow> bool" and a_steps and a_runs +
  fixes view :: "'c \<Rightarrow> 'a"
  assumes map_start: "c_starts c \<Longrightarrow> a_starts (view c)"
    and map_step: "c_runs c \<Longrightarrow> a_runs (view c) \<Longrightarrow> c_steps c c' \<Longrightarrow> a_steps\<^sup>=\<^sup>= (view c) (view c')"

sublocale refinement_map \<subseteq> simulates c_starts c_steps c_runs a_starts a_steps a_runs "\<lambda>c a. a = view c"
  by unfold_locales (use map_start map_step in auto)

context refinement_map
begin

lemma mapped: "c_runs c \<Longrightarrow> a_runs (view c)"
  using represented by blast

end

end
