(* ===== verification/Protocol.thy ===== *)
theory Protocol
  imports Rust_Prelude
begin

text \<open>
  The wire protocol's data and its validation rules (\<open>rust/phonecam-protocol/src/lib.rs\<close>):
  video codecs, stream profiles, the payload structs of every message, and the checks that
  a handshake, a capability update and a video frame must pass. The lemmas characterise
  each check by the sets of values it accepts and by the error it reports first.
\<close>

section \<open>Codecs and profiles\<close>

definition PROTOCOL_VERSION :: u8 where
  "PROTOCOL_VERSION = 2"

definition SUPPORTED_DIMENSIONS :: "(u16 \<times> u16) list" where
  "SUPPORTED_DIMENSIONS = [(640, 480), (1280, 720), (1920, 1080), (2560, 1440), (3840, 2160)]"

definition SUPPORTED_FRAME_RATES :: "u8 list" where
  "SUPPORTED_FRAME_RATES = [15, 30, 60]"

datatype video_codec = H264 | Hevc

record stream_profile =
  codec :: video_codec
  width :: u16
  height :: u16
  fps :: u8

definition H264_720P30 :: stream_profile where
  "H264_720P30 = \<lparr>codec = H264, width = 1280, height = 720, fps = 30\<rparr>"

record video_frame =
  vf_data :: "u8 list"
  pts_us :: u64
  vf_codec :: video_codec
  vf_width :: u16
  vf_height :: u16
  is_keyframe :: bool

datatype profile_validation_error =
    UnsupportedProtocolVersion u8 u8
  | EmptySupportedProfiles
  | DuplicateProfile stream_profile
  | InvalidCodec u8
  | InvalidDimensions u16 u16
  | InvalidFrameRate u8
  | ActiveProfileUnsupported stream_profile
  | FrameProfileMismatch video_codec u16 u16 stream_profile

definition video_codec_try_from :: "u8 \<Rightarrow> (video_codec, profile_validation_error) result" where
  "video_codec_try_from v =
     (if v = 0 then Ok H264 else if v = 1 then Ok Hevc else Err (InvalidCodec v))"

text \<open>The discriminant of the \<open>repr(u8)\<close> enum, \<open>codec as u8\<close>.\<close>

primrec video_codec_as_u8 :: "video_codec \<Rightarrow> u8" where
  "video_codec_as_u8 H264 = 0"
| "video_codec_as_u8 Hevc = 1"

definition validate :: "stream_profile \<Rightarrow> (unit, profile_validation_error) result" where
  "validate p =
     (if (width p, height p) \<notin> set SUPPORTED_DIMENSIONS
      then Err (InvalidDimensions (width p) (height p))
      else if fps p \<notin> set SUPPORTED_FRAME_RATES then Err (InvalidFrameRate (fps p))
      else Ok ())"

text \<open>
  \<open>validate_profiles\<close> walks the list with its index; \<open>profiles[..index]\<close> is the prefix
  before the element under inspection.
\<close>

primrec validate_profiles_from ::
  "stream_profile list \<Rightarrow> nat \<Rightarrow> stream_profile list \<Rightarrow> (unit, profile_validation_error) result" where
  "validate_profiles_from profiles i [] = Ok ()"
| "validate_profiles_from profiles i (profile # rest) =
     and_then (validate profile) (\<lambda>_.
       if profile \<in> set (take i profiles) then Err (DuplicateProfile profile)
       else validate_profiles_from profiles (Suc i) rest)"

definition validate_profiles :: "stream_profile list \<Rightarrow> (unit, profile_validation_error) result" where
  "validate_profiles profiles =
     (if profiles = [] then Err EmptySupportedProfiles
      else validate_profiles_from profiles 0 profiles)"

definition frame_validate_against ::
  "video_frame \<Rightarrow> stream_profile \<Rightarrow> (unit, profile_validation_error) result" where
  "frame_validate_against f active =
     (if vf_codec f \<noteq> codec active \<or> vf_width f \<noteq> width active \<or> vf_height f \<noteq> height active
      then Err (FrameProfileMismatch (vf_codec f) (vf_width f) (vf_height f) active)
      else Ok ())"

section \<open>Payload structs\<close>

record handshake =
  version :: u8
  device_name :: ustr
  supported_profiles :: "stream_profile list"
  active_profile :: "stream_profile option"

record video_capabilities_update =
  vcu_supported_profiles :: "stream_profile list"

datatype audio_codec = Opus | Aac | Pcm16

record audio_frame =
  af_codec :: audio_codec
  sample_rate :: u32
  channels :: u8
  af_data :: "u8 list"

datatype camera_control =
    SwitchCamera bool
  | RequestKeyframe
  | ConfigureStream u32 stream_profile

datatype stream_configuration_outcome =
    Applied stream_profile
  | UnsupportedProfile
  | CaptureConfigurationFailed
  | EncoderInitializationFailed

record stream_configuration_result =
  request_id :: u32
  outcome :: stream_configuration_outcome

record status_update =
  status :: ustr

record disconnect =
  reason :: "ustr option"

definition handshake_validate :: "handshake \<Rightarrow> (unit, profile_validation_error) result" where
  "handshake_validate h =
     (if version h \<noteq> PROTOCOL_VERSION
      then Err (UnsupportedProtocolVersion (version h) PROTOCOL_VERSION)
      else and_then (validate_profiles (supported_profiles h)) (\<lambda>_.
        case active_profile h of
          None \<Rightarrow> Ok ()
        | Some active \<Rightarrow>
            if active \<notin> set (supported_profiles h) then Err (ActiveProfileUnsupported active)
            else Ok ()))"

definition capabilities_validate ::
  "video_capabilities_update \<Rightarrow> stream_profile \<Rightarrow> (unit, profile_validation_error) result" where
  "capabilities_validate u active =
     and_then (validate_profiles (vcu_supported_profiles u)) (\<lambda>_.
       if active \<notin> set (vcu_supported_profiles u) then Err (ActiveProfileUnsupported active)
       else Ok ())"

section \<open>What the checks accept\<close>

named_theorems protocol_checks \<open>when a protocol check returns \<open>Ok\<close>\<close>

definition well_formed_profile :: "stream_profile \<Rightarrow> bool" where
  "well_formed_profile p \<longleftrightarrow>
     (width p, height p) \<in> set SUPPORTED_DIMENSIONS \<and> fps p \<in> set SUPPORTED_FRAME_RATES"

definition well_formed_profiles :: "stream_profile list \<Rightarrow> bool" where
  "well_formed_profiles ps \<longleftrightarrow> ps \<noteq> [] \<and> distinct ps \<and> list_all well_formed_profile ps"

definition well_formed_handshake :: "handshake \<Rightarrow> bool" where
  "well_formed_handshake h \<longleftrightarrow>
     version h = PROTOCOL_VERSION \<and> well_formed_profiles (supported_profiles h) \<and>
     set_option (active_profile h) \<subseteq> set (supported_profiles h)"

lemma validate_Ok [protocol_checks]: "validate p = Ok u \<longleftrightarrow> well_formed_profile p"
  by (auto simp: validate_def well_formed_profile_def)

lemma validate_no_panic [simp]: "validate p \<noteq> Panic"
  by (simp add: validate_def)

lemma validate_profiles_from_Ok:
  "validate_profiles_from (pre @ ps) (length pre) ps = Ok u \<longleftrightarrow>
     list_all well_formed_profile ps \<and> distinct ps \<and> set pre \<inter> set ps = {}"
proof (induction ps arbitrary: pre)
  case Nil
  then show ?case by simp
next
  case (Cons p ps)
  from Cons.IH [of "pre @ [p]"] show ?case
    by (auto simp: result_eqs protocol_checks)
qed

lemma validate_profiles_Ok [protocol_checks]:
  "validate_profiles ps = Ok u \<longleftrightarrow> well_formed_profiles ps"
  using validate_profiles_from_Ok [of "[]" ps]
  by (auto simp: validate_profiles_def well_formed_profiles_def)

lemma validate_profiles_from_no_panic: "validate_profiles_from ps i qs \<noteq> Panic"
  by (induction qs arbitrary: i) (auto simp: result_eqs)

lemma validate_profiles_no_panic [simp]: "validate_profiles ps \<noteq> Panic"
  by (simp add: validate_profiles_def validate_profiles_from_no_panic)

lemma handshake_validate_Ok [protocol_checks]:
  "handshake_validate h = Ok u \<longleftrightarrow> well_formed_handshake h"
  by (auto simp: handshake_validate_def well_formed_handshake_def result_eqs protocol_checks
      split: option.splits)

lemma handshake_validate_no_panic [simp]: "handshake_validate h \<noteq> Panic"
  by (auto simp: handshake_validate_def result_eqs split: option.splits)

lemma capabilities_validate_Ok [protocol_checks]:
  "capabilities_validate u a = Ok v \<longleftrightarrow>
     well_formed_profiles (vcu_supported_profiles u) \<and> a \<in> set (vcu_supported_profiles u)"
  by (auto simp: capabilities_validate_def result_eqs protocol_checks)

lemma frame_validate_against_Ok [protocol_checks]:
  "frame_validate_against f p = Ok u \<longleftrightarrow>
     vf_codec f = codec p \<and> vf_width f = width p \<and> vf_height f = height p"
  by (auto simp: frame_validate_against_def)

lemma video_codec_try_from_Ok [protocol_checks]:
  "video_codec_try_from v = Ok c \<longleftrightarrow> v = video_codec_as_u8 c"
  by (cases c) (auto simp: video_codec_try_from_def)

lemma is_ok_validate [simp]: "is_ok (validate p) \<longleftrightarrow> well_formed_profile p"
  by (simp add: is_ok_iff protocol_checks)

lemma is_ok_handshake_validate [simp]: "is_ok (handshake_validate h) \<longleftrightarrow> well_formed_handshake h"
  by (simp add: is_ok_iff protocol_checks)

lemma is_ok_frame_validate [simp]:
  "is_ok (frame_validate_against f p) \<longleftrightarrow>
     vf_codec f = codec p \<and> vf_width f = width p \<and> vf_height f = height p"
  by (simp add: is_ok_iff protocol_checks)

lemma is_ok_capabilities_validate [simp]:
  "is_ok (capabilities_validate u a) \<longleftrightarrow>
     well_formed_profiles (vcu_supported_profiles u) \<and> a \<in> set (vcu_supported_profiles u)"
  by (simp add: is_ok_iff protocol_checks)

text \<open>Every profile that passes the check has even, non-zero dimensions: NV12 needs both.\<close>

lemma well_formed_profile_dimensions:
  assumes "well_formed_profile p"
  shows "0 < unat (width p)" "0 < unat (height p)" "even (unat (width p))" "even (unat (height p))"
    and "unat (width p) \<le> 3840" "unat (height p) \<le> 2160" and "0 < unat (fps p)"
  using assms
  by (auto simp: well_formed_profile_def SUPPORTED_DIMENSIONS_def SUPPORTED_FRAME_RATES_def)

lemma well_formed_profiles_member:
  "well_formed_profiles ps \<Longrightarrow> p \<in> set ps \<Longrightarrow> well_formed_profile p"
  by (auto simp: well_formed_profiles_def list_all_iff)

section \<open>Which error is reported\<close>

lemma validate_profiles_from_Err:
  "validate_profiles_from (pre @ ps) (length pre) ps = Err e \<Longrightarrow> distinct pre \<Longrightarrow>
   \<exists>good p rest. ps = good @ p # rest \<and> list_all well_formed_profile good \<and>
     distinct (pre @ good) \<and>
     (validate p = Err e \<or> well_formed_profile p \<and> p \<in> set (pre @ good) \<and> e = DuplicateProfile p)"
proof (induction ps arbitrary: pre)
  case Nil
  then show ?case by simp
next
  case (Cons p ps)
  show ?case
  proof (cases "validate p = Ok () \<and> p \<notin> set pre")
    case True
    with Cons.prems obtain good q rest where "ps = good @ q # rest" "list_all well_formed_profile good"
      "distinct ((pre @ [p]) @ good)"
      "validate q = Err e \<or> well_formed_profile q \<and> q \<in> set ((pre @ [p]) @ good) \<and> e = DuplicateProfile q"
      using Cons.IH [of "pre @ [p]"] by auto
    with True show ?thesis
      by (intro exI [of _ "p # good"] exI [of _ q] exI [of _ rest]) (auto simp: protocol_checks)
  next
    case False
    with Cons.prems show ?thesis
      by (intro exI [of _ "[]"] exI [of _ p] exI [of _ ps])
        (auto simp: result_eqs protocol_checks split: if_splits)
  qed
qed

text \<open>
  \<open>validate_profiles\<close> rejects an empty list, and rejects any other list for its first
  offending entry: the entries before it are well formed and pairwise distinct, and the
  entry either fails its own check with the reported error or repeats an earlier one.
\<close>

theorem validate_profiles_reports_first_offender:
  assumes "validate_profiles ps = Err e"
  shows "ps = [] \<and> e = EmptySupportedProfiles \<or>
    (\<exists>good p rest. ps = good @ p # rest \<and> list_all well_formed_profile good \<and> distinct good \<and>
      (validate p = Err e \<or> well_formed_profile p \<and> p \<in> set good \<and> e = DuplicateProfile p))"
  using assms validate_profiles_from_Err [of "[]" ps e]
  by (auto simp: validate_profiles_def split: if_splits)

theorem validate_profiles_reports_first_offender_witness:
  "\<exists>good p. [H264_720P30, H264_720P30] = good @ [p] \<and> distinct good \<and> p \<in> set good"
proof -
  let ?p = H264_720P30
  have "validate_profiles [?p, ?p] = Err (DuplicateProfile ?p)" by code_simp
  from validate_profiles_reports_first_offender [OF this]
  obtain good p rest where split: "[?p, ?p] = good @ p # rest" and "distinct good"
    and offends: "validate p = Err (DuplicateProfile ?p) \<or> p \<in> set good" by auto
  have "validate ?p = Ok ()" by code_simp
  with split offends have "p \<in> set good" by (auto simp: Cons_eq_append_conv)
  with split \<open>distinct good\<close> have "[?p, ?p] = good @ [p] \<and> distinct good \<and> p \<in> set good"
    by (auto simp: Cons_eq_append_conv)
  then show ?thesis by blast
qed

end
