(* ===== verification/Framing.thy ===== *)
theory Framing
  imports Protocol
begin

text \<open>
  Messages and frames (\<open>rust/phonecam-protocol/src/messages.rs\<close> and \<open>framing.rs\<close>): the
  message sum, its type byte, the payload codec, and \<open>encode_frame\<close> / \<open>decode_frame\<close>.

  The payload bytes are produced by the crate \<open>bincode\<close>, which is not part of the
  repository. It is the parameter \<open>bc\<close> of every definition that uses it: one encoder and
  one decoder for each payload struct. What the code relies on is \<open>bincode_ok\<close>: decoding
  an encoding returns the value and the number of bytes of the encoding.
\<close>

section \<open>Messages and their type byte\<close>

datatype message =
    Msg_Handshake handshake
  | Msg_VideoFrame video_frame
  | Msg_AudioFrame audio_frame
  | Msg_CameraControl camera_control
  | Msg_StatusUpdate status_update
  | Msg_Disconnect disconnect
  | Msg_StreamConfigurationResult stream_configuration_result
  | Msg_VideoCapabilitiesUpdate video_capabilities_update

datatype message_type =
    Ty_Handshake
  | Ty_VideoFrame
  | Ty_AudioFrame
  | Ty_CameraControl
  | Ty_StatusUpdate
  | Ty_Disconnect
  | Ty_StreamConfigurationResult
  | Ty_VideoCapabilitiesUpdate

primrec message_type_as_u8 :: "message_type \<Rightarrow> u8" where
  "message_type_as_u8 Ty_Handshake = 1"
| "message_type_as_u8 Ty_VideoFrame = 2"
| "message_type_as_u8 Ty_AudioFrame = 3"
| "message_type_as_u8 Ty_CameraControl = 4"
| "message_type_as_u8 Ty_StatusUpdate = 5"
| "message_type_as_u8 Ty_Disconnect = 6"
| "message_type_as_u8 Ty_StreamConfigurationResult = 7"
| "message_type_as_u8 Ty_VideoCapabilitiesUpdate = 8"

text \<open>The errors of the payload codec are opaque: the code only carries and prints them.\<close>

type_synonym codec_error = string

datatype message_codec_error =
    EncodeError codec_error
  | DecodeError codec_error
  | UnknownMessageType u8
  | TrailingBytes nat nat

definition message_type_try_from :: "u8 \<Rightarrow> (message_type, message_codec_error) result" where
  "message_type_try_from x =
     (if x = message_type_as_u8 Ty_Handshake then Ok Ty_Handshake
      else if x = message_type_as_u8 Ty_VideoFrame then Ok Ty_VideoFrame
      else if x = message_type_as_u8 Ty_AudioFrame then Ok Ty_AudioFrame
      else if x = message_type_as_u8 Ty_CameraControl then Ok Ty_CameraControl
      else if x = message_type_as_u8 Ty_StatusUpdate then Ok Ty_StatusUpdate
      else if x = message_type_as_u8 Ty_Disconnect then Ok Ty_Disconnect
      else if x = message_type_as_u8 Ty_StreamConfigurationResult
        then Ok Ty_StreamConfigurationResult
      else if x = message_type_as_u8 Ty_VideoCapabilitiesUpdate
        then Ok Ty_VideoCapabilitiesUpdate
      else Err (UnknownMessageType x))"

primrec message_type_of :: "message \<Rightarrow> message_type" where
  "message_type_of (Msg_Handshake _) = Ty_Handshake"
| "message_type_of (Msg_VideoFrame _) = Ty_VideoFrame"
| "message_type_of (Msg_AudioFrame _) = Ty_AudioFrame"
| "message_type_of (Msg_CameraControl _) = Ty_CameraControl"
| "message_type_of (Msg_StatusUpdate _) = Ty_StatusUpdate"
| "message_type_of (Msg_Disconnect _) = Ty_Disconnect"
| "message_type_of (Msg_StreamConfigurationResult _) = Ty_StreamConfigurationResult"
| "message_type_of (Msg_VideoCapabilitiesUpdate _) = Ty_VideoCapabilitiesUpdate"

section \<open>The payload codec\<close>

text \<open>
  \<open>bincode::serde::encode_to_vec\<close> and \<open>decode_from_slice\<close> at one payload type: the
  decoder returns the value and the number of bytes it read.
\<close>

record 'a serde =
  encode_to_vec :: "'a \<Rightarrow> codec_error + u8 list"
  decode_from_slice :: "u8 list \<Rightarrow> codec_error + ('a \<times> nat)"

record bincode =
  bc_handshake :: "handshake serde"
  bc_video_frame :: "video_frame serde"
  bc_audio_frame :: "audio_frame serde"
  bc_camera_control :: "camera_control serde"
  bc_status_update :: "status_update serde"
  bc_disconnect :: "disconnect serde"
  bc_stream_configuration_result :: "stream_configuration_result serde"
  bc_video_capabilities_update :: "video_capabilities_update serde"

definition serde_ok :: "'a serde \<Rightarrow> bool" where
  "serde_ok s \<longleftrightarrow>
     (\<forall>x bs. encode_to_vec s x = Inr bs \<longrightarrow> decode_from_slice s bs = Inr (x, length bs))"

definition bincode_ok :: "bincode \<Rightarrow> bool" where
  "bincode_ok bc \<longleftrightarrow>
     serde_ok (bc_handshake bc) \<and> serde_ok (bc_video_frame bc) \<and> serde_ok (bc_audio_frame bc) \<and>
     serde_ok (bc_camera_control bc) \<and> serde_ok (bc_status_update bc) \<and>
     serde_ok (bc_disconnect bc) \<and> serde_ok (bc_stream_configuration_result bc) \<and>
     serde_ok (bc_video_capabilities_update bc)"

definition encode_payload :: "'a serde \<Rightarrow> 'a \<Rightarrow> (u8 list, message_codec_error) result" where
  "encode_payload s x = map_err EncodeError (from_sum (encode_to_vec s x))"

definition decode_payload :: "'a serde \<Rightarrow> u8 list \<Rightarrow> ('a, message_codec_error) result" where
  "decode_payload s payload =
     and_then (map_err DecodeError (from_sum (decode_from_slice s payload))) (\<lambda>(decoded, bytes_read).
       if bytes_read \<noteq> length payload then Err (TrailingBytes bytes_read (length payload))
       else Ok decoded)"

definition map_ok :: "('a \<Rightarrow> 'b) \<Rightarrow> ('a, 'e) result \<Rightarrow> ('b, 'e) result" where
  "map_ok f r = and_then r (\<lambda>x. Ok (f x))"

lemma map_ok_eqs [result_eqs]:
  "map_ok f r = Ok y \<longleftrightarrow> (\<exists>x. r = Ok x \<and> y = f x)"
  "map_ok f r = Err e \<longleftrightarrow> r = Err e"
  "map_ok f r = Panic \<longleftrightarrow> r = Panic"
  by (auto simp: map_ok_def result_eqs)

primrec message_encode_payload :: "bincode \<Rightarrow> message \<Rightarrow> (u8 list, message_codec_error) result" where
  "message_encode_payload bc (Msg_Handshake m) = encode_payload (bc_handshake bc) m"
| "message_encode_payload bc (Msg_VideoFrame m) = encode_payload (bc_video_frame bc) m"
| "message_encode_payload bc (Msg_AudioFrame m) = encode_payload (bc_audio_frame bc) m"
| "message_encode_payload bc (Msg_CameraControl m) = encode_payload (bc_camera_control bc) m"
| "message_encode_payload bc (Msg_StatusUpdate m) = encode_payload (bc_status_update bc) m"
| "message_encode_payload bc (Msg_Disconnect m) = encode_payload (bc_disconnect bc) m"
| "message_encode_payload bc (Msg_StreamConfigurationResult m) =
     encode_payload (bc_stream_configuration_result bc) m"
| "message_encode_payload bc (Msg_VideoCapabilitiesUpdate m) =
     encode_payload (bc_video_capabilities_update bc) m"

primrec message_decode_payload ::
  "bincode \<Rightarrow> message_type \<Rightarrow> u8 list \<Rightarrow> (message, message_codec_error) result" where
  "message_decode_payload bc Ty_Handshake p =
     map_ok Msg_Handshake (decode_payload (bc_handshake bc) p)"
| "message_decode_payload bc Ty_VideoFrame p =
     map_ok Msg_VideoFrame (decode_payload (bc_video_frame bc) p)"
| "message_decode_payload bc Ty_AudioFrame p =
     map_ok Msg_AudioFrame (decode_payload (bc_audio_frame bc) p)"
| "message_decode_payload bc Ty_CameraControl p =
     map_ok Msg_CameraControl (decode_payload (bc_camera_control bc) p)"
| "message_decode_payload bc Ty_StatusUpdate p =
     map_ok Msg_StatusUpdate (decode_payload (bc_status_update bc) p)"
| "message_decode_payload bc Ty_Disconnect p =
     map_ok Msg_Disconnect (decode_payload (bc_disconnect bc) p)"
| "message_decode_payload bc Ty_StreamConfigurationResult p =
     map_ok Msg_StreamConfigurationResult (decode_payload (bc_stream_configuration_result bc) p)"
| "message_decode_payload bc Ty_VideoCapabilitiesUpdate p =
     map_ok Msg_VideoCapabilitiesUpdate (decode_payload (bc_video_capabilities_update bc) p)"

section \<open>Frames\<close>

definition FRAME_LENGTH_PREFIX_BYTES :: nat where
  "FRAME_LENGTH_PREFIX_BYTES = 4"

definition FRAME_TYPE_BYTES :: nat where
  "FRAME_TYPE_BYTES = 1"

definition MAX_FRAME_BYTES :: nat where
  "MAX_FRAME_BYTES = 32 * 1024 * 1024"

datatype frame_error =
    FrameTooShort
  | LengthMismatch nat nat
  | LengthOverflow nat
  | FrameTooLarge nat
  | Codec message_codec_error

definition u32_try_from_usize :: "nat \<Rightarrow> u32 option" where
  "u32_try_from_usize n = (if n < 2 ^ 32 then Some (of_nat n) else None)"

definition encode_frame :: "bincode \<Rightarrow> message \<Rightarrow> (u8 list, frame_error) result" where
  "encode_frame bc m =
     and_then
       (case m of
          Msg_VideoFrame frame \<Rightarrow>
            if MAX_FRAME_BYTES \<le> length (vf_data frame) then Err (FrameTooLarge (length (vf_data frame)))
            else Ok ()
        | _ \<Rightarrow> Ok ()) (\<lambda>_.
     and_then (map_err Codec (message_encode_payload bc m)) (\<lambda>payload.
     and_then (ok_or (LengthOverflow (length payload))
                (checked_add_usize FRAME_TYPE_BYTES (length payload))) (\<lambda>frame_length.
     if MAX_FRAME_BYTES < frame_length then Err (FrameTooLarge frame_length)
     else
       and_then (ok_or (LengthOverflow frame_length) (u32_try_from_usize frame_length))
         (\<lambda>frame_length_u32.
           Ok (to_be_bytes frame_length_u32 @ [message_type_as_u8 (message_type_of m)] @ payload)))))"

definition decode_frame :: "bincode \<Rightarrow> u8 list \<Rightarrow> (message, frame_error) result" where
  "decode_frame bc frame =
     (if length frame < FRAME_LENGTH_PREFIX_BYTES + FRAME_TYPE_BYTES then Err FrameTooShort
      else
        and_then (slice frame 0 FRAME_LENGTH_PREFIX_BYTES) (\<lambda>prefix_bytes.
        and_then (as_array 4 prefix_bytes) (\<lambda>len_bytes.
        let declared = unat (from_be_bytes len_bytes :: u32);
            actual = length frame - FRAME_LENGTH_PREFIX_BYTES
        in if MAX_FRAME_BYTES < declared then Err (FrameTooLarge declared)
           else if declared \<noteq> actual then Err (LengthMismatch declared actual)
           else
             and_then (at_index frame FRAME_LENGTH_PREFIX_BYTES) (\<lambda>ty_byte.
             and_then (map_err Codec (message_type_try_from ty_byte)) (\<lambda>ty.
             and_then (slice_from frame (FRAME_LENGTH_PREFIX_BYTES + FRAME_TYPE_BYTES)) (\<lambda>payload.
               map_err Codec (message_decode_payload bc ty payload)))))))"

section \<open>Codec lemmas\<close>

lemma message_type_round_trip [simp]: "message_type_try_from (message_type_as_u8 t) = Ok t"
  by (cases t) (simp_all add: message_type_try_from_def)

lemma message_type_try_from_Ok:
  "message_type_try_from b = Ok t \<longleftrightarrow> b = message_type_as_u8 t"
  by (cases t) (auto simp: message_type_try_from_def)

lemma message_type_try_from_no_panic [simp]: "message_type_try_from b \<noteq> Panic"
  by (simp add: message_type_try_from_def)

lemma decode_encode_payload:
  "serde_ok s \<Longrightarrow> encode_payload s x = Ok bs \<Longrightarrow> decode_payload s bs = Ok x"
  by (auto simp: serde_ok_def encode_payload_def decode_payload_def result_eqs)

lemma encode_payload_no_panic [simp]: "encode_payload s x \<noteq> Panic"
  by (simp add: encode_payload_def result_eqs)

lemma decode_payload_no_panic [simp]: "decode_payload s bs \<noteq> Panic"
  by (auto simp: decode_payload_def result_eqs)

lemma message_encode_payload_no_panic [simp]: "message_encode_payload bc m \<noteq> Panic"
  by (cases m) simp_all

lemma message_decode_payload_no_panic [simp]: "message_decode_payload bc t bs \<noteq> Panic"
  by (cases t) (simp_all add: result_eqs)

lemma message_payload_round_trip:
  assumes "bincode_ok bc" "message_encode_payload bc m = Ok bs"
  shows "message_decode_payload bc (message_type_of m) bs = Ok m"
  using assms by (cases m) (auto simp: bincode_ok_def result_eqs dest: decode_encode_payload)

lemma message_decode_payload_type:
  "message_decode_payload bc t bs = Ok m \<Longrightarrow> message_type_of m = t"
  by (cases t) (auto simp: result_eqs)

section \<open>Frame lemmas\<close>

lemmas frame_constants =
  FRAME_LENGTH_PREFIX_BYTES_def FRAME_TYPE_BYTES_def MAX_FRAME_BYTES_def USIZE_MAX_def

lemma encode_frame_Ok:
  assumes "encode_frame bc m = Ok bs"
  obtains payload where
    "message_encode_payload bc m = Ok payload"
    "Suc (length payload) \<le> MAX_FRAME_BYTES"
    "bs = to_be_bytes (of_nat (Suc (length payload)) :: u32) @
       message_type_as_u8 (message_type_of m) # payload"
  using assms
  by (auto simp: encode_frame_def u32_try_from_usize_def result_eqs FRAME_TYPE_BYTES_def
      split: if_splits)

lemma unat_frame_length:
  "n \<le> MAX_FRAME_BYTES \<Longrightarrow> unat (of_nat n :: u32) = n"
  by (simp add: unat_of_nat frame_constants)

lemma frame_prefix:
  "take 4 (to_be_bytes (w :: u32) @ bs) = to_be_bytes w"
  "drop 4 (to_be_bytes (w :: u32) @ bs) = bs"
  "(to_be_bytes (w :: u32) @ b # bs) ! 4 = b"
  "drop 5 (to_be_bytes (w :: u32) @ b # bs) = bs"
  by (simp_all add: nth_append)

lemma decode_framed:
  assumes "Suc (length payload) \<le> MAX_FRAME_BYTES"
  shows "decode_frame bc (to_be_bytes (of_nat (Suc (length payload)) :: u32) @ b # payload) =
    and_then (map_err Codec (message_type_try_from b)) (\<lambda>ty.
      map_err Codec (message_decode_payload bc ty payload))"
  using assms unat_frame_length [OF assms]
  by (simp add: decode_frame_def Let_def FRAME_LENGTH_PREFIX_BYTES_def FRAME_TYPE_BYTES_def
      frame_prefix del: of_nat_Suc)

lemma decode_frame_Ok:
  assumes "decode_frame bc bs = Ok m"
  obtains payload where
    "bs = to_be_bytes (of_nat (Suc (length payload)) :: u32) @
       message_type_as_u8 (message_type_of m) # payload"
    "Suc (length payload) \<le> MAX_FRAME_BYTES"
    "message_decode_payload bc (message_type_of m) payload = Ok m"
proof -
  let ?len = "from_be_bytes (take 4 bs) :: u32"
  from assms have long: "5 \<le> length bs"
    and len: "unat ?len = length bs - 4" "unat ?len \<le> MAX_FRAME_BYTES"
    and ty: "bs ! 4 = message_type_as_u8 (message_type_of m)"
    and payload: "message_decode_payload bc (message_type_of m) (drop 5 bs) = Ok m"
    by (auto simp: decode_frame_def Let_def result_eqs message_type_try_from_Ok
        FRAME_LENGTH_PREFIX_BYTES_def FRAME_TYPE_BYTES_def
        dest: message_decode_payload_type split: if_splits)
  have "bs = take 4 bs @ drop 4 bs" by simp
  also have "drop 4 bs = bs ! 4 # drop 5 bs"
    using long by (simp add: Cons_nth_drop_Suc [of 4 bs, symmetric])
  also have "take 4 bs = to_be_bytes ?len"
    using long by (simp add: to_from_be_bytes)
  also have "?len = of_nat (Suc (length (drop 5 bs)))"
  proof -
    have "?len = of_nat (unat ?len)" by simp
    also have "unat ?len = Suc (length (drop 5 bs))" using long len(1) by simp
    finally show ?thesis .
  qed
  finally show thesis
    using that [of "drop 5 bs"] long len ty payload by simp
qed

lemma decode_encode_frame:
  assumes "bincode_ok bc" "encode_frame bc m = Ok bs"
  shows "decode_frame bc bs = Ok m"
  using assms(2)
proof (rule encode_frame_Ok)
  fix payload
  assume "message_encode_payload bc m = Ok payload" "Suc (length payload) \<le> MAX_FRAME_BYTES"
    "bs = to_be_bytes (of_nat (Suc (length payload)) :: u32) @
       message_type_as_u8 (message_type_of m) # payload"
  with assms(1) show ?thesis
    by (simp add: decode_framed message_payload_round_trip del: of_nat_Suc)
qed

lemma decode_frame_no_panic [simp]: "decode_frame bc bs \<noteq> Panic"
  by (auto simp: decode_frame_def Let_def result_eqs FRAME_LENGTH_PREFIX_BYTES_def FRAME_TYPE_BYTES_def)

section \<open>A codec that satisfies the hypothesis\<close>

text \<open>
  A payload codec given by a finite table, with distinct byte strings: what the witnesses
  use for the crate's codec.
\<close>

fun table_lookup :: "('a \<times> u8 list) list \<Rightarrow> u8 list \<Rightarrow> codec_error + ('a \<times> nat)" where
  "table_lookup [] bs = Inl ''no entry''"
| "table_lookup ((x, b) # t) bs = (if b = bs then Inr (x, length bs) else table_lookup t bs)"

definition table_serde :: "('a \<times> u8 list) list \<Rightarrow> 'a serde" where
  "table_serde t =
     \<lparr>encode_to_vec = (\<lambda>x. case map_of t x of None \<Rightarrow> Inl ''no entry'' | Some bs \<Rightarrow> Inr bs),
      decode_from_slice = table_lookup t\<rparr>"

lemma table_lookup_mem:
  "(x, bs) \<in> set t \<Longrightarrow> distinct (map snd t) \<Longrightarrow> table_lookup t bs = Inr (x, length bs)"
  by (induction t) (auto simp: image_iff)

lemma table_serde_ok: "distinct (map snd t) \<Longrightarrow> serde_ok (table_serde t)"
  by (auto simp: serde_ok_def table_serde_def split: option.splits
      dest!: map_of_SomeD intro: table_lookup_mem)

definition table_bincode ::
  "(handshake \<times> u8 list) list \<Rightarrow> (status_update \<times> u8 list) list \<Rightarrow> bincode" where
  "table_bincode hs ss =
     \<lparr>bc_handshake = table_serde hs, bc_video_frame = table_serde [],
      bc_audio_frame = table_serde [], bc_camera_control = table_serde [],
      bc_status_update = table_serde ss, bc_disconnect = table_serde [],
      bc_stream_configuration_result = table_serde [],
      bc_video_capabilities_update = table_serde []\<rparr>"

lemma table_bincode_ok:
  "distinct (map snd hs) \<Longrightarrow> distinct (map snd ss) \<Longrightarrow> bincode_ok (table_bincode hs ss)"
  by (simp add: bincode_ok_def table_bincode_def table_serde_ok)

section \<open>Properties\<close>

text \<open>
  Every message that \<open>encode_frame\<close> accepts is returned unchanged by
  \<open>decode_frame\<close>, provided the payload codec decodes its own encodings.
\<close>

theorem frame_round_trip:
  assumes "bincode_ok bc" "encode_frame bc m = Ok bs"
  shows "decode_frame bc bs = Ok m"
  using assms by (rule decode_encode_frame)

theorem frame_round_trip_witness:
  "decode_frame (table_bincode [] [(\<lparr>status = [104, 105]\<rparr>, [2, 104, 105])])
     [0, 0, 0, 4, 5, 2, 104, 105] = Ok (Msg_StatusUpdate \<lparr>status = [104, 105]\<rparr>)"
proof (rule frame_round_trip)
  show "bincode_ok (table_bincode [] [(\<lparr>status = [104, 105]\<rparr>, [2, 104, 105])])"
    by (rule table_bincode_ok) simp_all
  show "encode_frame (table_bincode [] [(\<lparr>status = [104, 105]\<rparr>, [2, 104, 105])])
      (Msg_StatusUpdate \<lparr>status = [104, 105]\<rparr>) = Ok [0, 0, 0, 4, 5, 2, 104, 105]"
    by (simp add: encode_frame_def table_bincode_def table_serde_def encode_payload_def
        u32_try_from_usize_def frame_constants checked_add_usize_def to_be_bytes_def
        to_le_bytes_def upt_rec)
qed

text \<open>
  \<open>decode_frame\<close> never panics, whatever bytes a peer sends, and accepts exactly the
  canonical frames: a four-byte big-endian count of the bytes that follow, the type byte of
  the decoded message, and a payload the codec decodes without a byte left over.
\<close>

theorem decode_frame_accepts_canonical_frames:
  "decode_frame bc bs \<noteq> Panic \<and>
   (decode_frame bc bs = Ok m \<longleftrightarrow>
     (\<exists>payload. bs = to_be_bytes (of_nat (1 + length payload) :: u32) @
          [message_type_as_u8 (message_type_of m)] @ payload \<and>
        1 + length payload \<le> MAX_FRAME_BYTES \<and>
        message_decode_payload bc (message_type_of m) payload = Ok m))"
proof
  show "decode_frame bc bs \<noteq> Panic" by simp
  show "decode_frame bc bs = Ok m \<longleftrightarrow>
     (\<exists>payload. bs = to_be_bytes (of_nat (1 + length payload) :: u32) @
          [message_type_as_u8 (message_type_of m)] @ payload \<and>
        1 + length payload \<le> MAX_FRAME_BYTES \<and>
        message_decode_payload bc (message_type_of m) payload = Ok m)"
    by (auto elim!: decode_frame_Ok simp: decode_framed simp del: of_nat_Suc)
qed

text \<open>
  \<open>encode_frame\<close> on every branch, for a message whose payload encodes to fewer than
  \<open>usize::MAX\<close> bytes: oversized video data is refused by its own length, an oversized
  frame by the frame's, and every other message gets its canonical frame. In particular the
  overflow errors are unreachable and no frame exceeds 32 MiB plus its prefix.
\<close>

theorem encode_frame_branches:
  assumes "message_encode_payload bc m = Ok payload" "length payload < USIZE_MAX"
  shows "encode_frame bc m =
    (if \<exists>f. m = Msg_VideoFrame f \<and> MAX_FRAME_BYTES \<le> length (vf_data f)
     then Err (FrameTooLarge (case m of Msg_VideoFrame f \<Rightarrow> length (vf_data f) | _ \<Rightarrow> 0))
     else if MAX_FRAME_BYTES < 1 + length payload then Err (FrameTooLarge (1 + length payload))
     else Ok (to_be_bytes (of_nat (1 + length payload) :: u32) @
            [message_type_as_u8 (message_type_of m)] @ payload))"
  using assms
  by (cases m) (auto simp: encode_frame_def u32_try_from_usize_def checked_add_usize_def frame_constants)

theorem encode_frame_branches_witness:
  "encode_frame (table_bincode [] [(\<lparr>status = [104]\<rparr>, [1, 104])]) (Msg_StatusUpdate \<lparr>status = [104]\<rparr>) =
     Ok (to_be_bytes (3 :: u32) @ [5] @ [1, 104])"
  by (subst encode_frame_branches [where payload = "[1, 104]"])
    (simp_all add: table_bincode_def table_serde_def encode_payload_def frame_constants)

end
