(* ===== verification/Transport.thy ===== *)
theory Transport
  imports Framing
begin

text \<open>
  The TCP transport (\<open>rust/phonecam-transport/src/client.rs\<close>, \<open>server.rs\<close>, \<open>state.rs\<close>):
  reading and writing messages on a byte stream, the handshake, the reader and writer loops
  with their keepalive, and the published connection states.

  A stream is the bytes still to arrive and the error the socket reports after them. What
  the scheduler and the network decide is an argument of the loops: which timer fired,
  whether a write failed, whether the receiving side of a channel is still open.
\<close>

section \<open>Streams, errors and states\<close>

datatype connection_state = Disconnected | Connecting | Handshaking | Streaming

datatype io_error = InvalidInput | UnexpectedEof | OtherIo string

type_synonym byte_stream = "u8 list \<times> io_error"

text \<open>Durations are milliseconds.\<close>

definition KEEPALIVE_TIMEOUT :: nat where
  "KEEPALIVE_TIMEOUT = 5000"

definition HANDSHAKE_TIMEOUT :: nat where
  "HANDSHAKE_TIMEOUT = 5000"

definition KEEPALIVE_PING :: ustr where
  "KEEPALIVE_PING = lit ''__phonecam_ping__''"

datatype transport_error =
    Io io_error
  | Frame frame_error
  | KeepaliveTimeout nat
  | OversizedFrame nat
  | SenderClosed
  | InvalidHandshake profile_validation_error
  | HandshakeTimedOut nat
  | ExpectedHandshake
  | ActiveProfileNotCommon stream_profile
  | UnexpectedHandshake

text \<open>\<open>read_exact\<close>: the requested bytes, or the error behind them.\<close>

definition read_exact :: "nat \<Rightarrow> byte_stream \<Rightarrow> (u8 list \<times> byte_stream, transport_error) result" where
  "read_exact n s =
     (case s of (bs, e) \<Rightarrow> if n \<le> length bs then Ok (take n bs, (drop n bs, e)) else Err (Io e))"

section \<open>Messages on a stream\<close>

definition read_message ::
  "bincode \<Rightarrow> byte_stream \<Rightarrow> (message \<times> byte_stream, transport_error) result" where
  "read_message bc s =
     and_then (read_exact FRAME_LENGTH_PREFIX_BYTES s) (\<lambda>(len_bytes, s1).
     let payload_len = unat (from_be_bytes len_bytes :: u32) in
     if MAX_FRAME_BYTES < payload_len then Err (OversizedFrame payload_len)
     else
       and_then (read_exact payload_len s1) (\<lambda>(body, s2).
       and_then (map_err Frame (decode_frame bc (len_bytes @ body))) (\<lambda>m. Ok (m, s2))))"

text \<open>\<open>write_all\<close> either takes every byte or reports the error \<open>fault\<close>.\<close>

definition write_message ::
  "bincode \<Rightarrow> io_error option \<Rightarrow> message \<Rightarrow> (u8 list, transport_error) result" where
  "write_message bc fault m =
     and_then (map_err Frame (encode_frame bc m)) (\<lambda>encoded.
       case fault of None \<Rightarrow> Ok encoded | Some e \<Rightarrow> Err (Io e))"

section \<open>The writer loop\<close>

text \<open>
  One \<open>select!\<close>: the outbound channel yields a message, or is closed (\<open>None\<close>), or the
  keepalive timer ticks.
\<close>

datatype writer_event = Outbound "message option" | KeepaliveTick

definition ping_message :: message where
  "ping_message = Msg_StatusUpdate \<lparr>status = KEEPALIVE_PING\<rparr>"

fun writer_step ::
  "bincode \<Rightarrow> writer_event \<times> io_error option \<Rightarrow> (unit, transport_error) result + u8 list" where
  "writer_step bc (Outbound None, fault) = Inl (Ok ())"
| "writer_step bc (Outbound (Some m), fault) =
     (case write_message bc fault m of
        Ok bs \<Rightarrow> Inr bs | Err e \<Rightarrow> Inl (Err e) | Panic \<Rightarrow> Inl Panic)"
| "writer_step bc (KeepaliveTick, fault) =
     (case write_message bc fault ping_message of
        Ok bs \<Rightarrow> Inr bs | Err e \<Rightarrow> Inl (Err e) | Panic \<Rightarrow> Inl Panic)"

text \<open>
  The loop over the events the scheduler delivers: the bytes written, and the loop's result
  if it returned.
\<close>

primrec writer_loop ::
  "bincode \<Rightarrow> (writer_event \<times> io_error option) list \<Rightarrow>
   u8 list \<times> (unit, transport_error) result option" where
  "writer_loop bc [] = ([], None)"
| "writer_loop bc (ev # evs) =
     (case writer_step bc ev of
        Inl r \<Rightarrow> ([], Some r)
      | Inr bs \<Rightarrow> (let (out, r) = writer_loop bc evs in (bs @ out, r)))"

section \<open>The reader loop\<close>

record reader_tick =
  timed_out :: bool
  inbound_open :: bool

definition reader_step ::
  "bincode \<Rightarrow> reader_tick \<Rightarrow> byte_stream \<Rightarrow>
   (unit, transport_error) result + (message option \<times> byte_stream)" where
  "reader_step bc t s =
     (if timed_out t then Inl (Err (KeepaliveTimeout KEEPALIVE_TIMEOUT))
      else case read_message bc s of
          Err e \<Rightarrow> Inl (Err e)
        | Panic \<Rightarrow> Inl Panic
        | Ok (m, s') \<Rightarrow>
            (case m of
               Msg_Handshake _ \<Rightarrow> Inl (Err UnexpectedHandshake)
             | Msg_StatusUpdate u \<Rightarrow>
                 if status u = KEEPALIVE_PING then Inr (None, s')
                 else if inbound_open t then Inr (Some m, s') else Inl (Ok ())
             | _ \<Rightarrow> if inbound_open t then Inr (Some m, s') else Inl (Ok ())))"

text \<open>The messages forwarded to the application, in order, and the loop's result.\<close>

primrec reader_loop ::
  "bincode \<Rightarrow> reader_tick list \<Rightarrow> byte_stream \<Rightarrow>
   message list \<times> (unit, transport_error) result option" where
  "reader_loop bc [] s = ([], None)"
| "reader_loop bc (t # ts) s =
     (case reader_step bc t s of
        Inl r \<Rightarrow> ([], Some r)
      | Inr (d, s') \<Rightarrow>
          (let (ms, r) = reader_loop bc ts s' in (case d of None \<Rightarrow> ms | Some m \<Rightarrow> m # ms, r)))"

section \<open>The handshake\<close>

definition check_active :: "stream_profile option \<Rightarrow> stream_profile list \<Rightarrow> (unit, transport_error) result" where
  "check_active active supported_by_other =
     (case active of
        None \<Rightarrow> Ok ()
      | Some p \<Rightarrow> if p \<notin> set supported_by_other then Err (ActiveProfileNotCommon p) else Ok ())"

definition validate_common_active_profiles ::
  "handshake \<Rightarrow> handshake \<Rightarrow> (unit, transport_error) result" where
  "validate_common_active_profiles local peer =
     and_then (check_active (active_profile local) (supported_profiles peer)) (\<lambda>_.
       check_active (active_profile peer) (supported_profiles local))"

text \<open>
  What the network does during a handshake: whether the five seconds elapse first, whether
  the write fails, and the stream the peer's bytes arrive on.
\<close>

record handshake_net =
  hs_elapsed :: bool
  hs_write_fault :: "io_error option"
  hs_stream :: byte_stream

definition exchange_handshakes ::
  "bincode \<Rightarrow> handshake_net \<Rightarrow> handshake \<Rightarrow> (handshake \<times> byte_stream, transport_error) result" where
  "exchange_handshakes bc net local =
     and_then (write_message bc (hs_write_fault net) (Msg_Handshake local)) (\<lambda>_.
     and_then (read_message bc (hs_stream net)) (\<lambda>(m, s).
       case m of Msg_Handshake h \<Rightarrow> Ok (h, s) | _ \<Rightarrow> Err ExpectedHandshake))"

definition build_connection ::
  "bincode \<Rightarrow> handshake_net \<Rightarrow> handshake \<Rightarrow> (handshake \<times> byte_stream, transport_error) result" where
  "build_connection bc net local =
     and_then (map_err InvalidHandshake (handshake_validate local)) (\<lambda>_.
     and_then
       (if hs_elapsed net then Err (HandshakeTimedOut HANDSHAKE_TIMEOUT)
        else exchange_handshakes bc net local) (\<lambda>(peer, s).
     and_then (map_err InvalidHandshake (handshake_validate peer)) (\<lambda>_.
     and_then (validate_common_active_profiles local peer) (\<lambda>_. Ok (peer, s)))))"

section \<open>Client and server\<close>

text \<open>
  The operating system's side of opening a connection: the address list, the TCP connect
  or accept, and \<open>set_nodelay\<close>.
\<close>

record 'a socket_net =
  resolved :: "io_error + 'a list"
  tcp_fault :: "io_error option"
  nodelay_fault :: "io_error option"

definition io_call :: "io_error option \<Rightarrow> (unit, transport_error) result" where
  "io_call fault = (case fault of None \<Rightarrow> Ok () | Some e \<Rightarrow> Err (Io e))"

definition first_address :: "'a socket_net \<Rightarrow> ('a, transport_error) result" where
  "first_address net =
     and_then (map_err Io (from_sum (resolved net))) (\<lambda>addrs.
       ok_or (Io InvalidInput) (case addrs of [] \<Rightarrow> None | a # _ \<Rightarrow> Some a))"

text \<open>
  \<open>connect\<close> with the states its watch channel publishes, oldest first; the channel starts
  at \<open>Disconnected\<close>.
\<close>

definition connect ::
  "bincode \<Rightarrow> 'a socket_net \<Rightarrow> handshake_net \<Rightarrow> handshake \<Rightarrow>
   (handshake \<times> byte_stream, transport_error) result \<times> connection_state list" where
  "connect bc sock net local =
     (case map_err InvalidHandshake (handshake_validate local) of
        Err e \<Rightarrow> (Err e, [])
      | Panic \<Rightarrow> (Panic, [])
      | Ok _ \<Rightarrow>
          (case and_then (first_address sock) (\<lambda>_.
                  and_then (io_call (tcp_fault sock)) (\<lambda>_. io_call (nodelay_fault sock))) of
             Err e \<Rightarrow> (Err e, [Disconnected, Connecting])
           | Panic \<Rightarrow> (Panic, [Disconnected, Connecting])
           | Ok _ \<Rightarrow>
               (let r = build_connection bc net local
                in (r, [Disconnected, Connecting, Handshaking] @ (if is_ok r then [Streaming] else [])))))"

definition bind_server :: "'a socket_net \<Rightarrow> handshake \<Rightarrow> (handshake, transport_error) result" where
  "bind_server sock local =
     and_then (map_err InvalidHandshake (handshake_validate local)) (\<lambda>_.
     and_then (first_address sock) (\<lambda>_.
     and_then (io_call (tcp_fault sock)) (\<lambda>_. Ok local)))"

definition accept ::
  "bincode \<Rightarrow> 'a socket_net \<Rightarrow> handshake_net \<Rightarrow> handshake \<Rightarrow>
   (handshake \<times> byte_stream, transport_error) result \<times> connection_state list" where
  "accept bc sock net local =
     (case and_then (io_call (tcp_fault sock)) (\<lambda>_. io_call (nodelay_fault sock)) of
        Err e \<Rightarrow> (Err e, [])
      | Panic \<Rightarrow> (Panic, [])
      | Ok _ \<Rightarrow>
          (let r = build_connection bc net local
           in (r, Handshaking # (if is_ok r then [Streaming] else []))))"

text \<open>
  The lifecycle worker: when either loop returns, the other is aborted and \<open>Disconnected\<close>
  is published. \<open>evs\<close> and \<open>ticks\<close> are what each loop went through until then. The
  result is what was written, what the application received, and the published states.
\<close>

definition run_connection ::
  "bincode \<Rightarrow> (writer_event \<times> io_error option) list \<Rightarrow> reader_tick list \<Rightarrow> byte_stream \<Rightarrow>
   u8 list \<times> message list \<times> connection_state list" where
  "run_connection bc evs ticks s =
     (let (out, w) = writer_loop bc evs; (received, r) = reader_loop bc ticks s
      in (out, received, Streaming # (if w \<noteq> None \<or> r \<noteq> None then [Disconnected] else [])))"

section \<open>Sending and receiving on a framed stream\<close>

text \<open>
  The interface between the loops and the frame codec: a sender produces the bytes of one
  message, a receiver takes one message off a stream and leaves the rest. The laws are that
  a receiver undoes a sender whatever follows on the stream, and that it needs input.
\<close>

primrec send_all :: "('m \<Rightarrow> (u8 list, 'e) result) \<Rightarrow> 'm list \<Rightarrow> (u8 list, 'e) result" where
  "send_all send [] = Ok []"
| "send_all send (m # ms) =
     and_then (send m) (\<lambda>bs. and_then (send_all send ms) (\<lambda>rest. Ok (bs @ rest)))"

locale framed_channel =
  fixes send :: "'c \<Rightarrow> 'm \<Rightarrow> (u8 list, 'e) result"
    and recv :: "'c \<Rightarrow> byte_stream \<Rightarrow> ('m \<times> byte_stream, 'f) result"
    and codec_ok :: "'c \<Rightarrow> bool"
  assumes recv_send:
    "codec_ok c \<Longrightarrow> send c m = Ok bs \<Longrightarrow> recv c (bs @ rest, e) = Ok (m, (rest, e))"
    and recv_empty: "\<not> is_ok (recv c ([], e))"
begin

lemma send_nonempty: "codec_ok c \<Longrightarrow> send c m = Ok bs \<Longrightarrow> bs \<noteq> []"
  using recv_send [of c m bs "[]"] recv_empty [of c] by (auto simp: is_ok_iff)

lemma send_prefix_free:
  assumes "codec_ok c" "send c m = Ok bs" "send c m' = Ok bs'" "bs @ rest = bs' @ rest'"
  shows "m = m' \<and> rest = rest'"
  using recv_send [OF assms(1,2), of rest e] recv_send [OF assms(1,3), of rest' e] assms(4)
  by simp

lemma send_all_uniquely_decodable:
  assumes "codec_ok c" "send_all (send c) ms = Ok bs" "send_all (send c) ms' = Ok bs"
  shows "ms = ms'"
  using assms(2,3)
proof (induction ms arbitrary: ms' bs)
  case Nil
  then show ?case
    using send_nonempty [OF assms(1)] by (cases ms') (auto simp: result_eqs)
next
  case (Cons m ms)
  then obtain b r where b: "send c m = Ok b" "send_all (send c) ms = Ok r" "bs = b @ r"
    by (auto simp: result_eqs)
  then obtain m' ms2 where ms': "ms' = m' # ms2"
    using Cons.prems(2) send_nonempty [OF assms(1) b(1)] by (cases ms') auto
  with Cons.prems(2) obtain b' r' where b': "send c m' = Ok b'" "send_all (send c) ms2 = Ok r'"
    "bs = b' @ r'"
    by (auto simp: result_eqs)
  with b have "m = m' \<and> r = r'" by (auto dest: send_prefix_free [OF assms(1)])
  with b b' ms' Cons.IH show ?case by simp
qed

end

section \<open>The frame codec provides it\<close>

lemma read_message_encoded:
  assumes "bincode_ok bc" "encode_frame bc m = Ok bs"
  shows "read_message bc (bs @ rest, e) = Ok (m, (rest, e))"
  using assms(2)
proof (rule encode_frame_Ok)
  fix payload
  assume len: "Suc (length payload) \<le> MAX_FRAME_BYTES"
    and bs: "bs = to_be_bytes (of_nat (Suc (length payload)) :: u32) @
       message_type_as_u8 (message_type_of m) # payload"
  with decode_encode_frame [OF assms] unat_frame_length [OF len] show ?thesis
    by (simp add: read_message_def read_exact_def Let_def FRAME_LENGTH_PREFIX_BYTES_def del: of_nat_Suc)
qed

lemma read_message_empty: "read_message bc ([], e) = Err (Io e)"
  by (simp add: read_message_def read_exact_def FRAME_LENGTH_PREFIX_BYTES_def)

interpretation wire: framed_channel encode_frame read_message bincode_ok
  by unfold_locales (simp_all add: read_message_encoded read_message_empty)

section \<open>The loops over the channel\<close>

primrec event_message :: "writer_event \<Rightarrow> message option" where
  "event_message (Outbound m) = m"
| "event_message KeepaliveTick = Some ping_message"

lemma writer_step_sends:
  "event_message ev = Some m \<Longrightarrow> encode_frame bc m = Ok bs \<Longrightarrow> writer_step bc (ev, None) = Inr bs"
  by (cases ev) (auto simp: write_message_def)

lemma writer_loop_sends:
  assumes "map event_message evs = map Some ms" "send_all (encode_frame bc) ms = Ok bs"
  shows "writer_loop bc (map (\<lambda>ev. (ev, None)) evs) = (bs, None)"
  using assms
proof (induction evs arbitrary: ms bs)
  case Nil
  then show ?case by simp
next
  case (Cons ev evs)
  then obtain m ms' where ms: "ms = m # ms'" "event_message ev = Some m" "map event_message evs = map Some ms'"
    by (cases ms) auto
  with Cons.prems(2) obtain b bs' where "encode_frame bc m = Ok b"
    "send_all (encode_frame bc) ms' = Ok bs'" "bs = b @ bs'"
    by (auto simp: result_eqs)
  with ms Cons.IH [of ms' bs'] show ?case by (simp add: writer_step_sends)
qed

definition forwarded :: "message \<Rightarrow> message option" where
  "forwarded m = (if m = ping_message then None else Some m)"

definition is_handshake :: "message \<Rightarrow> bool" where
  "is_handshake m \<longleftrightarrow> message_type_of m = Ty_Handshake"

lemma reader_step_cases:
  "reader_step bc t s =
     (if timed_out t then Inl (Err (KeepaliveTimeout KEEPALIVE_TIMEOUT))
      else case read_message bc s of
          Err e \<Rightarrow> Inl (Err e)
        | Panic \<Rightarrow> Inl Panic
        | Ok (m, s') \<Rightarrow>
            if is_handshake m then Inl (Err UnexpectedHandshake)
            else if m = ping_message then Inr (None, s')
            else if inbound_open t then Inr (Some m, s') else Inl (Ok ()))"
  by (auto simp: reader_step_def is_handshake_def ping_message_def
      split: result.splits message.splits)

definition quiet_tick :: "reader_tick \<Rightarrow> bool" where
  "quiet_tick t \<longleftrightarrow> \<not> timed_out t \<and> inbound_open t"

lemma reader_step_message:
  assumes "bincode_ok bc" "encode_frame bc m = Ok b"
  shows "reader_step bc t (b @ rest, e) =
     (if timed_out t then Inl (Err (KeepaliveTimeout KEEPALIVE_TIMEOUT))
      else if is_handshake m then Inl (Err UnexpectedHandshake)
      else if m \<noteq> ping_message \<and> \<not> inbound_open t then Inl (Ok ())
      else Inr (forwarded m, (rest, e)))"
  using wire.recv_send [OF assms, of rest e] by (simp add: reader_step_cases forwarded_def)

lemma reader_loop_prefix:
  assumes "bincode_ok bc" "send_all (encode_frame bc) ms = Ok bs"
  shows "\<exists>n. fst (reader_loop bc ticks (bs, e)) = [m \<leftarrow> take n ms. m \<noteq> ping_message]"
  using assms(2)
proof (induction ticks arbitrary: ms bs)
  case Nil
  show ?case by (intro exI [of _ 0]) simp
next
  case (Cons t ticks)
  show ?case
  proof (cases ms)
    case Nil
    with Cons.prems show ?thesis by (simp add: reader_step_cases read_message_empty)
  next
    case (Cons m ms')
    with Cons.prems obtain b bs' where b: "encode_frame bc m = Ok b"
      "send_all (encode_frame bc) ms' = Ok bs'" "bs = b @ bs'"
      by (auto simp: result_eqs)
    from Cons.IH [OF b(2)] obtain n where
      n: "fst (reader_loop bc ticks (bs', e)) = [m \<leftarrow> take n ms'. m \<noteq> ping_message]" ..
    show ?thesis
    proof (cases "reader_step bc t (bs, e) = Inr (forwarded m, (bs', e))")
      case True
      with n Cons show ?thesis
        by (intro exI [of _ "Suc n"]) (auto simp: forwarded_def split: prod.splits)
    next
      case False
      with reader_step_message [OF assms(1) b(1)] b(3)
      have "\<exists>r. reader_step bc t (bs, e) = Inl r" by (auto split: if_splits)
      then show ?thesis by (intro exI [of _ 0]) auto
    qed
  qed
qed

lemma reader_loop_quiet:
  assumes "bincode_ok bc" "send_all (encode_frame bc) ms = Ok bs"
    and "list_all quiet_tick ticks" "length ticks \<le> length ms" "\<not> list_ex is_handshake ms"
  shows "reader_loop bc ticks (bs, e) = ([m \<leftarrow> take (length ticks) ms. m \<noteq> ping_message], None)"
  using assms(2-)
proof (induction ticks arbitrary: ms bs)
  case Nil
  then show ?case by simp
next
  case (Cons t ticks)
  then obtain m ms' where m: "ms = m # ms'" by (cases ms) auto
  with Cons.prems(1) obtain b bs' where b: "encode_frame bc m = Ok b"
    "send_all (encode_frame bc) ms' = Ok bs'" "bs = b @ bs'"
    by (auto simp: result_eqs)
  with Cons.prems(2-) m have "reader_step bc t (bs, e) = Inr (forwarded m, (bs', e))"
    by (auto simp: reader_step_message [OF assms(1)] quiet_tick_def)
  with Cons.IH [OF b(2)] Cons.prems(2-) m show ?case by (simp add: forwarded_def)
qed

lemma reader_step_safe:
  assumes "reader_step bc t s = Inr ds" "fst ds = Some m"
  shows "\<not> is_handshake m \<and> m \<noteq> ping_message"
  using assms by (auto simp: reader_step_cases split: if_splits result.splits)

lemma read_message_no_panic [simp]: "read_message bc s \<noteq> Panic"
  by (auto simp: read_message_def read_exact_def result_eqs Let_def decode_frame_no_panic
      split: prod.splits if_splits)

lemma reader_step_no_panic [simp]: "reader_step bc t s \<noteq> Inl Panic"
  by (auto simp: reader_step_cases split: result.splits)

section \<open>Handshake lemmas\<close>

definition common_active :: "handshake \<Rightarrow> handshake \<Rightarrow> bool" where
  "common_active a b \<longleftrightarrow>
     set_option (active_profile a) \<subseteq> set (supported_profiles b) \<and>
     set_option (active_profile b) \<subseteq> set (supported_profiles a)"

lemma validate_common_Ok:
  "validate_common_active_profiles a b = Ok u \<longleftrightarrow> common_active a b"
  by (auto simp: validate_common_active_profiles_def check_active_def common_active_def
      result_eqs split: option.splits)

lemma common_active_sym: "common_active a b = common_active b a"
  by (auto simp: common_active_def)

lemma build_connection_Ok:
  "build_connection bc net local = Ok (peer, s) \<longleftrightarrow>
     well_formed_handshake local \<and> \<not> hs_elapsed net \<and>
     exchange_handshakes bc net local = Ok (peer, s) \<and>
     well_formed_handshake peer \<and> common_active local peer"
  by (cases s) (auto simp: build_connection_def result_eqs protocol_checks validate_common_Ok)

lemma expect_handshake_Ok:
  "(case m of Msg_Handshake h \<Rightarrow> Ok (h, s) | _ \<Rightarrow> Err ExpectedHandshake) = Ok r \<longleftrightarrow>
     m = Msg_Handshake (fst r) \<and> s = snd r"
  by (cases m; cases r) auto

lemma exchange_handshakes_Ok:
  "exchange_handshakes bc net local = Ok (peer, s) \<longleftrightarrow>
     hs_write_fault net = None \<and> is_ok (encode_frame bc (Msg_Handshake local)) \<and>
     read_message bc (hs_stream net) = Ok (Msg_Handshake peer, s)"
  by (cases s)
    (auto simp: exchange_handshakes_def write_message_def result_eqs is_ok_iff expect_handshake_Ok
      split: option.splits)

lemma connect_cases:
  assumes "connect bc sock net local = (r, states)"
  obtains peer s where "r = Ok (peer, s)" "build_connection bc net local = Ok (peer, s)"
      "states = [Disconnected, Connecting, Handshaking, Streaming]"
  | "\<not> is_ok r" "states \<in> {[], [Disconnected, Connecting], [Disconnected, Connecting, Handshaking]}"
proof (cases "is_ok r")
  case True
  with assms that(1) show thesis
    by (auto simp: connect_def Let_def is_ok_iff split: result.splits if_splits)
next
  case False
  with assms that(2) show thesis
    by (auto simp: connect_def Let_def split: result.splits if_splits)
qed

section \<open>Properties\<close>

text \<open>Concrete peers for the witnesses: a phone that streams 720p30 and a desktop.\<close>

definition sample_phone :: handshake where
  "sample_phone =
     \<lparr>version = 2, device_name = lit ''phone'', supported_profiles = [H264_720P30],
      active_profile = Some H264_720P30\<rparr>"

definition sample_desktop :: handshake where
  "sample_desktop =
     \<lparr>version = 2, device_name = lit ''desktop'', supported_profiles = [H264_720P30],
      active_profile = None\<rparr>"

definition sample_hello :: message where
  "sample_hello = Msg_StatusUpdate \<lparr>status = lit ''hi''\<rparr>"

definition sample_bincode :: bincode where
  "sample_bincode =
     table_bincode [(sample_phone, [1]), (sample_desktop, [2])]
       [(\<lparr>status = lit ''hi''\<rparr>, [3]), (\<lparr>status = KEEPALIVE_PING\<rparr>, [4])]"

lemma sample_bincode_ok: "bincode_ok sample_bincode"
  unfolding sample_bincode_def by (rule table_bincode_ok) simp_all

lemma sample_well_formed: "well_formed_handshake sample_phone" "well_formed_handshake sample_desktop"
    "common_active sample_phone sample_desktop"
  by (simp_all add: well_formed_handshake_def sample_phone_def sample_desktop_def
      PROTOCOL_VERSION_def well_formed_profiles_def well_formed_profile_def H264_720P30_def
      SUPPORTED_DIMENSIONS_def SUPPORTED_FRAME_RATES_def common_active_def)

lemma sample_messages:
  "sample_hello \<noteq> ping_message" "\<not> is_handshake sample_hello" "\<not> is_handshake ping_message"
  by (simp_all add: is_handshake_def sample_hello_def ping_message_def KEEPALIVE_PING_def)

lemma sample_frames:
  "encode_frame sample_bincode (Msg_Handshake sample_phone) = Ok [0, 0, 0, 2, 1, 1]"
  "encode_frame sample_bincode (Msg_Handshake sample_desktop) = Ok [0, 0, 0, 2, 1, 2]"
  "encode_frame sample_bincode sample_hello = Ok [0, 0, 0, 2, 5, 3]"
  "encode_frame sample_bincode ping_message = Ok [0, 0, 0, 2, 5, 4]"
  by (simp_all add: encode_frame_def sample_bincode_def sample_phone_def sample_desktop_def
      sample_hello_def ping_message_def KEEPALIVE_PING_def table_bincode_def table_serde_def
      encode_payload_def u32_try_from_usize_def frame_constants checked_add_usize_def
      to_be_bytes_def to_le_bytes_def upt_rec)

text \<open>
  C12. What one side's writer loop puts on the wire, the other side's reader loop hands to
  the application: exactly the messages sent, in order, none lost or repeated, with only
  the keepalive pings the writer added taken out again. This holds for any interleaving of
  messages and keepalive ticks, as long as no handshake is sent after the connection is
  established and no timeout or close interrupts the reader.
\<close>

theorem transport_delivers_in_order:
  assumes "bincode_ok bc"
    and "map event_message evs = map Some ms" "send_all (encode_frame bc) ms = Ok bs"
    and "\<not> list_ex is_handshake ms" "list_all quiet_tick ticks" "length ticks = length ms"
  shows "writer_loop bc (map (\<lambda>ev. (ev, None)) evs) = (bs, None) \<and>
    reader_loop bc ticks (bs, e) = ([m \<leftarrow> ms. m \<noteq> ping_message], None)"
  using writer_loop_sends [OF assms(2,3)] reader_loop_quiet [OF assms(1,3,5)] assms(4,6) by simp

theorem transport_delivers_in_order_witness:
  "reader_loop sample_bincode (replicate 3 \<lparr>timed_out = False, inbound_open = True\<rparr>)
     ([0, 0, 0, 2, 5, 3, 0, 0, 0, 2, 5, 4, 0, 0, 0, 2, 5, 3], UnexpectedEof) =
     ([sample_hello, sample_hello], None)"
proof -
  let ?evs = "[Outbound (Some sample_hello), KeepaliveTick, Outbound (Some sample_hello)]"
  have "writer_loop sample_bincode (map (\<lambda>ev. (ev, None)) ?evs) =
      ([0, 0, 0, 2, 5, 3, 0, 0, 0, 2, 5, 4, 0, 0, 0, 2, 5, 3], None) \<and>
    reader_loop sample_bincode (replicate 3 \<lparr>timed_out = False, inbound_open = True\<rparr>)
      ([0, 0, 0, 2, 5, 3, 0, 0, 0, 2, 5, 4, 0, 0, 0, 2, 5, 3], UnexpectedEof) =
      ([m \<leftarrow> [sample_hello, ping_message, sample_hello]. m \<noteq> ping_message], None)"
    by (rule transport_delivers_in_order [OF sample_bincode_ok])
      (simp_all add: sample_frames sample_messages quiet_tick_def numeral_3_eq_3)
  then show ?thesis by (simp add: sample_messages)
qed

text \<open>
  Under every schedule of timeouts and channel closes, and even if a handshake is
  replayed, the application receives a prefix of what the peer sent, pings removed: nothing
  is reordered, duplicated, invented, or delivered after a gap.
\<close>

theorem reader_delivers_a_prefix:
  assumes "bincode_ok bc" "send_all (encode_frame bc) ms = Ok bs"
  shows "\<exists>n. fst (reader_loop bc ticks (bs, e)) = [m \<leftarrow> take n ms. m \<noteq> ping_message]"
  using assms by (rule reader_loop_prefix)

theorem reader_delivers_a_prefix_witness:
  "\<exists>n. fst (reader_loop sample_bincode
      [\<lparr>timed_out = False, inbound_open = True\<rparr>, \<lparr>timed_out = True, inbound_open = True\<rparr>]
      ([0, 0, 0, 2, 5, 3, 0, 0, 0, 2, 5, 3], UnexpectedEof)) =
    [m \<leftarrow> take n [sample_hello, sample_hello]. m \<noteq> ping_message]"
  by (rule reader_delivers_a_prefix [OF sample_bincode_ok]) (simp add: sample_frames)

text \<open>
  C28. Whatever bytes a peer sends, the reader loop never panics, never forwards a handshake
  after the connection is established, and never lets a keepalive ping through.
\<close>

theorem reader_is_safe_on_arbitrary_bytes:
  "list_all (\<lambda>m. \<not> is_handshake m \<and> m \<noteq> ping_message) (fst (reader_loop bc ticks s)) \<and>
   snd (reader_loop bc ticks s) \<noteq> Some Panic"
proof (induction ticks arbitrary: s)
  case Nil
  then show ?case by simp
next
  case (Cons t ticks)
  show ?case
  proof (cases "reader_step bc t s")
    case (Inl r)
    then show ?thesis using reader_step_no_panic [of bc t s] by auto
  next
    case (Inr ds)
    with Cons.IH [of "snd ds"] show ?thesis
      by (cases "fst ds")
        (auto simp: split_beta dest: reader_step_safe)
  qed
qed

text \<open>
  The frames of a connection are uniquely decodable: two message sequences with the
  same bytes on the wire are the same sequence.
\<close>

theorem frames_uniquely_decodable:
  assumes "bincode_ok bc"
    and "send_all (encode_frame bc) ms = Ok bs" "send_all (encode_frame bc) ms' = Ok bs"
  shows "ms = ms'"
  using assms by (rule wire.send_all_uniquely_decodable)

theorem frames_uniquely_decodable_witness:
  "[sample_hello, ping_message] = [sample_hello, ping_message]"
  by (rule frames_uniquely_decodable [OF sample_bincode_ok,
        where bs = "[0, 0, 0, 2, 5, 3, 0, 0, 0, 2, 5, 4]"])
    (simp_all add: sample_frames)

definition quiet_net :: "u8 list \<Rightarrow> io_error \<Rightarrow> handshake_net" where
  "quiet_net bs e = \<lparr>hs_elapsed = False, hs_write_fault = None, hs_stream = (bs, e)\<rparr>"

text \<open>
  C20. The two ends of a connection agree: when each reads the other's handshake, each
  accepts exactly when both handshakes are well formed and each side's active profile is
  supported by the other, and then each has learned the other's handshake and left the rest
  of the stream unread. So no side believes in a connection the other refused.
\<close>

theorem handshake_agreement:
  assumes "bincode_ok bc"
    and "encode_frame bc (Msg_Handshake a) = Ok wire_a" "encode_frame bc (Msg_Handshake b) = Ok wire_b"
  shows "(build_connection bc (quiet_net (wire_b @ rest) e) a = Ok (b, (rest, e)) \<longleftrightarrow>
           well_formed_handshake a \<and> well_formed_handshake b \<and> common_active a b) \<and>
         is_ok (build_connection bc (quiet_net (wire_b @ rest) e) a) = is_ok (build_connection bc (quiet_net (wire_a @ rest) e) b)"
proof -
  have read: "read_message bc (wire_b @ rest, e) = Ok (Msg_Handshake b, (rest, e))"
    "read_message bc (wire_a @ rest, e) = Ok (Msg_Handshake a, (rest, e))"
    using assms(1-3) by (simp_all add: wire.recv_send)
  with assms(2,3) have "build_connection bc (quiet_net (wire_b @ rest) e) a = Ok (h, s) \<longleftrightarrow>
      h = b \<and> s = (rest, e) \<and> well_formed_handshake a \<and> well_formed_handshake b \<and> common_active a b"
    "build_connection bc (quiet_net (wire_a @ rest) e) b = Ok (h, s) \<longleftrightarrow>
      h = a \<and> s = (rest, e) \<and> well_formed_handshake a \<and> well_formed_handshake b \<and> common_active a b"
    for h s
    by (auto simp: build_connection_Ok exchange_handshakes_Ok quiet_net_def common_active_sym)
  then show ?thesis by (auto simp: is_ok_iff)
qed

theorem handshake_agreement_witness:
  "build_connection sample_bincode
     (quiet_net ([0, 0, 0, 2, 1, 2] @ []) UnexpectedEof) sample_phone = Ok (sample_desktop, ([], UnexpectedEof))"
  using handshake_agreement [OF sample_bincode_ok sample_frames(1,2), of "[]" UnexpectedEof]
  by (simp add: sample_well_formed)

text \<open>
  \<open>connect\<close> publishes \<open>Streaming\<close> exactly when it returns a connection, after
  \<open>Disconnected\<close>, \<open>Connecting\<close> and \<open>Handshaking\<close> in that order; and a returned connection
  has passed every check: both handshakes well formed, the version the protocol's, and the
  active profiles common.
\<close>

theorem connect_publishes_states_in_order:
  "(case connect bc sock net local of
     (Ok (peer, _), states) \<Rightarrow>
       states = [Disconnected, Connecting, Handshaking, Streaming] \<and>
       well_formed_handshake local \<and> well_formed_handshake peer \<and> common_active local peer
   | (_, states) \<Rightarrow>
       states \<in> {[], [Disconnected, Connecting], [Disconnected, Connecting, Handshaking]})"
proof (cases "connect bc sock net local")
  case (Pair r states)
  then show ?thesis
    by (cases rule: connect_cases) (auto simp: Pair build_connection_Ok split: result.splits)
qed

end
