(* ===== verification/AnnexB.thy ===== *)
theory AnnexB
  imports Protocol
begin

text \<open>
  The H.264 byte-stream checks and the timing checks of
  \<open>rust/phonecam-desktop/src-tauri/src/decode.rs\<close>: \<open>normalize_h264_annex_b\<close>,
  \<open>validate_h264_annex_b\<close>, \<open>profile_meets_timing\<close> and \<open>measure_decode_times\<close>.

  The scan for start codes is the source's cursor loop; the lemmas show that it stays in
  bounds, ends, and decides a property of the byte string that mentions no cursor. The
  percentile test is shown to count the timings it means to count.
\<close>

section \<open>The start code scan\<close>

text \<open>\<open>data[header] & 0x80 != 0 || !(1..=23).contains(&(data[header] & 0x1f))\<close>, negated.\<close>

definition valid_nal_header :: "u8 \<Rightarrow> bool" where
  "valid_nal_header b \<longleftrightarrow> b AND 0x80 = 0 \<and> 1 \<le> b AND 0x1f \<and> b AND 0x1f \<le> 23"

definition start_code_len :: "u8 list \<Rightarrow> nat option" where
  "start_code_len rest =
     (if starts_with [0, 0, 0, 1] rest then Some 4
      else if starts_with [0, 0, 1] rest then Some 3
      else None)"

function validate_scan :: "u8 list \<Rightarrow> nat \<Rightarrow> bool \<Rightarrow> (bool, unit) result" where
  "validate_scan data cursor found =
     (if cursor + 3 \<le> length data then
        and_then (slice_from data cursor) (\<lambda>rest.
          case start_code_len rest of
            None \<Rightarrow> validate_scan data (cursor + 1) found
          | Some n \<Rightarrow>
              let header = cursor + n in
              if length data \<le> header then Ok False
              else and_then (at_index data header) (\<lambda>b.
                if \<not> valid_nal_header b then Ok False
                else validate_scan data (header + 1) True))
      else Ok found)"
  by pat_completeness auto
termination by (relation "measure (\<lambda>(data, cursor, found). length data - cursor)") auto

declare validate_scan.simps [simp del]

definition validate_h264_annex_b :: "u8 list \<Rightarrow> (bool, unit) result" where
  "validate_h264_annex_b data = validate_scan data 0 False"

definition normalize_h264_annex_b :: "u8 list \<Rightarrow> (u8 list option, unit) result" where
  "normalize_h264_annex_b data =
     (if data = [] then Ok None
      else if starts_with [0, 0, 1] data \<or> starts_with [0, 0, 0, 1] data then
        and_then (validate_h264_annex_b data) (\<lambda>ok. Ok (if ok then Some data else None))
      else and_then (at_index data 0) (\<lambda>b.
        if valid_nal_header b then Ok (Some ([0, 0, 0, 1] @ data)) else Ok None))"

section \<open>What the scan decides\<close>

text \<open>
  A three-byte start code begins at \<open>i\<close>; a four-byte one at \<open>i\<close> is a three-byte one at
  \<open>i + 1\<close>.
\<close>

definition start_code_at :: "u8 list \<Rightarrow> nat \<Rightarrow> bool" where
  "start_code_at data i \<longleftrightarrow> starts_with [0, 0, 1] (drop i data)"

definition opens_nal_at :: "u8 list \<Rightarrow> nat \<Rightarrow> bool" where
  "opens_nal_at data i \<longleftrightarrow> i + 3 < length data \<and> valid_nal_header (data ! (i + 3))"

definition nals_from :: "u8 list \<Rightarrow> nat \<Rightarrow> bool" where
  "nals_from data c \<longleftrightarrow> (\<forall>i. c \<le> i \<longrightarrow> start_code_at data i \<longrightarrow> opens_nal_at data i)"

definition well_formed_annex_b :: "u8 list \<Rightarrow> bool" where
  "well_formed_annex_b data \<longleftrightarrow> (\<exists>i. start_code_at data i) \<and> nals_from data 0"

lemma start_code_at_iff:
  "start_code_at data i \<longleftrightarrow>
     i + 2 < length data \<and> data ! i = 0 \<and> data ! (i + 1) = 0 \<and> data ! (i + 2) = 1"
  by (auto simp: start_code_at_def)

lemma valid_nal_header_nonzero: "valid_nal_header b \<Longrightarrow> b \<noteq> 0"
  by (auto simp: valid_nal_header_def)

lemma nals_from_Suc:
  "nals_from data c \<longleftrightarrow> (start_code_at data c \<longrightarrow> opens_nal_at data c) \<and> nals_from data (Suc c)"
  unfolding nals_from_def by (metis Suc_leD not_less_eq_eq order_antisym_conv order_refl)

lemma nals_from_end: "length data < c + 3 \<Longrightarrow> nals_from data c"
  by (auto simp: nals_from_def start_code_at_iff)

text \<open>A start code and its header hide no second start code: the scan may jump over them.\<close>

lemma nals_from_skip:
  assumes "start_code_at data i" "opens_nal_at data i"
  shows "nals_from data i \<longleftrightarrow> nals_from data (i + 4)"
proof -
  have bytes: "data ! (i + 2) = 1" "data ! (i + 3) \<noteq> 0"
    using assms valid_nal_header_nonzero by (auto simp: start_code_at_iff opens_nal_at_def)
  have "\<not> start_code_at data (Suc i)" "\<not> start_code_at data (Suc (Suc i))"
    "\<not> start_code_at data (Suc (Suc (Suc i)))"
    using bytes by (auto simp: start_code_at_iff eval_nat_numeral)
  with assms show ?thesis
    by (simp add: nals_from_Suc [of _ i] nals_from_Suc [of _ "Suc i"]
      nals_from_Suc [of _ "Suc (Suc i)"] nals_from_Suc [of _ "Suc (Suc (Suc i))"] eval_nat_numeral)
qed

text \<open>The cursor where no start code begins, and at one.\<close>

lemma no_start_code:
  assumes "start_code_len (drop c data) = None" "c + 3 \<le> length data"
  shows "(\<exists>i \<ge> c. start_code_at data i) \<longleftrightarrow> (\<exists>i \<ge> c + 1. start_code_at data i)"
    and "nals_from data c \<longleftrightarrow> nals_from data (c + 1)"
proof -
  have no: "\<not> start_code_at data c"
    using assms by (auto simp: start_code_len_def start_code_at_def split: if_splits)
  then show "(\<exists>i \<ge> c. start_code_at data i) \<longleftrightarrow> (\<exists>i \<ge> c + 1. start_code_at data i)"
    by (metis Suc_eq_plus1 Suc_leD not_less_eq_eq order_antisym)
  show "nals_from data c \<longleftrightarrow> nals_from data (c + 1)" using no by (simp add: nals_from_Suc [of _ c])
qed

lemma start_code_position:
  assumes "start_code_len (drop c data) = Some n"
  obtains i where "start_code_at data i" "c \<le> i" "c + n = i + 3" "nals_from data c \<longleftrightarrow> nals_from data i"
  by (rule that [of "c + n - 3"]) (use assms in \<open>auto simp: start_code_len_def nals_from_Suc [of _ c] start_code_at_iff split: if_splits\<close>)

lemma validate_scan_decides:
  "validate_scan data c found = Ok ((found \<or> (\<exists>i \<ge> c. start_code_at data i)) \<and> nals_from data c)"
proof (induction data c found rule: validate_scan.induct)
  case (1 data c found)
  show ?case
  proof (cases "c + 3 \<le> length data")
    case False
    then have "nals_from data c" "\<And>i. c \<le> i \<Longrightarrow> \<not> start_code_at data i"
      by (auto simp: nals_from_end start_code_at_iff)
    with False show ?thesis by (auto simp: validate_scan.simps [of data c])
  next
    case True
    then have slice: "slice_from data c = Ok (drop c data)" by simp
    show ?thesis
    proof (cases "start_code_len (drop c data)")
      case None
      with True no_start_code [OF None True] 1(1) [OF True slice None] show ?thesis
        by (simp add: validate_scan.simps [of data c] slice)
    next
      case (Some n)
      from start_code_position [OF Some] obtain i where i: "start_code_at data i" "c \<le> i" "c + n = i + 3"
        and up: "nals_from data c \<longleftrightarrow> nals_from data i" .
      show ?thesis
      proof (cases "opens_nal_at data i")
        case False
        then have "\<not> nals_from data i" using i by (auto simp: nals_from_def)
        with False True slice Some i up show ?thesis
          by (auto simp: validate_scan.simps [of data c] opens_nal_at_def Let_def)
      next
        case ok: True
        then have len: "\<not> length data \<le> c + n" and hdr: "valid_nal_header (data ! (c + n))"
          using i by (auto simp: opens_nal_at_def)
        from len have at: "at_index data (c + n) = Ok (data ! (c + n))" by simp
        have "validate_scan data c found = validate_scan data (c + n + 1) True"
          using True slice Some len hdr by (simp add: validate_scan.simps [of data c] Let_def)
        also have "\<dots> = Ok (nals_from data (i + 4))"
          using 1(2) [OF True slice Some refl len at] hdr i by (simp add: add.commute)
        finally show ?thesis using i up nals_from_skip [OF i(1) ok] by auto
      qed
    qed
  qed
qed


text \<open>
  C30. The cursor loop of \<open>validate_h264_annex_b\<close> ends without leaving the buffer, and accepts
  exactly the byte strings that hold a start code and in which every start code, wherever
  it stands, is followed by a valid NAL header.
\<close>

theorem validate_h264_annex_b_decides:
  "validate_h264_annex_b data = Ok (well_formed_annex_b data)"
  by (simp add: validate_h264_annex_b_def validate_scan_decides well_formed_annex_b_def)

lemma validate_decides: "validate_h264_annex_b data = Ok (well_formed_annex_b data)"
  by (simp add: validate_h264_annex_b_def validate_scan_decides well_formed_annex_b_def)

definition has_start_code_prefix :: "u8 list \<Rightarrow> bool" where
  "has_start_code_prefix data \<longleftrightarrow> starts_with [0, 0, 1] data \<or> starts_with [0, 0, 0, 1] data"

text \<open>
  \<open>normalize_h264_annex_b\<close> never panics, and what it hands to the decoder always begins with a
  start code followed by a valid NAL header: a byte stream passes unchanged exactly when it
  is well formed, a raw NAL unit gets a start code in front, and anything else is refused.
\<close>

theorem normalize_h264_annex_b_branches:
  "normalize_h264_annex_b data = Ok
     (if has_start_code_prefix data
      then (if well_formed_annex_b data then Some data else None)
      else if data \<noteq> [] \<and> valid_nal_header (hd data) then Some ([0, 0, 0, 1] @ data)
      else None)"
proof (cases data)
  case Nil
  then show ?thesis by (simp add: normalize_h264_annex_b_def has_start_code_prefix_def starts_with_def)
next
  case (Cons b bs)
  then show ?thesis
    by (auto simp: normalize_h264_annex_b_def has_start_code_prefix_def validate_decides)
qed

text \<open>
  The raw branch looks at the first byte alone. Start codes inside the unit are not checked:
  a unit that holds a dangling start code is accepted, while the normalised form of the very
  same bytes would be refused.
\<close>

lemma raw_branch_is_not_validated:
  "normalize_h264_annex_b [0x65, 0, 0, 1] = Ok (Some [0, 0, 0, 1, 0x65, 0, 0, 1])"
  "normalize_h264_annex_b [0, 0, 0, 1, 0x65, 0, 0, 1] = Ok None"
  by code_simp+

section \<open>Timing\<close>

text \<open>
  Durations are whole nanoseconds. \<open>budget fps\<close> stands for
  \<open>Duration::from_secs_f64(1.0 / f64::from(fps)).mul_f64(0.8)\<close>, floating-point arithmetic of the
  standard library.
\<close>

definition p95_index :: "nat \<Rightarrow> nat" where
  "p95_index n = (n * 95 + 99) div 100 - 1"

definition profile_meets_timing ::
  "(u8 \<Rightarrow> nat) \<Rightarrow> stream_profile \<Rightarrow> nat list \<Rightarrow> (bool, unit) result" where
  "profile_meets_timing budget p timings =
     (if timings = [] \<or> fps p = 0 then Ok False
      else
        let ordered = sort timings in
        and_then (at_index ordered (p95_index (length ordered))) (\<lambda>t. Ok (t \<le> budget (fps p))))"

text \<open>
  \<open>measure_decode_times\<close> with the closure's state explicit: \<open>decode s i\<close> also says how long the
  call took.
\<close>

definition measure_decode_times ::
  "('s \<Rightarrow> nat \<Rightarrow> (nat \<times> 's, 'e) result) \<Rightarrow> 's \<Rightarrow> (nat list \<times> 's, 'e) result" where
  "measure_decode_times decode s0 =
     for_each (\<lambda>(timings, s) i.
         and_then (decode s i) (\<lambda>(elapsed, s').
           Ok (if 5 \<le> i then timings @ [elapsed] else timings, s')))
       [0..<60] ([], s0)"

text \<open>In a sorted list, the element of rank \<open>k\<close> is within a bound iff more than \<open>k\<close> elements are.\<close>

lemma sorted_rank:
  assumes "sorted xs" "k < length xs"
  shows "xs ! k \<le> b \<longleftrightarrow> k < length (filter (\<lambda>x. x \<le> b) xs)"
proof -
  have split: "filter (\<lambda>x. x \<le> b) xs = takeWhile (\<lambda>x. x \<le> b) xs"
    using assms(1)
  proof (induction xs)
    case (Cons a xs)
    show ?case
    proof (cases "a \<le> b")
      case True
      with Cons show ?thesis by simp
    next
      case False
      with Cons.prems have "filter (\<lambda>x. x \<le> b) (a # xs) = []" by (auto simp: filter_empty_conv)
      with False show ?thesis by simp
    qed
  qed simp
  show ?thesis
  proof
    assume "k < length (filter (\<lambda>x. x \<le> b) xs)"
    then have "k < length (takeWhile (\<lambda>x. x \<le> b) xs)" by (simp add: split)
    then show "xs ! k \<le> b" by (metis nth_mem set_takeWhileD takeWhile_nth)
  next
    assume "xs ! k \<le> b"
    then have "\<And>i. i < Suc k \<Longrightarrow> xs ! i \<le> b"
      using assms by (meson less_Suc_eq_le order_trans sorted_nth_mono)
    then have "Suc k \<le> length (takeWhile (\<lambda>x. x \<le> b) xs)"
      using assms(2) by (intro length_takeWhile_less_P_nth) auto
    then show "k < length (filter (\<lambda>x. x \<le> b) xs)" by (simp add: split)
  qed
qed

lemma length_filter_sort: "length (filter P (sort xs)) = length (filter P xs)"
  by (simp add: filter_sort)

lemma p95_index_less: "p95_index n < m \<longleftrightarrow> 95 * n \<le> 100 * m" if "0 < n"
proof -
  have "100 div 100 \<le> (n * 95 + 99) div 100" using that by (intro div_le_mono) simp
  then have "p95_index n < m \<longleftrightarrow> (n * 95 + 99) div 100 < Suc m" by (auto simp: p95_index_def)
  also have "\<dots> \<longleftrightarrow> n * 95 + 99 < Suc m * 100" by (rule div_less_iff_less_mult) simp
  also have "\<dots> \<longleftrightarrow> 95 * n \<le> 100 * m" by auto
  finally show ?thesis .
qed

text \<open>
  The timing qualification indexes its sorted samples in range, and passes a profile exactly when
  there are samples, the frame rate is not zero, and at least 95 percent of the samples lie
  within the budget of that frame rate.
\<close>

theorem profile_meets_timing_counts:
  "profile_meets_timing budget p timings = Ok
     (timings \<noteq> [] \<and> fps p \<noteq> 0 \<and>
      95 * length timings \<le> 100 * length (filter (\<lambda>t. t \<le> budget (fps p)) timings))"
proof (cases "timings = []")
  case False
  then have n: "0 < length timings" by simp
  then have "p95_index (length timings) < length (sort timings)"
    using p95_index_less [OF n, of "length timings"] by simp
  with False sorted_rank [of "sort timings" "p95_index (length timings)"] show ?thesis
    by (simp add: profile_meets_timing_def length_filter_sort p95_index_less [OF n])
qed (simp add: profile_meets_timing_def)

end
