(* ===== verification/Planes.thy ===== *)
theory Planes
  imports Rust_Prelude
begin

text \<open>
  Decoded pictures and their layouts: the planar-to-NV12 copy of
  \<open>rust/phonecam-desktop/src-tauri/src/decode.rs\<close>, the NV12-to-YUYV converter of
  \<open>convert.rs\<close> and the tight NV12 packing of \<open>output.rs\<close>.

  Every slice and index of the sources goes through the checked operations of the prelude,
  so an out-of-range access would be a \<open>Panic\<close>. The lemmas show there is none, give the
  output of each routine in closed form, and read it back pixel by pixel.
\<close>

section \<open>Frames\<close>

record nv12_frame =
  nv_width :: u32
  nv_height :: u32
  nv_pts_us :: u64
  y_stride :: nat
  uv_stride :: nat
  y_plane :: "u8 list"
  uv_plane :: "u8 list"

record yuyv_frame =
  yuyv_width :: u32
  yuyv_height :: u32
  yuyv_data :: "u8 list"

datatype plane_failure =
    WidthOverflow
  | HeightOverflow
  | InvalidPictureDimensions u32 u32
  | StrideSmallerThanWidth
  | PlaneSizeOverflow
  | PlaneShorterThanLayout
  | OutputSizeOverflow
  | ChromaSizeOverflow

definition usize_try_from_u32 :: "u32 \<Rightarrow> nat option" where
  "usize_try_from_u32 w = (if unat w \<le> USIZE_MAX then Some (unat w) else None)"

section \<open>From planar pictures to NV12\<close>

definition copy_plane_rows :: "u8 list \<Rightarrow> nat \<Rightarrow> nat \<Rightarrow> nat \<Rightarrow> (u8 list, plane_failure) result" where
  "copy_plane_rows source source_stride row_width row_count =
     (if source_stride < row_width then Err StrideSmallerThanWidth
      else and_then (ok_or PlaneSizeOverflow (checked_mul_usize source_stride row_count)) (\<lambda>required.
      if length source < required then Err PlaneShorterThanLayout
      else and_then (ok_or OutputSizeOverflow (checked_mul_usize row_width row_count)) (\<lambda>_.
        for_each (\<lambda>out row.
            let start = row * source_stride
            in and_then (slice source start (start + row_width)) (\<lambda>r. Ok (out @ r)))
          [0..<row_count] [])))"

definition interleave :: "'a list \<Rightarrow> 'a list \<Rightarrow> 'a list" where
  "interleave us vs = concat (map (\<lambda>(u, v). [u, v]) (zip us vs))"

definition planar_to_nv12 ::
  "u32 \<Rightarrow> u32 \<Rightarrow> u64 \<Rightarrow> u8 list \<Rightarrow> nat \<Rightarrow> u8 list \<Rightarrow> nat \<Rightarrow> u8 list \<Rightarrow> nat \<Rightarrow>
   (nv12_frame, plane_failure) result" where
  "planar_to_nv12 w h pts y ystride u ustride v vstride =
     and_then (ok_or WidthOverflow (usize_try_from_u32 w)) (\<lambda>width_usize.
     and_then (ok_or HeightOverflow (usize_try_from_u32 h)) (\<lambda>height_usize.
     if w = 0 \<or> h = 0 \<or> w mod 2 \<noteq> 0 \<or> h mod 2 \<noteq> 0 then Err (InvalidPictureDimensions w h)
     else
       and_then (copy_plane_rows y ystride width_usize height_usize) (\<lambda>yp.
       let chroma_width = width_usize div 2; chroma_height = height_usize div 2 in
       and_then (copy_plane_rows u ustride chroma_width chroma_height) (\<lambda>up.
       and_then (copy_plane_rows v vstride chroma_width chroma_height) (\<lambda>vp.
       and_then (ok_or ChromaSizeOverflow (checked_mul_usize width_usize chroma_height)) (\<lambda>_.
         Ok \<lparr>nv_width = w, nv_height = h, nv_pts_us = pts, y_stride = width_usize,
             uv_stride = width_usize, y_plane = yp, uv_plane = interleave up vp\<rparr>))))))"

section \<open>From NV12 to YUYV\<close>

datatype convert_error = Cv_InvalidDimensions | Cv_InvalidPlaneLayout

record converter =
  cv_width :: u32
  cv_height :: u32

definition converter_new :: "u32 \<Rightarrow> u32 \<Rightarrow> (converter, convert_error) result" where
  "converter_new w h =
     (if w = 0 \<or> h = 0 \<or> w mod 2 \<noteq> 0 \<or> h mod 2 \<noteq> 0 then Err Cv_InvalidDimensions
      else Ok \<lparr>cv_width = w, cv_height = h\<rparr>)"

text \<open>\<open>(0..n).step_by(2)\<close>.\<close>

definition step_by_2 :: "nat \<Rightarrow> nat list" where
  "step_by_2 n = map (\<lambda>k. 2 * k) [0..<(n + 1) div 2]"

text \<open>The two nested loops of \<open>convert\<close>: one row of macropixels, and all rows.\<close>

definition convert_row ::
  "nv12_frame \<Rightarrow> nat \<Rightarrow> u8 list \<Rightarrow> nat \<Rightarrow> (u8 list, convert_error) result" where
  "convert_row f width row_data row =
     (let y_row_start = row * y_stride f; uv_row_start = (row div 2) * uv_stride f
      in for_each (\<lambda>data column.
           and_then (at_index (y_plane f) (y_row_start + column)) (\<lambda>y0.
           and_then (at_index (uv_plane f) (uv_row_start + column)) (\<lambda>u.
           and_then (at_index (y_plane f) (y_row_start + column + 1)) (\<lambda>y1.
           and_then (at_index (uv_plane f) (uv_row_start + column + 1)) (\<lambda>v.
             Ok (data @ [y0, u, y1, v]))))))
         (step_by_2 width) row_data)"

definition convert :: "converter \<Rightarrow> nv12_frame \<Rightarrow> (yuyv_frame, convert_error) result" where
  "convert c f =
     (if nv_width f \<noteq> cv_width c \<or> nv_height f \<noteq> cv_height c \<or>
         y_stride f < unat (cv_width c) \<or> uv_stride f < unat (cv_width c)
      then Err Cv_InvalidDimensions
      else
        let height = unat (cv_height c); width = unat (cv_width c) in
        and_then (ok_or Cv_InvalidPlaneLayout (checked_mul_usize (y_stride f) height)) (\<lambda>required_y.
        and_then (ok_or Cv_InvalidPlaneLayout (checked_mul_usize (uv_stride f) (height div 2))) (\<lambda>required_uv.
        if length (y_plane f) < required_y \<or> length (uv_plane f) < required_uv
        then Err Cv_InvalidPlaneLayout
        else
          and_then (ok_or Cv_InvalidDimensions
              (case checked_mul_usize width height of
                 None \<Rightarrow> None | Some pixels \<Rightarrow> checked_mul_usize pixels 2)) (\<lambda>_.
          and_then (for_each (convert_row f width) [0..<height] []) (\<lambda>data.
            Ok \<lparr>yuyv_width = cv_width c, yuyv_height = cv_height c, yuyv_data = data\<rparr>)))))"

section \<open>Packing NV12 without padding\<close>

datatype pack_error = InvalidNv12Layout | YPlaneSizeOverflow | UvPlaneSizeOverflow
  | PlanesShorterThanLayout | PackedSizeOverflow

definition packed_nv12 :: "nv12_frame \<Rightarrow> (u8 list, pack_error) result" where
  "packed_nv12 f =
     (let width = unat (nv_width f); height = unat (nv_height f) in
      if width = 0 \<or> height = 0 \<or> width mod 2 \<noteq> 0 \<or> height mod 2 \<noteq> 0 \<or>
         y_stride f < width \<or> uv_stride f < width
      then Err InvalidNv12Layout
      else
        and_then (ok_or YPlaneSizeOverflow (checked_mul_usize (y_stride f) height)) (\<lambda>required_y.
        and_then (ok_or UvPlaneSizeOverflow (checked_mul_usize (uv_stride f) (height div 2))) (\<lambda>required_uv.
        if length (y_plane f) < required_y \<or> length (uv_plane f) < required_uv
        then Err PlanesShorterThanLayout
        else
          and_then (ok_or PackedSizeOverflow
              (case checked_mul_usize width height of
                 None \<Rightarrow> None | Some pixels \<Rightarrow> checked_add_usize pixels (pixels div 2))) (\<lambda>_.
          and_then
            (for_each (\<lambda>data row.
               let start = row * y_stride f
               in and_then (slice (y_plane f) start (start + width)) (\<lambda>r. Ok (data @ r)))
              [0..<height] []) (\<lambda>luma.
            for_each (\<lambda>data row.
               let start = row * uv_stride f
               in and_then (slice (uv_plane f) start (start + width)) (\<lambda>r. Ok (data @ r)))
              [0..<height div 2] luma)))))"

section \<open>Closed forms\<close>

lemma unat_mod_2: "(w :: u32) mod 2 = 0 \<longleftrightarrow> even (unat w)"
proof -
  have "unat (w mod 2) = unat w mod 2" by (simp add: unat_mod)
  then show ?thesis by (metis even_iff_mod_2_eq_zero unat_eq_zero)
qed

lemma unat_pos: "(w :: u32) \<noteq> 0 \<longleftrightarrow> 0 < unat w"
  by (simp add: unat_gt_0)

lemma usize_try_from_u32_Some [simp]: "usize_try_from_u32 w = Some (unat w)"
proof -
  have "unat w < 2 ^ 32" using unsigned_less [of w] by simp
  then show ?thesis by (simp add: usize_try_from_u32_def USIZE_MAX_def)
qed

definition plane_rows :: "u8 list \<Rightarrow> nat \<Rightarrow> nat \<Rightarrow> nat \<Rightarrow> u8 list" where
  "plane_rows src stride w n = concat (map (\<lambda>row. take w (drop (row * stride) src)) [0..<n])"

lemma row_in_plane:
  assumes "row < n" "w \<le> stride" "stride * n \<le> len"
  shows "row * stride + w \<le> (len :: nat)"
proof -
  have "row * stride + w \<le> Suc row * stride" using assms(2) by simp
  also have "\<dots> \<le> n * stride" using assms(1) by (intro mult_le_mono1) simp
  finally show ?thesis using assms(3) by (simp add: mult.commute)
qed

lemma index_in_plane:
  assumes "row < n" "c < w"
  shows "row * w + c < n * (w :: nat)"
proof -
  have "row * w + c < Suc row * w" using assms(2) by simp
  also have "\<dots> \<le> n * w" using assms(1) by (intro mult_le_mono1) simp
  finally show ?thesis .
qed

lemma length_row:
  "row < n \<Longrightarrow> w \<le> stride \<Longrightarrow> stride * n \<le> length src \<Longrightarrow>
   length (take w (drop (row * stride) src)) = w"
  using row_in_plane [of row n w stride "length src"] by simp

lemma copy_rows_loop:
  assumes "w \<le> stride" "stride * n \<le> length src"
  shows "for_each (\<lambda>out row. and_then (slice src (row * stride) (row * stride + w)) (\<lambda>r. Ok (out @ r)))
      [0..<n] acc = Ok (acc @ plane_rows src stride w n)"
  unfolding plane_rows_def
  by (rule for_each_extend) (use assms row_in_plane in simp)

lemma length_plane_rows:
  assumes "w \<le> stride" "stride * n \<le> length src"
  shows "length (plane_rows src stride w n) = n * w"
  unfolding plane_rows_def
  by (subst length_concat_uniform [where k = w]) (use assms length_row in auto)

lemma nth_plane_rows:
  assumes "w \<le> stride" "stride * n \<le> length src" "r < n" "c < w"
  shows "plane_rows src stride w n ! (r * w + c) = src ! (r * stride + c)"
proof -
  have len: "\<And>row. row < n \<Longrightarrow> row * stride + w \<le> length src"
    using row_in_plane [OF _ assms(1,2)] .
  have "plane_rows src stride w n ! (r * w + c) = take w (drop ([0..<n] ! r * stride) src) ! c"
    unfolding plane_rows_def
    by (rule nth_concat_uniform) (use assms length_row in auto)
  with assms len [of r] show ?thesis by simp
qed

lemma copy_plane_rows_Ok:
  "copy_plane_rows src stride w n = Ok out \<longleftrightarrow>
     w \<le> stride \<and> stride * n \<le> USIZE_MAX \<and> w * n \<le> USIZE_MAX \<and>
     stride * n \<le> length src \<and> out = plane_rows src stride w n"
  by (auto simp: copy_plane_rows_def Let_def result_eqs copy_rows_loop)

lemma copy_plane_rows_no_panic [simp]: "copy_plane_rows src stride w n \<noteq> Panic"
  by (auto simp: copy_plane_rows_def Let_def result_eqs copy_rows_loop)

lemma length_interleave: "length us = length vs \<Longrightarrow> length (interleave us vs) = 2 * length us"
  unfolding interleave_def by (subst length_concat_uniform [where k = 2]) auto

lemma nth_interleave:
  assumes "length us = length vs" "i < length us"
  shows "interleave us vs ! (2 * i) = us ! i" "interleave us vs ! (2 * i + 1) = vs ! i"
proof -
  have "interleave us vs ! (i * 2 + j) = (\<lambda>(u, v). [u, v]) (zip us vs ! i) ! j" if "j < 2" for j
    unfolding interleave_def by (rule nth_concat_uniform) (use assms that in auto)
  from this [of 0] this [of 1] assms
  show "interleave us vs ! (2 * i) = us ! i" "interleave us vs ! (2 * i + 1) = vs ! i"
    by (simp_all add: mult.commute)
qed

text \<open>The loop body of \<open>convert\<close>, and the four bytes it appends for each pair of columns.\<close>

definition macropixel :: "nv12_frame \<Rightarrow> nat \<Rightarrow> nat \<Rightarrow> u8 list" where
  "macropixel f row k =
     [y_plane f ! (row * y_stride f + 2 * k),
      uv_plane f ! ((row div 2) * uv_stride f + 2 * k),
      y_plane f ! (row * y_stride f + 2 * k + 1),
      uv_plane f ! ((row div 2) * uv_stride f + 2 * k + 1)]"

definition yuyv_rows :: "nv12_frame \<Rightarrow> nat \<Rightarrow> nat \<Rightarrow> u8 list" where
  "yuyv_rows f w h = concat (map (\<lambda>row. concat (map (macropixel f row) [0..<w div 2])) [0..<h])"

definition planes_cover :: "nv12_frame \<Rightarrow> nat \<Rightarrow> nat \<Rightarrow> bool" where
  "planes_cover f w h \<longleftrightarrow>
     even w \<and> even h \<and> w \<le> y_stride f \<and> w \<le> uv_stride f \<and>
     y_stride f * h \<le> length (y_plane f) \<and> uv_stride f * (h div 2) \<le> length (uv_plane f)"

lemma planes_cover_bounds:
  assumes "planes_cover f w h" "row < h" "k < w div 2"
  shows "row * y_stride f + 2 * k + 1 < length (y_plane f)"
    and "(row div 2) * uv_stride f + 2 * k + 1 < length (uv_plane f)"
proof -
  have k: "2 * k + 1 < w" using assms(1,3) by (auto simp: planes_cover_def elim!: evenE)
  have "row * y_stride f + w \<le> length (y_plane f)"
    using assms by (intro row_in_plane [where n = h]) (auto simp: planes_cover_def)
  with k show "row * y_stride f + 2 * k + 1 < length (y_plane f)" by simp
  have "row div 2 < h div 2" using assms(1,2) by (auto simp: planes_cover_def elim!: evenE)
  then have "row div 2 * uv_stride f + w \<le> length (uv_plane f)"
    using assms(1) by (intro row_in_plane [where n = "h div 2"]) (auto simp: planes_cover_def)
  with k show "(row div 2) * uv_stride f + 2 * k + 1 < length (uv_plane f)" by simp
qed

lemma convert_row_Ok:
  assumes "planes_cover f w h" "row < h"
  shows "convert_row f w acc row = Ok (acc @ concat (map (macropixel f row) [0..<w div 2]))"
proof -
  have steps: "step_by_2 w = map (\<lambda>k. 2 * k) [0..<w div 2]"
    using assms(1) by (auto simp: step_by_2_def planes_cover_def elim!: evenE)
  have columns: "concat (map (macropixel f row) [0..<w div 2]) =
      concat (map (\<lambda>c. macropixel f row (c div 2)) (step_by_2 w))"
    by (simp add: steps comp_def)
  have bounds: "Suc (row * y_stride f + 2 * k) < length (y_plane f)"
    "Suc (row div 2 * uv_stride f + 2 * k) < length (uv_plane f)" if "k < w div 2" for k
    using planes_cover_bounds [OF assms that] by simp_all
  show ?thesis
    unfolding convert_row_def Let_def columns
    by (rule for_each_extend) (use bounds bounds [THEN Suc_lessD] in \<open>auto simp: steps macropixel_def\<close>)
qed

lemma convert_rows_Ok:
  assumes "planes_cover f w h"
  shows "for_each (convert_row f w) [0..<h] [] = Ok (yuyv_rows f w h)"
proof -
  have "for_each (convert_row f w) [0..<h] [] =
      Ok ([] @ concat (map (\<lambda>row. concat (map (macropixel f row) [0..<w div 2])) [0..<h]))"
    by (rule for_each_extend) (simp add: convert_row_Ok [OF assms])
  then show ?thesis by (simp add: yuyv_rows_def)
qed

lemma converter_new_Ok:
  "converter_new w h = Ok c \<longleftrightarrow>
     0 < unat w \<and> 0 < unat h \<and> even (unat w) \<and> even (unat h) \<and> c = \<lparr>cv_width = w, cv_height = h\<rparr>"
  by (auto simp: converter_new_def unat_mod_2 unat_pos)

lemma converter_new_no_panic: "converter_new w h \<noteq> Panic"
  by (simp add: converter_new_def)

lemma convert_Ok:
  assumes "converter_new w h = Ok c"
  shows "convert c f = Ok out \<longleftrightarrow>
     nv_width f = w \<and> nv_height f = h \<and> planes_cover f (unat w) (unat h) \<and>
     y_stride f * unat h \<le> USIZE_MAX \<and> uv_stride f * (unat h div 2) \<le> USIZE_MAX \<and>
     unat w * unat h * 2 \<le> USIZE_MAX \<and>
     out = \<lparr>yuyv_width = w, yuyv_height = h, yuyv_data = yuyv_rows f (unat w) (unat h)\<rparr>"
  using assms convert_rows_Ok [of f "unat w" "unat h"]
  by (auto simp: convert_def Let_def result_eqs planes_cover_def converter_new_Ok split: option.splits)

lemma convert_no_panic: "converter_new w h = Ok c \<Longrightarrow> convert c f \<noteq> Panic"
  using convert_rows_Ok [of f "unat w" "unat h"]
  by (auto simp: convert_def Let_def result_eqs planes_cover_def converter_new_Ok split: option.splits)

lemma pack_loop:
  assumes "w \<le> stride" "stride * n \<le> length src"
  shows "for_each (\<lambda>data row. let start = row * stride in
        and_then (slice src start (start + w)) (\<lambda>r. Ok (data @ r))) [0..<n] acc =
      Ok (acc @ plane_rows src stride w n)"
  using copy_rows_loop [OF assms] by (simp add: Let_def)

lemma packed_nv12_Ok:
  "packed_nv12 f = Ok out \<longleftrightarrow>
     (let w = unat (nv_width f); h = unat (nv_height f) in
      0 < w \<and> 0 < h \<and> planes_cover f w h \<and>
      y_stride f * h \<le> USIZE_MAX \<and> uv_stride f * (h div 2) \<le> USIZE_MAX \<and>
      w * h + w * h div 2 \<le> USIZE_MAX \<and>
      out = plane_rows (y_plane f) (y_stride f) w h @ plane_rows (uv_plane f) (uv_stride f) w (h div 2))"
  by (auto simp: packed_nv12_def Let_def [of "unat (nv_width f)"] Let_def [of "unat (nv_height f)"]
      result_eqs planes_cover_def pack_loop split: option.splits)

lemma packed_nv12_no_panic: "packed_nv12 f \<noteq> Panic"
  by (auto simp: packed_nv12_def Let_def [of "unat (nv_width f)"] Let_def [of "unat (nv_height f)"]
      result_eqs pack_loop split: option.splits)

lemma planar_to_nv12_Ok:
  "planar_to_nv12 w h pts y ys u us v vs = Ok f \<longleftrightarrow>
     0 < unat w \<and> 0 < unat h \<and> even (unat w) \<and> even (unat h) \<and>
     unat w * (unat h div 2) \<le> USIZE_MAX \<and>
     nv_width f = w \<and> nv_height f = h \<and> nv_pts_us f = pts \<and>
     y_stride f = unat w \<and> uv_stride f = unat w \<and>
     copy_plane_rows y ys (unat w) (unat h) = Ok (y_plane f) \<and>
     (\<exists>up vp. copy_plane_rows u us (unat w div 2) (unat h div 2) = Ok up \<and>
        copy_plane_rows v vs (unat w div 2) (unat h div 2) = Ok vp \<and>
        uv_plane f = interleave up vp)"
  by (cases f) (auto simp: planar_to_nv12_def Let_def result_eqs unat_mod_2 unat_pos)

lemma planar_to_nv12_no_panic: "planar_to_nv12 w h pts y ys u us v vs \<noteq> Panic"
  by (auto simp: planar_to_nv12_def Let_def result_eqs)

section \<open>Pixels\<close>

text \<open>
  A pixel is its luma and the two chroma samples it shares with its 2 x 2 block. Each layout
  stores the same picture in its own way; \<open>planar\<close> names the arguments of
  \<open>planar_to_nv12\<close>, and a packed buffer comes with its dimensions.
\<close>

type_synonym pixel = "u8 \<times> u8 \<times> u8"

record planar =
  pl_width :: u32
  pl_height :: u32
  pl_pts :: u64
  pl_y :: "u8 list"
  pl_y_stride :: nat
  pl_u :: "u8 list"
  pl_u_stride :: nat
  pl_v :: "u8 list"
  pl_v_stride :: nat

definition decode_planar :: "planar \<Rightarrow> (nv12_frame, plane_failure) result" where
  "decode_planar p =
     planar_to_nv12 (pl_width p) (pl_height p) (pl_pts p) (pl_y p) (pl_y_stride p)
       (pl_u p) (pl_u_stride p) (pl_v p) (pl_v_stride p)"

definition nv12_to_yuyv :: "nv12_frame \<Rightarrow> (yuyv_frame, convert_error) result" where
  "nv12_to_yuyv f = and_then (converter_new (nv_width f) (nv_height f)) (\<lambda>c. convert c f)"

definition nv12_to_packed :: "nv12_frame \<Rightarrow> (nat \<times> nat \<times> u8 list, pack_error) result" where
  "nv12_to_packed f =
     and_then (packed_nv12 f) (\<lambda>d. Ok (unat (nv_width f), unat (nv_height f), d))"

definition planar_dims :: "planar \<Rightarrow> nat \<times> nat" where
  "planar_dims p = (unat (pl_width p), unat (pl_height p))"

definition nv12_dims :: "nv12_frame \<Rightarrow> nat \<times> nat" where
  "nv12_dims f = (unat (nv_width f), unat (nv_height f))"

definition yuyv_dims :: "yuyv_frame \<Rightarrow> nat \<times> nat" where
  "yuyv_dims f = (unat (yuyv_width f), unat (yuyv_height f))"

definition packed_dims :: "nat \<times> nat \<times> u8 list \<Rightarrow> nat \<times> nat" where
  "packed_dims = (\<lambda>(w, h, d). (w, h))"

definition planar_pixel :: "planar \<Rightarrow> nat \<Rightarrow> nat \<Rightarrow> pixel" where
  "planar_pixel p r c =
     (pl_y p ! (r * pl_y_stride p + c),
      pl_u p ! (r div 2 * pl_u_stride p + c div 2),
      pl_v p ! (r div 2 * pl_v_stride p + c div 2))"

definition nv12_pixel :: "nv12_frame \<Rightarrow> nat \<Rightarrow> nat \<Rightarrow> pixel" where
  "nv12_pixel f r c =
     (y_plane f ! (r * y_stride f + c),
      uv_plane f ! (r div 2 * uv_stride f + 2 * (c div 2)),
      uv_plane f ! (r div 2 * uv_stride f + 2 * (c div 2) + 1))"

definition yuyv_pixel :: "yuyv_frame \<Rightarrow> nat \<Rightarrow> nat \<Rightarrow> pixel" where
  "yuyv_pixel f r c =
     (let row = r * (2 * unat (yuyv_width f))
      in (yuyv_data f ! (row + 2 * c), yuyv_data f ! (row + 4 * (c div 2) + 1),
          yuyv_data f ! (row + 4 * (c div 2) + 3)))"

definition packed_pixel :: "nat \<times> nat \<times> u8 list \<Rightarrow> nat \<Rightarrow> nat \<Rightarrow> pixel" where
  "packed_pixel = (\<lambda>(w, h, d) r c.
     (d ! (r * w + c), d ! (w * h + r div 2 * w + 2 * (c div 2)),
      d ! (w * h + r div 2 * w + 2 * (c div 2) + 1)))"

text \<open>
  The interface of a conversion stage: it keeps the dimensions and every pixel, and never
  panics. Stages compose.
\<close>

locale lossless_stage =
  fixes conv :: "'i \<Rightarrow> ('o, 'e) result"
    and dims_in :: "'i \<Rightarrow> nat \<times> nat" and pixel_in :: "'i \<Rightarrow> nat \<Rightarrow> nat \<Rightarrow> pixel"
    and dims_out :: "'o \<Rightarrow> nat \<times> nat" and pixel_out :: "'o \<Rightarrow> nat \<Rightarrow> nat \<Rightarrow> pixel"
  assumes same_dims: "conv x = Ok y \<Longrightarrow> dims_out y = dims_in x"
    and same_pixel: "conv x = Ok y \<Longrightarrow> r < snd (dims_in x) \<Longrightarrow> c < fst (dims_in x) \<Longrightarrow>
      pixel_out y r c = pixel_in x r c"
    and no_panic: "conv x \<noteq> Panic"

locale lossless_chain =
  first: lossless_stage conv1 dims1 pixel1 dims2 pixel2 +
  second: lossless_stage conv2 dims2 pixel2 dims3 pixel3
  for conv1 :: "'a \<Rightarrow> ('b, 'e) result" and conv2 :: "'b \<Rightarrow> ('c, 'f) result"
    and dims1 pixel1 dims2 pixel2 dims3 pixel3
begin

lemma chain_dims: "conv1 x = Ok y \<Longrightarrow> conv2 y = Ok z \<Longrightarrow> dims3 z = dims1 x"
  using first.same_dims second.same_dims by simp

lemma chain_pixel:
  "conv1 x = Ok y \<Longrightarrow> conv2 y = Ok z \<Longrightarrow> r < snd (dims1 x) \<Longrightarrow> c < fst (dims1 x) \<Longrightarrow>
   pixel3 z r c = pixel1 x r c"
  using first.same_dims first.same_pixel second.same_pixel by simp

end

section \<open>The stages keep every pixel\<close>

lemma half_less: "even (n :: nat) \<Longrightarrow> c < n \<Longrightarrow> c div 2 < n div 2"
  by (auto elim!: evenE)

lemma nv12_of_planar_pixel:
  assumes "decode_planar p = Ok f" "r < unat (pl_height p)" "c < unat (pl_width p)"
  shows "nv12_pixel f r c = planar_pixel p r c"
proof -
  let ?w = "unat (pl_width p)" and ?h = "unat (pl_height p)"
  from assms(1) obtain up vp where even: "even ?w" "even ?h"
    and y: "copy_plane_rows (pl_y p) (pl_y_stride p) ?w ?h = Ok (y_plane f)"
    and u: "copy_plane_rows (pl_u p) (pl_u_stride p) (?w div 2) (?h div 2) = Ok up"
    and v: "copy_plane_rows (pl_v p) (pl_v_stride p) (?w div 2) (?h div 2) = Ok vp"
    and f: "y_stride f = ?w" "uv_stride f = ?w" "uv_plane f = interleave up vp"
    by (auto simp: decode_planar_def planar_to_nv12_Ok)
  have c2: "c div 2 < ?w div 2" and r2: "r div 2 < ?h div 2"
    using even assms(2,3) by (auto intro: half_less)
  let ?i = "r div 2 * (?w div 2) + c div 2"
  have len: "length up = ?h div 2 * (?w div 2)" "length vp = ?h div 2 * (?w div 2)"
    using u v by (auto simp: copy_plane_rows_Ok length_plane_rows)
  have "?i < ?h div 2 * (?w div 2)"
    using r2 c2 by (rule index_in_plane)
  with len have "length up = length vp" "?i < length up" by simp_all
  note uv = nth_interleave [OF this, folded f(3)]
  have pos: "r div 2 * uv_stride f + 2 * (c div 2) = 2 * ?i"
    using even f(2) by (auto elim!: evenE simp: algebra_simps)
  have "y_plane f ! (r * ?w + c) = pl_y p ! (r * pl_y_stride p + c)"
    using y assms(2,3) by (auto simp: copy_plane_rows_Ok nth_plane_rows)
  moreover have "up ! ?i = pl_u p ! (r div 2 * pl_u_stride p + c div 2)"
    "vp ! ?i = pl_v p ! (r div 2 * pl_v_stride p + c div 2)"
    using u v c2 r2 by (auto simp: copy_plane_rows_Ok nth_plane_rows)
  ultimately show ?thesis
    unfolding nv12_pixel_def planar_pixel_def pos using uv by (simp add: f(1))
qed

lemma nth_yuyv_rows:
  assumes "even w" "r < h" "k < w div 2" "j < 4"
  shows "yuyv_rows f w h ! (r * (2 * w) + (4 * k + j)) = macropixel f r k ! j"
proof -
  have block: "length (concat (map (macropixel f row) [0..<w div 2])) = 2 * w" for row
    using assms(1) by (subst length_concat_uniform [where k = 4]) (auto simp: macropixel_def elim!: evenE)
  have "4 * k + j < 2 * w" using assms(1,3,4) by (auto elim!: evenE)
  then have "yuyv_rows f w h ! (r * (2 * w) + (4 * k + j)) =
      concat (map (macropixel f ([0..<h] ! r)) [0..<w div 2]) ! (4 * k + j)"
    unfolding yuyv_rows_def using assms(2) block by (intro nth_concat_uniform) auto
  also have "\<dots> = concat (map (macropixel f r) [0..<w div 2]) ! (k * 4 + j)"
    using assms(2) by (simp add: mult.commute)
  also have "\<dots> = macropixel f r ([0..<w div 2] ! k) ! j"
    using assms(3,4) by (intro nth_concat_uniform) (auto simp: macropixel_def)
  finally show ?thesis using assms(3) by simp
qed

lemma yuyv_of_nv12_pixel:
  assumes "nv12_to_yuyv f = Ok out" "r < unat (nv_height f)" "c < unat (nv_width f)"
  shows "yuyv_pixel out r c = nv12_pixel f r c"
proof -
  let ?w = "unat (nv_width f)" and ?h = "unat (nv_height f)"
  from assms(1) have even: "even ?w"
    and out: "yuyv_width out = nv_width f" "yuyv_data out = yuyv_rows f ?w ?h"
    by (auto simp: nv12_to_yuyv_def result_eqs convert_Ok planes_cover_def)
  let ?k = "c div 2"
  have "?k < ?w div 2" using even assms(3) by (rule half_less)
  note nth = nth_yuyv_rows [OF even assms(2) this]
  have luma: "yuyv_rows f ?w ?h ! (r * (2 * ?w) + 2 * c) = y_plane f ! (r * y_stride f + c)"
  proof (cases "even c")
    case True
    then show ?thesis using nth [of 0 f] by (auto simp: macropixel_def elim!: evenE)
  next
    case False
    then show ?thesis using nth [of 2 f] by (auto simp: macropixel_def elim!: oddE)
  qed
  show ?thesis
    using luma nth [of 1 f] nth [of 3 f] out
    by (simp add: yuyv_pixel_def nv12_pixel_def Let_def macropixel_def eval_nat_numeral)
qed

lemma packed_of_nv12_pixel:
  assumes "nv12_to_packed f = Ok out" "r < unat (nv_height f)" "c < unat (nv_width f)"
  shows "packed_pixel out r c = nv12_pixel f r c"
proof -
  let ?w = "unat (nv_width f)" and ?h = "unat (nv_height f)"
  let ?ys = "plane_rows (y_plane f) (y_stride f) ?w ?h"
  let ?uvs = "plane_rows (uv_plane f) (uv_stride f) ?w (?h div 2)"
  from assms(1) have cover: "planes_cover f ?w ?h" and out: "out = (?w, ?h, ?ys @ ?uvs)"
    by (auto simp: nv12_to_packed_def result_eqs packed_nv12_Ok Let_def)
  then have len: "length ?ys = ?h * ?w" by (simp add: planes_cover_def length_plane_rows)
  have "c div 2 < ?w div 2" and r2: "r div 2 < ?h div 2"
    using cover assms(2,3) by (auto simp: planes_cover_def intro: half_less)
  then have c2: "2 * (c div 2) + 1 < ?w" by linarith
  have chroma: "(?ys @ ?uvs) ! (?w * ?h + r div 2 * ?w + j) = uv_plane f ! (r div 2 * uv_stride f + j)"
    if "j < ?w" for j
    using that len r2 cover nth_plane_rows [of ?w "uv_stride f" "?h div 2" "uv_plane f" "r div 2" j]
    by (simp add: planes_cover_def nth_append mult.commute add.assoc)
  have "r * ?w + c < ?h * ?w"
    using assms(2,3) by (rule index_in_plane)
  then have luma: "(?ys @ ?uvs) ! (r * ?w + c) = y_plane f ! (r * y_stride f + c)"
    using len cover assms(2,3) by (simp add: planes_cover_def nth_append nth_plane_rows)
  show ?thesis
    using luma chroma [of "2 * (c div 2)"] chroma [of "2 * (c div 2) + 1"] c2 out
    by (simp add: packed_pixel_def nv12_pixel_def add.assoc)
qed

interpretation decode_stage: lossless_stage decode_planar planar_dims planar_pixel nv12_dims nv12_pixel
proof unfold_locales
  fix p f
  assume ok: "decode_planar p = Ok f"
  then have "nv_width f = pl_width p" "nv_height f = pl_height p"
    by (auto simp: decode_planar_def planar_to_nv12_Ok)
  then show "nv12_dims f = planar_dims p" by (simp add: nv12_dims_def planar_dims_def)
next
  fix p f r c
  assume "decode_planar p = Ok f" "r < snd (planar_dims p)" "c < fst (planar_dims p)"
  then show "nv12_pixel f r c = planar_pixel p r c"
    by (simp add: planar_dims_def nv12_of_planar_pixel)
qed (simp add: decode_planar_def planar_to_nv12_no_panic)

interpretation yuyv_stage: lossless_stage nv12_to_yuyv nv12_dims nv12_pixel yuyv_dims yuyv_pixel
proof unfold_locales
  fix f out
  assume "nv12_to_yuyv f = Ok out"
  then show "yuyv_dims out = nv12_dims f"
    by (auto simp: nv12_to_yuyv_def result_eqs convert_Ok yuyv_dims_def nv12_dims_def)
next
  fix f
  show "nv12_to_yuyv f \<noteq> Panic"
    by (auto simp: nv12_to_yuyv_def result_eqs convert_no_panic converter_new_no_panic)
qed (simp add: yuyv_of_nv12_pixel nv12_dims_def)

interpretation packed_stage: lossless_stage nv12_to_packed nv12_dims nv12_pixel packed_dims packed_pixel
  by unfold_locales
    (auto simp: packed_of_nv12_pixel nv12_dims_def packed_dims_def nv12_to_packed_def result_eqs
      packed_nv12_no_panic)

interpretation linux_chain: lossless_chain decode_planar nv12_to_yuyv
    planar_dims planar_pixel nv12_dims nv12_pixel yuyv_dims yuyv_pixel
  by unfold_locales

interpretation native_chain: lossless_chain decode_planar nv12_to_packed
    planar_dims planar_pixel nv12_dims nv12_pixel packed_dims packed_pixel
  by unfold_locales

lemma length_yuyv_rows: "even w \<Longrightarrow> length (yuyv_rows f w h) = 2 * w * h"
proof -
  assume "even w"
  then have "length (concat (map (macropixel f row) [0..<w div 2])) = 2 * w" for row
    by (subst length_concat_uniform [where k = 4]) (auto simp: macropixel_def elim!: evenE)
  then show ?thesis
    unfolding yuyv_rows_def by (subst length_concat_uniform [where k = "2 * w"]) auto
qed

lemma decoded_covers:
  assumes "decode_planar p = Ok f"
  shows "planes_cover f (unat (nv_width f)) (unat (nv_height f))"
    and "0 < unat (nv_width f)" "0 < unat (nv_height f)"
    and "y_stride f = unat (nv_width f)" "uv_stride f = unat (nv_width f)"
  using assms
  by (auto simp: decode_planar_def planar_to_nv12_Ok copy_plane_rows_Ok planes_cover_def
      length_plane_rows length_interleave algebra_simps)

section \<open>Properties\<close>

text \<open>A 2 x 2 picture with padded luma rows, for the witnesses.\<close>

definition sample_picture :: planar where
  "sample_picture =
     \<lparr>pl_width = 2, pl_height = 2, pl_pts = 7, pl_y = [10, 20, 0, 30, 40, 0], pl_y_stride = 3,
      pl_u = [128], pl_u_stride = 1, pl_v = [64], pl_v_stride = 1\<rparr>"

definition sample_nv12 :: nv12_frame where
  "sample_nv12 =
     \<lparr>nv_width = 2, nv_height = 2, nv_pts_us = 7, y_stride = 2, uv_stride = 2,
      y_plane = [10, 20, 30, 40], uv_plane = [128, 64]\<rparr>"

lemma sample_conversions:
  "decode_planar sample_picture = Ok sample_nv12"
  "nv12_to_yuyv sample_nv12 =
     Ok \<lparr>yuyv_width = 2, yuyv_height = 2, yuyv_data = [10, 128, 20, 64, 30, 128, 40, 64]\<rparr>"
  "nv12_to_packed sample_nv12 = Ok (2, 2, [10, 20, 30, 40, 128, 64])"
  by (simp_all add: decode_planar_def sample_picture_def sample_nv12_def planar_to_nv12_def
      copy_plane_rows_def interleave_def checked_mul_usize_def checked_add_usize_def USIZE_MAX_def
      nv12_to_yuyv_def converter_new_def convert_def convert_row_def step_by_2_def nv12_to_packed_def
      packed_nv12_def at_index_def slice_def upt_rec Let_def)

text \<open>
  C29. On Linux the picture handed to the device is the decoder's picture: for every decoder
  output with any row padding that survives the planar-to-NV12 copy and the YUYV converter,
  the dimensions and every pixel's luma and chroma are unchanged.
\<close>

theorem linux_output_preserves_picture:
  assumes "decode_planar p = Ok f" "nv12_to_yuyv f = Ok out"
    and "r < unat (pl_height p)" "c < unat (pl_width p)"
  shows "yuyv_dims out = planar_dims p \<and> yuyv_pixel out r c = planar_pixel p r c"
  using linux_chain.chain_dims [OF assms(1,2)] linux_chain.chain_pixel [OF assms(1,2)] assms(3,4)
  by (simp add: planar_dims_def)

theorem linux_output_preserves_picture_witness:
  "yuyv_pixel \<lparr>yuyv_width = 2, yuyv_height = 2, yuyv_data = [10, 128, 20, 64, 30, 128, 40, 64]\<rparr> 1 0 =
     planar_pixel sample_picture 1 0 \<and> planar_pixel sample_picture 1 0 = (30, 128, 64)"
  using linux_output_preserves_picture [OF sample_conversions(1,2), of 1 0]
  by (simp add: sample_picture_def planar_pixel_def)

text \<open>
  On macOS and Windows the packed NV12 buffer handed to the driver is the decoder's
  picture, dimension for dimension and pixel for pixel.
\<close>

theorem native_output_preserves_picture:
  assumes "decode_planar p = Ok f" "nv12_to_packed f = Ok out"
    and "r < unat (pl_height p)" "c < unat (pl_width p)"
  shows "packed_dims out = planar_dims p \<and> packed_pixel out r c = planar_pixel p r c"
  using native_chain.chain_dims [OF assms(1,2)] native_chain.chain_pixel [OF assms(1,2)] assms(3,4)
  by (simp add: planar_dims_def)

theorem native_output_preserves_picture_witness:
  "packed_pixel (2, 2, [10, 20, 30, 40, 128, 64]) 0 1 = planar_pixel sample_picture 0 1 \<and>
   planar_pixel sample_picture 0 1 = (20, 128, 64)"
  using native_output_preserves_picture [OF sample_conversions(1,3), of 0 1]
  by (simp add: sample_picture_def planar_pixel_def)

text \<open>
  The planar copy never panics on any decoder output, and every frame it returns is
  accepted by both output paths, with exactly two bytes per pixel for YUYV and one and a
  half for packed NV12, whenever the pixel count does not overflow \<open>usize\<close>.
\<close>

theorem decoded_frames_are_convertible:
  "decode_planar p \<noteq> Panic \<and>
   (decode_planar p = Ok f \<longrightarrow> 2 * (unat (nv_width f) * unat (nv_height f)) \<le> USIZE_MAX \<longrightarrow>
     (\<exists>y d. nv12_to_yuyv f = Ok y \<and> length (yuyv_data y) = 2 * unat (nv_width f) * unat (nv_height f) \<and>
        nv12_to_packed f = Ok (unat (nv_width f), unat (nv_height f), d) \<and>
        2 * length d = 3 * unat (nv_width f) * unat (nv_height f)))"
proof (intro conjI impI)
  show "decode_planar p \<noteq> Panic" by (simp add: decode_planar_def planar_to_nv12_no_panic)
next
  let ?w = "unat (nv_width f)" and ?h = "unat (nv_height f)"
  assume ok: "decode_planar p = Ok f" and size: "2 * (?w * ?h) \<le> USIZE_MAX"
  note cover = decoded_covers [OF ok]
  have half: "?w * (?h div 2) \<le> ?w * ?h" by (rule mult_le_mono2) simp
  have sizes: "?w * ?h \<le> USIZE_MAX" "?w * (?h div 2) \<le> USIZE_MAX" "?w * ?h + ?w * ?h div 2 \<le> USIZE_MAX"
    using size half by linarith+
  let ?c = "\<lparr>cv_width = nv_width f, cv_height = nv_height f\<rparr>"
  have new: "converter_new (nv_width f) (nv_height f) = Ok ?c"
    using cover by (simp add: converter_new_Ok planes_cover_def)
  have "convert ?c f = Ok \<lparr>yuyv_width = nv_width f, yuyv_height = nv_height f, yuyv_data = yuyv_rows f ?w ?h\<rparr>"
    using cover size sizes by (simp add: convert_Ok [OF new] mult.commute mult.left_commute)
  then have yuyv: "nv12_to_yuyv f =
      Ok \<lparr>yuyv_width = nv_width f, yuyv_height = nv_height f, yuyv_data = yuyv_rows f ?w ?h\<rparr>"
    by (simp add: nv12_to_yuyv_def new)
  have packed: "packed_nv12 f = Ok (plane_rows (y_plane f) (y_stride f) ?w ?h @
      plane_rows (uv_plane f) (uv_stride f) ?w (?h div 2))"
    using cover sizes by (simp add: packed_nv12_Ok Let_def)
  have "even ?w" "even ?h" using cover by (simp_all add: planes_cover_def)
  then have "2 * (?h * ?w + ?h div 2 * ?w) = 3 * ?w * ?h"
    by (auto elim!: evenE simp: algebra_simps)
  with yuyv packed cover \<open>even ?w\<close> show "\<exists>y d. nv12_to_yuyv f = Ok y \<and>
      length (yuyv_data y) = 2 * ?w * ?h \<and> nv12_to_packed f = Ok (?w, ?h, d) \<and>
      2 * length d = 3 * ?w * ?h"
    by (simp add: nv12_to_packed_def length_yuyv_rows planes_cover_def length_plane_rows)
qed

theorem decoded_frames_are_convertible_witness:
  "\<exists>y d. nv12_to_yuyv sample_nv12 = Ok y \<and> length (yuyv_data y) = 8 \<and>
     nv12_to_packed sample_nv12 = Ok (2, 2, d) \<and> 2 * length d = 12"
  using decoded_frames_are_convertible [of sample_picture sample_nv12] sample_conversions(1)
  by (simp add: sample_nv12_def USIZE_MAX_def)

end
