(* ===== verification/Decoder.thy ===== *)
theory Decoder
  imports AnnexB Planes
begin

text \<open>
  The decoder worker of \<open>rust/phonecam-desktop/src-tauri/src/decode.rs\<close>: the two backends, the
  worker thread, its control messages, and the client side \<open>DecodeWorker\<close>.

  The codecs themselves (openh264, rust_h265) are outside the repository: a record of
  functions stands for each. The thread and its client share three bounded queues; the
  model is one state with one transition per atomic step of either side.
\<close>

section \<open>The codecs behind the backends\<close>

datatype decode_failure =
    PlaneFailure plane_failure
  | MalformedH264
  | MalformedHevc
  | IdrBeforeParameterSets
  | DecoderMessage ustr

datatype decode_error = DecoderUnavailable | DecodeFailed decode_failure | Main10Unsupported | WorkerStopped

datatype decode_event = FrameEvent nv12_frame | RecoveryRequired | ErrorEvent "decode_error option"

text \<open>
  \<open>ErrorEvent (Some e)\<close> carries the debug rendering of \<open>e\<close>; \<open>ErrorEvent None\<close> is the text
  \<open>"decoder panicked"\<close>.
\<close>

record yuv_source =
  yuv_dimensions :: "nat \<times> nat"
  yuv_strides :: "nat \<times> nat \<times> nat"
  yuv_y :: "u8 list"
  yuv_u :: "u8 list"
  yuv_v :: "u8 list"

text \<open>The planes of a decoded HEVC picture as \<open>as_u8()\<close> shows them: \<open>None\<close> when they hold wider samples.\<close>

record hevc_frame =
  hf_bit_depth :: u8
  hf_width :: u32
  hf_height :: u32
  hf_y :: "u8 list option"
  hf_u :: "u8 list option"
  hf_v :: "u8 list option"

text \<open>
  A constructor call may fail for reasons outside the program, so \<open>oh_new\<close> is indexed by the
  number of earlier calls. A decoding call may panic; the program discards the decoder then.
\<close>

record 'd openh264 =
  oh_new :: "nat \<Rightarrow> ustr + 'd"
  oh_decode :: "'d \<Rightarrow> u8 list \<Rightarrow> ('d \<times> yuv_source option, ustr) result"

datatype nal_unit_type = Vps | Sps | Pps | OtherNal nat

record ('h, 'n) rust_h265 =
  hv_new :: 'h
  hv_parse_annex_b :: "u8 list \<Rightarrow> ('n list, unit) result"
  hv_unit_type :: "'n \<Rightarrow> nal_unit_type"
  hv_is_idr :: "nal_unit_type \<Rightarrow> bool"
  hv_decode_nal :: "'h \<Rightarrow> 'n \<Rightarrow> ('h \<times> hevc_frame option, ustr) result"

section \<open>The backends\<close>

definition plane_error :: "plane_failure \<Rightarrow> decode_error" where
  "plane_error e = DecodeFailed (PlaneFailure e)"

definition h264_frame_to_nv12 :: "yuv_source \<Rightarrow> u64 \<Rightarrow> (nv12_frame, decode_error) result" where
  "h264_frame_to_nv12 d pts =
     (let (w, h) = yuv_dimensions d; (ys, us, vs) = yuv_strides d
      in map_err plane_error
           (planar_to_nv12 (of_nat w) (of_nat h) pts (yuv_y d) ys (yuv_u d) us (yuv_v d) vs))"

definition hevc_frame_to_nv12 :: "hevc_frame \<Rightarrow> u64 \<Rightarrow> (nv12_frame, decode_error) result" where
  "hevc_frame_to_nv12 f pts =
     (if hf_bit_depth f \<noteq> 8 then Err Main10Unsupported
      else and_then (ok_or Main10Unsupported (hf_y f)) (\<lambda>y.
           and_then (ok_or Main10Unsupported (hf_u f)) (\<lambda>u.
           and_then (ok_or Main10Unsupported (hf_v f)) (\<lambda>v.
             map_err plane_error
               (planar_to_nv12 (hf_width f) (hf_height f) pts y (unat (hf_width f))
                  u (unat (hf_width f div 2)) v (unat (hf_width f div 2)))))))"

definition h264_decode ::
  "'d openh264 \<Rightarrow> 'd \<Rightarrow> video_frame \<Rightarrow> ('d \<times> nv12_frame list, decode_error) result" where
  "h264_decode api d f =
     and_then (case normalize_h264_annex_b (vf_data f) of
         Ok (Some payload) \<Rightarrow> Ok payload
       | Ok None \<Rightarrow> Err (DecodeFailed MalformedH264)
       | _ \<Rightarrow> Panic) (\<lambda>payload.
     and_then (map_err (\<lambda>m. DecodeFailed (DecoderMessage m)) (oh_decode api d payload)) (\<lambda>(d', decoded).
       case decoded of
         None \<Rightarrow> Ok (d', [])
       | Some picture \<Rightarrow>
           and_then (h264_frame_to_nv12 picture (pts_us f)) (\<lambda>frame. Ok (d', [frame]))))"

record 'h hevc_backend =
  hb_decoder :: 'h
  saw_vps :: bool
  saw_sps :: bool
  saw_pps :: bool

definition hevc_backend_new :: "('h, 'n) rust_h265 \<Rightarrow> 'h hevc_backend" where
  "hevc_backend_new api = \<lparr>hb_decoder = hv_new api, saw_vps = False, saw_sps = False, saw_pps = False\<rparr>"

text \<open>The parameter-set bookkeeping at the head of the loop over NAL units.\<close>

definition note_nal ::
  "('h, 'n) rust_h265 \<Rightarrow> 'h hevc_backend \<Rightarrow> 'n \<Rightarrow> ('h hevc_backend, decode_error) result" where
  "note_nal api b nal =
     (case hv_unit_type api nal of
        Vps \<Rightarrow> Ok (b\<lparr>saw_vps := True\<rparr>)
      | Sps \<Rightarrow> Ok (b\<lparr>saw_sps := True\<rparr>)
      | Pps \<Rightarrow> Ok (b\<lparr>saw_pps := True\<rparr>)
      | kind \<Rightarrow>
          if hv_is_idr api kind \<and> \<not> (saw_vps b \<and> saw_sps b \<and> saw_pps b)
          then Err (DecodeFailed IdrBeforeParameterSets)
          else Ok b)"

definition hevc_decode_step ::
  "('h, 'n) rust_h265 \<Rightarrow> u64 \<Rightarrow> 'h hevc_backend \<times> nv12_frame list \<Rightarrow> 'n \<Rightarrow>
   ('h hevc_backend \<times> nv12_frame list, decode_error) result" where
  "hevc_decode_step api pts = (\<lambda>(b, decoded) nal.
     and_then (note_nal api b nal) (\<lambda>b.
     and_then (map_err (\<lambda>m. DecodeFailed (DecoderMessage m)) (hv_decode_nal api (hb_decoder b) nal))
       (\<lambda>(h, output).
         case output of
           None \<Rightarrow> Ok (b\<lparr>hb_decoder := h\<rparr>, decoded)
         | Some picture \<Rightarrow>
             and_then (hevc_frame_to_nv12 picture pts) (\<lambda>frame.
               Ok (b\<lparr>hb_decoder := h\<rparr>, decoded @ [frame])))))"

definition hevc_decode ::
  "('h, 'n) rust_h265 \<Rightarrow> 'h hevc_backend \<Rightarrow> video_frame \<Rightarrow>
   ('h hevc_backend \<times> nv12_frame list, decode_error) result" where
  "hevc_decode api b f =
     and_then (map_err (\<lambda>_. DecodeFailed MalformedHevc) (hv_parse_annex_b api (vf_data f))) (\<lambda>nals.
       if nals = [] then Err (DecodeFailed MalformedHevc)
       else for_each (hevc_decode_step api (pts_us f)) nals (b, []))"

section \<open>The worker thread\<close>

record ('d, 'h) decoder_state =
  h264 :: 'd
  hevc :: "'h hevc_backend"
  dec_codec :: video_codec
  waiting_for_idr :: bool
  constructed :: nat

text \<open>\<open>H264Backend::new\<close>, for the decoder built after \<open>n\<close> others.\<close>

definition h264_backend_new :: "'d openh264 \<Rightarrow> nat \<Rightarrow> ('d, decode_error) result" where
  "h264_backend_new api n =
     (case oh_new api n of Inr d \<Rightarrow> Ok d | Inl m \<Rightarrow> Err (DecodeFailed (DecoderMessage m)))"

text \<open>The start of \<open>decoder_thread\<close>: the OpenH264 decoder is built first, and failing ends the thread.\<close>

definition decoder_start ::
  "'d openh264 \<Rightarrow> ('h, 'n) rust_h265 \<Rightarrow> (('d, 'h) decoder_state, decode_error) result" where
  "decoder_start api hapi =
     and_then (h264_backend_new api 0) (\<lambda>d.
       Ok \<lparr>h264 = d, hevc = hevc_backend_new hapi, dec_codec = H264, waiting_for_idr = True,
           constructed = 1\<rparr>)"

text \<open>Replacing the backend of the current codec; \<open>None\<close> when the constructor fails and the thread returns.\<close>

definition recreate_backend ::
  "'d openh264 \<Rightarrow> ('h, 'n) rust_h265 \<Rightarrow> ('d, 'h) decoder_state \<Rightarrow> ('d, 'h) decoder_state option" where
  "recreate_backend api hapi s =
     (case dec_codec s of
        H264 \<Rightarrow> (case h264_backend_new api (constructed s) of
                   Ok d \<Rightarrow> Some (s\<lparr>h264 := d, constructed := constructed s + 1\<rparr>)
                 | _ \<Rightarrow> None)
      | Hevc \<Rightarrow> Some (s\<lparr>hevc := hevc_backend_new hapi\<rparr>))"

text \<open>The decoding call, with the backend it updates.\<close>

definition decode_with ::
  "'d openh264 \<Rightarrow> ('h, 'n) rust_h265 \<Rightarrow> ('d, 'h) decoder_state \<Rightarrow> video_frame \<Rightarrow>
   (('d, 'h) decoder_state \<times> nv12_frame list, decode_error) result" where
  "decode_with api hapi s f =
     (case dec_codec s of
        H264 \<Rightarrow> and_then (h264_decode api (h264 s) f) (\<lambda>(d, frames). Ok (s\<lparr>h264 := d\<rparr>, frames))
      | Hevc \<Rightarrow> and_then (hevc_decode hapi (hevc s) f) (\<lambda>(b, frames). Ok (s\<lparr>hevc := b\<rparr>, frames)))"

text \<open>
  One frame taken from the queue: the events to send and the state after them, or \<open>None\<close> when
  the thread returns.
\<close>

definition handle_frame ::
  "'d openh264 \<Rightarrow> ('h, 'n) rust_h265 \<Rightarrow> ('d, 'h) decoder_state \<Rightarrow> video_frame \<Rightarrow>
   (decode_event list \<times> ('d, 'h) decoder_state) option" where
  "handle_frame api hapi s f =
     (if vf_codec f \<noteq> dec_codec s \<or> waiting_for_idr s \<and> \<not> is_keyframe f
      then Some ([RecoveryRequired], s)
      else
        case decode_with api hapi s f of
          Ok (s', frames) \<Rightarrow>
            Some (map FrameEvent frames, if is_keyframe f then s'\<lparr>waiting_for_idr := False\<rparr> else s')
        | Err e \<Rightarrow>
            map_option (\<lambda>s'. ([ErrorEvent (Some e), RecoveryRequired], s'))
              (recreate_backend api hapi (s\<lparr>waiting_for_idr := True\<rparr>))
        | Panic \<Rightarrow>
            map_option (\<lambda>s'. ([ErrorEvent None], s'))
              (recreate_backend api hapi (s\<lparr>waiting_for_idr := True\<rparr>)))"

datatype decode_control = Reset video_codec | Shutdown

text \<open>
  \<open>apply_control\<close> on the decoder's side of a reset: the state after it and the acknowledgement.
  Draining the frame queue is done by the caller below, which owns the queues.
\<close>

definition reset_backend ::
  "'d openh264 \<Rightarrow> ('h, 'n) rust_h265 \<Rightarrow> ('d, 'h) decoder_state \<Rightarrow> video_codec \<Rightarrow>
   ('d, 'h) decoder_state \<times> (unit, decode_error) result" where
  "reset_backend api hapi s c =
     (case c of
        H264 \<Rightarrow> (case h264_backend_new api (constructed s) of
            Ok d \<Rightarrow> (s\<lparr>h264 := d, constructed := constructed s + 1, dec_codec := c,
                       waiting_for_idr := True\<rparr>, Ok ())
          | Err e \<Rightarrow> (s\<lparr>constructed := constructed s + 1\<rparr>, Err e)
          | Panic \<Rightarrow> (s\<lparr>constructed := constructed s + 1\<rparr>, Panic))
      | Hevc \<Rightarrow> (s\<lparr>hevc := hevc_backend_new hapi, dec_codec := c, waiting_for_idr := True\<rparr>, Ok ()))"

section \<open>The worker and its client\<close>

text \<open>
  One state holds the thread, the three queues and the client. The thread is \<open>Polling\<close> at the
  top of its loop, \<open>Sending\<close> inside a \<open>blocking_send\<close> with the listed events still to go, or
  \<open>Finished\<close>. The client is \<open>Awaiting\<close> inside \<open>reset\<close>, between posting the request and
  receiving the acknowledgement.
\<close>

definition FRAME_QUEUE_CAPACITY :: nat where
  "FRAME_QUEUE_CAPACITY = 2"

definition CONTROL_QUEUE_CAPACITY :: nat where
  "CONTROL_QUEUE_CAPACITY = 2"

definition EVENT_QUEUE_CAPACITY :: nat where
  "EVENT_QUEUE_CAPACITY = 2"

datatype worker_phase = Polling | Sending "decode_event list" | Finished

datatype client_phase = Idle | Awaiting video_codec | Dropped

record ('d, 'h) worker =
  decoder :: "('d, 'h) decoder_state"
  frame_q :: "video_frame list"
  control_q :: "decode_control list"
  event_q :: "decode_event list"
  phase :: worker_phase
  client :: client_phase
  ack :: "(unit, decode_error) result option"

definition worker_new :: "('d, 'h) decoder_state \<Rightarrow> ('d, 'h) worker" where
  "worker_new d = \<lparr>decoder = d, frame_q = [], control_q = [], event_q = [], phase = Polling,
     client = Idle, ack = None\<rparr>"

text \<open>
  \<open>DecodeWorker::new\<close>: it fails when the thread cannot be spawned, when its decoder cannot be built,
  or when it ends without a word.
\<close>

definition decode_worker_new ::
  "ustr + unit \<Rightarrow> 'd openh264 \<Rightarrow> ('h, 'n) rust_h265 \<Rightarrow> (('d, 'h) worker, decode_error) result" where
  "decode_worker_new spawned api hapi =
     and_then (map_err (\<lambda>m. DecodeFailed (DecoderMessage m)) (from_sum spawned)) (\<lambda>_.
       case decoder_start api hapi of
         Ok d \<Rightarrow> Ok (worker_new d)
       | Err e \<Rightarrow> Err e
       | Panic \<Rightarrow> Err WorkerStopped)"

definition sending :: "decode_event list \<Rightarrow> worker_phase" where
  "sending es = (if es = [] then Polling else Sending es)"

subsection \<open>The client's calls\<close>

datatype send_failure = QueueFull video_frame | QueueDisconnected video_frame

definition try_send :: "video_frame \<Rightarrow> ('d, 'h) worker \<Rightarrow> ('d, 'h) worker \<times> (unit, send_failure) result" where
  "try_send f w =
     (if phase w = Finished then (w, Err (QueueDisconnected f))
      else if FRAME_QUEUE_CAPACITY \<le> length (frame_q w) then (w, Err (QueueFull f))
      else (w\<lparr>frame_q := frame_q w @ [f]\<rparr>, Ok ()))"

text \<open>
  \<open>reset\<close> up to its first await; \<open>None\<close> in the first component when the bounded control queue
  has no room and the call blocks.
\<close>

definition reset_begin :: "video_codec \<Rightarrow> ('d, 'h) worker \<Rightarrow> (('d, 'h) worker \<times> decode_error option) option" where
  "reset_begin c w =
     (if phase w = Finished then Some (w, Some WorkerStopped)
      else if CONTROL_QUEUE_CAPACITY \<le> length (control_q w) then None
      else Some (w\<lparr>control_q := control_q w @ [Reset c], client := Awaiting c, ack := None\<rparr>, None))"

text \<open>
  The rest of \<open>reset\<close>: \<open>None\<close> while the acknowledgement is outstanding. A thread that ended
  without answering dropped the sender. On success the event queue is emptied.
\<close>

definition reset_end :: "('d, 'h) worker \<Rightarrow> (('d, 'h) worker \<times> (unit, decode_error) result) option" where
  "reset_end w =
     (case ack w of
        Some (Ok u) \<Rightarrow> Some (w\<lparr>client := Idle, ack := None, event_q := []\<rparr>, Ok ())
      | Some r \<Rightarrow> Some (w\<lparr>client := Idle, ack := None\<rparr>, r)
      | None \<Rightarrow>
          if phase w = Finished then Some (w\<lparr>client := Idle\<rparr>, Err WorkerStopped) else None)"

text \<open>\<open>recv\<close>: \<open>None\<close> while it waits; \<open>Some (w, None)\<close> when the channel is closed and drained.\<close>

definition recv_event :: "('d, 'h) worker \<Rightarrow> (('d, 'h) worker \<times> decode_event option) option" where
  "recv_event w =
     (case event_q w of
        e # es \<Rightarrow> Some (w\<lparr>event_q := es\<rparr>, Some e)
      | [] \<Rightarrow> if phase w = Finished then Some (w, None) else None)"

text \<open>\<open>Drop\<close>: the event queue is closed first, then the shutdown request is posted.\<close>

definition worker_drop :: "('d, 'h) worker \<Rightarrow> ('d, 'h) worker" where
  "worker_drop w = w\<lparr>client := Dropped, event_q := [], control_q := control_q w @ [Shutdown]\<rparr>"

subsection \<open>The thread's steps\<close>

text \<open>\<open>apply_control\<close>; a reset first drains the frame queue.\<close>

definition apply_control ::
  "'d openh264 \<Rightarrow> ('h, 'n) rust_h265 \<Rightarrow> decode_control \<Rightarrow> ('d, 'h) worker \<Rightarrow> ('d, 'h) worker" where
  "apply_control api hapi c w =
     (case c of
        Reset next \<Rightarrow>
          let (d, result) = reset_backend api hapi (decoder w) next
          in w\<lparr>frame_q := [], decoder := d, ack := Some result\<rparr>
      | Shutdown \<Rightarrow> w\<lparr>phase := Finished\<rparr>)"

definition take_frame ::
  "'d openh264 \<Rightarrow> ('h, 'n) rust_h265 \<Rightarrow> video_frame \<Rightarrow> ('d, 'h) worker \<Rightarrow> ('d, 'h) worker" where
  "take_frame api hapi f w =
     (case handle_frame api hapi (decoder w) f of
        None \<Rightarrow> w\<lparr>phase := Finished\<rparr>
      | Some (events, d) \<Rightarrow> w\<lparr>decoder := d, phase := sending events\<rparr>)"

definition send_event :: "('d, 'h) worker \<Rightarrow> decode_event list \<Rightarrow> ('d, 'h) worker option" where
  "send_event w es =
     (case es of
        [] \<Rightarrow> Some (w\<lparr>phase := Polling\<rparr>)
      | e # rest \<Rightarrow>
          if client w = Dropped then Some (w\<lparr>phase := Finished\<rparr>)
          else if EVENT_QUEUE_CAPACITY \<le> length (event_q w) then None
          else Some (w\<lparr>event_q := event_q w @ [e], phase := sending rest\<rparr>))"

text \<open>
  The next step of the thread: a control message goes before a frame, and a thread with
  events to send does nothing else. \<open>None\<close> when it is blocked.
\<close>

definition thread_step ::
  "'d openh264 \<Rightarrow> ('h, 'n) rust_h265 \<Rightarrow> ('d, 'h) worker \<Rightarrow> ('d, 'h) worker option" where
  "thread_step api hapi w =
     (case phase w of
        Finished \<Rightarrow> None
      | Sending es \<Rightarrow> send_event w es
      | Polling \<Rightarrow>
          (case control_q w of
             c # cs \<Rightarrow> Some (apply_control api hapi c (w\<lparr>control_q := cs\<rparr>))
           | [] \<Rightarrow>
               (case frame_q w of
                  [] \<Rightarrow> None
                | f # fs \<Rightarrow> Some (take_frame api hapi f (w\<lparr>frame_q := fs\<rparr>)))))"

subsection \<open>Interleavings\<close>

datatype worker_action = TrySend video_frame | ResetBegin video_codec | ResetEnd | RecvEvent
  | DropWorker | Thread

text \<open>
  \<open>reset\<close> and \<open>recv\<close> borrow the worker mutably, so no other call of the client runs while one
  is in progress; the thread may step at any time.
\<close>

definition worker_step ::
  "'d openh264 \<Rightarrow> ('h, 'n) rust_h265 \<Rightarrow> worker_action \<Rightarrow> ('d, 'h) worker \<Rightarrow> ('d, 'h) worker option" where
  "worker_step api hapi a w =
     (case a of
        Thread \<Rightarrow> thread_step api hapi w
      | TrySend f \<Rightarrow> if client w = Idle then Some (fst (try_send f w)) else None
      | ResetBegin c \<Rightarrow> if client w = Idle then map_option fst (reset_begin c w) else None
      | ResetEnd \<Rightarrow>
          (case client w of Awaiting c \<Rightarrow> map_option fst (reset_end w) | _ \<Rightarrow> None)
      | RecvEvent \<Rightarrow> if client w = Idle then map_option fst (recv_event w) else None
      | DropWorker \<Rightarrow> if client w = Idle then Some (worker_drop w) else None)"

fun worker_run ::
  "'d openh264 \<Rightarrow> ('h, 'n) rust_h265 \<Rightarrow> worker_action list \<Rightarrow> ('d, 'h) worker \<Rightarrow> ('d, 'h) worker option" where
  "worker_run api hapi [] w = Some w"
| "worker_run api hapi (a # as) w =
     (case worker_step api hapi a w of None \<Rightarrow> None | Some w' \<Rightarrow> worker_run api hapi as w')"

inductive worker_reachable :: "'d openh264 \<Rightarrow> ('h, 'n) rust_h265 \<Rightarrow> ('d, 'h) worker \<Rightarrow> bool"
  for api :: "'d openh264" and hapi :: "('h, 'n) rust_h265" where
  started: "decode_worker_new (Inr ()) api hapi = Ok w \<Longrightarrow> worker_reachable api hapi w"
| stepped: "worker_reachable api hapi w \<Longrightarrow> worker_step api hapi a w = Some w' \<Longrightarrow>
    worker_reachable api hapi w'"

section \<open>Pictures that leave the decoder\<close>

text \<open>No padding, planes of the right size, even non-zero dimensions.\<close>

definition tight_frame :: "nv12_frame \<Rightarrow> bool" where
  "tight_frame f \<longleftrightarrow>
     (let w = unat (nv_width f); h = unat (nv_height f) in
      0 < w \<and> 0 < h \<and> even w \<and> even h \<and> y_stride f = w \<and> uv_stride f = w \<and>
      length (y_plane f) = w * h \<and> length (uv_plane f) = w * (h div 2))"

lemma planar_to_nv12_tight:
  assumes "planar_to_nv12 w h pts y ys u us v vs = Ok f"
  shows "tight_frame f" "nv_pts_us f = pts"
  using assms
  by (auto simp: planar_to_nv12_Ok tight_frame_def Let_def copy_plane_rows_Ok length_plane_rows
      length_interleave elim!: evenE)

definition tight_at :: "u64 \<Rightarrow> nv12_frame \<Rightarrow> bool" where
  "tight_at pts f \<longleftrightarrow> tight_frame f \<and> nv_pts_us f = pts"

lemma h264_frame_tight: "h264_frame_to_nv12 d pts = Ok f \<Longrightarrow> tight_at pts f"
  by (auto simp: h264_frame_to_nv12_def result_eqs tight_at_def planar_to_nv12_tight split: prod.splits)

lemma hevc_frame_tight: "hevc_frame_to_nv12 d pts = Ok f \<Longrightarrow> tight_at pts f"
  by (auto simp: hevc_frame_to_nv12_def result_eqs tight_at_def planar_to_nv12_tight split: if_splits)

lemma h264_decode_tight:
  "h264_decode api d f = Ok (d', frames) \<Longrightarrow> list_all (tight_at (pts_us f)) frames"
  by (auto simp: h264_decode_def result_eqs split: result.splits option.splits)
    (erule h264_frame_tight)

lemma hevc_step_tight:
  "hevc_decode_step api pts (b, acc) nal = Ok (b', acc') \<Longrightarrow> list_all (tight_at pts) acc \<Longrightarrow>
   list_all (tight_at pts) acc'"
  by (auto simp: hevc_decode_step_def result_eqs split: option.splits) (erule hevc_frame_tight)

lemma hevc_loop_tight:
  "for_each (hevc_decode_step api pts) nals s = Ok s' \<Longrightarrow> list_all (tight_at pts) (snd s) \<Longrightarrow>
   list_all (tight_at pts) (snd s')"
proof (induction nals arbitrary: s)
  case (Cons nal nals)
  then obtain s1 where s1: "hevc_decode_step api pts s nal = Ok s1"
    and rest: "for_each (hevc_decode_step api pts) nals s1 = Ok s'"
    by (auto simp: result_eqs)
  from s1 Cons.prems(2) have "list_all (tight_at pts) (snd s1)"
    by (cases s; cases s1) (simp add: hevc_step_tight)
  with rest show ?case by (rule Cons.IH)
qed simp

lemma hevc_decode_tight:
  "hevc_decode api b f = Ok (b', frames) \<Longrightarrow> list_all (tight_at (pts_us f)) frames"
  using hevc_loop_tight [of api "pts_us f" _ "(b, [])" "(b', frames)"]
  by (auto simp: hevc_decode_def result_eqs split: if_splits)

lemma decode_with_tight:
  "decode_with api hapi s f = Ok (s', frames) \<Longrightarrow>
   list_all (tight_at (pts_us f)) frames \<and> dec_codec s' = dec_codec s \<and>
   waiting_for_idr s' = waiting_for_idr s"
  by (auto simp: decode_with_def result_eqs dest: h264_decode_tight hevc_decode_tight
      split: video_codec.splits)

lemma recreate_backend_keeps:
  "recreate_backend api hapi s = Some s' \<Longrightarrow>
   dec_codec s' = dec_codec s \<and> waiting_for_idr s' = waiting_for_idr s"
  by (auto simp: recreate_backend_def split: video_codec.splits result.splits)

text \<open>The pictures among a list of events.\<close>

fun event_frames :: "decode_event list \<Rightarrow> nv12_frame list" where
  "event_frames [] = []"
| "event_frames (FrameEvent n # es) = n # event_frames es"
| "event_frames (_ # es) = event_frames es"

lemma event_frames_append [simp]: "event_frames (es @ fs) = event_frames es @ event_frames fs"
  by (induction es rule: event_frames.induct) auto

lemma event_frames_map [simp]: "event_frames (map FrameEvent fs) = fs"
  by (induction fs) auto

lemma set_event_frames: "set (event_frames es) = {n. FrameEvent n \<in> set es}"
  by (induction es rule: event_frames.induct) auto

lemma event_frames_empty: "event_frames es = [] \<longleftrightarrow> (\<forall>n. FrameEvent n \<notin> set es)"
  by (induction es rule: event_frames.induct) auto

text \<open>
  What one frame does: pictures come out only for a frame of the current codec that is a
  keyframe unless one has been decoded before, and they carry its timestamp; the thread
  stops waiting only for a keyframe.
\<close>

lemma handle_frame_cases:
  assumes "handle_frame api hapi s f = Some (events, s')"
  shows "dec_codec s' = dec_codec s"
    and "list_all (tight_at (pts_us f)) (event_frames events)"
    and "event_frames events \<noteq> [] \<Longrightarrow>
      vf_codec f = dec_codec s \<and> (waiting_for_idr s \<longrightarrow> is_keyframe f)"
    and "\<not> waiting_for_idr s' \<Longrightarrow>
      \<not> waiting_for_idr s \<or> is_keyframe f \<and> vf_codec f = dec_codec s"
  using assms
  by (auto simp: handle_frame_def dest!: decode_with_tight recreate_backend_keeps
      split: if_splits result.splits)

section \<open>Invariants of the worker\<close>

definition pending_events :: "worker_phase \<Rightarrow> decode_event list" where
  "pending_events p = (case p of Sending es \<Rightarrow> es | _ \<Rightarrow> [])"

lemma pending_sending [simp]: "pending_events (sending es) = es"
  by (simp add: pending_events_def sending_def)

lemma sending_neq_Finished [simp]: "sending es \<noteq> Finished"
  by (simp add: sending_def)

lemma pending_events_simps [simp]:
  "pending_events Polling = []" "pending_events Finished = []" "pending_events (Sending es) = es"
  by (simp_all add: pending_events_def)

text \<open>The handshake of a reset, the queue bounds and the pictures in flight.\<close>

definition reset_protocol :: "('d, 'h) worker \<Rightarrow> bool" where
  "reset_protocol w \<longleftrightarrow>
     (case client w of
        Idle \<Rightarrow> ack w = None \<and> (phase w = Finished \<or> control_q w = [])
      | Awaiting c \<Rightarrow>
          (case ack w of
             None \<Rightarrow> phase w = Finished \<or> control_q w = [Reset c]
           | Some r \<Rightarrow> r \<noteq> Panic \<and> phase w = Polling \<and> control_q w = [] \<and> frame_q w = [] \<and>
               (r = Ok () \<longrightarrow> dec_codec (decoder w) = c \<and> waiting_for_idr (decoder w)))
      | Dropped \<Rightarrow> True)"

definition queues_bounded :: "('d, 'h) worker \<Rightarrow> bool" where
  "queues_bounded w \<longleftrightarrow>
     length (frame_q w) \<le> FRAME_QUEUE_CAPACITY \<and> length (event_q w) \<le> EVENT_QUEUE_CAPACITY \<and>
     phase w \<noteq> Sending []"

definition frames_tight :: "('d, 'h) worker \<Rightarrow> bool" where
  "frames_tight w \<longleftrightarrow>
     list_all tight_frame (event_frames (event_q w @ pending_events (phase w)))"

lemmas worker_ops = worker_step_def thread_step_def apply_control_def take_frame_def send_event_def
  try_send_def reset_begin_def reset_end_def recv_event_def worker_drop_def

lemmas worker_splits = worker_action.splits client_phase.splits worker_phase.splits list.splits
  decode_control.splits option.splits prod.splits if_splits result.splits

lemma h264_backend_new_no_panic [simp]: "h264_backend_new api n \<noteq> Panic"
  by (simp add: h264_backend_new_def split: sum.splits)

lemma reset_backend_result:
  "reset_backend api hapi s c = (s', r) \<Longrightarrow>
   r \<noteq> Panic \<and> (r = Ok () \<longrightarrow> dec_codec s' = c \<and> waiting_for_idr s')"
  by (auto simp: reset_backend_def split: video_codec.splits result.splits)

lemma reset_protocol_step:
  "worker_step api hapi a w = Some w' \<Longrightarrow> reset_protocol w \<Longrightarrow> reset_protocol w'"
  by (auto simp: worker_ops reset_protocol_def dest: reset_backend_result split: worker_splits)

lemma queues_bounded_step:
  "worker_step api hapi a w = Some w' \<Longrightarrow> queues_bounded w \<Longrightarrow> queues_bounded w'"
  by (auto simp: worker_ops queues_bounded_def sending_def split: worker_splits)

lemma tight_at_imp: "list_all (tight_at pts) ns \<Longrightarrow> list_all tight_frame ns"
  by (auto simp: list_all_iff tight_at_def)

lemma frames_tight_step:
  assumes "worker_step api hapi a w = Some w'" "frames_tight w"
  shows "frames_tight w'"
proof (cases "\<exists>f fs. a = Thread \<and> phase w = Polling \<and> control_q w = [] \<and> frame_q w = f # fs")
  case True
  then obtain f fs where a: "a = Thread" "phase w = Polling" "control_q w = []" "frame_q w = f # fs" by blast
  show ?thesis
    using assms a handle_frame_cases(2) [of api hapi "decoder w" f] tight_at_imp
    by (auto simp: worker_ops frames_tight_def split: option.splits)
next
  case False
  then show ?thesis
    using assms
    by (auto simp: worker_ops frames_tight_def list_all_iff set_event_frames split: worker_splits)
qed

text \<open>A worker that was created stands at the start of its thread's loop.\<close>

lemma decode_worker_new_Ok:
  "decode_worker_new spawned api hapi = Ok w \<longleftrightarrow>
     spawned = Inr () \<and> (\<exists>d. decoder_start api hapi = Ok d \<and> w = worker_new d)"
  by (cases spawned) (auto simp: decode_worker_new_def result_eqs split: result.splits)

lemma worker_new_invariants:
  "reset_protocol (worker_new d)" "queues_bounded (worker_new d)" "frames_tight (worker_new d)"
  by (simp_all add: worker_new_def reset_protocol_def queues_bounded_def frames_tight_def)

lemma reachable_invariants:
  assumes "worker_reachable api hapi w"
  shows "reset_protocol w" "queues_bounded w" "frames_tight w"
  using assms
  by (induction rule: worker_reachable.induct)
    (auto simp: decode_worker_new_Ok worker_new_invariants
      intro: reset_protocol_step queues_bounded_step frames_tight_step)

lemma worker_run_reachable:
  "worker_reachable api hapi w \<Longrightarrow> worker_run api hapi as w = Some w' \<Longrightarrow> worker_reachable api hapi w'"
  by (induction "as" arbitrary: w) (auto split: option.splits intro: worker_reachable.stepped)

section \<open>A reset is a barrier\<close>

text \<open>
  Right after a successful \<open>reset\<close>: nothing is queued, nothing is in progress, and the
  thread waits for a keyframe of the new codec.
\<close>

definition fresh_after_reset :: "video_codec \<Rightarrow> ('d, 'h) worker \<Rightarrow> bool" where
  "fresh_after_reset c w \<longleftrightarrow>
     client w = Idle \<and> ack w = None \<and> phase w = Polling \<and> frame_q w = [] \<and> control_q w = [] \<and>
     event_q w = [] \<and> dec_codec (decoder w) = c \<and> waiting_for_idr (decoder w)"

lemma reset_end_fresh:
  assumes "reset_protocol w" "client w = Awaiting c" "reset_end w = Some (w', Ok ())"
  shows "fresh_after_reset c w'"
  using assms
  by (auto simp: reset_end_def reset_protocol_def fresh_after_reset_def
      split: option.splits result.splits if_splits)

text \<open>
  What holds between two resets, relative to the frames \<open>sent\<close> since the first: every picture
  in flight has the timestamp of one of them that has the reset's codec, and none is in
  flight before a keyframe was among them.
\<close>

definition pictures_from :: "video_codec \<Rightarrow> video_frame list \<Rightarrow> ('d, 'h) worker \<Rightarrow> bool" where
  "pictures_from c sent w \<longleftrightarrow>
     dec_codec (decoder w) = c \<and> set (frame_q w) \<subseteq> set sent \<and>
     (\<forall>n \<in> set (event_frames (event_q w @ pending_events (phase w))).
        \<exists>f \<in> set sent. vf_codec f = c \<and> pts_us f = nv_pts_us n) \<and>
     (\<not> waiting_for_idr (decoder w) \<or>
      event_frames (event_q w @ pending_events (phase w)) \<noteq> [] \<longrightarrow>
        (\<exists>f \<in> set sent. is_keyframe f \<and> vf_codec f = c))"

fun sent_frames :: "worker_action list \<Rightarrow> video_frame list" where
  "sent_frames [] = []"
| "sent_frames (TrySend f # as) = f # sent_frames as"
| "sent_frames (_ # as) = sent_frames as"

definition no_reset :: "worker_action \<Rightarrow> bool" where
  "no_reset a \<longleftrightarrow> (case a of ResetBegin _ \<Rightarrow> False | DropWorker \<Rightarrow> False | _ \<Rightarrow> True)"

lemma pictures_from_mono:
  "pictures_from c sent w \<Longrightarrow> set sent \<subseteq> set sent' \<Longrightarrow> pictures_from c sent' w"
  unfolding pictures_from_def by (meson subset_iff)

lemma pictures_from_take_frame:
  assumes "pictures_from c sent w" "phase w = Polling" "frame_q w = f # fs"
  shows "pictures_from c sent (take_frame api hapi f (w\<lparr>frame_q := fs\<rparr>))"
proof (cases "handle_frame api hapi (decoder w) f")
  case None
  with assms show ?thesis by (auto simp: take_frame_def pictures_from_def)
next
  case (Some r)
  then obtain events s' where r: "handle_frame api hapi (decoder w) f = Some (events, s')"
    by (cases r) auto
  note cases = handle_frame_cases [OF r]
  have f: "f \<in> set sent" and c: "dec_codec (decoder w) = c" using assms by (auto simp: pictures_from_def)
  have "\<exists>g \<in> set sent. vf_codec g = c \<and> pts_us g = nv_pts_us n"
    if "n \<in> set (event_frames events)" for n
  proof (intro bexI [of _ f] conjI)
    show "vf_codec f = c" using that cases(3) c by force
    show "pts_us f = nv_pts_us n" using that cases(2) by (auto simp: list_all_iff tight_at_def)
  qed (rule f)
  moreover have "\<exists>g \<in> set sent. is_keyframe g \<and> vf_codec g = c"
    if "\<not> waiting_for_idr s' \<or> event_frames events \<noteq> []"
    using that cases(3,4) f c assms(1) by (auto simp: pictures_from_def)
  ultimately show ?thesis
    using assms r cases(1) by (auto simp: take_frame_def pictures_from_def)
qed

lemma pictures_from_step:
  assumes "worker_step api hapi a w = Some w'" "no_reset a" "client w = Idle" "control_q w = []"
    "pictures_from c sent w"
  shows "pictures_from c (sent @ sent_frames [a]) w'"
proof (cases "\<exists>f fs. a = Thread \<and> phase w = Polling \<and> frame_q w = f # fs")
  case True
  then obtain f fs where a: "a = Thread" "phase w = Polling" "frame_q w = f # fs" by blast
  with assms have "w' = take_frame api hapi f (w\<lparr>frame_q := fs\<rparr>)"
    by (auto simp: worker_step_def thread_step_def)
  with a assms(5) show ?thesis by (simp add: pictures_from_take_frame)
next
  case False
  then show ?thesis
    using assms
    by (auto simp: worker_ops pictures_from_def no_reset_def set_event_frames event_frames_empty
        subset_iff split: worker_splits)
qed

lemma idle_step:
  "worker_step api hapi a w = Some w' \<Longrightarrow> no_reset a \<Longrightarrow> client w = Idle \<Longrightarrow> control_q w = [] \<Longrightarrow>
   client w' = Idle \<and> control_q w' = []"
  by (auto simp: worker_ops no_reset_def split: worker_splits)

lemma sent_frames_Cons: "sent_frames (a # as) = sent_frames [a] @ sent_frames as"
  by (cases a) auto

lemma pictures_from_run:
  assumes "worker_run api hapi as w = Some w'" "list_all no_reset as"
    "client w = Idle" "control_q w = []" "pictures_from c sent w"
  shows "pictures_from c (sent @ sent_frames as) w'"
  using assms
proof (induction "as" arbitrary: w sent)
  case (Cons a "as")
  from Cons.prems(1) obtain w1 where w1: "worker_step api hapi a w = Some w1"
    and run: "worker_run api hapi as w1 = Some w'" by (auto split: option.splits)
  from Cons.prems have a: "no_reset a" "list_all no_reset as" by simp_all
  have "client w1 = Idle" "control_q w1 = []"
    using idle_step [OF w1 a(1) Cons.prems(3,4)] by simp_all
  from Cons.IH [OF run a(2) this pictures_from_step [OF w1 a(1) Cons.prems(3-5)]]
  show ?case by (simp add: sent_frames_Cons [of a "as"])
qed simp

lemma fresh_pictures_from: "fresh_after_reset c w \<Longrightarrow> pictures_from c [] w"
  by (simp add: fresh_after_reset_def pictures_from_def)

section \<open>When a reset is answered\<close>

text \<open>
  Events that the thread still has to deliver before it looks at the control queue again,
  together with those already queued: the consumer takes none of them while it waits inside
  \<open>reset\<close>.
\<close>

definition undelivered :: "('d, 'h) worker \<Rightarrow> nat" where
  "undelivered w = length (event_q w) + length (pending_events (phase w))"

lemma thread_sends_pending:
  assumes "client w = Awaiting c" "phase w = sending es"
    and "length (event_q w) + length es \<le> EVENT_QUEUE_CAPACITY"
  shows "worker_run api hapi (replicate (length es) Thread) w =
    Some (w\<lparr>event_q := event_q w @ es, phase := Polling\<rparr>)"
  using assms
proof (induction es arbitrary: w)
  case (Cons e es)
  have "worker_step api hapi Thread w = Some (w\<lparr>event_q := event_q w @ [e], phase := sending es\<rparr>)"
    using Cons.prems by (simp add: worker_step_def thread_step_def sending_def send_event_def)
  with Cons.prems Cons.IH [of "w\<lparr>event_q := event_q w @ [e], phase := sending es\<rparr>"] show ?case by simp
qed (simp add: sending_def)

lemma worker_run_append:
  "worker_run api hapi (as @ bs) w =
     (case worker_run api hapi as w of None \<Rightarrow> None | Some w' \<Rightarrow> worker_run api hapi bs w')"
  by (induction "as" arbitrary: w) (auto split: option.splits)

text \<open>With room for every pending event, the thread reaches the request and the client returns.\<close>

lemma reset_answered:
  assumes "client w = Awaiting c" "phase w \<noteq> Finished" "phase w \<noteq> Sending []" "control_q w = [Reset c]"
    "undelivered w \<le> EVENT_QUEUE_CAPACITY"
  shows "\<exists>n w'. worker_run api hapi (replicate n Thread @ [ResetEnd]) w = Some w' \<and> client w' = Idle"
proof -
  let ?es = "pending_events (phase w)"
  let ?w = "w\<lparr>event_q := event_q w @ ?es, phase := Polling\<rparr>"
  have "phase w = sending ?es" using assms(2,3) by (cases "phase w") (simp_all add: sending_def)
  then have run: "worker_run api hapi (replicate (length ?es) Thread) w = Some ?w"
    using assms by (intro thread_sends_pending) (auto simp: undelivered_def)
  have "\<exists>w'. worker_run api hapi [Thread, ResetEnd] ?w = Some w' \<and> client w' = Idle"
    using assms(1,4)
    by (auto simp: worker_step_def thread_step_def apply_control_def reset_end_def
        split: prod.splits result.splits)
  then obtain w' where "worker_run api hapi [Thread, ResetEnd] ?w = Some w'" "client w' = Idle" by blast
  then have "worker_run api hapi (replicate (length ?es) Thread @ [Thread, ResetEnd]) w = Some w'"
    using run by (simp only: worker_run_append option.case)
  moreover have "replicate (length ?es) Thread @ [Thread, ResetEnd] =
      replicate (Suc (length ?es)) Thread @ [ResetEnd]"
    by (simp add: replicate_app_Cons_same)
  ultimately have "worker_run api hapi (replicate (Suc (length ?es)) Thread @ [ResetEnd]) w = Some w'"
    by simp
  with \<open>client w' = Idle\<close> show ?thesis by blast
qed

text \<open>Without that room nothing the two sides can do ends the wait.\<close>

definition overfull :: "video_codec \<Rightarrow> ('d, 'h) worker \<Rightarrow> bool" where
  "overfull c w \<longleftrightarrow> client w = Awaiting c \<and> ack w = None \<and> pending_events (phase w) \<noteq> [] \<and>
     EVENT_QUEUE_CAPACITY < undelivered w"

lemma overfull_step:
  "overfull c w \<Longrightarrow> worker_step api hapi a w = Some w' \<Longrightarrow> overfull c w'"
  by (auto simp: overfull_def undelivered_def worker_step_def thread_step_def send_event_def
      reset_end_def sending_def pending_events_def split: worker_splits)

lemma overfull_run:
  "worker_run api hapi as w = Some w' \<Longrightarrow> overfull c w \<Longrightarrow> overfull c w'"
  by (induction "as" arbitrary: w) (auto split: option.splits dest: overfull_step)

section \<open>Parameter sets\<close>

text \<open>The kinds of parameter sets a backend has seen.\<close>

definition seen_kinds :: "'h hevc_backend \<Rightarrow> nal_unit_type set" where
  "seen_kinds b = (if saw_vps b then {Vps} else {}) \<union> (if saw_sps b then {Sps} else {}) \<union>
     (if saw_pps b then {Pps} else {})"

lemma note_nal_seen:
  assumes "note_nal api b nal = Ok b'"
  shows "seen_kinds b' = seen_kinds b \<union> ({hv_unit_type api nal} \<inter> {Vps, Sps, Pps})"
    and "hv_unit_type api nal = OtherNal k \<Longrightarrow> hv_is_idr api (OtherNal k) \<Longrightarrow>
      {Vps, Sps, Pps} \<subseteq> seen_kinds b"
  using assms by (auto simp: note_nal_def seen_kinds_def split: nal_unit_type.splits if_splits)

lemma hevc_step_seen:
  assumes "hevc_decode_step api pts (b, acc) nal = Ok (b', acc')"
  shows "seen_kinds b' = seen_kinds b \<union> ({hv_unit_type api nal} \<inter> {Vps, Sps, Pps})"
    and "hv_unit_type api nal = OtherNal k \<Longrightarrow> hv_is_idr api (OtherNal k) \<Longrightarrow>
      {Vps, Sps, Pps} \<subseteq> seen_kinds b"
proof -
  from assms obtain b1 where b1: "note_nal api b nal = Ok b1" and "seen_kinds b' = seen_kinds b1"
    by (auto simp: hevc_decode_step_def result_eqs seen_kinds_def split: option.splits)
  with note_nal_seen [OF b1] show "seen_kinds b' = seen_kinds b \<union> ({hv_unit_type api nal} \<inter> {Vps, Sps, Pps})"
    and "hv_unit_type api nal = OtherNal k \<Longrightarrow> hv_is_idr api (OtherNal k) \<Longrightarrow>
      {Vps, Sps, Pps} \<subseteq> seen_kinds b" by simp_all
qed

lemma hevc_loop_idr:
  assumes "for_each (hevc_decode_step api pts) nals (b, acc) = Ok r"
    "i < length nals" "hv_unit_type api (nals ! i) = OtherNal k" "hv_is_idr api (OtherNal k)"
  shows "{Vps, Sps, Pps} \<subseteq> seen_kinds b \<union> hv_unit_type api ` set (take i nals)"
  using assms
proof (induction nals arbitrary: b acc i)
  case (Cons nal nals)
  then obtain b1 acc1 where step: "hevc_decode_step api pts (b, acc) nal = Ok (b1, acc1)"
    and rest: "for_each (hevc_decode_step api pts) nals (b1, acc1) = Ok r"
    by (auto simp: result_eqs)
  show ?case
  proof (cases i)
    case 0
    with Cons.prems hevc_step_seen(2) [OF step] show ?thesis by simp
  next
    case (Suc i')
    with Cons.prems have "{Vps, Sps, Pps} \<subseteq> seen_kinds b1 \<union> hv_unit_type api ` set (take i' nals)"
      by (intro Cons.IH [OF rest]) simp_all
    with Suc hevc_step_seen(1) [OF step] show ?thesis by auto
  qed
qed simp

section \<open>Sample codecs\<close>

text \<open>
  An H.264 decoder that knows one keyframe, and an HEVC decoder whose units are their kinds,
  for the concrete runs below.
\<close>

definition sample_yuv :: yuv_source where
  "sample_yuv = \<lparr>yuv_dimensions = (2, 2), yuv_strides = (3, 1, 1),
     yuv_y = [10, 20, 0, 30, 40, 0], yuv_u = [128], yuv_v = [64]\<rparr>"

definition sample_h264 :: "unit openh264" where
  "sample_h264 = \<lparr>oh_new = (\<lambda>n. Inr ()),
     oh_decode = (\<lambda>d bytes. if bytes = [0, 0, 0, 1, 0x65] then Ok ((), Some sample_yuv)
                            else Err (lit ''corrupt''))\<rparr>"

definition sample_h265 :: "(unit, nal_unit_type) rust_h265" where
  "sample_h265 = \<lparr>hv_new = (),
     hv_parse_annex_b = (\<lambda>bytes. Ok (map (\<lambda>b. if b = 32 then Vps else if b = 33 then Sps
        else if b = 34 then Pps else OtherNal (unat b)) bytes)),
     hv_unit_type = id, hv_is_idr = (\<lambda>k. k = OtherNal 19), hv_decode_nal = (\<lambda>h n. Ok ((), None))\<rparr>"

definition sample_video :: "u8 list \<Rightarrow> u64 \<Rightarrow> bool \<Rightarrow> video_frame" where
  "sample_video bytes pts key = \<lparr>vf_data = bytes, pts_us = pts, vf_codec = H264, vf_width = 2,
     vf_height = 2, is_keyframe = key\<rparr>"

definition sample_decoder :: "(unit, unit) decoder_state" where
  "sample_decoder = \<lparr>h264 = (), hevc = hevc_backend_new sample_h265, dec_codec = H264,
     waiting_for_idr = True, constructed = 1\<rparr>"

definition after_reset_request :: "(unit, unit) worker" where
  "after_reset_request = \<lparr>decoder = sample_decoder\<lparr>constructed := 2\<rparr>, frame_q = [], control_q = [],
     event_q = [], phase = Polling, client = Awaiting H264, ack = Some (Ok ())\<rparr>"

definition jammed_worker :: "(unit, unit) worker" where
  "jammed_worker = \<lparr>decoder = sample_decoder\<lparr>constructed := 2\<rparr>, frame_q = [], control_q = [Reset H264],
     event_q = [ErrorEvent (Some (DecodeFailed (DecoderMessage (lit ''corrupt'')))), RecoveryRequired],
     phase = Sending [RecoveryRequired], client = Awaiting H264, ack = None\<rparr>"

lemma sample_start: "worker_reachable sample_h264 sample_h265 (worker_new sample_decoder)"
  by (rule worker_reachable.started)
    (simp add: decode_worker_new_Ok decoder_start_def h264_backend_new_def sample_h264_def sample_decoder_def)

lemma sample_runs:
  "worker_run sample_h264 sample_h265 [ResetBegin H264, Thread] (worker_new sample_decoder) =
     Some after_reset_request"
  "worker_run sample_h264 sample_h265
     [TrySend (sample_video [0x41] 1 True), Thread, Thread, Thread,
      TrySend (sample_video [0x41] 2 False), Thread, ResetBegin H264] (worker_new sample_decoder) =
     Some jammed_worker"
  by code_simp+

lemmas sample_reachable = worker_run_reachable [OF sample_start sample_runs(1)]
  worker_run_reachable [OF sample_start sample_runs(2)]

section \<open>Properties\<close>

text \<open>
  C11. When \<open>reset(c)\<close> returns success, no frame, no request and no event from before is left
  and the thread waits for a keyframe of codec \<open>c\<close>. Until the next reset, every picture the
  client can receive is a tight NV12 frame with the timestamp of a frame of codec \<open>c\<close> sent
  after the reset, and there is none unless a keyframe of codec \<open>c\<close> was sent too.
\<close>

theorem reset_is_a_barrier:
  assumes "worker_reachable api hapi w" "client w = Awaiting c" "reset_end w = Some (w1, Ok ())"
    and "worker_run api hapi as w1 = Some w2" "list_all no_reset as"
  shows "fresh_after_reset c w1 \<and>
    (\<forall>n. FrameEvent n \<in> set (event_q w2) \<longrightarrow>
       tight_frame n \<and>
       (\<exists>f \<in> set (sent_frames as). vf_codec f = c \<and> pts_us f = nv_pts_us n) \<and>
       (\<exists>f \<in> set (sent_frames as). vf_codec f = c \<and> is_keyframe f))"
proof -
  have fresh: "fresh_after_reset c w1"
    using reachable_invariants(1) [OF assms(1)] assms(2,3) by (rule reset_end_fresh)
  have "worker_step api hapi ResetEnd w = Some w1" using assms(2,3) by (simp add: worker_step_def)
  with assms(1,4) have "worker_reachable api hapi w2"
    by (blast intro: worker_run_reachable worker_reachable.stepped)
  note tight = reachable_invariants(3) [OF this]
  have "pictures_from c ([] @ sent_frames as) w2"
    using assms(4,5) fresh fresh_pictures_from [OF fresh]
    by (intro pictures_from_run) (auto simp: fresh_after_reset_def)
  with fresh tight show ?thesis
    by (auto simp: pictures_from_def frames_tight_def list_all_iff set_event_frames event_frames_empty)
qed

lemma sample_after_reset:
  "reset_end after_reset_request = Some (worker_new (sample_decoder\<lparr>constructed := 2\<rparr>), Ok ())"
  by code_simp

lemma sample_normalized: "normalize_h264_annex_b [0x65] = Ok (Some [0, 0, 0, 1, 0x65])"
  by code_simp

lemma sample_picture_decoded: "h264_frame_to_nv12 sample_yuv 7 = Ok sample_nv12"
  using sample_conversions(1)
  by (simp add: h264_frame_to_nv12_def sample_yuv_def decode_planar_def sample_picture_def)

lemma sample_frame_handled:
  "handle_frame sample_h264 sample_h265 (sample_decoder\<lparr>constructed := 2\<rparr>) (sample_video [0x65] 7 True) =
     Some ([FrameEvent sample_nv12], sample_decoder\<lparr>constructed := 2, waiting_for_idr := False\<rparr>)"
  by (simp add: handle_frame_def decode_with_def h264_decode_def sample_normalized sample_picture_decoded
      sample_decoder_def sample_video_def sample_h264_def)

lemma sample_keyframe_run:
  "worker_run sample_h264 sample_h265 [TrySend (sample_video [0x65] 7 True), Thread, Thread]
     (worker_new (sample_decoder\<lparr>constructed := 2\<rparr>)) =
   Some (worker_new (sample_decoder\<lparr>constructed := 2, waiting_for_idr := False\<rparr>)
     \<lparr>event_q := [FrameEvent sample_nv12]\<rparr>)"
  by (simp add: worker_ops worker_new_def sample_frame_handled sending_def FRAME_QUEUE_CAPACITY_def
      EVENT_QUEUE_CAPACITY_def)

theorem reset_is_a_barrier_witness:
  "tight_frame sample_nv12 \<and>
   (\<exists>f \<in> set [sample_video [0x65] 7 True]. vf_codec f = H264 \<and> pts_us f = nv_pts_us sample_nv12)"
  using reset_is_a_barrier [OF sample_reachable(1) _ sample_after_reset sample_keyframe_run, of H264]
  by (simp add: after_reset_request_def no_reset_def)

text \<open>
  C25. While a client waits inside \<open>reset\<close> for a live thread, some continuation of the two lets
  it return exactly when the events queued and still to be sent fit the event queue: nobody
  empties that queue during the wait.
\<close>

theorem reset_returns_iff_events_fit:
  assumes "worker_reachable api hapi w" "client w = Awaiting c" "ack w = None" "phase w \<noteq> Finished"
  shows "(\<exists>as w'. worker_run api hapi as w = Some w' \<and> client w' = Idle) \<longleftrightarrow>
    undelivered w \<le> EVENT_QUEUE_CAPACITY"
proof
  assume "undelivered w \<le> EVENT_QUEUE_CAPACITY"
  with assms reachable_invariants [OF assms(1)]
  show "\<exists>as w'. worker_run api hapi as w = Some w' \<and> client w' = Idle"
    using reset_answered [of w c api hapi] by (auto simp: reset_protocol_def queues_bounded_def)
next
  assume "\<exists>as w'. worker_run api hapi as w = Some w' \<and> client w' = Idle"
  then obtain "as" w' where run: "worker_run api hapi as w = Some w'" "client w' = Idle" by blast
  show "undelivered w \<le> EVENT_QUEUE_CAPACITY"
  proof (rule ccontr)
    assume "\<not> undelivered w \<le> EVENT_QUEUE_CAPACITY"
    then have "overfull c w"
      using assms reachable_invariants(2) [OF assms(1)]
      by (auto simp: overfull_def undelivered_def queues_bounded_def)
    from overfull_run [OF run(1) this] run(2) show False by (simp add: overfull_def)
  qed
qed

theorem reset_returns_iff_events_fit_witness:
  "\<not> (\<exists>as w'. worker_run sample_h264 sample_h265 as jammed_worker = Some w' \<and> client w' = Idle)"
  using reset_returns_iff_events_fit [OF sample_reachable(2), of H264]
  by (simp add: jammed_worker_def undelivered_def EVENT_QUEUE_CAPACITY_def)

text \<open>
  The wait inside \<open>reset\<close> can be one that nothing ends: two undecodable frames and a reset
  before the first event is received lead to a state where the thread is blocked on the full
  event queue, the client on the acknowledgement, and no step of either is possible.
\<close>

theorem reset_can_deadlock:
  "\<exists>w :: (unit, unit) worker. worker_reachable sample_h264 sample_h265 w \<and>
     client w = Awaiting H264 \<and> (\<forall>a. worker_step sample_h264 sample_h265 a w = None)"
proof (intro exI conjI allI)
  show "worker_reachable sample_h264 sample_h265 jammed_worker" by (rule sample_reachable(2))
  fix a
  show "worker_step sample_h264 sample_h265 a jammed_worker = None"
    by (cases a)
      (simp_all add: worker_step_def jammed_worker_def thread_step_def send_event_def reset_end_def
        EVENT_QUEUE_CAPACITY_def)
qed (simp add: jammed_worker_def)

text \<open>
  The HEVC backend hands an IDR unit to its decoder only after a video, a sequence and a
  picture parameter set: if a frame is decoded without error, each IDR unit in it is
  preceded by all three, in the frame or in earlier frames given to this backend.
\<close>

theorem hevc_idr_needs_parameter_sets:
  assumes "hevc_decode hapi b f = Ok r" "hv_parse_annex_b hapi (vf_data f) = Ok nals"
    and "i < length nals" "hv_unit_type hapi (nals ! i) = OtherNal k" "hv_is_idr hapi (OtherNal k)"
  shows "{Vps, Sps, Pps} \<subseteq> seen_kinds b \<union> hv_unit_type hapi ` set (take i nals)"
  using assms hevc_loop_idr [of hapi "pts_us f" nals b "[]" r i k]
  by (auto simp: hevc_decode_def split: if_splits)

theorem hevc_idr_needs_parameter_sets_witness:
  "{Vps, Sps, Pps} \<subseteq> seen_kinds (hevc_backend_new sample_h265) \<union>
     hv_unit_type sample_h265 ` set (take 3 [Vps, Sps, Pps, OtherNal 19])"
proof (rule hevc_idr_needs_parameter_sets)
  show "hevc_decode sample_h265 (hevc_backend_new sample_h265) (sample_video [32, 33, 34, 19] 1 True) =
      Ok (\<lparr>hb_decoder = (), saw_vps = True, saw_sps = True, saw_pps = True\<rparr>, [])"
    by code_simp
  show "hv_parse_annex_b sample_h265 (vf_data (sample_video [32, 33, 34, 19] 1 True)) =
      Ok [Vps, Sps, Pps, OtherNal 19]"
    by code_simp
qed (simp_all add: sample_h265_def)

end
