(* ===== verification/Native_Format.thy ===== *)
theory Native_Format
  imports Protocol
begin

text \<open>
  The native output formats of \<open>rust/phonecam-desktop/src-tauri/src/output.rs\<close>:
  \<open>NativePixelFormat\<close>, \<open>NativeOutputFormat\<close> and the 16-byte \<open>NativeFormatEvent\<close> that the macOS
  extension and the Windows filter send to say which format their consumer selected.
\<close>

section \<open>Formats\<close>

datatype native_pixel_format = Nv12 | Yuyv

record native_output_format =
  nof_width :: u16
  nof_height :: u16
  nof_fps :: u8
  pixel_format :: native_pixel_format

text \<open>\<open>output_format\<close> of every platform: the committed profile with the platform's pixel format.\<close>

definition native_format_of :: "native_pixel_format \<Rightarrow> stream_profile \<Rightarrow> native_output_format" where
  "native_format_of px p =
     \<lparr>nof_width = width p, nof_height = height p, nof_fps = fps p, pixel_format = px\<rparr>"

section \<open>Format events\<close>

definition FORMAT_EVENT_MAGIC :: "u8 list" where
  "FORMAT_EVENT_MAGIC = [80, 67, 70, 77]"

definition FORMAT_EVENT_SIZE :: nat where
  "FORMAT_EVENT_SIZE = 16"

datatype format_event_error = InvalidEventHeader | EventWidthExceedsU16 | EventHeightExceedsU16
  | UnsupportedEventTuple | UnsupportedPixelFormat | ReservedBytesNotZero

definition u16_try_from_u32 :: "u32 \<Rightarrow> u16 option" where
  "u16_try_from_u32 w = (if unat w < 2 ^ 16 then Some (ucast w) else None)"

definition parse_format_event :: "u8 list \<Rightarrow> (native_output_format, format_event_error) result" where
  "parse_format_event bytes =
     (if length bytes \<noteq> FORMAT_EVENT_SIZE then Err InvalidEventHeader
      else and_then (slice bytes 0 4) (\<lambda>magic.
      if magic \<noteq> FORMAT_EVENT_MAGIC then Err InvalidEventHeader
      else
        and_then (and_then (slice bytes 4 8) (as_array 4)) (\<lambda>ws.
        and_then (and_then (slice bytes 8 12) (as_array 4)) (\<lambda>hs.
        and_then (ok_or EventWidthExceedsU16 (u16_try_from_u32 (from_le_bytes ws))) (\<lambda>w.
        and_then (ok_or EventHeightExceedsU16 (u16_try_from_u32 (from_le_bytes hs))) (\<lambda>h.
        and_then (at_index bytes 12) (\<lambda>rate.
        if (w, h) \<notin> set SUPPORTED_DIMENSIONS \<or> rate \<notin> set SUPPORTED_FRAME_RATES
        then Err UnsupportedEventTuple
        else
          and_then (at_index bytes 13) (\<lambda>px.
          and_then (if px = 0 then Ok Nv12 else if px = 1 then Ok Yuyv else Err UnsupportedPixelFormat)
            (\<lambda>pixel.
          and_then (at_index bytes 14) (\<lambda>r14.
          and_then (at_index bytes 15) (\<lambda>r15.
          if r14 \<noteq> 0 \<or> r15 \<noteq> 0 then Err ReservedBytesNotZero
          else Ok \<lparr>nof_width = w, nof_height = h, nof_fps = rate, pixel_format = pixel\<rparr>)))))))))))"

primrec pixel_format_byte :: "native_pixel_format \<Rightarrow> u8" where
  "pixel_format_byte Nv12 = 0"
| "pixel_format_byte Yuyv = 1"

text \<open>
  \<open>encode\<close>: an array of zeros whose fields are overwritten in place; the bytes that are not
  written stay zero.
\<close>

definition encode_format_event :: "native_output_format \<Rightarrow> u8 list" where
  "encode_format_event f =
     FORMAT_EVENT_MAGIC @ to_le_bytes (ucast (nof_width f) :: u32) @
     to_le_bytes (ucast (nof_height f) :: u32) @ [nof_fps f, pixel_format_byte (pixel_format f), 0, 0]"

definition supported_format :: "native_output_format \<Rightarrow> bool" where
  "supported_format f \<longleftrightarrow> (nof_width f, nof_height f) \<in> set SUPPORTED_DIMENSIONS \<and>
     nof_fps f \<in> set SUPPORTED_FRAME_RATES"

section \<open>Round trip\<close>

lemma unat_u16_u32: "unat (ucast (w :: u16) :: u32) = unat w"
proof -
  have "unat w < 2 ^ 16" using unsigned_less [of w] by simp
  then have "unat w < 2 ^ 32" by simp
  then show ?thesis by (simp add: unsigned_ucast_eq take_bit_nat_eq_self_iff)
qed

lemma u16_u32_round_trip: "u16_try_from_u32 (ucast (w :: u16)) = Some w"
proof -
  have "unat w < 2 ^ 16" using unsigned_less [of w] by simp
  moreover have "ucast (ucast w :: u32) = w" by (rule bit_word_eqI) (auto simp: bit_simps)
  ultimately show ?thesis by (simp add: u16_try_from_u32_def unat_u16_u32)
qed

lemma u16_try_from_u32_Some: "u16_try_from_u32 v = Some w \<longleftrightarrow> v = ucast w"
proof
  assume "u16_try_from_u32 v = Some w"
  then have "unat v < 2 ^ 16" "w = ucast v" by (auto simp: u16_try_from_u32_def split: if_splits)
  then show "v = ucast w"
    by (simp add: word_unat_eq_iff unat_u16_u32 unsigned_ucast_eq take_bit_nat_eq_self)
qed (simp add: u16_u32_round_trip)

text \<open>The sixteen bytes, field by field.\<close>

lemma event_fields:
  assumes "length bytes = 16"
  shows "bytes = take 4 bytes @ take 4 (drop 4 bytes) @ take 4 (drop 8 bytes) @
    [bytes ! 12, bytes ! 13, bytes ! 14, bytes ! 15]"
proof -
  have "bytes = take 4 bytes @ take 4 (drop 4 bytes) @ take 4 (drop 8 bytes) @ drop 12 bytes"
    using append_take_drop_id [of 4 bytes] append_take_drop_id [of 4 "drop 4 bytes"]
      append_take_drop_id [of 4 "drop 8 bytes"] by simp
  moreover have "drop 12 bytes = [bytes ! 12, bytes ! 13, bytes ! 14, bytes ! 15]"
    using assms by (simp add: list_eq_iff_nth_eq less_Suc_eq eval_nat_numeral)
  ultimately show ?thesis by simp
qed

lemma parse_format_event_Ok:
  "parse_format_event bytes = Ok f \<longleftrightarrow> supported_format f \<and> bytes = encode_format_event f"
proof
  assume parsed: "parse_format_event bytes = Ok f"
  then have len: "length bytes = 16"
    by (auto simp: parse_format_event_def FORMAT_EVENT_SIZE_def split: if_splits)
  with parsed have "take 4 bytes = FORMAT_EVENT_MAGIC"
    and "from_le_bytes (take 4 (drop 4 bytes)) = (ucast (nof_width f) :: u32)"
    and "from_le_bytes (take 4 (drop 8 bytes)) = (ucast (nof_height f) :: u32)"
    and "bytes ! 12 = nof_fps f" "bytes ! 13 = pixel_format_byte (pixel_format f)"
    and "bytes ! 14 = 0" "bytes ! 15 = 0" and sup: "supported_format f"
    by (auto simp: parse_format_event_def result_eqs FORMAT_EVENT_SIZE_def u16_try_from_u32_Some
        supported_format_def split: if_splits)
  with event_fields [OF len] to_from_le_bytes [of "take 4 (drop 4 bytes)", where 'a = 32]
    to_from_le_bytes [of "take 4 (drop 8 bytes)", where 'a = 32] len sup
  show "supported_format f \<and> bytes = encode_format_event f"
    by (simp add: encode_format_event_def)
next
  assume "supported_format f \<and> bytes = encode_format_event f"
  moreover have "length FORMAT_EVENT_MAGIC = 4" by (simp add: FORMAT_EVENT_MAGIC_def)
  ultimately show "parse_format_event bytes = Ok f"
    by (cases f; cases "pixel_format f")
      (simp_all add: parse_format_event_def encode_format_event_def FORMAT_EVENT_SIZE_def
        supported_format_def nth_append u16_u32_round_trip)
qed

lemma parse_format_event_no_panic: "parse_format_event bytes \<noteq> Panic"
  by (auto simp: parse_format_event_def FORMAT_EVENT_SIZE_def result_eqs split: if_splits)

section \<open>Properties\<close>

text \<open>
  C32. Format events round trip: \<open>parse\<close> never panics, and it accepts exactly the encodings of the
  formats whose dimensions and rate the protocol supports, giving back the encoded format. In
  particular a non-zero reserved byte, a wrong length or an unknown pixel format is refused.
\<close>

theorem format_event_round_trip:
  "parse_format_event bytes \<noteq> Panic \<and>
   (parse_format_event bytes = Ok f \<longleftrightarrow> supported_format f \<and> bytes = encode_format_event f)"
  by (simp add: parse_format_event_Ok parse_format_event_no_panic)

end
