(* ===== verification/Linux_Driver.thy ===== *)
theory Linux_Driver
  imports Native_Format
begin

text \<open>
  The V4L2 device of \<open>rust/phonecam-driver-linux\<close> (\<open>device.rs\<close>, \<open>format.rs\<close>, \<open>errors.rs\<close>,
  \<open>lib.rs\<close>). The kernel and the v4l crate are a record of functions on an abstract world
  \<open>'w\<close>; querying calls read it, the others return it updated.
\<close>

section \<open>Pixel formats and errors\<close>

datatype pixel_format_v4l = YUYV | MJPEG | RGB24 | NV12

primrec to_fourcc :: "pixel_format_v4l \<Rightarrow> u8 list" where
  "to_fourcc YUYV = [89, 85, 89, 86]"
| "to_fourcc MJPEG = [77, 74, 80, 71]"
| "to_fourcc RGB24 = [82, 71, 66, 51]"
| "to_fourcc NV12 = [78, 86, 49, 50]"

record v4l2_format =
  fmt_width :: u32
  fmt_height :: u32
  fmt_fourcc :: "u8 list"
  fmt_size :: u32

datatype invalid_format = FrameSizeOverflowsU32 | DriverReturnedFormat v4l2_format u32
  | DriverReturnedInterval "u32 \<times> u32" u32

datatype driver_error = V4l2Error ustr | InvalidFormat invalid_format | ModuleNotLoaded

section \<open>The kernel interface\<close>

type_synonym fraction = "u32 \<times> u32"

datatype frame_interval = Discrete fraction | Stepwise fraction fraction

text \<open>
  \<open>v4l_try_fmt\<close> is \<open>VIDIOC_TRY_FMT\<close> on a requested width, height and FourCC;
  \<open>v4l_set_params\<close> is \<open>set_params\<close> with \<open>Parameters::with_fps\<close>.
\<close>

record 'w v4l2 =
  v4l_try_fmt :: "'w \<Rightarrow> u32 \<Rightarrow> u32 \<Rightarrow> u8 list \<Rightarrow> ustr + v4l2_format"
  v4l_enum_frameintervals :: "'w \<Rightarrow> u8 list \<Rightarrow> u32 \<Rightarrow> u32 \<Rightarrow> ustr + frame_interval list"
  v4l_set_format :: "'w \<Rightarrow> u32 \<Rightarrow> u32 \<Rightarrow> u8 list \<Rightarrow> (ustr + v4l2_format) \<times> 'w"
  v4l_set_params :: "'w \<Rightarrow> u32 \<Rightarrow> (ustr + fraction) \<times> 'w"
  v4l_write_all :: "'w \<Rightarrow> u8 list \<Rightarrow> (ustr + unit) \<times> 'w"

section \<open>Operations\<close>

text \<open>\<open>u64::from(numerator) * u64::from(fps) == u64::from(denominator)\<close>: no 64-bit product of two 32-bit values wraps.\<close>

definition interval_matches :: "fraction \<Rightarrow> u32 \<Rightarrow> bool" where
  "interval_matches q rate \<longleftrightarrow>
     (ucast (fst q) :: u64) * (ucast rate :: u64) = (ucast (snd q) :: u64)"

text \<open>
  The \<open>f64\<close> comparisons \<open>a / b <= 1.0 / fps\<close> and \<open>1.0 / fps <= a / b\<close> for 32-bit \<open>a\<close>, \<open>b\<close> and
  non-zero \<open>fps\<close>. Division is correctly rounded, hence monotone, and two different quotients of
  this size differ by a relative amount of at least \<open>2 ^ -32\<close>, so that rounding keeps their order:
  the comparison is the exact one. A zero denominator gives NaN or infinity.
\<close>

definition quotient_le_period :: "fraction \<Rightarrow> u32 \<Rightarrow> bool" where
  "quotient_le_period q rate \<longleftrightarrow> snd q \<noteq> 0 \<and> unat (fst q) * unat rate \<le> unat (snd q)"

definition period_le_quotient :: "fraction \<Rightarrow> u32 \<Rightarrow> bool" where
  "period_le_quotient q rate \<longleftrightarrow>
     (if snd q = 0 then fst q \<noteq> 0 else unat (snd q) \<le> unat (fst q) * unat rate)"

primrec interval_allows :: "u32 \<Rightarrow> frame_interval \<Rightarrow> bool" where
  "interval_allows rate (Discrete q) = interval_matches q rate"
| "interval_allows rate (Stepwise lo hi) =
     (quotient_le_period lo rate \<and> period_le_quotient hi rate)"

definition saturating_mul_u32 :: "u32 \<Rightarrow> u32 \<Rightarrow> u32" where
  "saturating_mul_u32 a b = (if unat a * unat b < 2 ^ 32 then a * b else - 1)"

definition checked_mul_u32 :: "u32 \<Rightarrow> u32 \<Rightarrow> u32 option" where
  "checked_mul_u32 a b = (if unat a * unat b < 2 ^ 32 then Some (a * b) else None)"

definition minimum_frame_size :: "u32 \<Rightarrow> u32 \<Rightarrow> u32 option" where
  "minimum_frame_size w h =
     (case checked_mul_u32 w h of None \<Rightarrow> None | Some pixels \<Rightarrow> checked_mul_u32 pixels 2)"

definition supports_format ::
  "'w v4l2 \<Rightarrow> 'w \<Rightarrow> u32 \<Rightarrow> u32 \<Rightarrow> pixel_format_v4l \<Rightarrow> u32 \<Rightarrow> (bool, driver_error) result" where
  "supports_format k world w h px rate =
     (if w = 0 \<or> h = 0 \<or> rate = 0 then Ok False
      else
        and_then (map_err V4l2Error (from_sum (v4l_try_fmt k world w h (to_fourcc px)))) (\<lambda>actual.
        if fmt_width actual \<noteq> w \<or> fmt_height actual \<noteq> h \<or> fmt_fourcc actual \<noteq> to_fourcc px \<or>
           fmt_size actual < saturating_mul_u32 (saturating_mul_u32 w h) 2
        then Ok False
        else
          let intervals = (case v4l_enum_frameintervals k world (to_fourcc px) w h of
                             Inl _ \<Rightarrow> [] | Inr is \<Rightarrow> is)
          in if intervals = [] then Ok True
             else Ok (list_ex (interval_allows rate) intervals)))"

definition set_format ::
  "'w v4l2 \<Rightarrow> 'w \<Rightarrow> u32 \<Rightarrow> u32 \<Rightarrow> pixel_format_v4l \<Rightarrow> u32 \<Rightarrow> (unit, driver_error) result \<times> 'w" where
  "set_format k world w h px rate =
     (case v4l_set_format k world w h (to_fourcc px) of
        (Inl e, world1) \<Rightarrow> (Err (V4l2Error e), world1)
      | (Inr actual, world1) \<Rightarrow>
          (case minimum_frame_size w h of
             None \<Rightarrow> (Err (InvalidFormat FrameSizeOverflowsU32), world1)
           | Some minimum_size \<Rightarrow>
               if fmt_width actual \<noteq> w \<or> fmt_height actual \<noteq> h \<or>
                  fmt_fourcc actual \<noteq> to_fourcc px \<or> fmt_size actual < minimum_size
               then (Err (InvalidFormat (DriverReturnedFormat actual minimum_size)), world1)
               else
                 (case v4l_set_params k world1 rate of
                    (Inl e, world2) \<Rightarrow> (Err (V4l2Error e), world2)
                  | (Inr interval, world2) \<Rightarrow>
                      if \<not> interval_matches interval rate
                      then (Err (InvalidFormat (DriverReturnedInterval interval rate)), world2)
                      else (Ok (), world2))))"

definition v4l2_write_frame :: "'w v4l2 \<Rightarrow> 'w \<Rightarrow> u8 list \<Rightarrow> (unit, driver_error) result \<times> 'w" where
  "v4l2_write_frame k world data =
     (case v4l_write_all k world data of
        (Inl e, world') \<Rightarrow> (Err (V4l2Error e), world')
      | (Inr u, world') \<Rightarrow> (Ok (), world'))"

text \<open>\<open>module_loaded\<close> says whether \<open>/sys/module/v4l2loopback\<close> exists.\<close>

definition ensure_v4l2loopback_loaded :: "bool \<Rightarrow> (unit, driver_error) result" where
  "ensure_v4l2loopback_loaded module_loaded = (if module_loaded then Ok () else Err ModuleNotLoaded)"

section \<open>Lemmas\<close>

lemma interval_matches_iff:
  "interval_matches (n, d) rate \<longleftrightarrow> unat n * unat rate = unat d"
proof -
  have bound: "unat x < 2 ^ 32" for x :: u32 using unsigned_less [of x] by simp
  have up: "unat (ucast x :: u64) = unat x" for x :: u32
    using bound [of x] by (simp add: unsigned_ucast_eq take_bit_nat_eq_self_iff)
  have "unat n * unat rate < 2 ^ 32 * 2 ^ 32"
    by (rule mult_strict_mono) (use bound in simp_all)
  then have "unat ((ucast n :: u64) * ucast rate) = unat n * unat rate"
    by (simp add: unat_mult_lem [THEN iffD1] up)
  then show ?thesis by (simp add: interval_matches_def word_unat_eq_iff up)
qed

lemma supports_format_no_panic [simp]: "supports_format k world w h px rate \<noteq> Panic"
  by (auto simp: supports_format_def Let_def result_eqs split: if_splits)

lemma set_format_no_panic [simp]: "fst (set_format k world w h px rate) \<noteq> Panic"
  by (auto simp: set_format_def split: prod.splits sum.splits option.splits)

lemma v4l2_write_no_panic [simp]: "fst (v4l2_write_frame k world data) \<noteq> Panic"
  by (auto simp: v4l2_write_frame_def split: prod.splits sum.splits)

lemma checked_mul_u32_Some:
  "checked_mul_u32 a b = Some c \<longleftrightarrow> unat a * unat b < 2 ^ 32 \<and> unat c = unat a * unat b"
proof -
  have "unat (a * b) = unat a * unat b" if "unat a * unat b < 2 ^ 32"
    using that by (subst unat_mult_lem [THEN iffD1]) simp_all
  then show ?thesis by (auto simp: checked_mul_u32_def word_unat_eq_iff)
qed

lemma checked_mul_u32_None: "checked_mul_u32 a b = None \<longleftrightarrow> 2 ^ 32 \<le> unat a * unat b"
  by (auto simp: checked_mul_u32_def)

lemma minimum_frame_size_None: "minimum_frame_size w h = None \<longleftrightarrow> 2 ^ 32 \<le> unat w * unat h * 2"
proof (cases "checked_mul_u32 w h")
  case None
  then have "2 ^ 32 \<le> unat w * unat h" by (simp only: checked_mul_u32_None)
  then have "2 ^ 32 \<le> unat w * unat h * 2" by linarith
  with None show ?thesis by (simp only: minimum_frame_size_def option.case simp_thms)
next
  case (Some p)
  then have "unat p = unat w * unat h" by (simp add: checked_mul_u32_Some)
  moreover have "unat (2 :: u32) = 2" by simp
  ultimately show ?thesis using Some by (simp add: minimum_frame_size_def checked_mul_u32_None)
qed

lemma minimum_frame_size_Some:
  "minimum_frame_size w h = Some m \<Longrightarrow> unat m = unat w * unat h * 2"
  by (auto simp: minimum_frame_size_def checked_mul_u32_Some split: option.splits)

text \<open>What a successful \<open>set_format\<close> has checked.\<close>

lemma set_format_Ok:
  "set_format k world w h px rate = (Ok u, world2) \<longleftrightarrow>
     (\<exists>actual world1 interval.
        v4l_set_format k world w h (to_fourcc px) = (Inr actual, world1) \<and>
        v4l_set_params k world1 rate = (Inr interval, world2) \<and>
        fmt_width actual = w \<and> fmt_height actual = h \<and> fmt_fourcc actual = to_fourcc px \<and>
        unat w * unat h * 2 \<le> unat (fmt_size actual) \<and> interval_matches interval rate)"
proof (cases "minimum_frame_size w h")
  case None
  have "unat s < 2 ^ 32" for s :: u32 using unsigned_less [of s] by simp
  moreover have "2 ^ 32 \<le> unat w * unat h * 2" using None by (simp only: minimum_frame_size_None)
  ultimately have "\<not> unat w * unat h * 2 \<le> unat s" for s :: u32 by (meson le_less_trans not_less)
  with None show ?thesis by (auto simp: set_format_def split: prod.splits sum.splits)
next
  case (Some m)
  then have "unat m = unat w * unat h * 2" by (simp add: minimum_frame_size_Some)
  with Some show ?thesis
    by (auto simp: set_format_def word_less_nat_alt split: prod.splits sum.splits if_splits)
qed

end
