(* ===== verification/Native_Driver.thy ===== *)
theory Native_Driver
  imports Native_Format Planes
begin

text \<open>
  The drivers that hand packed NV12 frames to the macOS camera extension and the Windows
  DirectShow filter (\<open>driver_macos.rs\<close>, \<open>driver_windows.rs\<close> in
  \<open>rust/phonecam-desktop/src-tauri/src\<close>). The sockets and pipes of the operating system are
  records of functions on an abstract world \<open>'w\<close>. The Windows loops over \<open>WriteFile\<close> and
  \<open>ReadFile\<close> are the source's own and are modelled as loops; the Unix socket calls
  \<open>write_all\<close> and \<open>read_exact\<close> are single calls of the standard library.
\<close>

section \<open>Frames on the wire\<close>

datatype io_failure =
    BadFrame plane_check
  | NotConnected
  | OsError ustr
  | WriteZero
  | PipeClosed
  | PipeNotFound int
  | PipeBusy int
  | PipeBusyTimeout
  | PipeConnectFailed int
and plane_check = ZeroDimensions | OddDimensions | DimensionsOverflow | PayloadOverflow
  | PayloadSizeMismatch nat nat

definition expected_nv12_payload_len :: "u32 \<Rightarrow> u32 \<Rightarrow> (nat, io_failure) result" where
  "expected_nv12_payload_len w h =
     (if w = 0 \<or> h = 0 then Err (BadFrame ZeroDimensions)
      else if w mod 2 \<noteq> 0 \<or> h mod 2 \<noteq> 0 then Err (BadFrame OddDimensions)
      else
        and_then (ok_or (BadFrame DimensionsOverflow) (checked_mul_usize (unat w) (unat h))) (\<lambda>pixels.
          ok_or (BadFrame PayloadOverflow) (checked_add_usize pixels (pixels div 2))))"

definition native_frame_header :: "u32 \<Rightarrow> u32 \<Rightarrow> u64 \<Rightarrow> u8 list" where
  "native_frame_header w h ts = to_le_bytes w @ to_le_bytes h @ to_le_bytes ts"

text \<open>
  The body both drivers share: the size check, the connection check, then the header and the
  payload through \<open>write_all\<close>.
\<close>

definition write_native_frame ::
  "('w \<Rightarrow> u8 list \<Rightarrow> (unit, io_failure) result \<times> 'w) \<Rightarrow> bool \<Rightarrow> 'w \<Rightarrow>
   u32 \<Rightarrow> u32 \<Rightarrow> u64 \<Rightarrow> u8 list \<Rightarrow> (unit, io_failure) result \<times> 'w" where
  "write_native_frame write_all connected world w h ts data =
     (case expected_nv12_payload_len w h of
        Ok expected \<Rightarrow>
          if length data \<noteq> expected
          then (Err (BadFrame (PayloadSizeMismatch expected (length data))), world)
          else if \<not> connected then (Err NotConnected, world)
          else
            (case write_all world (native_frame_header w h ts) of
               (Ok u, world1) \<Rightarrow> write_all world1 data
             | (Err e, world1) \<Rightarrow> (Err e, world1)
             | (Panic, world1) \<Rightarrow> (Panic, world1))
      | Err e \<Rightarrow> (Err e, world)
      | Panic \<Rightarrow> (Panic, world))"

section \<open>The macOS driver\<close>

text \<open>
  \<open>mac_connect\<close> is the lookup of the app group container through the Objective-C runtime
  followed by \<open>UnixStream::connect\<close>; a timeout is in milliseconds.
\<close>

record 'w mac_os =
  mac_connect :: "'w \<Rightarrow> (ustr + unit) \<times> 'w"
  mac_write_all :: "'w \<Rightarrow> u8 list \<Rightarrow> (ustr + unit) \<times> 'w"
  mac_set_read_timeout :: "'w \<Rightarrow> nat option \<Rightarrow> (ustr + unit) \<times> 'w"
  mac_read_exact :: "'w \<Rightarrow> nat \<Rightarrow> (ustr + u8 list) \<times> 'w"
  mac_shutdown :: "'w \<Rightarrow> 'w"

text \<open>The driver is whether \<open>stream\<close> is \<open>Some\<close>.\<close>

type_synonym native_driver = bool

definition driver_new :: native_driver where
  "driver_new = False"

definition macos_connect ::
  "'w mac_os \<Rightarrow> native_driver \<Rightarrow> 'w \<Rightarrow> (unit, io_failure) result \<times> native_driver \<times> 'w" where
  "macos_connect os stream world =
     (if stream then (Ok (), stream, world)
      else case mac_connect os world of
        (Inl e, world') \<Rightarrow> (Err (OsError e), stream, world')
      | (Inr u, world') \<Rightarrow> (Ok (), True, world'))"

definition socket_write_all :: "'w mac_os \<Rightarrow> 'w \<Rightarrow> u8 list \<Rightarrow> (unit, io_failure) result \<times> 'w" where
  "socket_write_all os world data =
     (case mac_write_all os world data of
        (Inl e, world') \<Rightarrow> (Err (OsError e), world')
      | (Inr u, world') \<Rightarrow> (Ok (), world'))"

definition macos_write_frame ::
  "'w mac_os \<Rightarrow> native_driver \<Rightarrow> 'w \<Rightarrow> u32 \<Rightarrow> u32 \<Rightarrow> u64 \<Rightarrow> u8 list \<Rightarrow> (unit, io_failure) result \<times> 'w" where
  "macos_write_frame os stream = write_native_frame (socket_write_all os) stream"

text \<open>
  The read runs under a one-second timeout that is cleared again whatever its outcome; the
  error of the read goes before the error of clearing the timeout.
\<close>

definition macos_read_format_event ::
  "'w mac_os \<Rightarrow> native_driver \<Rightarrow> 'w \<Rightarrow> (u8 list, io_failure) result \<times> 'w" where
  "macos_read_format_event os stream world =
     (if \<not> stream then (Err NotConnected, world)
      else case mac_set_read_timeout os world (Some 1000) of
        (Inl e, world1) \<Rightarrow> (Err (OsError e), world1)
      | (Inr u, world1) \<Rightarrow>
          (case mac_read_exact os world1 16 of
             (got, world2) \<Rightarrow>
               (case mac_set_read_timeout os world2 None of
                  (reset, world3) \<Rightarrow>
                    (case got of
                       Inl e \<Rightarrow> (Err (OsError e), world3)
                     | Inr event \<Rightarrow>
                         (case reset of
                            Inl e \<Rightarrow> (Err (OsError e), world3)
                          | Inr v \<Rightarrow> (Ok event, world3))))))"

definition macos_disconnect :: "'w mac_os \<Rightarrow> native_driver \<Rightarrow> 'w \<Rightarrow> native_driver \<times> 'w" where
  "macos_disconnect os stream world = (if stream then (False, mac_shutdown os world) else (False, world))"

section \<open>The Windows driver\<close>

text \<open>
  The calls of \<open>kernel32\<close>, each with the error code \<open>last_os_error\<close> reports after it failed.
  \<open>win_write_file\<close> answers the number of bytes written, \<open>win_read_file\<close> the bytes read into a
  buffer of the given length. A timeout is a number of milliseconds.
\<close>

record 'w win_os =
  win_create_file :: "'w \<Rightarrow> (int + unit) \<times> 'w"
  win_wait_named_pipe :: "'w \<Rightarrow> nat \<Rightarrow> (int + unit) \<times> 'w"
  win_write_file :: "'w \<Rightarrow> u8 list \<Rightarrow> (ustr + u32) \<times> 'w"
  win_read_file :: "'w \<Rightarrow> nat \<Rightarrow> (ustr + u8 list) \<times> 'w"
  win_close :: "'w \<Rightarrow> 'w"

definition ERROR_FILE_NOT_FOUND :: int where "ERROR_FILE_NOT_FOUND = 2"
definition ERROR_PATH_NOT_FOUND :: int where "ERROR_PATH_NOT_FOUND = 3"
definition ERROR_SEM_TIMEOUT :: int where "ERROR_SEM_TIMEOUT = 121"
definition ERROR_PIPE_BUSY :: int where "ERROR_PIPE_BUSY = 231"
definition PIPE_WAIT_TIMEOUT_MS :: nat where "PIPE_WAIT_TIMEOUT_MS = 1000"

definition map_connect_error :: "int \<Rightarrow> io_failure" where
  "map_connect_error code =
     (if code = ERROR_FILE_NOT_FOUND \<or> code = ERROR_PATH_NOT_FOUND then PipeNotFound code
      else if code = ERROR_PIPE_BUSY then PipeBusy code
      else PipeConnectFailed code)"

definition connect_named_pipe :: "'w win_os \<Rightarrow> 'w \<Rightarrow> (unit, io_failure) result \<times> 'w" where
  "connect_named_pipe os world =
     (case win_create_file os world of
        (Inr u, world1) \<Rightarrow> (Ok (), world1)
      | (Inl code, world1) \<Rightarrow>
          if code \<noteq> ERROR_PIPE_BUSY then (Err (map_connect_error code), world1)
          else
            (case win_wait_named_pipe os world1 PIPE_WAIT_TIMEOUT_MS of
               (Inl wait, world2) \<Rightarrow>
                 (Err (if wait = ERROR_SEM_TIMEOUT then PipeBusyTimeout else map_connect_error wait), world2)
             | (Inr v, world2) \<Rightarrow>
                 (case win_create_file os world2 of
                    (Inr u, world3) \<Rightarrow> (Ok (), world3)
                  | (Inl code2, world3) \<Rightarrow> (Err (map_connect_error code2), world3))))"

definition windows_connect ::
  "'w win_os \<Rightarrow> native_driver \<Rightarrow> 'w \<Rightarrow> (unit, io_failure) result \<times> native_driver \<times> 'w" where
  "windows_connect os pipe world =
     (if pipe then (Ok (), pipe, world)
      else case connect_named_pipe os world of
        (Ok u, world') \<Rightarrow> (Ok (), True, world')
      | (r, world') \<Rightarrow> (r, pipe, world'))"

function write_all_to_pipe :: "'w win_os \<Rightarrow> 'w \<Rightarrow> u8 list \<Rightarrow> (unit, io_failure) result \<times> 'w" where
  "write_all_to_pipe os world bytes =
     (if bytes = [] then (Ok (), world)
      else
        let chunk_len = min (length bytes) (2 ^ 32 - 1) in
        case win_write_file os world (take chunk_len bytes) of
          (Inl e, world1) \<Rightarrow> (Err (OsError e), world1)
        | (Inr bytes_written, world1) \<Rightarrow>
            if bytes_written = 0 then (Err WriteZero, world1)
            else if length bytes < unat bytes_written then (Panic, world1)
            else write_all_to_pipe os world1 (drop (unat bytes_written) bytes))"
  by pat_completeness auto
termination
  by (relation "measure (\<lambda>(os, world, bytes). length bytes)") (auto simp: unat_gt_0)

declare write_all_to_pipe.simps [simp del]

text \<open>The buffer is what has been read so far; \<open>n\<close> bytes of it are still to be filled.\<close>

function read_exact_from_pipe ::
  "'w win_os \<Rightarrow> 'w \<Rightarrow> nat \<Rightarrow> u8 list \<Rightarrow> (u8 list, io_failure) result \<times> 'w" where
  "read_exact_from_pipe os world n buffer =
     (if n = 0 then (Ok buffer, world)
      else
        case win_read_file os world (min n (2 ^ 32 - 1)) of
          (Inl e, world1) \<Rightarrow> (Err (OsError e), world1)
        | (Inr chunk, world1) \<Rightarrow>
            if chunk = [] then (Err PipeClosed, world1)
            else if n < length chunk then (Panic, world1)
            else read_exact_from_pipe os world1 (n - length chunk) (buffer @ chunk))"
  by pat_completeness auto
termination
  by (relation "measure (\<lambda>(os, world, n, buffer). n)") auto

declare read_exact_from_pipe.simps [simp del]

definition windows_write_frame ::
  "'w win_os \<Rightarrow> native_driver \<Rightarrow> 'w \<Rightarrow> u32 \<Rightarrow> u32 \<Rightarrow> u64 \<Rightarrow> u8 list \<Rightarrow> (unit, io_failure) result \<times> 'w" where
  "windows_write_frame os pipe = write_native_frame (write_all_to_pipe os) pipe"

definition windows_read_format_event ::
  "'w win_os \<Rightarrow> native_driver \<Rightarrow> 'w \<Rightarrow> (u8 list, io_failure) result \<times> 'w" where
  "windows_read_format_event os pipe world =
     (if \<not> pipe then (Err NotConnected, world) else read_exact_from_pipe os world 16 [])"

definition windows_disconnect :: "'w win_os \<Rightarrow> native_driver \<Rightarrow> 'w \<Rightarrow> native_driver \<times> 'w" where
  "windows_disconnect os pipe world = (if pipe then (False, win_close os world) else (False, world))"

section \<open>Sizes and headers\<close>

lemma expected_len_Ok:
  "expected_nv12_payload_len w h = Ok n \<longleftrightarrow>
     0 < unat w \<and> 0 < unat h \<and> even (unat w) \<and> even (unat h) \<and>
     unat w * unat h \<le> USIZE_MAX \<and> unat w * unat h + unat w * unat h div 2 \<le> USIZE_MAX \<and>
     n = unat w * unat h + unat w * unat h div 2"
  by (auto simp: expected_nv12_payload_len_def result_eqs unat_mod_2 unat_pos)

lemma expected_len_no_panic [simp]: "expected_nv12_payload_len w h \<noteq> Panic"
  by (auto simp: expected_nv12_payload_len_def result_eqs)

lemma length_native_frame_header [simp]: "length (native_frame_header w h ts) = 16"
  by (simp add: native_frame_header_def)

lemma packed_matches_expected_len:
  assumes "packed_nv12 f = Ok data"
  shows "expected_nv12_payload_len (nv_width f) (nv_height f) = Ok (length data)"
proof -
  let ?w = "unat (nv_width f)" and ?h = "unat (nv_height f)"
  from assms have pos: "0 < ?w" "0 < ?h" and cover: "planes_cover f ?w ?h"
    and bound: "?w * ?h + ?w * ?h div 2 \<le> USIZE_MAX"
    and data: "data = plane_rows (y_plane f) (y_stride f) ?w ?h @
      plane_rows (uv_plane f) (uv_stride f) ?w (?h div 2)"
    by (auto simp: packed_nv12_Ok Let_def)
  have "length data = ?w * ?h + ?w * ?h div 2"
    using cover data by (auto simp: planes_cover_def length_plane_rows algebra_simps elim!: evenE)
  with pos cover bound show ?thesis by (auto simp: expected_len_Ok planes_cover_def)
qed

section \<open>The pipe loops\<close>

text \<open>
  What \<open>WriteFile\<close> and \<open>ReadFile\<close> promise: a write takes a prefix of what it is given and
  appends it to what the other end will read, a failed write changes nothing there, and a
  read returns at most what was asked for, from the front of what is waiting.
\<close>

definition honest_write :: "'w win_os \<Rightarrow> ('w \<Rightarrow> u8 list) \<Rightarrow> bool" where
  "honest_write os sink \<longleftrightarrow>
     (\<forall>world bytes n world'. win_write_file os world bytes = (Inr n, world') \<longrightarrow>
        unat n \<le> length bytes \<and> sink world' = sink world @ take (unat n) bytes) \<and>
     (\<forall>world bytes e world'. win_write_file os world bytes = (Inl e, world') \<longrightarrow> sink world' = sink world)"

definition honest_read :: "'w win_os \<Rightarrow> ('w \<Rightarrow> u8 list) \<Rightarrow> bool" where
  "honest_read os source \<longleftrightarrow>
     (\<forall>world n chunk world'. win_read_file os world n = (Inr chunk, world') \<longrightarrow>
        length chunk \<le> n \<and> source world = chunk @ source world')"

lemma write_all_to_pipe_prefix:
  assumes "honest_write os sink"
  shows "write_all_to_pipe os world bytes = (r, world') \<Longrightarrow>
    \<exists>n \<le> length bytes. sink world' = sink world @ take n bytes \<and> r \<noteq> Panic \<and>
      (r = Ok () \<longleftrightarrow> n = length bytes)"
proof (induction "length bytes" arbitrary: world bytes rule: less_induct)
  case less
  show ?case
  proof (cases "bytes = []")
    case True
    with less.prems show ?thesis by (auto simp: write_all_to_pipe.simps [of os world])
  next
    case nonempty: False
    let ?chunk = "take (min (length bytes) (2 ^ 32 - 1)) bytes"
    obtain answer world1 where call: "win_write_file os world ?chunk = (answer, world1)"
      by fastforce
    show ?thesis
    proof (cases answer)
      case (Inl e)
      with call assms have "sink world1 = sink world" by (auto simp: honest_write_def)
      with less.prems nonempty call Inl show ?thesis
        by (intro exI [of _ 0]) (auto simp: write_all_to_pipe.simps [of os world] Let_def)
    next
      case (Inr n)
      with call assms have n: "unat n \<le> length bytes" "sink world1 = sink world @ take (unat n) bytes"
        unfolding honest_write_def by fastforce+
      show ?thesis
      proof (cases "n = 0")
        case True
        with less.prems nonempty call Inr n show ?thesis
          by (intro exI [of _ 0]) (auto simp: write_all_to_pipe.simps [of os world] Let_def)
      next
        case False
        then have "length (drop (unat n) bytes) < length bytes" using nonempty by (simp add: unat_gt_0)
        moreover have "write_all_to_pipe os world1 (drop (unat n) bytes) = (r, world')"
          using less.prems nonempty call Inr n False
          by (simp add: write_all_to_pipe.simps [of os world] Let_def)
        ultimately obtain m where "m \<le> length bytes - unat n"
          "sink world' = sink world1 @ take m (drop (unat n) bytes)" "r \<noteq> Panic"
          "r = Ok () \<longleftrightarrow> m = length bytes - unat n"
          using less.hyps by fastforce
        with n show ?thesis
          by (intro exI [of _ "unat n + m"]) (auto simp: take_add)
      qed
    qed
  qed
qed

lemma read_exact_from_pipe_prefix:
  assumes "honest_read os source"
  shows "read_exact_from_pipe os world n buffer = (r, world') \<Longrightarrow>
    r \<noteq> Panic \<and>
    (\<forall>out. r = Ok out \<longrightarrow> (\<exists>got. out = buffer @ got \<and> length got = n \<and> source world = got @ source world'))"
proof (induction n arbitrary: world buffer rule: less_induct)
  case (less n)
  show ?case
  proof (cases "n = 0")
    case True
    with less.prems show ?thesis by (auto simp: read_exact_from_pipe.simps [of os world])
  next
    case nonzero: False
    obtain answer world1 where call: "win_read_file os world (min n (2 ^ 32 - 1)) = (answer, world1)"
      by fastforce
    show ?thesis
    proof (cases answer)
      case (Inl e)
      with less.prems nonzero call show ?thesis
        by (auto simp: read_exact_from_pipe.simps [of os world])
    next
      case (Inr chunk)
      with call assms have chunk: "length chunk \<le> n" "source world = chunk @ source world1"
        unfolding honest_read_def by fastforce+
      show ?thesis
      proof (cases "chunk = []")
        case True
        with less.prems nonzero call Inr show ?thesis
          by (auto simp: read_exact_from_pipe.simps [of os world])
      next
        case False
        have "read_exact_from_pipe os world1 (n - length chunk) (buffer @ chunk) = (r, world')"
          using less.prems nonzero call Inr False chunk
          by (simp add: read_exact_from_pipe.simps [of os world])
        moreover have "n - length chunk < n" using nonzero False by simp
        ultimately have "r \<noteq> Panic \<and> (\<forall>out. r = Ok out \<longrightarrow>
            (\<exists>got. out = (buffer @ chunk) @ got \<and> length got = n - length chunk \<and>
               source world1 = got @ source world'))"
          by (intro less.IH)
        with chunk show ?thesis by fastforce
      qed
    qed
  qed
qed

section \<open>Properties\<close>

text \<open>A pipe that takes at most three bytes per call and serves at most five, for the witnesses.\<close>

definition sample_pipe :: "u8 list win_os" where
  "sample_pipe =
     \<lparr>win_create_file = (\<lambda>w. (Inr (), w)), win_wait_named_pipe = (\<lambda>w t. (Inr (), w)),
      win_write_file = (\<lambda>w bytes. (Inr (of_nat (min 3 (length bytes))), w @ take 3 bytes)),
      win_read_file = (\<lambda>w n. (Inr (take (min 5 n) w), drop (min 5 n) w)), win_close = id\<rparr>"

lemma sample_pipe_honest: "honest_write sample_pipe id" "honest_read sample_pipe id"
proof -
  have "min 3 k < 2 ^ 32" for k :: nat by (rule le_less_trans [of _ 3]) simp_all
  then have "unat (of_nat (min 3 k) :: u32) = min 3 k" for k
    by (simp add: unat_of_nat take_bit_nat_eq_self_iff)
  then show "honest_write sample_pipe id"
    by (auto simp: honest_write_def sample_pipe_def min_def split: if_splits)
  show "honest_read sample_pipe id" by (auto simp: honest_read_def sample_pipe_def)
qed

text \<open>
  On a pipe whose \<open>WriteFile\<close> reports honestly how much it took, the Windows driver's write
  loop ends without a panic, has always sent a prefix of its bytes in order whatever the
  chunking, and succeeds exactly when it has sent them all.
\<close>

theorem pipe_write_loop_sends_prefix:
  assumes "honest_write os sink" "write_all_to_pipe os world bytes = (r, world')"
  shows "\<exists>n \<le> length bytes. sink world' = sink world @ take n bytes \<and> r \<noteq> Panic \<and>
    (r = Ok () \<longleftrightarrow> n = length bytes)"
  by (rule write_all_to_pipe_prefix [OF assms])

theorem pipe_write_loop_sends_prefix_witness:
  "\<exists>n \<le> 7. [1, 2, 3, 4, 5, 6, 7 :: u8] = take n [1, 2, 3, 4, 5, 6, 7] \<and> n = 7"
proof -
  have "write_all_to_pipe sample_pipe [] [1, 2, 3, 4, 5, 6, 7] = (Ok (), [1, 2, 3, 4, 5, 6, 7])"
    by (simp add: write_all_to_pipe.simps sample_pipe_def)
  from pipe_write_loop_sends_prefix [OF sample_pipe_honest(1) this] show ?thesis by auto
qed

lemma header_fields:
  "from_le_bytes (take 4 (native_frame_header w h ts)) = w"
  "from_le_bytes (take 4 (drop 4 (native_frame_header w h ts))) = h"
  "from_le_bytes (drop 8 (native_frame_header w h ts)) = ts"
  by (simp_all add: native_frame_header_def)

lemma write_pair:
  assumes "honest_write os sink" "expected_nv12_payload_len w h = Ok (length data)"
    and "windows_write_frame os pipe world w h ts data = (r, world')"
  shows "r \<noteq> Panic \<and> (\<not> pipe \<longrightarrow> r = Err NotConnected \<and> world' = world) \<and>
    (r = Ok () \<longrightarrow> sink world' = sink world @ native_frame_header w h ts @ data)"
proof (cases pipe)
  case True
  let ?header = "native_frame_header w h ts"
  obtain r1 world1 where first: "write_all_to_pipe os world ?header = (r1, world1)" by fastforce
  from write_all_to_pipe_prefix [OF assms(1) first]
  have r1: "r1 \<noteq> Panic" "r1 = Ok () \<Longrightarrow> sink world1 = sink world @ ?header" by auto
  show ?thesis
  proof (cases r1)
    case (Ok u)
    then have "write_all_to_pipe os world1 data = (r, world')"
      using assms(3) True assms(2) first by (simp add: windows_write_frame_def write_native_frame_def)
    from write_all_to_pipe_prefix [OF assms(1) this] r1 Ok True show ?thesis by auto
  qed (use assms(3) True assms(2) first r1 in \<open>auto simp: windows_write_frame_def write_native_frame_def\<close>)
qed (use assms(2,3) in \<open>auto simp: windows_write_frame_def write_native_frame_def\<close>)

text \<open>
  A frame written by the Windows driver is one packet on the pipe: sixteen bytes of header
  holding width, height and timestamp in little-endian order, then exactly the payload that
  \<open>packed_nv12\<close> made, whose size the header determines. No packed frame is refused for its
  size, and an unconnected driver writes nothing.
\<close>

theorem windows_write_frame_packet:
  assumes "honest_write os sink" "packed_nv12 f = Ok data"
    and "windows_write_frame os pipe world (nv_width f) (nv_height f) ts data = (r, world')"
  shows "r \<noteq> Panic \<and> (\<not> pipe \<longrightarrow> r = Err NotConnected \<and> world' = world) \<and>
    (r = Ok () \<longrightarrow>
      (\<exists>header. sink world' = sink world @ header @ data \<and> length header = 16 \<and>
         from_le_bytes (take 4 header) = nv_width f \<and>
         from_le_bytes (take 4 (drop 4 header)) = nv_height f \<and>
         from_le_bytes (drop 8 header) = ts \<and>
         expected_nv12_payload_len (nv_width f) (nv_height f) = Ok (length data)))"
proof -
  note len = packed_matches_expected_len [OF assms(2)]
  from write_pair [OF assms(1) len assms(3)] len show ?thesis
    by (auto intro!: exI [of _ "native_frame_header (nv_width f) (nv_height f) ts"] simp: header_fields)
qed

theorem windows_write_frame_packet_witness:
  "\<exists>header. [2, 0, 0, 0, 2, 0, 0, 0, 9, 0, 0, 0, 0, 0, 0, 0, 10, 20, 30, 40, 128, 64 :: u8] =
     header @ [10, 20, 30, 40, 128, 64] \<and> from_le_bytes (take 4 header) = (2 :: u32)"
proof -
  have packed: "packed_nv12 sample_nv12 = Ok [10, 20, 30, 40, 128, 64]"
    using sample_conversions(3) by (auto simp: nv12_to_packed_def result_eqs)
  have "expected_nv12_payload_len 2 2 = Ok 6"
    by (simp add: expected_len_Ok USIZE_MAX_def)
  then have "windows_write_frame sample_pipe True [] (nv_width sample_nv12) (nv_height sample_nv12) 9
      [10, 20, 30, 40, 128, 64] =
    (Ok (), [2, 0, 0, 0, 2, 0, 0, 0, 9, 0, 0, 0, 0, 0, 0, 0, 10, 20, 30, 40, 128, 64])"
    by (simp add: windows_write_frame_def write_native_frame_def sample_nv12_def
        native_frame_header_def to_le_bytes_def upt_rec write_all_to_pipe.simps sample_pipe_def)
  from windows_write_frame_packet [OF sample_pipe_honest(1) packed this] show ?thesis
    by (auto simp: sample_nv12_def)
qed

end
