(* ===== verification/Output.thy ===== *)
theory Output
  imports Linux_Driver Native_Driver
begin

text \<open>
  \<open>OutputDevice\<close> of \<open>rust/phonecam-desktop/src-tauri/src/output.rs\<close> on its three platforms, and
  the contract the pipeline relies on, stated as a locale and discharged for the model of
  the code.

  A device value carries the operating system it runs on, the world that system acts on and
  the fields of the struct.
\<close>

section \<open>The struct on each platform\<close>

record 'w linux_output =
  lo_world :: 'w
  lo_converter :: "converter option"
  lo_committed :: "stream_profile option"

record 'w native_output =
  no_world :: 'w
  no_driver :: native_driver
  no_committed :: "stream_profile option"

datatype output_error =
    UnsupportedOutputProfile profile_validation_error
  | ModuleUnavailable driver_error
  | NoV4l2Device
  | OpenFailed ustr
  | ProbeFailed driver_error
  | OutputDoesNotSupport u16 u16 u8
  | CommitFailed driver_error
  | ConverterInitialization convert_error
  | NotCommitted
  | FrameDoesNotMatch
  | ConverterMissing
  | ConversionFailed convert_error
  | DeviceWriteFailed driver_error
  | DriverConnectFailed io_failure
  | FormatEventReadFailed io_failure
  | FormatEventInvalid format_event_error
  | NativeFormatDiffers native_output_format stream_profile
  | PackingFailed pack_error
  | DriverWriteFailed io_failure

definition u16_to_u32 :: "u16 \<Rightarrow> u32" where
  "u16_to_u32 w = ucast w"

definition u8_to_u32 :: "u8 \<Rightarrow> u32" where
  "u8_to_u32 w = ucast w"

definition frame_matches :: "nv12_frame \<Rightarrow> stream_profile \<Rightarrow> bool" where
  "frame_matches f p \<longleftrightarrow> nv_width f = u16_to_u32 (width p) \<and> nv_height f = u16_to_u32 (height p)"

section \<open>Linux\<close>

text \<open>
  \<open>PHONECAM_V4L2_DEVICE\<close>, when it is set to more than white space, names the device; otherwise
  the first device listed is used.
\<close>

definition preferred_output_device_path :: "ustr option \<Rightarrow> ustr option" where
  "preferred_output_device_path value =
     (case value of
        None \<Rightarrow> None
      | Some v \<Rightarrow> let trimmed = trim v in if trimmed = [] then None else Some trimmed)"

definition linux_open ::
  "('w \<Rightarrow> ustr \<Rightarrow> (ustr + unit) \<times> 'w) \<Rightarrow> bool \<Rightarrow> ustr option \<Rightarrow> ustr list \<Rightarrow> 'w \<Rightarrow>
   ('w linux_output, output_error) result" where
  "linux_open open_device module_loaded env devices world =
     and_then (map_err ModuleUnavailable (ensure_v4l2loopback_loaded module_loaded)) (\<lambda>_.
     and_then (ok_or NoV4l2Device
         (case preferred_output_device_path env of
            Some path \<Rightarrow> Some path
          | None \<Rightarrow> (case devices of [] \<Rightarrow> None | d # ds \<Rightarrow> Some d))) (\<lambda>path.
       case open_device world path of
         (Inl e, world') \<Rightarrow> Err (OpenFailed e)
       | (Inr u, world') \<Rightarrow> Ok \<lparr>lo_world = world', lo_converter = None, lo_committed = None\<rparr>))"

definition linux_preflight ::
  "'w v4l2 \<Rightarrow> 'w linux_output \<Rightarrow> stream_profile \<Rightarrow> (unit, output_error) result" where
  "linux_preflight k out p =
     and_then (map_err UnsupportedOutputProfile (validate p)) (\<lambda>_.
     and_then (map_err ProbeFailed
         (supports_format k (lo_world out) (u16_to_u32 (width p)) (u16_to_u32 (height p)) YUYV
            (u8_to_u32 (fps p)))) (\<lambda>supported.
       if \<not> supported then Err (OutputDoesNotSupport (width p) (height p) (fps p)) else Ok ()))"

definition linux_commit ::
  "'w v4l2 \<Rightarrow> 'w linux_output \<Rightarrow> stream_profile \<Rightarrow> (unit, output_error) result \<times> 'w linux_output" where
  "linux_commit k out p =
     (case linux_preflight k out p of
        Ok u \<Rightarrow>
          (case set_format k (lo_world out) (u16_to_u32 (width p)) (u16_to_u32 (height p)) YUYV
                  (u8_to_u32 (fps p)) of
             (Ok v, world') \<Rightarrow>
               (case converter_new (u16_to_u32 (width p)) (u16_to_u32 (height p)) of
                  Ok c \<Rightarrow> (Ok (), out\<lparr>lo_world := world', lo_converter := Some c, lo_committed := Some p\<rparr>)
                | Err e \<Rightarrow> (Err (ConverterInitialization e), out\<lparr>lo_world := world'\<rparr>)
                | Panic \<Rightarrow> (Panic, out\<lparr>lo_world := world'\<rparr>))
           | (Err e, world') \<Rightarrow> (Err (CommitFailed e), out\<lparr>lo_world := world'\<rparr>)
           | (Panic, world') \<Rightarrow> (Panic, out\<lparr>lo_world := world'\<rparr>))
      | Err e \<Rightarrow> (Err e, out)
      | Panic \<Rightarrow> (Panic, out))"

definition linux_output_format :: "'w linux_output \<Rightarrow> native_output_format option" where
  "linux_output_format out = map_option (native_format_of Yuyv) (lo_committed out)"

definition linux_write_frame ::
  "'w v4l2 \<Rightarrow> 'w linux_output \<Rightarrow> nv12_frame \<Rightarrow> u64 \<Rightarrow> (unit, output_error) result \<times> 'w linux_output" where
  "linux_write_frame k out f timestamp_ns =
     (case lo_committed out of
        None \<Rightarrow> (Err NotCommitted, out)
      | Some p \<Rightarrow>
          if \<not> frame_matches f p then (Err FrameDoesNotMatch, out)
          else
            (case lo_converter out of
               None \<Rightarrow> (Err ConverterMissing, out)
             | Some c \<Rightarrow>
                 (case convert c f of
                    Ok y \<Rightarrow>
                      (case v4l2_write_frame k (lo_world out) (yuyv_data y) of
                         (r, world') \<Rightarrow> (map_err DeviceWriteFailed r, out\<lparr>lo_world := world'\<rparr>))
                  | Err e \<Rightarrow> (Err (ConversionFailed e), out)
                  | Panic \<Rightarrow> (Panic, out))))"

section \<open>macOS and Windows\<close>

text \<open>
  The two platforms differ in the driver only. \<open>read_event\<close> and \<open>write\<close> below are the driver's
  \<open>read_format_event\<close> and \<open>write_frame\<close>.
\<close>

definition native_open ::
  "(native_driver \<Rightarrow> 'w \<Rightarrow> (unit, io_failure) result \<times> native_driver \<times> 'w) \<Rightarrow> 'w \<Rightarrow>
   ('w native_output, output_error) result" where
  "native_open connect world =
     (case connect driver_new world of
        (Ok u, driver, world') \<Rightarrow> Ok \<lparr>no_world = world', no_driver = driver, no_committed = None\<rparr>
      | (Err e, driver, world') \<Rightarrow> Err (DriverConnectFailed e)
      | (Panic, driver, world') \<Rightarrow> Panic)"

definition native_preflight :: "'w native_output \<Rightarrow> stream_profile \<Rightarrow> (unit, output_error) result" where
  "native_preflight out p = map_err UnsupportedOutputProfile (validate p)"

definition native_commit ::
  "(native_driver \<Rightarrow> 'w \<Rightarrow> (u8 list, io_failure) result \<times> 'w) \<Rightarrow> 'w native_output \<Rightarrow> stream_profile \<Rightarrow>
   (unit, output_error) result \<times> 'w native_output" where
  "native_commit read_event out p =
     (case native_preflight out p of
        Ok u \<Rightarrow>
          (case read_event (no_driver out) (no_world out) of
             (Ok bytes, world') \<Rightarrow>
               (case parse_format_event bytes of
                  Ok native \<Rightarrow>
                    if nof_width native \<noteq> width p \<or> nof_height native \<noteq> height p \<or>
                       nof_fps native \<noteq> fps p \<or> pixel_format native \<noteq> Nv12
                    then (Err (NativeFormatDiffers native p), out\<lparr>no_world := world'\<rparr>)
                    else (Ok (), out\<lparr>no_world := world', no_committed := Some p\<rparr>)
                | Err e \<Rightarrow> (Err (FormatEventInvalid e), out\<lparr>no_world := world'\<rparr>)
                | Panic \<Rightarrow> (Panic, out\<lparr>no_world := world'\<rparr>))
           | (Err e, world') \<Rightarrow> (Err (FormatEventReadFailed e), out\<lparr>no_world := world'\<rparr>)
           | (Panic, world') \<Rightarrow> (Panic, out\<lparr>no_world := world'\<rparr>))
      | Err e \<Rightarrow> (Err e, out)
      | Panic \<Rightarrow> (Panic, out))"

definition native_output_format_of :: "'w native_output \<Rightarrow> native_output_format option" where
  "native_output_format_of out = map_option (native_format_of Nv12) (no_committed out)"

definition native_write_frame ::
  "(native_driver \<Rightarrow> 'w \<Rightarrow> u32 \<Rightarrow> u32 \<Rightarrow> u64 \<Rightarrow> u8 list \<Rightarrow> (unit, io_failure) result \<times> 'w) \<Rightarrow>
   'w native_output \<Rightarrow> nv12_frame \<Rightarrow> u64 \<Rightarrow> (unit, output_error) result \<times> 'w native_output" where
  "native_write_frame write out f timestamp_ns =
     (case no_committed out of
        None \<Rightarrow> (Err NotCommitted, out)
      | Some p \<Rightarrow>
          if \<not> frame_matches f p then (Err FrameDoesNotMatch, out)
          else
            (case packed_nv12 f of
               Ok data \<Rightarrow>
                 (case write (no_driver out) (no_world out) (nv_width f) (nv_height f) timestamp_ns data of
                    (r, world') \<Rightarrow> (map_err DriverWriteFailed r, out\<lparr>no_world := world'\<rparr>))
             | Err e \<Rightarrow> (Err (PackingFailed e), out)
             | Panic \<Rightarrow> (Panic, out)))"

section \<open>The device of any platform\<close>

text \<open>
  Conditional compilation gives the program one of three \<open>OutputDevice\<close> structs; a value of the
  type below is a device of one of them with the system it runs on.
\<close>

datatype ('l, 'm, 'w) output_device =
    LinuxDevice "'l v4l2" "'l linux_output"
  | MacOsDevice "'m mac_os" "'m native_output"
  | WindowsDevice "'w win_os" "'w native_output"

fun output_preflight :: "('l, 'm, 'w) output_device \<Rightarrow> stream_profile \<Rightarrow> (unit, output_error) result" where
  "output_preflight (LinuxDevice k out) p = linux_preflight k out p"
| "output_preflight (MacOsDevice os out) p = native_preflight out p"
| "output_preflight (WindowsDevice os out) p = native_preflight out p"

fun output_commit ::
  "('l, 'm, 'w) output_device \<Rightarrow> stream_profile \<Rightarrow>
   (unit, output_error) result \<times> ('l, 'm, 'w) output_device" where
  "output_commit (LinuxDevice k out) p = map_prod id (LinuxDevice k) (linux_commit k out p)"
| "output_commit (MacOsDevice os out) p =
     map_prod id (MacOsDevice os) (native_commit (macos_read_format_event os) out p)"
| "output_commit (WindowsDevice os out) p =
     map_prod id (WindowsDevice os) (native_commit (windows_read_format_event os) out p)"

fun output_format :: "('l, 'm, 'w) output_device \<Rightarrow> native_output_format option" where
  "output_format (LinuxDevice k out) = linux_output_format out"
| "output_format (MacOsDevice os out) = native_output_format_of out"
| "output_format (WindowsDevice os out) = native_output_format_of out"

fun output_write_frame ::
  "('l, 'm, 'w) output_device \<Rightarrow> nv12_frame \<Rightarrow> u64 \<Rightarrow>
   (unit, output_error) result \<times> ('l, 'm, 'w) output_device" where
  "output_write_frame (LinuxDevice k out) f ts =
     map_prod id (LinuxDevice k) (linux_write_frame k out f ts)"
| "output_write_frame (MacOsDevice os out) f ts =
     map_prod id (MacOsDevice os) (native_write_frame (macos_write_frame os) out f ts)"
| "output_write_frame (WindowsDevice os out) f ts =
     map_prod id (WindowsDevice os) (native_write_frame (windows_write_frame os) out f ts)"

fun output_pixel_format :: "('l, 'm, 'w) output_device \<Rightarrow> native_pixel_format" where
  "output_pixel_format (LinuxDevice k out) = Yuyv"
| "output_pixel_format (MacOsDevice os out) = Nv12"
| "output_pixel_format (WindowsDevice os out) = Nv12"

fun_cases output_commit_cases: "output_commit d p = (r, d')"
fun_cases output_write_cases: "output_write_frame d f ts = (r, d')"

section \<open>The contract\<close>

text \<open>
  A client sees the format of a device through \<open>fmt\<close>. A successful commit has passed the
  preflight and makes the committed profile the format; a failed one leaves the format; a
  frame is accepted only if it has the dimensions of the format, and never changes it.
\<close>

locale output_contract =
  fixes preflight :: "'d \<Rightarrow> stream_profile \<Rightarrow> (unit, 'e) result"
    and commit :: "'d \<Rightarrow> stream_profile \<Rightarrow> (unit, 'e) result \<times> 'd"
    and fmt :: "'d \<Rightarrow> native_output_format option"
    and write_frame :: "'d \<Rightarrow> nv12_frame \<Rightarrow> u64 \<Rightarrow> (unit, 'e) result \<times> 'd"
    and px :: "'d \<Rightarrow> native_pixel_format"
  assumes preflight_valid: "preflight d p = Ok u \<Longrightarrow> well_formed_profile p"
    and commit_Ok: "commit d p = (Ok u, d') \<Longrightarrow>
      preflight d p = Ok () \<and> fmt d' = Some (native_format_of (px d) p)"
    and commit_fails: "commit d p = (r, d') \<Longrightarrow> \<not> is_ok r \<Longrightarrow> fmt d' = fmt d"
    and commit_px: "commit d p = (r, d') \<Longrightarrow> px d' = px d"
    and write_fmt: "write_frame d f ts = (r, d') \<Longrightarrow> fmt d' = fmt d \<and> px d' = px d"
    and write_Ok: "write_frame d f ts = (Ok u, d') \<Longrightarrow>
      \<exists>p. fmt d = Some (native_format_of (px d) p) \<and> frame_matches f p"

text \<open>A client's calls and what became of each, and the profile the last successful commit chose.\<close>

datatype output_call = CommitCall stream_profile | WriteCall nv12_frame u64

fun output_session ::
  "('d \<Rightarrow> stream_profile \<Rightarrow> (unit, 'e) result \<times> 'd) \<Rightarrow> ('d \<Rightarrow> nv12_frame \<Rightarrow> u64 \<Rightarrow> (unit, 'e) result \<times> 'd) \<Rightarrow>
   output_call list \<Rightarrow> 'd \<Rightarrow> (output_call \<times> (unit, 'e) result) list \<times> 'd" where
  "output_session commit write_frame [] d = ([], d)"
| "output_session commit write_frame (CommitCall p # calls) d =
     (let (r, d1) = commit d p; (log, d2) = output_session commit write_frame calls d1
      in ((CommitCall p, r) # log, d2))"
| "output_session commit write_frame (WriteCall f ts # calls) d =
     (let (r, d1) = write_frame d f ts; (log, d2) = output_session commit write_frame calls d1
      in ((WriteCall f ts, r) # log, d2))"

fun last_commit :: "(output_call \<times> (unit, 'e) result) list \<Rightarrow> stream_profile option \<Rightarrow> stream_profile option" where
  "last_commit [] p = p"
| "last_commit ((CommitCall q, r) # log) p = last_commit log (if is_ok r then Some q else p)"
| "last_commit ((WriteCall f ts, r) # log) p = last_commit log p"

fun writes_match :: "(output_call \<times> (unit, 'e) result) list \<Rightarrow> stream_profile option \<Rightarrow> bool" where
  "writes_match [] p = True"
| "writes_match ((CommitCall q, r) # log) p = writes_match log (if is_ok r then Some q else p)"
| "writes_match ((WriteCall f ts, r) # log) p =
     ((is_ok r \<longrightarrow> (case p of None \<Rightarrow> False | Some q \<Rightarrow> frame_matches f q)) \<and> writes_match log p)"

context output_contract
begin

lemma commit_step:
  assumes "commit d q = (r, d')" "fmt d = map_option (native_format_of (px d)) p"
  shows "fmt d' = map_option (native_format_of (px d')) (if is_ok r then Some q else p)"
  using assms commit_Ok [of d q] commit_fails [OF assms(1)] commit_px [OF assms(1)]
  by (cases r) auto

lemma write_step:
  assumes "write_frame d f ts = (r, d')" "fmt d = map_option (native_format_of (px d)) p"
  shows "fmt d' = map_option (native_format_of (px d')) p"
    and "is_ok r \<Longrightarrow> (case p of None \<Rightarrow> False | Some q \<Rightarrow> frame_matches f q)"
  using assms write_fmt [OF assms(1)] write_Ok [of d f ts]
  by (auto simp: is_ok_iff native_format_of_def frame_matches_def split: option.splits)

lemma session_tracks_commits:
  "output_session commit write_frame calls d = (log, d') \<Longrightarrow>
   fmt d = map_option (native_format_of (px d)) p \<Longrightarrow>
   fmt d' = map_option (native_format_of (px d')) (last_commit log p) \<and> writes_match log p"
proof (induction calls arbitrary: d p log)
  case (Cons call calls)
  show ?case
  proof (cases call)
    case (CommitCall q)
    obtain r d1 log1 where "commit d q = (r, d1)" "output_session commit write_frame calls d1 = (log1, d')"
      and "log = (CommitCall q, r) # log1"
      using Cons.prems CommitCall by (auto split: prod.splits)
    with Cons.IH commit_step [OF _ Cons.prems(2)] show ?thesis by simp
  next
    case (WriteCall f ts)
    obtain r d1 log1 where "write_frame d f ts = (r, d1)" "output_session commit write_frame calls d1 = (log1, d')"
      and "log = (WriteCall f ts, r) # log1"
      using Cons.prems WriteCall by (auto split: prod.splits)
    with Cons.IH write_step [OF _ Cons.prems(2)] show ?thesis by simp
  qed
qed simp

end

section \<open>Every platform keeps the contract\<close>

lemma map_prod_id_eq [simp]: "map_prod id g m = (r, d) \<longleftrightarrow> (\<exists>x. m = (r, x) \<and> d = g x)"
  by (cases m) auto

lemma linux_preflight_valid: "linux_preflight k out p = Ok u \<Longrightarrow> well_formed_profile p"
  by (auto simp: linux_preflight_def result_eqs protocol_checks split: if_splits)

lemma native_preflight_Ok: "native_preflight out p = Ok u \<longleftrightarrow> well_formed_profile p"
  by (simp add: native_preflight_def result_eqs protocol_checks)

lemma linux_commit_Ok:
  "linux_commit k out p = (Ok u, out') \<Longrightarrow>
   linux_preflight k out p = Ok () \<and> lo_committed out' = Some p \<and>
   converter_new (u16_to_u32 (width p)) (u16_to_u32 (height p)) = Ok (the (lo_converter out')) \<and>
   lo_converter out' \<noteq> None"
  by (auto simp: linux_commit_def split: result.splits prod.splits)

lemma linux_commit_fails:
  "linux_commit k out p = (r, out') \<Longrightarrow> \<not> is_ok r \<Longrightarrow>
   lo_committed out' = lo_committed out \<and> lo_converter out' = lo_converter out"
  by (cases r) (auto simp: linux_commit_def split: result.splits prod.splits)

lemma native_commit_Ok:
  "native_commit read_event out p = (Ok u, out') \<Longrightarrow>
   native_preflight out p = Ok () \<and> no_committed out' = Some p"
  by (auto simp: native_commit_def split: result.splits prod.splits if_splits)

lemma native_commit_fails:
  "native_commit read_event out p = (r, out') \<Longrightarrow> \<not> is_ok r \<Longrightarrow> no_committed out' = no_committed out"
  by (cases r) (auto simp: native_commit_def split: result.splits prod.splits if_splits)

lemma linux_write_cases:
  "linux_write_frame k out f ts = (r, out') \<Longrightarrow>
   lo_committed out' = lo_committed out \<and> lo_converter out' = lo_converter out \<and>
   (is_ok r \<longrightarrow> (\<exists>p. lo_committed out = Some p \<and> frame_matches f p))"
  by (auto simp: linux_write_frame_def split: result.splits prod.splits option.splits if_splits)

lemma native_write_cases:
  "native_write_frame write_frame out f ts = (r, out') \<Longrightarrow>
   no_committed out' = no_committed out \<and>
   (is_ok r \<longrightarrow> (\<exists>p. no_committed out = Some p \<and> frame_matches f p))"
  by (auto simp: native_write_frame_def split: result.splits prod.splits option.splits if_splits)

lemmas output_views = linux_output_format_def native_output_format_of_def

lemma platform_commit_Ok:
  assumes "output_commit d p = (Ok u, d')"
  shows "output_preflight d p = Ok () \<and>
    output_format d' = Some (native_format_of (output_pixel_format d) p)"
  using assms by (cases d) (auto simp: output_views dest!: linux_commit_Ok native_commit_Ok)

lemma platform_commit_fails:
  assumes "output_commit d p = (r, d')" "\<not> is_ok r"
  shows "output_format d' = output_format d"
  using assms by (cases d) (auto simp: output_views dest!: linux_commit_fails native_commit_fails)

lemma platform_write:
  assumes "output_write_frame d f ts = (r, d')"
  shows "output_format d' = output_format d \<and> output_pixel_format d' = output_pixel_format d \<and>
    (is_ok r \<longrightarrow>
      (\<exists>p. output_format d = Some (native_format_of (output_pixel_format d) p) \<and> frame_matches f p))"
proof (cases d)
  case (LinuxDevice k out)
  then show ?thesis using assms linux_write_cases by (fastforce simp: output_views)
next
  case (MacOsDevice os out)
  then show ?thesis using assms native_write_cases by (fastforce simp: output_views)
next
  case (WindowsDevice os out)
  then show ?thesis using assms native_write_cases by (fastforce simp: output_views)
qed

interpretation platform: output_contract output_preflight output_commit output_format
    output_write_frame output_pixel_format
proof unfold_locales
  fix d :: "('l, 'm, 'w) output_device" and p u
  assume "output_preflight d p = Ok u"
  then show "well_formed_profile p"
    by (cases d) (auto simp: native_preflight_Ok dest: linux_preflight_valid)
next
  fix d d' :: "('l, 'm, 'w) output_device" and p r
  assume "output_commit d p = (r, d')"
  then show "output_pixel_format d' = output_pixel_format d" by (cases d) auto
next
  fix d d' :: "('l, 'm, 'w) output_device" and p u
  assume "output_commit d p = (Ok u, d')"
  then show "output_preflight d p = Ok () \<and>
      output_format d' = Some (native_format_of (output_pixel_format d) p)"
    by (rule platform_commit_Ok)
next
  fix d d' :: "('l, 'm, 'w) output_device" and p and r :: "(unit, output_error) result"
  assume "output_commit d p = (r, d')" "\<not> is_ok r"
  then show "output_format d' = output_format d" by (rule platform_commit_fails)
next
  fix d d' :: "('l, 'm, 'w) output_device" and f ts and r :: "(unit, output_error) result"
  assume "output_write_frame d f ts = (r, d')"
  from platform_write [OF this]
  show "output_format d' = output_format d \<and> output_pixel_format d' = output_pixel_format d" by simp
next
  fix d d' :: "('l, 'm, 'w) output_device" and f ts and u :: unit
  assume "output_write_frame d f ts = (Ok u, d')"
  from platform_write [OF this]
  show "\<exists>p. output_format d = Some (native_format_of (output_pixel_format d) p) \<and> frame_matches f p"
    by simp
qed

section \<open>Linux: the converter follows the committed profile\<close>

inductive linux_reachable :: "'w v4l2 \<Rightarrow> 'w linux_output \<Rightarrow> bool" for k :: "'w v4l2" where
  opened: "linux_open open_device loaded env devices world = Ok out \<Longrightarrow> linux_reachable k out"
| committed: "linux_reachable k out \<Longrightarrow> linux_commit k out p = (r, out') \<Longrightarrow> linux_reachable k out'"
| wrote: "linux_reachable k out \<Longrightarrow> linux_write_frame k out f ts = (r, out') \<Longrightarrow> linux_reachable k out'"

definition linux_consistent :: "'w linux_output \<Rightarrow> bool" where
  "linux_consistent out \<longleftrightarrow>
     (case lo_committed out of
        None \<Rightarrow> lo_converter out = None
      | Some p \<Rightarrow> well_formed_profile p \<and>
          (\<exists>c. lo_converter out = Some c \<and>
               converter_new (u16_to_u32 (width p)) (u16_to_u32 (height p)) = Ok c))"

lemma linux_open_state:
  "linux_open open_device loaded env devices world = Ok out \<Longrightarrow>
   lo_committed out = None \<and> lo_converter out = None"
proof -
  assume "linux_open open_device loaded env devices world = Ok out"
  then obtain path where
    "(case open_device world path of
        (Inl e, world') \<Rightarrow> Err (OpenFailed e)
      | (Inr u, world') \<Rightarrow> Ok \<lparr>lo_world = world', lo_converter = None, lo_committed = None\<rparr>) = Ok out"
    unfolding linux_open_def and_then_eq_Ok by blast
  then show ?thesis by (cases "open_device world path"; cases "fst (open_device world path)") auto
qed

lemma linux_reachable_consistent: "linux_reachable k out \<Longrightarrow> linux_consistent out"
proof (induction rule: linux_reachable.induct)
  case (opened open_device loaded env devices world out)
  from linux_open_state [OF this] show ?case by (simp add: linux_consistent_def)
next
  case (committed out p r out')
  then show ?case
    using linux_commit_Ok [of k out p "()" out'] linux_commit_fails [of k out p r out']
      linux_preflight_valid [of k out p]
    by (cases r) (auto simp: linux_consistent_def split: option.splits)
next
  case (wrote out f ts r out')
  then show ?case using linux_write_cases [of k out f ts r out']
    by (simp add: linux_consistent_def split: option.splits)
qed

lemma u16_to_u32_unat [simp]: "unat (u16_to_u32 w) = unat w"
  by (simp add: u16_to_u32_def unat_u16_u32)

lemma well_formed_size: "well_formed_profile p \<Longrightarrow> 2 * (unat (width p) * unat (height p)) \<le> USIZE_MAX"
  by (auto simp: well_formed_profile_def SUPPORTED_DIMENSIONS_def USIZE_MAX_def)

lemma converts_decoded:
  assumes "decode_planar pic = Ok f" "2 * (unat (nv_width f) * unat (nv_height f)) \<le> USIZE_MAX"
  shows "\<exists>y. nv12_to_yuyv f = Ok y \<and> length (yuyv_data y) = 2 * unat (nv_width f) * unat (nv_height f)"
proof -
  let ?w = "unat (nv_width f)" and ?h = "unat (nv_height f)"
  note cover = decoded_covers [OF assms(1)]
  have half: "?w * (?h div 2) \<le> ?w * ?h" by (rule mult_le_mono2) simp
  have sizes: "?w * ?h \<le> USIZE_MAX" "?w * (?h div 2) \<le> USIZE_MAX" using assms(2) half by linarith+
  have new: "converter_new (nv_width f) (nv_height f) = Ok \<lparr>cv_width = nv_width f, cv_height = nv_height f\<rparr>"
    using cover by (simp add: converter_new_Ok planes_cover_def)
  have "nv12_to_yuyv f = Ok \<lparr>yuyv_width = nv_width f, yuyv_height = nv_height f, yuyv_data = yuyv_rows f ?w ?h\<rparr>"
    using cover assms(2) sizes
    by (simp add: nv12_to_yuyv_def new convert_Ok [OF new] mult.commute mult.left_commute)
  with cover show ?thesis by (auto simp: length_yuyv_rows planes_cover_def)
qed

section \<open>Sample systems\<close>

text \<open>
  A V4L2 device that remembers its format and the sizes written to it, and whose frame rate
  cannot be set to 60; and a socket that serves a byte string.
\<close>

record v4l2_world =
  vw_format :: "u32 \<times> u32"
  vw_written :: "nat list"

definition sample_v4l2 :: "v4l2_world v4l2" where
  "sample_v4l2 =
     \<lparr>v4l_try_fmt = (\<lambda>world w h cc. Inr \<lparr>fmt_width = w, fmt_height = h, fmt_fourcc = cc, fmt_size = w * h * 2\<rparr>),
      v4l_enum_frameintervals = (\<lambda>world cc w h. Inr []),
      v4l_set_format = (\<lambda>world w h cc.
        (Inr \<lparr>fmt_width = w, fmt_height = h, fmt_fourcc = cc, fmt_size = w * h * 2\<rparr>,
         world\<lparr>vw_format := (w, h)\<rparr>)),
      v4l_set_params = (\<lambda>world rate. (Inr (1, if rate = 60 then 30 else rate), world)),
      v4l_write_all = (\<lambda>world data. (Inr (), world\<lparr>vw_written := vw_written world @ [length data]\<rparr>))\<rparr>"

definition sample_mac :: "u8 list mac_os" where
  "sample_mac =
     \<lparr>mac_connect = (\<lambda>w. (Inr (), w)), mac_write_all = (\<lambda>w data. (Inr (), w)),
      mac_set_read_timeout = (\<lambda>w t. (Inr (), w)),
      mac_read_exact = (\<lambda>w n. if n \<le> length w then (Inr (take n w), drop n w)
                              else (Inl (lit ''timed out''), w)),
      mac_shutdown = id\<rparr>"

definition H264_1080P60 :: stream_profile where
  "H264_1080P60 = \<lparr>codec = H264, width = 1920, height = 1080, fps = 60\<rparr>"

definition HEVC_720P30 :: stream_profile where
  "HEVC_720P30 = \<lparr>codec = Hevc, width = 1280, height = 720, fps = 30\<rparr>"

definition sample_linux_output :: "v4l2_world linux_output" where
  "sample_linux_output = \<lparr>lo_world = \<lparr>vw_format = (0, 0), vw_written = []\<rparr>, lo_converter = None,
     lo_committed = None\<rparr>"

definition sample_linux_committed :: "v4l2_world linux_output" where
  "sample_linux_committed = \<lparr>lo_world = \<lparr>vw_format = (1280, 720), vw_written = []\<rparr>,
     lo_converter = Some \<lparr>cv_width = 1280, cv_height = 720\<rparr>, lo_committed = Some H264_720P30\<rparr>"

definition sample_linux_failed :: "v4l2_world linux_output" where
  "sample_linux_failed = sample_linux_committed\<lparr>lo_world := \<lparr>vw_format = (1920, 1080), vw_written = []\<rparr>\<rparr>"

lemma sample_linux_reachable: "linux_reachable sample_v4l2 sample_linux_output"
  by (rule linux_reachable.opened
      [of "\<lambda>w path. (Inr (), w)" True None "[lit ''/dev/video0'']" "\<lparr>vw_format = (0, 0), vw_written = []\<rparr>"])
    (simp add: linux_open_def ensure_v4l2loopback_loaded_def preferred_output_device_path_def
      sample_linux_output_def)

lemmas sample_linux_simps = linux_commit_def linux_preflight_def validate_def H264_720P30_def
  H264_1080P60_def SUPPORTED_DIMENSIONS_def SUPPORTED_FRAME_RATES_def supports_format_def set_format_def
  sample_v4l2_def saturating_mul_u32_def minimum_frame_size_def checked_mul_u32_def
  interval_matches_def u16_to_u32_def u8_to_u32_def converter_new_def

lemma sample_linux_commits:
  "linux_commit sample_v4l2 sample_linux_output H264_720P30 = (Ok (), sample_linux_committed)"
  "linux_commit sample_v4l2 sample_linux_committed H264_1080P60 =
     (Err (CommitFailed (InvalidFormat (DriverReturnedInterval (1, 30) 60))), sample_linux_failed)"
  by (simp_all add: sample_linux_simps sample_linux_output_def sample_linux_committed_def
      sample_linux_failed_def)

section \<open>Properties\<close>

text \<open>
  C31. On every platform the format a device reports is the one its last successful commit chose,
  through any sequence of commits and frame writes, failed ones included, and a frame write
  succeeds only for a frame with exactly the dimensions of that commit.
\<close>

theorem output_format_tracks_commits:
  fixes d :: "('l, 'm, 'w) output_device"
  assumes "output_session output_commit output_write_frame calls d = (log, d')"
    and "output_format d = map_option (native_format_of (output_pixel_format d)) p"
  shows "output_format d' = map_option (native_format_of (output_pixel_format d')) (last_commit log p) \<and>
    writes_match log p"
  by (rule platform.session_tracks_commits [OF assms])

theorem output_format_tracks_commits_witness:
  "output_format (LinuxDevice sample_v4l2 sample_linux_failed :: (v4l2_world, unit, unit) output_device) =
     Some (native_format_of Yuyv H264_720P30)"
proof -
  have "output_session output_commit output_write_frame [CommitCall H264_720P30, CommitCall H264_1080P60]
      (LinuxDevice sample_v4l2 sample_linux_output :: (v4l2_world, unit, unit) output_device) =
    ([(CommitCall H264_720P30, Ok ()),
      (CommitCall H264_1080P60,
        Err (CommitFailed (InvalidFormat (DriverReturnedInterval (1, 30) 60))))],
     LinuxDevice sample_v4l2 sample_linux_failed)"
    by (simp add: sample_linux_commits)
  from output_format_tracks_commits [OF this, of None] show ?thesis
    by (simp add: output_views sample_linux_output_def)
qed

text \<open>
  A device reached by any calls on Linux turns every decoded picture of the committed
  dimensions into one write of exactly two bytes per pixel, the YUYV form of the picture: no
  check between the decoder and the device can refuse it, and only the device's write can fail.
\<close>

theorem linux_writes_decoded_pictures:
  assumes "linux_reachable k out" "lo_committed out = Some p"
    and "decode_planar pic = Ok f" "frame_matches f p"
  shows "\<exists>y. nv12_to_yuyv f = Ok y \<and> length (yuyv_data y) = 2 * unat (width p) * unat (height p) \<and>
    linux_write_frame k out f ts =
      (case v4l2_write_frame k (lo_world out) (yuyv_data y) of
         (r, world') \<Rightarrow> (map_err DeviceWriteFailed r, out\<lparr>lo_world := world'\<rparr>))"
proof -
  have dims: "nv_width f = u16_to_u32 (width p)" "nv_height f = u16_to_u32 (height p)"
    using assms(4) by (simp_all add: frame_matches_def)
  from linux_reachable_consistent [OF assms(1)] assms(2) obtain c where "well_formed_profile p"
    and c: "lo_converter out = Some c" "converter_new (nv_width f) (nv_height f) = Ok c"
    by (auto simp: linux_consistent_def dims)
  from well_formed_size [OF this(1)] converts_decoded [OF assms(3)] obtain y where
    y: "nv12_to_yuyv f = Ok y" "length (yuyv_data y) = 2 * unat (nv_width f) * unat (nv_height f)"
    by (auto simp: dims)
  then have "convert c f = Ok y" using c(2) by (simp add: nv12_to_yuyv_def)
  with y c assms(2,4) show ?thesis by (simp add: linux_write_frame_def dims)
qed

definition sample_720p_picture :: planar where
  "sample_720p_picture = \<lparr>pl_width = 1280, pl_height = 720, pl_pts = 1, pl_y = replicate (1280 * 720) 16,
     pl_y_stride = 1280, pl_u = replicate (640 * 360) 128, pl_u_stride = 640,
     pl_v = replicate (640 * 360) 128, pl_v_stride = 640\<rparr>"

lemma sample_720p_decodes: "\<exists>f. decode_planar sample_720p_picture = Ok f \<and> frame_matches f H264_720P30"
proof -
  have rows: "\<exists>out. copy_plane_rows (replicate n (b :: u8)) w w h = Ok out" if "w * h = n" "n \<le> USIZE_MAX" for n b w h
    using that by (simp add: copy_plane_rows_Ok)
  obtain yp up vp where
    "copy_plane_rows (replicate 921600 16) 1280 1280 720 = Ok yp"
    "copy_plane_rows (replicate 230400 (128 :: u8)) 640 640 360 = Ok up"
    "copy_plane_rows (replicate 230400 (128 :: u8)) 640 640 360 = Ok vp"
    using rows [of 1280 720 921600 16] rows [of 640 360 230400 128] by (auto simp: USIZE_MAX_def)
  then show ?thesis
    by (simp add: decode_planar_def sample_720p_picture_def planar_to_nv12_def frame_matches_def
        H264_720P30_def u16_to_u32_def USIZE_MAX_def checked_mul_usize_def)
qed

theorem linux_writes_decoded_pictures_witness:
  "\<exists>f y. nv12_to_yuyv f = Ok y \<and> length (yuyv_data y) = 1843200 \<and>
     linux_write_frame sample_v4l2 sample_linux_committed f 0 =
       (Ok (), sample_linux_committed\<lparr>lo_world := \<lparr>vw_format = (1280, 720), vw_written = [1843200]\<rparr>\<rparr>)"
proof -
  obtain f where f: "decode_planar sample_720p_picture = Ok f" "frame_matches f H264_720P30"
    using sample_720p_decodes by blast
  have "linux_reachable sample_v4l2 sample_linux_committed"
    using sample_linux_reachable sample_linux_commits(1) by (rule linux_reachable.committed)
  from linux_writes_decoded_pictures [OF this _ f, of 0]
  obtain y where "nv12_to_yuyv f = Ok y" "length (yuyv_data y) = 1843200"
    "linux_write_frame sample_v4l2 sample_linux_committed f 0 =
      (case v4l2_write_frame sample_v4l2 (lo_world sample_linux_committed) (yuyv_data y) of
         (r, world') \<Rightarrow> (map_err DeviceWriteFailed r, sample_linux_committed\<lparr>lo_world := world'\<rparr>))"
    by (auto simp: sample_linux_committed_def H264_720P30_def)
  then show ?thesis
    by (intro exI [of _ f] exI [of _ y])
      (simp add: v4l2_write_frame_def sample_v4l2_def sample_linux_committed_def)
qed

text \<open>Whether a device answers \<open>VIDIOC_S_PARM\<close> with an error or with another rate than the one asked for.\<close>

definition refuses_rate :: "'w v4l2 \<Rightarrow> 'w \<Rightarrow> u32 \<Rightarrow> bool" where
  "refuses_rate k world rate \<longleftrightarrow>
     (case fst (v4l_set_params k world rate) of
        Inl e \<Rightarrow> True
      | Inr interval \<Rightarrow> \<not> interval_matches interval rate)"

lemma set_format_rate_refused:
  assumes "v4l_set_format k world w h (to_fourcc px) = (Inr actual, world1)"
    and "fmt_width actual = w" "fmt_height actual = h" "fmt_fourcc actual = to_fourcc px"
    and "unat w * unat h * 2 \<le> unat (fmt_size actual)" "refuses_rate k world1 rate"
  shows "\<exists>e. set_format k world w h px rate = (Err e, snd (v4l_set_params k world1 rate))"
proof (cases "minimum_frame_size w h")
  case None
  then have "2 ^ 32 \<le> unat w * unat h * 2" by (simp only: minimum_frame_size_None)
  moreover have "unat (fmt_size actual) < 2 ^ 32" using unsigned_less [of "fmt_size actual"] by simp
  ultimately show ?thesis using assms(5) by linarith
next
  case (Some m)
  then have "\<not> fmt_size actual < m" using assms(5) by (simp add: minimum_frame_size_Some word_less_nat_alt)
  with Some assms show ?thesis
    by (cases "v4l_set_params k world1 rate") (auto simp: set_format_def refuses_rate_def split: sum.splits)
qed

text \<open>
  C33. A commit on Linux is not atomic, whatever the device: let the device, as V4L2 documents it, be
  at the size its last successful \<open>VIDIOC_S_FMT\<close> answered, and not change it when the rate is
  set. Whenever it takes the size of a profile that passes the preflight and then refuses the
  rate, the commit fails and the output still reports the old profile and still sends it every
  decoded picture of the old size, while the device has been left at the size of the new one.
\<close>

theorem linux_commit_is_not_atomic:
  fixes size_of :: "'w \<Rightarrow> u32 \<times> u32"
  assumes "linux_reachable k out" "lo_committed out = Some q" "linux_preflight k out p = Ok ()"
    and stores: "\<And>world w h cc actual world1. v4l_set_format k world w h cc = (Inr actual, world1) \<Longrightarrow>
      size_of world1 = (fmt_width actual, fmt_height actual)"
    and keeps: "\<And>world rate. size_of (snd (v4l_set_params k world rate)) = size_of world"
    and takes: "v4l_set_format k (lo_world out) (u16_to_u32 (width p)) (u16_to_u32 (height p)) (to_fourcc YUYV) =
        (Inr actual, world1)"
      "fmt_width actual = u16_to_u32 (width p)" "fmt_height actual = u16_to_u32 (height p)"
      "fmt_fourcc actual = to_fourcc YUYV"
      "unat (u16_to_u32 (width p)) * unat (u16_to_u32 (height p)) * 2 \<le> unat (fmt_size actual)"
    and refuses: "refuses_rate k world1 (u8_to_u32 (fps p))"
  shows "\<exists>e out'. linux_commit k out p = (Err (CommitFailed e), out') \<and>
    size_of (lo_world out') = (u16_to_u32 (width p), u16_to_u32 (height p)) \<and>
    linux_output_format out' = Some (native_format_of Yuyv q) \<and>
    (\<forall>pic f ts. decode_planar pic = Ok f \<and> frame_matches f q \<longrightarrow>
       (\<exists>y. nv12_to_yuyv f = Ok y \<and> length (yuyv_data y) = 2 * unat (width q) * unat (height q) \<and>
          linux_write_frame k out' f ts =
            (case v4l2_write_frame k (lo_world out') (yuyv_data y) of
               (r, world') \<Rightarrow> (map_err DeviceWriteFailed r, out'\<lparr>lo_world := world'\<rparr>))))"
proof -
  from set_format_rate_refused [OF takes refuses] obtain e where
    failed: "set_format k (lo_world out) (u16_to_u32 (width p)) (u16_to_u32 (height p)) YUYV (u8_to_u32 (fps p)) =
      (Err e, snd (v4l_set_params k world1 (u8_to_u32 (fps p))))" by blast
  let ?out = "out\<lparr>lo_world := snd (v4l_set_params k world1 (u8_to_u32 (fps p)))\<rparr>"
  have commit: "linux_commit k out p = (Err (CommitFailed e), ?out)"
    using failed assms(3) by (simp add: linux_commit_def)
  have reach: "linux_reachable k ?out" by (rule linux_reachable.committed [OF assms(1) commit])
  have "size_of (lo_world ?out) = (u16_to_u32 (width p), u16_to_u32 (height p))"
    using keeps stores [OF takes(1)] takes(2,3) by simp
  moreover have "linux_output_format ?out = Some (native_format_of Yuyv q)"
    using assms(2) by (simp add: linux_output_format_def)
  moreover have "lo_committed ?out = Some q" using assms(2) by simp
  ultimately show ?thesis using commit linux_writes_decoded_pictures [OF reach] by blast
qed

theorem linux_commit_is_not_atomic_witness:
  "\<exists>out' e. linux_commit sample_v4l2 sample_linux_committed H264_1080P60 = (Err (CommitFailed e), out') \<and>
     linux_output_format out' = Some (native_format_of Yuyv H264_720P30) \<and>
     vw_format (lo_world sample_linux_committed) = (1280, 720) \<and> vw_format (lo_world out') = (1920, 1080)"
proof -
  have reach: "linux_reachable sample_v4l2 sample_linux_committed"
    using sample_linux_reachable sample_linux_commits(1) by (rule linux_reachable.committed)
  have committed: "lo_committed sample_linux_committed = Some H264_720P30"
    by (simp add: sample_linux_committed_def)
  have preflight: "linux_preflight sample_v4l2 sample_linux_committed H264_1080P60 = Ok ()"
    by (simp add: sample_linux_simps)
  have takes: "v4l_set_format sample_v4l2 (lo_world sample_linux_committed) (u16_to_u32 (width H264_1080P60))
      (u16_to_u32 (height H264_1080P60)) (to_fourcc YUYV) =
    (Inr \<lparr>fmt_width = 1920, fmt_height = 1080, fmt_fourcc = to_fourcc YUYV, fmt_size = 4147200\<rparr>,
     \<lparr>vw_format = (1920, 1080), vw_written = []\<rparr>)"
    by (simp add: sample_v4l2_def sample_linux_committed_def H264_1080P60_def u16_to_u32_def)
  have refuses: "refuses_rate sample_v4l2 \<lparr>vw_format = (1920, 1080), vw_written = []\<rparr> (u8_to_u32 (fps H264_1080P60))"
    by (simp add: refuses_rate_def sample_v4l2_def H264_1080P60_def u8_to_u32_def interval_matches_iff)
  have size: "u16_to_u32 (width H264_1080P60) = 1920" "u16_to_u32 (height H264_1080P60) = 1080"
    by (simp_all add: H264_1080P60_def u16_to_u32_def)
  obtain e out' where "linux_commit sample_v4l2 sample_linux_committed H264_1080P60 = (Err (CommitFailed e), out')"
      "vw_format (lo_world out') = (1920, 1080)" "linux_output_format out' = Some (native_format_of Yuyv H264_720P30)"
    using linux_commit_is_not_atomic [where size_of = vw_format, OF reach committed preflight _ _ takes _ _ _ _ refuses]
    by (force simp: sample_v4l2_def size)
  then show ?thesis by (intro exI [of _ out'] exI [of _ e]) (simp add: sample_linux_committed_def)
qed

text \<open>
  On macOS every commit consumes a format event of its own: after a successful commit, and
  with no further event on the socket, committing a profile of the very same size and rate
  that differs in the codec only fails, although the output already has that format.
\<close>

theorem macos_commit_needs_a_new_event:
  "\<exists>out out' r. native_commit (macos_read_format_event sample_mac)
       \<lparr>no_world = encode_format_event (native_format_of Nv12 H264_720P30), no_driver = True,
        no_committed = None\<rparr> H264_720P30 = (Ok (), out) \<and>
     native_commit (macos_read_format_event sample_mac) out HEVC_720P30 = (r, out') \<and> \<not> is_ok r \<and>
     native_output_format_of out = Some (native_format_of Nv12 HEVC_720P30)"
proof (intro exI conjI)
  let ?event = "encode_format_event (native_format_of Nv12 H264_720P30)"
  have event: "parse_format_event ?event = Ok (native_format_of Nv12 H264_720P30)"
    by (simp add: parse_format_event_Ok supported_format_def native_format_of_def H264_720P30_def
        SUPPORTED_DIMENSIONS_def SUPPORTED_FRAME_RATES_def)
  have len: "length ?event = 16"
    by (simp add: encode_format_event_def FORMAT_EVENT_MAGIC_def)
  have ok: "validate H264_720P30 = Ok ()" "validate HEVC_720P30 = Ok ()" by code_simp+
  show "native_commit (macos_read_format_event sample_mac)
       \<lparr>no_world = ?event, no_driver = True, no_committed = None\<rparr> H264_720P30 =
     (Ok (), \<lparr>no_world = [], no_driver = True, no_committed = Some H264_720P30\<rparr>)"
    using event len ok
    by (simp add: native_commit_def native_preflight_def macos_read_format_event_def sample_mac_def
        native_format_of_def)
  show "native_commit (macos_read_format_event sample_mac)
       \<lparr>no_world = [], no_driver = True, no_committed = Some H264_720P30\<rparr> HEVC_720P30 =
     (Err (FormatEventReadFailed (OsError (lit ''timed out''))),
      \<lparr>no_world = [], no_driver = True, no_committed = Some H264_720P30\<rparr>)"
    using ok
    by (simp add: native_commit_def native_preflight_def macos_read_format_event_def sample_mac_def)
qed (simp_all add: native_output_format_of_def native_format_of_def H264_720P30_def HEVC_720P30_def)

end
