(* ===== verification/Profiles.thy ===== *)
theory Profiles
  imports Output
begin

text \<open>
  The pure helpers of \<open>rust/phonecam-desktop/src-tauri/src/pipeline.rs\<close>: the profiles an output
  qualifies for, the profiles both sides have, the resolution of a requested size and codec
  preference to a profile, the test for an applied profile and the request counter.
\<close>

section \<open>Definitions\<close>

datatype codec_preference = PreferH264 | PreferHevc | PreferAuto

text \<open>The three nested loops of \<open>qualified_output_profiles\<close>, flattened in the order they run.\<close>

definition candidate_profiles :: "stream_profile list" where
  "candidate_profiles =
     concat (map (\<lambda>c. concat (map (\<lambda>(w, h). map (\<lambda>rate.
         \<lparr>codec = c, width = w, height = h, fps = rate\<rparr>) SUPPORTED_FRAME_RATES)
       SUPPORTED_DIMENSIONS)) [H264, Hevc])"

definition qualified_output_profiles :: "(stream_profile \<Rightarrow> (unit, 'e) result) \<Rightarrow> stream_profile list" where
  "qualified_output_profiles preflight = filter (\<lambda>p. is_ok (preflight p)) candidate_profiles"

definition common_profiles :: "stream_profile list \<Rightarrow> stream_profile list \<Rightarrow> stream_profile list" where
  "common_profiles local peer = filter (\<lambda>p. p \<in> set peer) local"

primrec codec_order :: "codec_preference \<Rightarrow> video_codec list" where
  "codec_order PreferH264 = [H264]"
| "codec_order PreferHevc = [Hevc]"
| "codec_order PreferAuto = [Hevc, H264]"

fun find_map :: "('a \<Rightarrow> 'b option) \<Rightarrow> 'a list \<Rightarrow> 'b option" where
  "find_map f [] = None"
| "find_map f (x # xs) = (case f x of Some y \<Rightarrow> Some y | None \<Rightarrow> find_map f xs)"

datatype resolve_error = UnsupportedCommonProfile u16 u16 u8

definition resolve_profile ::
  "stream_profile list \<Rightarrow> u16 \<Rightarrow> u16 \<Rightarrow> u8 \<Rightarrow> codec_preference \<Rightarrow> (stream_profile, resolve_error) result" where
  "resolve_profile common w h rate preference =
     ok_or (UnsupportedCommonProfile w h rate)
       (find_map (\<lambda>c. find (\<lambda>p. codec p = c \<and> width p = w \<and> height p = h \<and> fps p = rate) common)
         (codec_order preference))"

definition same_picture :: "stream_profile \<Rightarrow> stream_profile \<Rightarrow> bool" where
  "same_picture p q \<longleftrightarrow> width p = width q \<and> height p = height q \<and> fps p = fps q"

definition accepts_applied_profile :: "stream_profile list \<Rightarrow> stream_profile \<Rightarrow> stream_profile \<Rightarrow> bool" where
  "accepts_applied_profile common requested applied \<longleftrightarrow>
     applied \<in> set common \<and> width applied = width requested \<and> height applied = height requested \<and>
     fps applied = fps requested"

text \<open>The counter and the identifier are one value: the function returns the new counter.\<close>

definition next_request_id :: "u32 \<Rightarrow> u32" where
  "next_request_id counter = (let c = counter + 1 in if c = 0 then 1 else c)"

section \<open>Lemmas\<close>

lemma common_profiles_iff [simp]: "p \<in> set (common_profiles local peer) \<longleftrightarrow> p \<in> set local \<and> p \<in> set peer"
  by (auto simp: common_profiles_def)

lemma accepts_applied_profile_iff:
  "accepts_applied_profile common r a \<longleftrightarrow> a \<in> set common \<and> same_picture a r"
  by (auto simp: accepts_applied_profile_def same_picture_def)

lemma next_request_id_nonzero [simp]: "next_request_id c \<noteq> 0"
  by (simp add: next_request_id_def Let_def)

lemma find_profile:
  "find (\<lambda>p. codec p = c \<and> width p = w \<and> height p = h \<and> fps p = rate) common =
     (if \<lparr>codec = c, width = w, height = h, fps = rate\<rparr> \<in> set common
      then Some \<lparr>codec = c, width = w, height = h, fps = rate\<rparr> else None)"
proof (induction common)
  case (Cons p common)
  have "p = \<lparr>codec = c, width = w, height = h, fps = rate\<rparr> \<longleftrightarrow>
      codec p = c \<and> width p = w \<and> height p = h \<and> fps p = rate" by (cases p) auto
  with Cons.IH show ?case by auto
qed simp

lemma resolve_profile_Ok:
  assumes "resolve_profile common w h rate preference = Ok p"
  shows "p \<in> set common" "width p = w" "height p = h" "fps p = rate" "codec p \<in> set (codec_order preference)"
  using assms
  by (cases preference; auto simp: resolve_profile_def find_profile split: if_splits; fail)+

lemma resolve_profile_no_panic [simp]: "resolve_profile common w h rate preference \<noteq> Panic"
  by (simp add: resolve_profile_def result_eqs)

lemma candidate_profiles_mem:
  "p \<in> set candidate_profiles \<longleftrightarrow>
     (\<exists>c \<in> {H264, Hevc}. \<exists>d \<in> set SUPPORTED_DIMENSIONS. \<exists>rate \<in> set SUPPORTED_FRAME_RATES.
        p = \<lparr>codec = c, width = fst d, height = snd d, fps = rate\<rparr>)"
  unfolding candidate_profiles_def by (simp add: split_beta) blast

lemma candidate_profiles_iff: "p \<in> set candidate_profiles \<longleftrightarrow> well_formed_profile p"
proof
  assume "well_formed_profile p"
  moreover have "codec p \<in> {H264, Hevc}" by (cases "codec p") auto
  ultimately show "p \<in> set candidate_profiles"
    unfolding candidate_profiles_mem well_formed_profile_def
    by (intro bexI [of _ "codec p"] bexI [of _ "(width p, height p)"] bexI [of _ "fps p"]) auto
qed (auto simp: candidate_profiles_mem well_formed_profile_def)

lemma distinct_candidate_profiles: "distinct candidate_profiles"
  by code_simp

lemma qualified_profiles_iff:
  "p \<in> set (qualified_output_profiles preflight) \<longleftrightarrow> well_formed_profile p \<and> is_ok (preflight p)"
  by (simp add: qualified_output_profiles_def candidate_profiles_iff)

section \<open>Properties\<close>

text \<open>
  \<open>resolve_profile\<close> answers the profile of the preferred codec with exactly the requested size
  and rate when both sides have it; under the automatic preference that is HEVC if common and
  H.264 only otherwise; and it reports an error exactly when no allowed codec is common.
\<close>

theorem resolve_profile_prefers:
  "resolve_profile common w h rate preference =
     (let at = (\<lambda>c. \<lparr>codec = c, width = w, height = h, fps = rate\<rparr>)
      in case preference of
           PreferH264 \<Rightarrow> if at H264 \<in> set common then Ok (at H264) else Err (UnsupportedCommonProfile w h rate)
         | PreferHevc \<Rightarrow> if at Hevc \<in> set common then Ok (at Hevc) else Err (UnsupportedCommonProfile w h rate)
         | PreferAuto \<Rightarrow>
             if at Hevc \<in> set common then Ok (at Hevc)
             else if at H264 \<in> set common then Ok (at H264)
             else Err (UnsupportedCommonProfile w h rate))"
  by (cases preference) (simp_all add: resolve_profile_def find_profile Let_def)

text \<open>
  The profiles an output device offers in the handshake are without duplicates exactly those
  the protocol allows and the device's preflight accepts, whatever the platform, so whenever
  there is one the list passes the peer's \<open>validate_profiles\<close>.
\<close>

theorem qualified_profiles_pass_validation:
  fixes d :: "('l, 'm, 'w) output_device"
  shows "set (qualified_output_profiles (output_preflight d)) = {p. is_ok (output_preflight d p)} \<and>
    validate_profiles (qualified_output_profiles (output_preflight d)) =
      (if qualified_output_profiles (output_preflight d) = [] then Err EmptySupportedProfiles else Ok ())"
proof -
  let ?ps = "qualified_output_profiles (output_preflight d)"
  have set: "set ?ps = {p. is_ok (output_preflight d p)}"
    using platform.preflight_valid [of d] by (auto simp: qualified_profiles_iff is_ok_iff)
  have "distinct ?ps" by (simp add: qualified_output_profiles_def distinct_candidate_profiles)
  then have "?ps \<noteq> [] \<Longrightarrow> validate_profiles ?ps = Ok ()"
    by (auto simp: protocol_checks well_formed_profiles_def list_all_iff qualified_profiles_iff)
  with set show ?thesis by (simp add: validate_profiles_def)
qed

end
