(* ===== verification/Stream_Actor.thy ===== *)
theory Stream_Actor
  imports Transport Decoder Profiles
begin

text \<open>
  The connection actor of \<open>rust/phonecam-desktop/src-tauri/src/pipeline.rs\<close>:
  \<open>stream_connection\<close>, one arm of its \<open>select!\<close> loop per definition.

  The actor's variables are one record; a step consumes one ready branch of the \<open>select!\<close> and
  gives the effects it had and how it ended. What the world answers during a step (whether the
  outbound channel took a message, how the decoder's reset ended, whether its queue had room,
  the clock) is an argument of the step: every branch asks each of these at most once. The
  output device is the model of the code, called in place.
\<close>

section \<open>State\<close>

definition CONFIGURATION_TIMEOUT :: nat where
  "CONFIGURATION_TIMEOUT = 5000"

text \<open>
  A \<open>oneshot\<close> sender is the number of the command it came with. The two error strings that a
  compensation carries are told apart by constructors.
\<close>

type_synonym reply_token = nat

datatype reconfigure_failure = OutputFailed output_error | DecoderResetFailed decode_error

datatype compensation_error = UnsolicitedCommit reconfigure_failure | AppliedCommit reconfigure_failure

datatype reply_error =
    NoCommonProfile resolve_error
  | PreflightRefused output_error
  | ConfigurationTimedOut
  | PhoneRejected stream_configuration_outcome
  | Compensated compensation_error

type_synonym reply = "(stream_profile, reply_error) result"

datatype pending_kind =
    Configure stream_profile "reply_token option"
  | Compensation stream_profile compensation_error "reply_token option"

record pending_configuration =
  pc_request_id :: u32
  pc_requested :: stream_profile
  pc_deadline :: nat
  pc_kind :: pending_kind

record pipeline_command =
  cmd_width :: u16
  cmd_height :: u16
  cmd_fps :: u8
  cmd_preference :: codec_preference
  cmd_reply :: reply_token

record 'd actor =
  out_dev :: 'd
  local_profiles :: "stream_profile list"
  peer_profiles :: "stream_profile list"
  common :: "stream_profile list"
  active :: stream_profile
  request_counter :: u32
  pending :: "pending_configuration option"
  keyframe_request_in_flight :: bool

type_synonym ('l, 'm, 'w) stream_actor = "('l, 'm, 'w) output_device actor"

section \<open>Status, effects and ends\<close>

text \<open>
  The status without its \<open>last_error\<close>, which the actor never sets; the manager's model adds it.
\<close>

datatype pipeline_state = Disconnected_Status | Listening | Connected | ErrorStatus

record pipeline_status =
  ps_connected :: bool
  ps_state :: pipeline_state
  ps_supported_profiles :: "stream_profile list"
  ps_active_profile :: "stream_profile option"
  ps_output_format :: "native_output_format option"

definition status_connected ::
  "stream_profile list \<Rightarrow> stream_profile \<Rightarrow> native_output_format option \<Rightarrow> pipeline_status" where
  "status_connected supported act fmt =
     \<lparr>ps_connected = True, ps_state = Connected, ps_supported_profiles = supported,
      ps_active_profile = Some act, ps_output_format = fmt\<rparr>"

text \<open>\<open>ResetDecoder c ok\<close> is a call of \<open>reset\<close> and its outcome, \<open>SubmitFrame f ok\<close> one of \<open>try_send\<close>.\<close>

datatype effect =
    Send message
  | Reply reply_token reply
  | Status pipeline_status
  | ResetDecoder video_codec bool
  | SubmitFrame video_frame bool
  | WriteFrame nv12_frame bool

datatype stream_exit = PeerDisconnected | ShutdownRequested

datatype stream_error =
    ActiveProfileOmitted
  | ActiveProfileNotCommon
  | InitialCommitFailed output_error
  | DecoderInitializationFailed decode_error
  | InitialResetFailed decode_error
  | CompensationTimedOut compensation_error
  | CommandChannelClosed
  | SendConfigurationFailed
  | DecoderWorkerStopped
  | FrameWriteFailed output_error
  | KeyframeRequestFailed
  | BacklogKeyframeRequestFailed
  | RestoreOutputFailed compensation_error output_error
  | RestoreDecoderFailed compensation_error decode_error
  | CompensationFailed compensation_error stream_configuration_outcome

datatype 'd flow = Continue "'d actor" | Exit stream_exit | Fail stream_error | Panicked

record answers =
  now :: nat
  send_ok :: bool
  reset_answer :: "decode_error option"
  queue_has_room :: bool

datatype actor_input =
    ShutdownChanged
  | StateChanged "connection_state option"
  | Tick
  | Command "pipeline_command option"
  | DecoderEvent "decode_event option"
  | PeerMessage "message option"

text \<open>A received \<open>None\<close> is a closed channel; \<open>StateChanged None\<close> an error of \<open>changed\<close>.\<close>

section \<open>Auxiliary steps\<close>

definition publish :: "('l, 'm, 'w) stream_actor \<Rightarrow> effect" where
  "publish s = Status (status_connected (common s) (active s) (output_format (out_dev s)))"

definition configure_message :: "u32 \<Rightarrow> stream_profile \<Rightarrow> message" where
  "configure_message rid p = Msg_CameraControl (ConfigureStream rid p)"

primrec reply_to :: "reply_token option \<Rightarrow> reply \<Rightarrow> effect list" where
  "reply_to None r = []"
| "reply_to (Some t) r = [Reply t r]"

text \<open>
  \<open>send_configuration(..).await?\<close> followed by setting \<open>pending\<close>: the request identifier is drawn
  before the message is sent, and a closed channel ends the actor.
\<close>

definition request_configuration ::
  "answers \<Rightarrow> stream_profile \<Rightarrow> pending_kind \<Rightarrow> 'd actor \<Rightarrow> effect list \<times> 'd flow" where
  "request_configuration a p kind s =
     (let rid = next_request_id (request_counter s) in
      if send_ok a then
        ([Send (configure_message rid p)],
         Continue (s\<lparr>request_counter := rid,
           pending := Some \<lparr>pc_request_id = rid, pc_requested = p,
                            pc_deadline = now a + CONFIGURATION_TIMEOUT, pc_kind = kind\<rparr>\<rparr>))
      else ([], Fail SendConfigurationFailed))"

text \<open>
  Committing a profile to the output and, when that succeeded, resetting the decoder. The
  device is returned in either case, since a failed commit may have changed it.
\<close>

datatype commit_outcome = Committed | CommitFailure reconfigure_failure | CommitPanic

definition commit_and_reset ::
  "answers \<Rightarrow> stream_profile \<Rightarrow> ('l, 'm, 'w) output_device \<Rightarrow>
   effect list \<times> commit_outcome \<times> ('l, 'm, 'w) output_device" where
  "commit_and_reset a p d =
     (case output_commit d p of
        (Ok u, d') \<Rightarrow>
          (case reset_answer a of
             None \<Rightarrow> ([ResetDecoder (codec p) True], Committed, d')
           | Some e \<Rightarrow> ([ResetDecoder (codec p) False], CommitFailure (DecoderResetFailed e), d'))
      | (Err e, d') \<Rightarrow> ([], CommitFailure (OutputFailed e), d')
      | (Panic, d') \<Rightarrow> ([], CommitPanic, d'))"

section \<open>The arms of the loop\<close>

definition on_state_changed :: "connection_state option \<Rightarrow> 'd actor \<Rightarrow> effect list \<times> 'd flow" where
  "on_state_changed st s =
     (if st = None \<or> st = Some Disconnected then ([], Exit PeerDisconnected) else ([], Continue s))"

definition on_tick :: "answers \<Rightarrow> 'd actor \<Rightarrow> effect list \<times> 'd flow" where
  "on_tick a s =
     (case pending s of
        None \<Rightarrow> ([], Continue s)
      | Some p \<Rightarrow>
          if pc_deadline p \<le> now a then
            (case pc_kind p of
               Configure prior rep \<Rightarrow>
                 (reply_to rep (Err ConfigurationTimedOut), Continue (s\<lparr>pending := None\<rparr>))
             | Compensation prior e rep \<Rightarrow>
                 (reply_to rep (Err (Compensated e)), Fail (CompensationTimedOut e)))
          else ([], Continue s))"

definition on_command ::
  "answers \<Rightarrow> pipeline_command option \<Rightarrow> ('l, 'm, 'w) stream_actor \<Rightarrow>
   effect list \<times> ('l, 'm, 'w) output_device flow" where
  "on_command a cmd s =
     (case cmd of
        None \<Rightarrow> ([], Fail CommandChannelClosed)
      | Some c \<Rightarrow>
          (case resolve_profile (common s) (cmd_width c) (cmd_height c) (cmd_fps c) (cmd_preference c) of
             Err e \<Rightarrow> ([Reply (cmd_reply c) (Err (NoCommonProfile e))], Continue s)
           | Panic \<Rightarrow> ([], Panicked)
           | Ok requested \<Rightarrow>
               (case output_preflight (out_dev s) requested of
                  Err e \<Rightarrow> ([Reply (cmd_reply c) (Err (PreflightRefused e))], Continue s)
                | Panic \<Rightarrow> ([], Panicked)
                | Ok u \<Rightarrow>
                    if requested = active s
                    then ([Reply (cmd_reply c) (Ok (active s))], Continue s)
                    else request_configuration a requested
                           (Configure (active s) (Some (cmd_reply c))) s)))"

definition saturating_mul_1000 :: "u64 \<Rightarrow> u64" where
  "saturating_mul_1000 x = (if unat x * 1000 < 2 ^ 64 then x * 1000 else - 1)"

definition on_decoder_event ::
  "answers \<Rightarrow> decode_event option \<Rightarrow> ('l, 'm, 'w) stream_actor \<Rightarrow>
   effect list \<times> ('l, 'm, 'w) output_device flow" where
  "on_decoder_event a ev s =
     (case ev of
        None \<Rightarrow> ([], Fail DecoderWorkerStopped)
      | Some (FrameEvent f) \<Rightarrow>
          (case output_write_frame (out_dev s) f (saturating_mul_1000 (nv_pts_us f)) of
             (Ok u, d) \<Rightarrow> ([WriteFrame f True], Continue (s\<lparr>out_dev := d\<rparr>))
           | (Err e, d) \<Rightarrow> ([WriteFrame f False], Fail (FrameWriteFailed e))
           | (Panic, d) \<Rightarrow> ([], Panicked))
      | Some RecoveryRequired \<Rightarrow>
          if keyframe_request_in_flight s then ([], Continue s)
          else if send_ok a then
            ([Send (Msg_CameraControl RequestKeyframe)],
             Continue (s\<lparr>keyframe_request_in_flight := True\<rparr>))
          else ([], Fail KeyframeRequestFailed)
      | Some (ErrorEvent e) \<Rightarrow> ([], Continue s))"

definition on_video_frame ::
  "answers \<Rightarrow> video_frame \<Rightarrow> 'd actor \<Rightarrow> effect list \<times> 'd flow" where
  "on_video_frame a f s =
     (if \<not> is_ok (frame_validate_against f (active s)) then ([], Continue s)
      else
        let s1 = (if is_keyframe f then s\<lparr>keyframe_request_in_flight := False\<rparr> else s) in
        if queue_has_room a then ([SubmitFrame f True], Continue s1)
        else if is_keyframe f \<and> \<not> keyframe_request_in_flight s1 then
          (if send_ok a then
             ([SubmitFrame f False, Send (Msg_CameraControl RequestKeyframe)],
              Continue (s1\<lparr>keyframe_request_in_flight := True\<rparr>))
           else ([SubmitFrame f False], Fail BacklogKeyframeRequestFailed))
        else ([SubmitFrame f False], Continue s1))"

definition on_capabilities ::
  "video_capabilities_update \<Rightarrow> ('l, 'm, 'w) stream_actor \<Rightarrow>
   effect list \<times> ('l, 'm, 'w) output_device flow" where
  "on_capabilities u s =
     (if is_ok (capabilities_validate u (active s)) then
        let s' = s\<lparr>peer_profiles := vcu_supported_profiles u,
                   common := common_profiles (local_profiles s) (vcu_supported_profiles u)\<rparr>
        in ([publish s'], Continue s')
      else ([], Continue s))"

text \<open>Adopting a profile after a successful commit and reset.\<close>

definition adopt ::
  "stream_profile \<Rightarrow> ('l, 'm, 'w) output_device \<Rightarrow> ('l, 'm, 'w) stream_actor \<Rightarrow> ('l, 'm, 'w) stream_actor" where
  "adopt p d s = s\<lparr>out_dev := d, active := p, pending := None\<rparr>"

text \<open>A result with identifier zero while nothing is pending: the phone changed by itself.\<close>

definition on_unsolicited_result ::
  "answers \<Rightarrow> stream_configuration_outcome \<Rightarrow> ('l, 'm, 'w) stream_actor \<Rightarrow>
   effect list \<times> ('l, 'm, 'w) output_device flow" where
  "on_unsolicited_result a result s =
     (case result of
        Applied applied \<Rightarrow>
          if applied \<in> set (common s) then
            (case commit_and_reset a applied (out_dev s) of
               (effs, Committed, d) \<Rightarrow>
                 let s' = adopt applied d s in (effs @ [publish s'], Continue s')
             | (effs, CommitFailure e, d) \<Rightarrow>
                 (case request_configuration a (active s)
                         (Compensation (active s) (UnsolicitedCommit e) None) (s\<lparr>out_dev := d\<rparr>) of
                    (effs', fl) \<Rightarrow> (effs @ effs', fl))
             | (effs, CommitPanic, d) \<Rightarrow> (effs, Panicked))
          else ([], Continue s)
      | _ \<Rightarrow> ([], Continue s))"

definition on_configure_result ::
  "answers \<Rightarrow> pending_configuration \<Rightarrow> stream_profile \<Rightarrow> reply_token option \<Rightarrow> stream_configuration_outcome \<Rightarrow>
   ('l, 'm, 'w) stream_actor \<Rightarrow> effect list \<times> ('l, 'm, 'w) output_device flow" where
  "on_configure_result a cur prior rep result s =
     (case result of
        Applied applied \<Rightarrow>
          if accepts_applied_profile (common s) (pc_requested cur) applied then
            (case commit_and_reset a applied (out_dev s) of
               (effs, Committed, d) \<Rightarrow>
                 let s' = adopt applied d s
                 in (effs @ [publish s'] @ reply_to rep (Ok applied), Continue s')
             | (effs, CommitFailure e, d) \<Rightarrow>
                 (case request_configuration a prior
                         (Compensation prior (AppliedCommit e) rep) (s\<lparr>out_dev := d\<rparr>) of
                    (effs', fl) \<Rightarrow> (effs @ effs', fl))
             | (effs, CommitPanic, d) \<Rightarrow> (effs, Panicked))
          else (reply_to rep (Err (PhoneRejected result)), Continue (s\<lparr>pending := None\<rparr>))
      | _ \<Rightarrow> (reply_to rep (Err (PhoneRejected result)), Continue (s\<lparr>pending := None\<rparr>)))"

definition on_compensation_result ::
  "answers \<Rightarrow> stream_profile \<Rightarrow> compensation_error \<Rightarrow> reply_token option \<Rightarrow> stream_configuration_outcome \<Rightarrow>
   ('l, 'm, 'w) stream_actor \<Rightarrow> effect list \<times> ('l, 'm, 'w) output_device flow" where
  "on_compensation_result a prior e rep result s =
     (if result = Applied prior then
        (case commit_and_reset a prior (out_dev s) of
           (effs, Committed, d) \<Rightarrow>
             let s' = adopt prior d s
             in (effs @ [publish s'] @ reply_to rep (Err (Compensated e)), Continue s')
         | (effs, CommitFailure (OutputFailed oe), d) \<Rightarrow> (effs, Fail (RestoreOutputFailed e oe))
         | (effs, CommitFailure (DecoderResetFailed de), d) \<Rightarrow> (effs, Fail (RestoreDecoderFailed e de))
         | (effs, CommitPanic, d) \<Rightarrow> (effs, Panicked))
      else (reply_to rep (Err (Compensated e)), Fail (CompensationFailed e result)))"

definition on_configuration_result ::
  "answers \<Rightarrow> stream_configuration_result \<Rightarrow> ('l, 'm, 'w) stream_actor \<Rightarrow>
   effect list \<times> ('l, 'm, 'w) output_device flow" where
  "on_configuration_result a r s =
     (case pending s of
        None \<Rightarrow> if request_id r = 0 then on_unsolicited_result a (outcome r) s else ([], Continue s)
      | Some cur \<Rightarrow>
          if request_id r \<noteq> pc_request_id cur then ([], Continue s)
          else
            (case pc_kind cur of
               Configure prior rep \<Rightarrow> on_configure_result a cur prior rep (outcome r) s
             | Compensation prior e rep \<Rightarrow> on_compensation_result a prior e rep (outcome r) s))"

definition on_message ::
  "answers \<Rightarrow> message option \<Rightarrow> ('l, 'm, 'w) stream_actor \<Rightarrow>
   effect list \<times> ('l, 'm, 'w) output_device flow" where
  "on_message a m s =
     (case m of
        None \<Rightarrow> ([], Exit PeerDisconnected)
      | Some (Msg_VideoFrame f) \<Rightarrow> on_video_frame a f s
      | Some (Msg_VideoCapabilitiesUpdate u) \<Rightarrow> on_capabilities u s
      | Some (Msg_StreamConfigurationResult r) \<Rightarrow> on_configuration_result a r s
      | Some (Msg_Disconnect d) \<Rightarrow> ([], Exit PeerDisconnected)
      | Some _ \<Rightarrow> ([], Continue s))"

section \<open>The loop\<close>

text \<open>\<open>command_rx.recv(), if pending.is_none()\<close>: the only branch with a guard.\<close>

definition branch_enabled :: "actor_input \<Rightarrow> 'd actor \<Rightarrow> bool" where
  "branch_enabled i s \<longleftrightarrow> (case i of Command c \<Rightarrow> pending s = None | _ \<Rightarrow> True)"

definition actor_step ::
  "answers \<Rightarrow> actor_input \<Rightarrow> ('l, 'm, 'w) stream_actor \<Rightarrow>
   effect list \<times> ('l, 'm, 'w) output_device flow" where
  "actor_step a i s =
     (case i of
        ShutdownChanged \<Rightarrow> ([], Exit ShutdownRequested)
      | StateChanged st \<Rightarrow> on_state_changed st s
      | Tick \<Rightarrow> on_tick a s
      | Command c \<Rightarrow> on_command a c s
      | DecoderEvent ev \<Rightarrow> on_decoder_event a ev s
      | PeerMessage m \<Rightarrow> on_message a m s)"

text \<open>The prologue: from the peer's handshake to the first turn of the loop.\<close>

definition actor_start ::
  "(unit, decode_error) result \<Rightarrow> answers \<Rightarrow> handshake \<Rightarrow> ('l, 'm, 'w) output_device \<Rightarrow> stream_profile list \<Rightarrow>
   effect list \<times> ('l, 'm, 'w) output_device flow" where
  "actor_start worker a h d local =
     (let com = common_profiles local (supported_profiles h) in
      case active_profile h of
        None \<Rightarrow> ([], Fail ActiveProfileOmitted)
      | Some act \<Rightarrow>
          if act \<notin> set com then ([], Fail ActiveProfileNotCommon)
          else
            (case output_commit d act of
               (Err e, d') \<Rightarrow> ([], Fail (InitialCommitFailed e))
             | (Panic, d') \<Rightarrow> ([], Panicked)
             | (Ok u, d') \<Rightarrow>
                 (case worker of
                    Err e \<Rightarrow> ([], Fail (DecoderInitializationFailed e))
                  | Panic \<Rightarrow> ([], Panicked)
                  | Ok v \<Rightarrow>
                      (case reset_answer a of
                         Some e \<Rightarrow> ([ResetDecoder (codec act) False], Fail (InitialResetFailed e))
                       | None \<Rightarrow>
                           let s = \<lparr>out_dev = d', local_profiles = local,
                                    peer_profiles = supported_profiles h, common = com, active = act,
                                    request_counter = 0, pending = None,
                                    keyframe_request_in_flight = False\<rparr>
                           in ([ResetDecoder (codec act) True, publish s], Continue s)))))"

text \<open>The states at the top of the loop, with the inputs consumed and the effects had so far.\<close>

inductive actor_reachable ::
  "actor_input list \<Rightarrow> effect list \<Rightarrow> ('l, 'm, 'w) stream_actor \<Rightarrow> bool" where
  start: "actor_start worker a h d local = (effs, Continue s) \<Longrightarrow> actor_reachable [] effs s"
| step: "actor_reachable ins effs s \<Longrightarrow> branch_enabled i s \<Longrightarrow>
    actor_step a i s = (effs', Continue s') \<Longrightarrow> actor_reachable (ins @ [i]) (effs @ effs') s'"

inductive_simps actor_reachable_Nil: "actor_reachable [] effs s"

end
