(* ===== verification/Stream_Invariants.thy ===== *)
theory Stream_Invariants
  imports Stream_Actor "HOL-Library.Multiset"
begin

text \<open>
  What the connection actor keeps: the relation between the negotiation state, the output
  device and the decoder, the accounting of replies, and the abstract negotiation it refines.
\<close>

section \<open>Commit and reset\<close>

lemma commit_and_reset_Committed:
  assumes "commit_and_reset a p d = (effs, Committed, d')"
  shows "effs = [ResetDecoder (codec p) True]" "well_formed_profile p"
    and "output_pixel_format d' = output_pixel_format d"
    and "output_format d' = Some (native_format_of (output_pixel_format d) p)"
proof -
  from assms obtain u where commit: "output_commit d p = (Ok u, d')"
    and effs: "effs = [ResetDecoder (codec p) True]"
    by (auto simp: commit_and_reset_def split: prod.splits result.splits option.splits)
  from platform.commit_Ok [OF commit] platform.commit_px [OF commit] platform.preflight_valid [of d p] effs
  show "effs = [ResetDecoder (codec p) True]" "well_formed_profile p"
    "output_pixel_format d' = output_pixel_format d"
    "output_format d' = Some (native_format_of (output_pixel_format d) p)" by auto
qed

lemma commit_and_reset_failure:
  assumes "commit_and_reset a p d = (effs, CommitFailure e, d')"
  shows "effs = [] \<or> effs = [ResetDecoder (codec p) False]"
    and "output_pixel_format d' = output_pixel_format d"
proof -
  from assms obtain r where commit: "output_commit d p = (r, d')"
    and effs: "effs = [] \<or> effs = [ResetDecoder (codec p) False]"
    by (auto simp: commit_and_reset_def split: prod.splits result.splits option.splits)
  from platform.commit_px [OF commit] effs
  show "effs = [] \<or> effs = [ResetDecoder (codec p) False]"
    "output_pixel_format d' = output_pixel_format d" by auto
qed

lemma commit_and_reset_panic: "commit_and_reset a p d = (effs, CommitPanic, d') \<Longrightarrow> effs = []"
  by (auto simp: commit_and_reset_def split: prod.splits result.splits option.splits)

lemma request_configuration_Continue:
  "request_configuration a p kind s = (effs, Continue s') \<longleftrightarrow>
     send_ok a \<and> effs = [Send (configure_message (next_request_id (request_counter s)) p)] \<and>
     s' = s\<lparr>request_counter := next_request_id (request_counter s),
           pending := Some \<lparr>pc_request_id = next_request_id (request_counter s), pc_requested = p,
                            pc_deadline = now a + CONFIGURATION_TIMEOUT, pc_kind = kind\<rparr>\<rparr>"
  by (auto simp: request_configuration_def Let_def)

section \<open>The steps by kind\<close>

text \<open>
  What a step that continues can have done. \<open>Quiet\<close> steps leave the negotiation and the format
  alone; each other constructor is one way of changing them.
\<close>

definition same_negotiation :: "('l, 'm, 'w) stream_actor \<Rightarrow> ('l, 'm, 'w) stream_actor \<Rightarrow> bool" where
  "same_negotiation s s' \<longleftrightarrow>
     active s' = active s \<and> pending s' = pending s \<and> request_counter s' = request_counter s \<and>
     local_profiles s' = local_profiles s \<and>
     output_pixel_format (out_dev s') = output_pixel_format (out_dev s) \<and>
     output_format (out_dev s') = output_format (out_dev s)"

definition same_profiles :: "('l, 'm, 'w) stream_actor \<Rightarrow> ('l, 'm, 'w) stream_actor \<Rightarrow> bool" where
  "same_profiles s s' \<longleftrightarrow>
     local_profiles s' = local_profiles s \<and> peer_profiles s' = peer_profiles s \<and> common s' = common s"

definition in_format :: "('l, 'm, 'w) stream_actor \<Rightarrow> stream_profile \<Rightarrow> bool" where
  "in_format s p \<longleftrightarrow>
     output_format (out_dev s) = Some (native_format_of (output_pixel_format (out_dev s)) p)"

definition actor_inv :: "('l, 'm, 'w) stream_actor \<Rightarrow> bool" where
  "actor_inv s \<longleftrightarrow>
     common s = common_profiles (local_profiles s) (peer_profiles s) \<and>
     active s \<in> set (local_profiles s) \<and> active s \<in> set (peer_profiles s) \<and>
     well_formed_profile (active s) \<and>
     (case pending s of
        None \<Rightarrow> in_format s (active s)
      | Some cur \<Rightarrow>
          pc_request_id cur = request_counter s \<and> request_counter s \<noteq> 0 \<and>
          (case pc_kind cur of
             Configure prior rep \<Rightarrow>
               prior = active s \<and> pc_requested cur \<noteq> active s \<and> in_format s (active s)
           | Compensation prior e rep \<Rightarrow> prior = active s \<and> pc_requested cur = active s))"

lemma actor_inv_common: "actor_inv s \<Longrightarrow> active s \<in> set (common s)"
  by (simp add: actor_inv_def)

lemma adopt_inv:
  assumes "actor_inv s" "p \<in> set (common s)" "commit_and_reset a p (out_dev s) = (effs, Committed, d)"
  shows "actor_inv (adopt p d s)"
  using assms commit_and_reset_Committed [OF assms(3)]
  by (auto simp: actor_inv_def adopt_def in_format_def)

lemma compensation_inv:
  assumes "actor_inv s"
    and "request_configuration a (active s) (Compensation (active s) e rep) (s\<lparr>out_dev := d\<rparr>) =
      (effs, Continue s')"
  shows "actor_inv s'"
  using assms by (auto simp: actor_inv_def request_configuration_Continue)

lemma actor_start_inv:
  assumes "actor_start worker a h d local = (effs, Continue s)"
  shows "actor_inv s"
proof -
  from assms obtain act d' u where commit: "output_commit d act = (Ok u, d')"
    and mem: "act \<in> set (common_profiles local (supported_profiles h))"
    and s: "s = \<lparr>out_dev = d', local_profiles = local, peer_profiles = supported_profiles h,
      common = common_profiles local (supported_profiles h), active = act, request_counter = 0,
      pending = None, keyframe_request_in_flight = False\<rparr>"
    by (auto simp: actor_start_def Let_def split: option.splits if_splits prod.splits result.splits)
  from platform.commit_Ok [OF commit] platform.commit_px [OF commit] platform.preflight_valid [of d act] mem
  show ?thesis by (auto simp: s actor_inv_def in_format_def)
qed

lemma actor_inv_same_negotiation:
  "actor_inv s \<Longrightarrow> same_negotiation s s' \<Longrightarrow> same_profiles s s' \<Longrightarrow> actor_inv s'"
  by (auto simp: actor_inv_def same_negotiation_def same_profiles_def in_format_def
      split: option.splits pending_kind.splits)

lemma on_decoder_event_quiet:
  "on_decoder_event a ev s = (effs, Continue s') \<Longrightarrow> same_negotiation s s' \<and> same_profiles s s'"
  using platform.write_fmt [of "out_dev s"]
  by (auto simp: on_decoder_event_def same_negotiation_def same_profiles_def
      split: option.splits decode_event.splits prod.splits result.splits if_splits)

lemma on_video_frame_quiet:
  "on_video_frame a f s = (effs, Continue s') \<Longrightarrow> same_negotiation s s' \<and> same_profiles s s'"
  by (auto simp: on_video_frame_def Let_def same_negotiation_def same_profiles_def split: if_splits)

lemma on_capabilities_Continue:
  assumes "on_capabilities u s = (effs, Continue s')"
  shows "same_negotiation s s'"
    and "same_profiles s s' \<and> effs = [] \<or>
      active s \<in> set (vcu_supported_profiles u) \<and> peer_profiles s' = vcu_supported_profiles u \<and>
      common s' = common_profiles (local_profiles s) (vcu_supported_profiles u) \<and> effs = [publish s']"
  using assms
  by (auto simp: on_capabilities_def Let_def same_negotiation_def same_profiles_def split: if_splits)

lemma on_capabilities_inv:
  assumes "on_capabilities u s = (effs, Continue s')" "actor_inv s"
  shows "actor_inv s'"
  using on_capabilities_Continue [OF assms(1)] assms(2)
  by (auto simp: actor_inv_def same_negotiation_def same_profiles_def in_format_def
      split: option.splits pending_kind.splits)

lemma on_command_Continue:
  assumes "on_command a cmd s = (effs, Continue s')"
  obtains (answered) c r where "cmd = Some c" "effs = [Reply (cmd_reply c) r]" "s' = s"
      "\<And>p. r = Ok p \<Longrightarrow> p = active s \<and> width p = cmd_width c \<and> height p = cmd_height c \<and> fps p = cmd_fps c"
  | (requested) c p where "cmd = Some c" "p \<in> set (common s)" "p \<noteq> active s"
      "width p = cmd_width c" "height p = cmd_height c" "fps p = cmd_fps c"
      "request_configuration a p (Configure (active s) (Some (cmd_reply c))) s = (effs, Continue s')"
proof (cases cmd)
  case None
  with assms show ?thesis by (simp add: on_command_def)
next
  case (Some c)
  show ?thesis
  proof (cases "resolve_profile (common s) (cmd_width c) (cmd_height c) (cmd_fps c) (cmd_preference c)")
    case (Ok p)
    note p = resolve_profile_Ok [OF Ok]
    show ?thesis
    proof (cases "output_preflight (out_dev s) p = Ok () \<and> p \<noteq> active s")
      case True
      then show ?thesis using assms Some Ok p by (intro requested [of c p]) (auto simp: on_command_def)
    next
      case False
      then show ?thesis using assms Some Ok p
        by (intro answered [of c "case output_preflight (out_dev s) p of
              Err e \<Rightarrow> Err (PreflightRefused e) | _ \<Rightarrow> Ok (active s)"])
          (auto simp: on_command_def split: result.splits if_splits)
    qed
  next
    case (Err e)
    then show ?thesis using assms Some
      by (intro answered [of c "Err (NoCommonProfile e)"]) (auto simp: on_command_def)
  qed (use assms Some in \<open>simp add: on_command_def\<close>)
qed

lemma on_command_inv:
  assumes "on_command a cmd s = (effs, Continue s')" "actor_inv s" "pending s = None"
  shows "actor_inv s'"
  using assms(1)
proof (cases rule: on_command_Continue)
  case (requested c p)
  then show ?thesis using assms(2,3)
    by (auto simp: actor_inv_def request_configuration_Continue in_format_def)
qed (use assms in simp)

lemma on_tick_inv:
  "on_tick a s = (effs, Continue s') \<Longrightarrow> actor_inv s \<Longrightarrow> actor_inv s'"
  by (auto simp: on_tick_def actor_inv_def in_format_def split: option.splits if_splits pending_kind.splits)

text \<open>The three arms that handle a configuration result, when they continue.\<close>

lemma on_unsolicited_Continue:
  assumes "on_unsolicited_result a result s = (effs, Continue s')"
  obtains (ignored) "effs = []" "s' = s"
  | (adopted) p d where "p \<in> set (common s)"
      "commit_and_reset a p (out_dev s) = ([ResetDecoder (codec p) True], Committed, d)"
      "s' = adopt p d s" "effs = [ResetDecoder (codec p) True, publish s']"
  | (failed) p e d effs1 effs2 where
      "commit_and_reset a p (out_dev s) = (effs1, CommitFailure e, d)" "effs = effs1 @ effs2"
      "request_configuration a (active s) (Compensation (active s) (UnsolicitedCommit e) None)
         (s\<lparr>out_dev := d\<rparr>) = (effs2, Continue s')"
proof (cases result)
  case (Applied p)
  show ?thesis
  proof (cases "p \<in> set (common s)")
    case True
    obtain effs1 r d where commit: "commit_and_reset a p (out_dev s) = (effs1, r, d)"
      by (cases "commit_and_reset a p (out_dev s)") auto
    show ?thesis
    proof (cases r)
      case Committed
      with commit commit_and_reset_Committed(1) [of a p "out_dev s" effs1 d]
      show ?thesis using assms Applied True
        by (intro adopted [of p d]) (auto simp: on_unsolicited_result_def Let_def)
    next
      case (CommitFailure e)
      then obtain effs2 fl where request: "request_configuration a (active s)
          (Compensation (active s) (UnsolicitedCommit e) None) (s\<lparr>out_dev := d\<rparr>) = (effs2, fl)"
        by fastforce
      show ?thesis using assms Applied True commit CommitFailure request
        by (intro failed [of p effs1 e d effs2]) (auto simp: on_unsolicited_result_def)
    qed (use assms Applied True commit in \<open>simp add: on_unsolicited_result_def\<close>)
  next
    case False
    with assms Applied show ?thesis by (intro ignored) (simp_all add: on_unsolicited_result_def)
  qed
next
  case UnsupportedProfile
  with assms show ?thesis by (intro ignored) (simp_all add: on_unsolicited_result_def)
next
  case CaptureConfigurationFailed
  with assms show ?thesis by (intro ignored) (simp_all add: on_unsolicited_result_def)
next
  case EncoderInitializationFailed
  with assms show ?thesis by (intro ignored) (simp_all add: on_unsolicited_result_def)
qed

lemma on_configure_Continue:
  assumes "on_configure_result a cur prior rep result s = (effs, Continue s')"
  obtains (refused) "effs = reply_to rep (Err (PhoneRejected result))" "s' = s\<lparr>pending := None\<rparr>"
  | (adopted) p d where "p \<in> set (common s)" "same_picture p (pc_requested cur)"
      "commit_and_reset a p (out_dev s) = ([ResetDecoder (codec p) True], Committed, d)"
      "s' = adopt p d s" "effs = [ResetDecoder (codec p) True, publish s'] @ reply_to rep (Ok p)"
  | (failed) p e d effs1 effs2 where
      "commit_and_reset a p (out_dev s) = (effs1, CommitFailure e, d)" "effs = effs1 @ effs2"
      "request_configuration a prior (Compensation prior (AppliedCommit e) rep)
         (s\<lparr>out_dev := d\<rparr>) = (effs2, Continue s')"
proof (cases "\<exists>p. result = Applied p \<and> p \<in> set (common s) \<and> same_picture p (pc_requested cur)")
  case True
  then obtain p where p: "result = Applied p" "p \<in> set (common s)" "same_picture p (pc_requested cur)"
    by blast
  obtain effs1 r d where commit: "commit_and_reset a p (out_dev s) = (effs1, r, d)"
    by (cases "commit_and_reset a p (out_dev s)") auto
  show ?thesis
  proof (cases r)
    case Committed
    with commit commit_and_reset_Committed(1) [of a p "out_dev s" effs1 d]
    show ?thesis using assms p
      by (intro adopted [of p d])
        (auto simp: on_configure_result_def accepts_applied_profile_iff Let_def)
  next
    case (CommitFailure e)
    then obtain effs2 fl where request: "request_configuration a prior
        (Compensation prior (AppliedCommit e) rep) (s\<lparr>out_dev := d\<rparr>) = (effs2, fl)"
      by fastforce
    show ?thesis using assms p commit CommitFailure request
      by (intro failed [of p effs1 e d effs2])
        (auto simp: on_configure_result_def accepts_applied_profile_iff)
  qed (use assms p commit in \<open>simp add: on_configure_result_def accepts_applied_profile_iff\<close>)
next
  case False
  then show ?thesis using assms
    by (intro refused)
      (auto simp: on_configure_result_def accepts_applied_profile_iff
        split: stream_configuration_outcome.splits)
qed

lemma on_compensation_Continue:
  assumes "on_compensation_result a prior e rep result s = (effs, Continue s')"
  obtains d where "commit_and_reset a prior (out_dev s) = ([ResetDecoder (codec prior) True], Committed, d)"
    "s' = adopt prior d s"
    "effs = [ResetDecoder (codec prior) True, publish s'] @ reply_to rep (Err (Compensated e))"
proof -
  obtain effs1 r d where commit: "commit_and_reset a prior (out_dev s) = (effs1, r, d)"
    by (cases "commit_and_reset a prior (out_dev s)") auto
  with assms have "r = Committed"
    by (cases r; cases "result = Applied prior")
      (auto simp: on_compensation_result_def split: reconfigure_failure.splits)
  with commit commit_and_reset_Committed(1) [of a prior "out_dev s" effs1 d] assms show ?thesis
    by (intro that [of d]) (auto simp: on_compensation_result_def Let_def split: if_splits)
qed

lemma on_configuration_result_cases:
  assumes "on_configuration_result a r s = (effs, Continue s')" "actor_inv s"
  obtains (ignored) "s' = s" "effs = []" "pending s = None \<Longrightarrow> request_id r \<noteq> 0"
      "\<And>cur. pending s = Some cur \<Longrightarrow> request_id r \<noteq> pc_request_id cur"
  | (unsolicited) "pending s = None" "on_unsolicited_result a (outcome r) s = (effs, Continue s')" "request_id r = 0"
  | (answer) cur rep where "pending s = Some cur" "pc_kind cur = Configure (active s) rep"
      "on_configure_result a cur (active s) rep (outcome r) s = (effs, Continue s')" "request_id r = pc_request_id cur"
  | (undoing) cur e rep where "pending s = Some cur" "pc_kind cur = Compensation (active s) e rep"
      "on_compensation_result a (active s) e rep (outcome r) s = (effs, Continue s')"
proof (cases "pending s")
  case None
  with assms(1) show thesis
    by (cases "request_id r = 0") (auto simp: on_configuration_result_def intro: ignored unsolicited)
next
  case (Some cur)
  show thesis
  proof (cases "request_id r = pc_request_id cur")
    case True
    with assms Some show thesis
      by (cases "pc_kind cur") (auto simp: on_configuration_result_def actor_inv_def intro: answer undoing)
  next
    case False
    with assms(1) Some have "s' = s" "effs = []" by (simp_all add: on_configuration_result_def)
    then show thesis by (rule ignored) (use Some False in simp_all)
  qed
qed

section \<open>The moves of an actor that continues\<close>

text \<open>An effect that is neither an answer, nor a status, nor a reset.\<close>

primrec plain_effect :: "effect \<Rightarrow> bool" where
  "plain_effect (Send m) = True"
| "plain_effect (Reply t r) = False"
| "plain_effect (Status st) = False"
| "plain_effect (ResetDecoder c ok) = False"
| "plain_effect (SubmitFrame f ok) = True"
| "plain_effect (WriteFrame f ok) = True"

definition submits_match :: "effect list \<Rightarrow> stream_profile \<Rightarrow> bool" where
  "submits_match effs p \<longleftrightarrow>
     (\<forall>f ok. SubmitFrame f ok \<in> set effs \<longrightarrow> vf_codec f = codec p \<and> vf_width f = width p \<and> vf_height f = height p)"

lemma submits_match_simps [simp]:
  "submits_match [] p"
  "submits_match (Send m # effs) p \<longleftrightarrow> submits_match effs p"
  "submits_match (Reply t r # effs) p \<longleftrightarrow> submits_match effs p"
  "submits_match (Status st # effs) p \<longleftrightarrow> submits_match effs p"
  "submits_match (ResetDecoder c ok # effs) p \<longleftrightarrow> submits_match effs p"
  "submits_match (WriteFrame g ok # effs) p \<longleftrightarrow> submits_match effs p"
  "submits_match (SubmitFrame f ok # effs) p \<longleftrightarrow>
     vf_codec f = codec p \<and> vf_width f = width p \<and> vf_height f = height p \<and> submits_match effs p"
  by (auto simp: submits_match_def)

lemma on_video_frame_effects:
  "on_video_frame a f s = (effs, fl) \<Longrightarrow> list_all plain_effect effs \<and> submits_match effs (active s)"
  by (auto simp: on_video_frame_def Let_def split: if_splits)

lemma on_decoder_event_effects:
  "on_decoder_event a ev s = (effs, fl) \<Longrightarrow> list_all plain_effect effs \<and> submits_match effs p"
  by (auto simp: on_decoder_event_def split: option.splits decode_event.splits prod.splits result.splits if_splits)

text \<open>
  One rule for each thing a step can have done to the negotiation: nothing, a change of the phone's
  offer, a command answered at once or turned into a request, a request at its end without a
  change, a change of the phone's own, an applied request, a change undone, and a failed change.
\<close>

inductive actor_move ::
  "answers \<Rightarrow> actor_input \<Rightarrow> ('l, 'm, 'w) stream_actor \<Rightarrow> effect list \<Rightarrow> ('l, 'm, 'w) stream_actor \<Rightarrow> bool"
  for a i s effs s' where
  quiet: "same_negotiation s s' \<Longrightarrow> same_profiles s s' \<Longrightarrow> list_all plain_effect effs \<Longrightarrow>
    submits_match effs (active s) \<Longrightarrow> actor_move a i s effs s'"
| capabilities: "same_negotiation s s' \<Longrightarrow> active s \<in> set (peer_profiles s') \<Longrightarrow>
    common s' = common_profiles (local_profiles s) (peer_profiles s') \<Longrightarrow> effs = [publish s'] \<Longrightarrow>
    actor_move a i s effs s'"
| answered: "i = Command (Some c) \<Longrightarrow> effs = [Reply (cmd_reply c) r] \<Longrightarrow> s' = s \<Longrightarrow> pending s = None \<Longrightarrow>
    (\<And>p. r = Ok p \<Longrightarrow> p = active s \<and> width p = cmd_width c \<and> height p = cmd_height c \<and> fps p = cmd_fps c) \<Longrightarrow>
    actor_move a i s effs s'"
| requested: "i = Command (Some c) \<Longrightarrow> pending s = None \<Longrightarrow> p \<in> set (common s) \<Longrightarrow> p \<noteq> active s \<Longrightarrow>
    width p = cmd_width c \<Longrightarrow> height p = cmd_height c \<Longrightarrow> fps p = cmd_fps c \<Longrightarrow>
    request_configuration a p (Configure (active s) (Some (cmd_reply c))) s = (effs, Continue s') \<Longrightarrow>
    actor_move a i s effs s'"
| ended: "pending s = Some cur \<Longrightarrow> pc_kind cur = Configure (active s) rep \<Longrightarrow>
    effs = reply_to rep (Err e) \<Longrightarrow> s' = s\<lparr>pending := None\<rparr> \<Longrightarrow> actor_move a i s effs s'"
| spontaneous: "pending s = None \<Longrightarrow> p \<in> set (common s) \<Longrightarrow>
    commit_and_reset a p (out_dev s) = ([ResetDecoder (codec p) True], Committed, d) \<Longrightarrow>
    s' = adopt p d s \<Longrightarrow> effs = [ResetDecoder (codec p) True, publish s'] \<Longrightarrow> actor_move a i s effs s'"
| applied: "pending s = Some cur \<Longrightarrow> pc_kind cur = Configure (active s) rep \<Longrightarrow> p \<in> set (common s) \<Longrightarrow>
    same_picture p (pc_requested cur) \<Longrightarrow>
    commit_and_reset a p (out_dev s) = ([ResetDecoder (codec p) True], Committed, d) \<Longrightarrow> s' = adopt p d s \<Longrightarrow>
    effs = [ResetDecoder (codec p) True, publish s'] @ reply_to rep (Ok p) \<Longrightarrow> actor_move a i s effs s'"
| restored: "pending s = Some cur \<Longrightarrow> pc_kind cur = Compensation (active s) e rep \<Longrightarrow>
    commit_and_reset a (active s) (out_dev s) = ([ResetDecoder (codec (active s)) True], Committed, d) \<Longrightarrow>
    s' = adopt (active s) d s \<Longrightarrow>
    effs = [ResetDecoder (codec (active s)) True, publish s'] @ reply_to rep (Err (Compensated e)) \<Longrightarrow>
    actor_move a i s effs s'"
| broken: "pending s = None \<and> rep = None \<or> (\<exists>cur. pending s = Some cur \<and> pc_kind cur = Configure (active s) rep) \<Longrightarrow>
    commit_and_reset a p (out_dev s) = (effs1, CommitFailure e, d) \<Longrightarrow> effs = effs1 @ effs2 \<Longrightarrow>
    request_configuration a (active s) (Compensation (active s) e' rep) (s\<lparr>out_dev := d\<rparr>) = (effs2, Continue s') \<Longrightarrow>
    actor_move a i s effs s'"

lemma still_moves: "s' = s \<Longrightarrow> effs = [] \<Longrightarrow> actor_move a i s effs s'"
  by (intro actor_move.quiet) (simp_all add: same_negotiation_def same_profiles_def)

lemma result_moves:
  assumes "on_configuration_result a r s = (effs, Continue s')" "actor_inv s"
  shows "actor_move a i s effs s'"
  using assms
proof (cases rule: on_configuration_result_cases)
  case unsolicited
  from unsolicited(2) show ?thesis
  proof (cases rule: on_unsolicited_Continue)
    case (failed p e d effs1 effs2)
    show ?thesis by (rule actor_move.broken [OF _ failed(1)]) (use unsolicited failed in auto)
  qed (use unsolicited in \<open>auto intro: still_moves actor_move.spontaneous\<close>)
next
  case (answer cur rep)
  from answer(3) show ?thesis
  proof (cases rule: on_configure_Continue)
    case (failed p e d effs1 effs2)
    show ?thesis by (rule actor_move.broken [OF _ failed(1)]) (use answer failed in auto)
  qed (use answer in \<open>auto intro: actor_move.ended actor_move.applied\<close>)
next
  case (undoing cur e rep)
  from undoing(3) show ?thesis
    by (cases rule: on_compensation_Continue) (use undoing in \<open>auto intro: actor_move.restored\<close>)
qed (rule still_moves)

lemma message_moves:
  assumes "on_message a (Some m) s = (effs, Continue s')" "actor_inv s"
  shows "actor_move a i s effs s'"
proof (cases m)
  case (Msg_VideoFrame f)
  with assms(1) have "on_video_frame a f s = (effs, Continue s')" by (simp add: on_message_def)
  then show ?thesis using on_video_frame_quiet on_video_frame_effects by (intro actor_move.quiet) blast+
next
  case (Msg_VideoCapabilitiesUpdate u)
  with assms(1) have "on_capabilities u s = (effs, Continue s')" by (simp add: on_message_def)
  from on_capabilities_Continue [OF this] show ?thesis
    by (cases "same_profiles s s' \<and> effs = []") (auto intro: actor_move.quiet actor_move.capabilities)
next
  case (Msg_StreamConfigurationResult r)
  with assms(1) have "on_configuration_result a r s = (effs, Continue s')" by (simp add: on_message_def)
  from result_moves [OF this assms(2)] show ?thesis .
qed (use assms(1) in \<open>simp_all add: on_message_def still_moves\<close>)

lemma tick_moves:
  assumes "on_tick a s = (effs, Continue s')" "actor_inv s"
  shows "actor_move a i s effs s'"
proof (cases "effs = [] \<and> s' = s")
  case False
  with assms(1) obtain cur prior rep where "pending s = Some cur" "pc_kind cur = Configure prior rep"
    "effs = reply_to rep (Err ConfigurationTimedOut)" "s' = s\<lparr>pending := None\<rparr>"
    by (auto simp: on_tick_def split: option.splits if_splits pending_kind.splits)
  moreover from this assms(2) have "prior = active s" by (simp add: actor_inv_def)
  ultimately show ?thesis by (intro actor_move.ended) auto
qed (simp add: still_moves)

lemma actor_step_moves:
  assumes "actor_step a i s = (effs, Continue s')" "branch_enabled i s" "actor_inv s"
  shows "actor_move a i s effs s'"
proof (cases i)
  case (StateChanged st)
  with assms(1) show ?thesis
    by (auto simp: actor_step_def on_state_changed_def intro: still_moves split: if_splits)
next
  case Tick
  with assms show ?thesis by (simp add: actor_step_def tick_moves)
next
  case (Command cmd)
  with assms(1) have "on_command a cmd s = (effs, Continue s')" by (simp add: actor_step_def)
  moreover have "pending s = None" using assms(2) Command by (simp add: branch_enabled_def)
  ultimately show ?thesis
    by (cases rule: on_command_Continue) (use Command in \<open>auto intro: actor_move.answered actor_move.requested\<close>)
next
  case (DecoderEvent ev)
  with assms(1) have "on_decoder_event a ev s = (effs, Continue s')" by (simp add: actor_step_def)
  then show ?thesis
    using on_decoder_event_quiet on_decoder_event_effects by (intro actor_move.quiet) blast+
next
  case (PeerMessage m)
  with assms(1) obtain msg where "on_message a (Some msg) s = (effs, Continue s')"
    by (cases m) (simp_all add: actor_step_def on_message_def)
  from message_moves [OF this assms(3)] show ?thesis .
qed (use assms(1) in \<open>simp add: actor_step_def\<close>)

lemmas actor_step_cases = actor_step_moves [THEN actor_move.cases, consumes 3,
  case_names quiet capabilities answered requested ended spontaneous applied restored broken]

end
