(* ===== verification/Stream_Properties.thy ===== *)
theory Stream_Properties
  imports Stream_Invariants
begin

text \<open>
  The properties of the connection actor: its invariant over all runs, the truth of what it
  tells the user interface and its callers, the match between the frames it submits and the
  decoder, and the abstract negotiation it refines.
\<close>

section \<open>The invariant over runs\<close>

lemma actor_step_inv:
  assumes "actor_step a i s = (effs, Continue s')" "branch_enabled i s" "actor_inv s"
  shows "actor_inv s'"
  using assms
proof (cases rule: actor_step_cases)
  case quiet
  with assms(3) show ?thesis by (blast intro: actor_inv_same_negotiation)
next
  case capabilities
  then show ?thesis using assms(3)
    by (auto simp: actor_inv_def same_negotiation_def in_format_def split: option.splits pending_kind.splits)
next
  case (requested c p)
  then show ?thesis using assms(3)
    by (auto simp: actor_inv_def request_configuration_Continue in_format_def)
next
  case (ended cur rep e)
  then show ?thesis using assms(3) by (simp add: actor_inv_def in_format_def)
qed (use assms(3) actor_inv_common in \<open>auto intro: adopt_inv compensation_inv\<close>)

lemma reachable_inv: "actor_reachable ins effs s \<Longrightarrow> actor_inv s"
  by (induction rule: actor_reachable.induct) (blast intro: actor_start_inv actor_step_inv)+

section \<open>What the effects say\<close>

text \<open>The codec of the last successful decoder reset and the last published status.\<close>

fun decoder_codec :: "effect list \<Rightarrow> video_codec option \<Rightarrow> video_codec option" where
  "decoder_codec [] c = c"
| "decoder_codec (ResetDecoder c' True # effs) c = decoder_codec effs (Some c')"
| "decoder_codec (_ # effs) c = decoder_codec effs c"

fun last_status :: "effect list \<Rightarrow> pipeline_status option \<Rightarrow> pipeline_status option" where
  "last_status [] st = st"
| "last_status (Status st' # effs) st = last_status effs (Some st')"
| "last_status (_ # effs) st = last_status effs st"

fun replies :: "effect list \<Rightarrow> (reply_token \<times> reply) list" where
  "replies [] = []"
| "replies (Reply t r # effs) = (t, r) # replies effs"
| "replies (_ # effs) = replies effs"

lemma decoder_codec_append [simp]: "decoder_codec (xs @ ys) c = decoder_codec ys (decoder_codec xs c)"
  by (induction xs c rule: decoder_codec.induct) auto

lemma last_status_append [simp]: "last_status (xs @ ys) st = last_status ys (last_status xs st)"
  by (induction xs st rule: last_status.induct) auto

lemma replies_append [simp]: "replies (xs @ ys) = replies xs @ replies ys"
  by (induction xs rule: replies.induct) auto

lemma plain_effects:
  assumes "list_all plain_effect effs"
  shows "decoder_codec effs c = c" "last_status effs st = st" "replies effs = []"
proof -
  have "plain_effect e \<Longrightarrow> decoder_codec (e # es) c = decoder_codec es c \<and>
      last_status (e # es) st = last_status es st \<and> replies (e # es) = replies es" for e es c st
    by (cases e) auto
  with assms show "decoder_codec effs c = c" "last_status effs st = st" "replies effs = []"
    by (induction effs) auto
qed

lemma reply_to_effects [simp]:
  "decoder_codec (reply_to rep r) c = c" "last_status (reply_to rep r) st = st"
  "replies (reply_to rep r) = (case rep of None \<Rightarrow> [] | Some t \<Rightarrow> [(t, r)])"
  "submits_match (reply_to rep r) p"
  by (cases rep; simp)+

lemma submits_match_append [simp]:
  "submits_match (xs @ ys) p \<longleftrightarrow> submits_match xs p \<and> submits_match ys p"
  by (auto simp: submits_match_def)

section \<open>The decoder follows the active profile\<close>

text \<open>
  Every submitted frame has the codec the decoder was last reset to: walking the effects, \<open>c\<close> is
  that codec.
\<close>

fun submits_follow_resets :: "effect list \<Rightarrow> video_codec option \<Rightarrow> bool" where
  "submits_follow_resets [] c = True"
| "submits_follow_resets (ResetDecoder c' ok # effs) c =
     submits_follow_resets effs (if ok then Some c' else c)"
| "submits_follow_resets (SubmitFrame f ok # effs) c = (c = Some (vf_codec f) \<and> submits_follow_resets effs c)"
| "submits_follow_resets (_ # effs) c = submits_follow_resets effs c"

lemma submits_follow_append [simp]:
  "submits_follow_resets (xs @ ys) c \<longleftrightarrow>
     submits_follow_resets xs c \<and> submits_follow_resets ys (decoder_codec xs c)"
proof (induction xs c rule: submits_follow_resets.induct)
  case (2 c' ok effs c)
  then show ?case by (cases ok) auto
qed auto

lemma plain_follow:
  "list_all plain_effect effs \<Longrightarrow> submits_match effs p \<Longrightarrow> submits_follow_resets effs (Some (codec p))"
proof (induction effs)
  case (Cons e effs)
  then show ?case by (cases e) auto
qed simp

lemma reply_to_follow [simp]: "submits_follow_resets (reply_to rep r) c"
  by (cases rep) auto

lemma commit_failure_effects:
  assumes "commit_and_reset a p d = (effs1, CommitFailure e, d')"
  shows "decoder_codec effs1 c = c" "submits_follow_resets effs1 c" "replies effs1 = []"
    "last_status effs1 st = st"
  using commit_and_reset_failure(1) [OF assms] by auto

lemma actor_step_codec:
  assumes "actor_step a i s = (effs, Continue s')" "branch_enabled i s" "actor_inv s"
  shows "decoder_codec effs (Some (codec (active s))) = Some (codec (active s')) \<and>
    submits_follow_resets effs (Some (codec (active s)))"
  using assms
proof (cases rule: actor_step_cases)
  case quiet
  then show ?thesis by (auto simp: plain_effects plain_follow same_negotiation_def)
next
  case (broken rep p effs1 e d effs2 e')
  then show ?thesis
    using commit_failure_effects [OF broken(2)] by (auto simp: request_configuration_Continue)
qed (auto simp: adopt_def publish_def same_negotiation_def request_configuration_Continue)

lemma actor_start_codec:
  "actor_start worker a h d local = (effs, Continue s) \<Longrightarrow>
   decoder_codec effs None = Some (codec (active s)) \<and> submits_follow_resets effs None"
  by (auto simp: actor_start_def Let_def publish_def
      split: option.splits if_splits prod.splits result.splits)

lemma reachable_codec:
  "actor_reachable ins effs s \<Longrightarrow>
   decoder_codec effs None = Some (codec (active s)) \<and> submits_follow_resets effs None"
proof (induction rule: actor_reachable.induct)
  case (start worker a h d local effs s)
  then show ?case by (rule actor_start_codec)
next
  case (step ins effs s i a effs' s')
  with actor_step_codec [OF step(3,2) reachable_inv [OF step(1)]] show ?case by simp
qed

section \<open>The published status\<close>

definition compensating :: "'d actor \<Rightarrow> bool" where
  "compensating s \<longleftrightarrow>
     (\<exists>cur prior e rep. pending s = Some cur \<and> pc_kind cur = Compensation prior e rep)"

definition truthful_status :: "('l, 'm, 'w) stream_actor \<Rightarrow> pipeline_status" where
  "truthful_status s =
     status_connected (common s) (active s)
       (Some (native_format_of (output_pixel_format (out_dev s)) (active s)))"

lemma publish_truthful: "in_format s (active s) \<Longrightarrow> publish s = Status (truthful_status s)"
  by (simp add: publish_def truthful_status_def in_format_def)

lemma in_format_active:
  "actor_inv s \<Longrightarrow> \<not> compensating s \<Longrightarrow> in_format s (active s)"
  by (auto simp: actor_inv_def compensating_def split: option.splits pending_kind.splits)

lemma adopt_publishes:
  "commit_and_reset a p (out_dev s) = (effs, Committed, d) \<Longrightarrow>
   publish (adopt p d s) = Status (truthful_status (adopt p d s))"
  using commit_and_reset_Committed [of a p "out_dev s" effs d]
  by (intro publish_truthful) (simp add: in_format_def adopt_def)

lemma actor_step_status:
  assumes "actor_step a i s = (effs, Continue s')" "branch_enabled i s" "actor_inv s"
    and "\<not> compensating s \<Longrightarrow> st = Some (truthful_status s)" "\<not> compensating s'"
  shows "last_status effs st = Some (truthful_status s')"
  using assms(1-3)
proof (cases rule: actor_step_cases)
  case quiet
  then have "compensating s = compensating s'" "truthful_status s' = truthful_status s"
    by (auto simp: compensating_def truthful_status_def same_negotiation_def same_profiles_def)
  with assms(4,5) quiet show ?thesis by (simp add: plain_effects)
next
  case capabilities
  have "publish s' = Status (truthful_status s')"
    using assms(5) actor_step_inv [OF assms(1-3)] by (intro publish_truthful in_format_active)
  with capabilities show ?thesis by simp
next
  case (answered c r)
  with assms(4,5) show ?thesis by simp
next
  case (requested c p)
  then have "\<not> compensating s" by (simp add: compensating_def)
  with assms(4) requested show ?thesis
    by (auto simp: request_configuration_Continue truthful_status_def)
next
  case (ended cur rep e)
  then have "\<not> compensating s" by (simp add: compensating_def)
  with assms(4) ended show ?thesis by (simp add: truthful_status_def)
next
  case (broken rep p effs1 e d effs2 e')
  then have "compensating s'" by (auto simp: compensating_def request_configuration_Continue)
  with assms(5) show ?thesis by simp
qed (simp_all add: adopt_publishes)

lemma actor_start_status:
  assumes "actor_start worker a h d local = (effs, Continue s)"
  shows "last_status effs None = Some (truthful_status s)"
proof -
  have "publish s = Status (truthful_status s)"
  proof (rule publish_truthful, rule in_format_active)
    show "actor_inv s" using assms by (rule actor_start_inv)
    show "\<not> compensating s"
      using assms by (auto simp: actor_start_def Let_def compensating_def
          split: option.splits if_splits prod.splits result.splits)
  qed
  moreover have "last_status effs None = last_status [publish s] None"
    using assms by (auto simp: actor_start_def Let_def publish_def
        split: option.splits if_splits prod.splits result.splits)
  ultimately show ?thesis by simp
qed

lemma reachable_status:
  "actor_reachable ins effs s \<Longrightarrow> \<not> compensating s \<Longrightarrow> last_status effs None = Some (truthful_status s)"
proof (induction rule: actor_reachable.induct)
  case (start worker a h d local effs s)
  then show ?case by (blast intro: actor_start_status)
next
  case (step ins effs s i a effs' s')
  from actor_step_status [OF step(3,2) reachable_inv [OF step(1)] step.IH step.prems] show ?case by simp
qed

section \<open>Replies\<close>

definition pending_reply :: "'d actor \<Rightarrow> reply_token option" where
  "pending_reply s =
     (case pending s of
        None \<Rightarrow> None
      | Some cur \<Rightarrow> (case pc_kind cur of Configure prior rep \<Rightarrow> rep | Compensation prior e rep \<Rightarrow> rep))"

fun commands :: "actor_input list \<Rightarrow> pipeline_command list" where
  "commands [] = []"
| "commands (Command (Some c) # ins) = c # commands ins"
| "commands (_ # ins) = commands ins"

lemma commands_append [simp]: "commands (xs @ ys) = commands xs @ commands ys"
  by (induction xs rule: commands.induct) auto

definition outstanding :: "reply_token option \<Rightarrow> reply_token multiset" where
  "outstanding rep = (case rep of None \<Rightarrow> {#} | Some t \<Rightarrow> {#t#})"

lemma outstanding_simps [simp]: "outstanding None = {#}" "outstanding (Some t) = {#t#}"
  by (simp_all add: outstanding_def)

lemma replied_tokens_reply_to:
  "mset (map fst (replies (reply_to rep r))) = outstanding rep"
  by (cases rep) auto

definition tokens_replied :: "effect list \<Rightarrow> reply_token multiset" where
  "tokens_replied effs = mset (map fst (replies effs))"

lemma tokens_replied_append [simp]: "tokens_replied (xs @ ys) = tokens_replied xs + tokens_replied ys"
  by (simp add: tokens_replied_def)

lemma tokens_replied_reply_to [simp]: "tokens_replied (reply_to rep r) = outstanding rep"
  using replied_tokens_reply_to by (simp add: tokens_replied_def)

lemma tokens_replied_simps [simp]:
  "tokens_replied [] = {#}"
  "tokens_replied (ResetDecoder c ok # effs) = tokens_replied effs"
  "tokens_replied (Status st # effs) = tokens_replied effs"
  "tokens_replied (Send m # effs) = tokens_replied effs"
  "tokens_replied (Reply t r # effs) = add_mset t (tokens_replied effs)"
  by (simp_all add: tokens_replied_def)

definition step_tokens :: "actor_input \<Rightarrow> reply_token multiset" where
  "step_tokens i = mset (map cmd_reply (commands [i]))"

text \<open>Every command adds its own token; an answer takes one away.\<close>

lemma actor_step_replies:
  assumes "actor_step a i s = (effs, Continue s')" "branch_enabled i s" "actor_inv s"
  shows "tokens_replied effs + outstanding (pending_reply s') =
    outstanding (pending_reply s) + step_tokens i"
proof (cases "\<exists>c. i = Command (Some c)")
  case True
  then obtain c where i: "i = Command (Some c)" by blast
  then have none: "pending s = None" using assms(2) by (simp add: branch_enabled_def)
  from assms(1) i have "on_command a (Some c) s = (effs, Continue s')" by (simp add: actor_step_def)
  then show ?thesis
    by (cases rule: on_command_Continue)
      (use none i in \<open>auto simp: step_tokens_def pending_reply_def request_configuration_Continue\<close>)
next
  case False
  then have none: "step_tokens i = {#}" by (cases i) (auto simp: step_tokens_def split: option.splits)
  from assms show ?thesis
  proof (cases rule: actor_step_cases)
    case quiet
    then show ?thesis
      by (simp add: none tokens_replied_def plain_effects same_negotiation_def pending_reply_def)
  next
    case (broken rep p effs1 e d effs2 e')
    then show ?thesis using commit_failure_effects(3) [OF broken(2)]
      by (auto simp: none tokens_replied_def pending_reply_def request_configuration_Continue)
  qed (use False in \<open>auto simp: none pending_reply_def same_negotiation_def publish_def adopt_def\<close>)
qed

lemma reachable_replies:
  "actor_reachable ins effs s \<Longrightarrow>
   tokens_replied effs + outstanding (pending_reply s) = mset (map cmd_reply (commands ins))"
proof (induction rule: actor_reachable.induct)
  case (start worker a h d local effs s)
  then show ?case
    by (auto simp: actor_start_def Let_def publish_def pending_reply_def
        split: option.splits if_splits prod.splits result.splits)
next
  case (step ins effs s i a effs' s')
  have "tokens_replied (effs @ effs') + outstanding (pending_reply s') =
      tokens_replied effs + (tokens_replied effs' + outstanding (pending_reply s'))"
    by (simp add: ac_simps)
  also have "\<dots> = (tokens_replied effs + outstanding (pending_reply s)) + step_tokens i"
    using actor_step_replies [OF step(3,2) reachable_inv [OF step(1)]] by (simp add: ac_simps)
  finally show ?case using step.IH by (simp add: step_tokens_def)
qed

section \<open>What an answer promises\<close>

text \<open>While a command waits, the profile it asked for has its size and rate.\<close>

definition pending_matches :: "actor_input list \<Rightarrow> 'd actor \<Rightarrow> bool" where
  "pending_matches ins s \<longleftrightarrow>
     (\<forall>cur prior t. pending s = Some cur \<and> pc_kind cur = Configure prior (Some t) \<longrightarrow>
        (\<exists>c \<in> set (commands ins). cmd_reply c = t \<and> width (pc_requested cur) = cmd_width c \<and>
           height (pc_requested cur) = cmd_height c \<and> fps (pc_requested cur) = cmd_fps c))"

lemma pending_matches_none: "pending s = None \<Longrightarrow> pending_matches ins s"
  by (simp add: pending_matches_def)

lemma pending_matches_step:
  assumes "actor_step a i s = (effs, Continue s')" "branch_enabled i s" "actor_inv s" "pending_matches ins s"
  shows "pending_matches (ins @ [i]) s'"
  using assms(1-3)
proof (cases rule: actor_step_cases)
  case (requested c p)
  then show ?thesis by (auto simp: pending_matches_def request_configuration_Continue)
qed (use assms(4) in \<open>auto simp: pending_matches_def same_negotiation_def adopt_def request_configuration_Continue\<close>)

lemma reachable_pending_matches: "actor_reachable ins effs s \<Longrightarrow> pending_matches ins s"
proof (induction rule: actor_reachable.induct)
  case (start worker a h d local effs s)
  then show ?case
    by (auto simp: actor_start_def Let_def split: option.splits if_splits prod.splits result.splits
        intro: pending_matches_none)
next
  case (step ins effs s i a effs' s')
  from pending_matches_step [OF step(3,2) reachable_inv [OF step(1)] step.IH] show ?case .
qed

text \<open>A step that ends the actor never answers \<open>Ok\<close>.\<close>

definition stops :: "'d flow \<Rightarrow> bool" where
  "stops fl \<longleftrightarrow> (\<forall>s. fl \<noteq> Continue s)"

lemma stops_Continue [simp]: "\<not> stops (Continue s)"
  by (simp add: stops_def)

lemma reply_to_Err: "Reply t (Ok p) \<notin> set (reply_to rep (Err e))"
  by (cases rep) auto

lemma commit_effects:
  "commit_and_reset a p d = (effs, r, d') \<Longrightarrow> Reply t (Ok q) \<notin> set effs"
  by (auto simp: commit_and_reset_def split: prod.splits result.splits option.splits)

lemma request_effects:
  "request_configuration a p kind s = (effs, fl) \<Longrightarrow> Reply t (Ok q) \<notin> set effs"
  by (auto simp: request_configuration_def Let_def split: if_splits)

lemma on_configuration_result_stops:
  assumes "on_configuration_result a r s = (effs, fl)" "stops fl"
  shows "Reply t (Ok p) \<notin> set effs"
  using assms
  by (auto simp: on_configuration_result_def on_unsolicited_result_def on_configure_result_def
      on_compensation_result_def Let_def reply_to_Err dest: commit_effects request_effects
      split: option.splits if_splits pending_kind.splits stream_configuration_outcome.splits
        prod.splits commit_outcome.splits reconfigure_failure.splits)

lemma actor_step_stops:
  assumes "actor_step a i s = (effs, fl)" "stops fl"
  shows "Reply t (Ok p) \<notin> set effs"
proof (cases i)
  case Tick
  with assms show ?thesis
    by (auto simp: actor_step_def on_tick_def reply_to_Err
        split: option.splits if_splits pending_kind.splits)
next
  case (Command c)
  with assms show ?thesis
    by (auto simp: actor_step_def on_command_def dest: request_effects
        split: option.splits if_splits result.splits)
next
  case (DecoderEvent ev)
  with assms on_decoder_event_effects [of a ev s effs fl p] show ?thesis
    by (auto simp: actor_step_def list_all_iff)
next
  case (PeerMessage m)
  have "Reply t (Ok p) \<notin> set effs" if "on_video_frame a f s = (effs, fl)" for f
    using on_video_frame_effects [OF that] by (auto simp: list_all_iff)
  moreover have "Reply t (Ok p) \<notin> set effs" if "on_capabilities u s = (effs, fl)" for u
    using that assms(2) by (auto simp: on_capabilities_def Let_def split: if_splits)
  ultimately show ?thesis
    using assms PeerMessage on_configuration_result_stops
    by (fastforce simp: actor_step_def on_message_def split: option.splits message.splits)
qed (use assms in \<open>auto simp: actor_step_def on_state_changed_def split: if_splits\<close>)

text \<open>The two ways of answering \<open>Ok\<close>.\<close>

lemma actor_step_Ok_reply:
  assumes "actor_step a i s = (effs, fl)" "branch_enabled i s" "actor_inv s" "pending_matches ins s"
    and "Reply t (Ok p) \<in> set effs"
  shows "\<exists>s'. fl = Continue s' \<and> active s' = p \<and> pending s' = None \<and> in_format s' p \<and>
    p \<in> set (local_profiles s') \<and> p \<in> set (peer_profiles s') \<and>
    (\<exists>c \<in> set (commands (ins @ [i])). cmd_reply c = t \<and> width p = cmd_width c \<and>
       height p = cmd_height c \<and> fps p = cmd_fps c)"
proof -
  have "\<not> stops fl" using actor_step_stops [OF assms(1)] assms(5) by blast
  then obtain s' where fl: "fl = Continue s'" by (auto simp: stops_def)
  with assms(1) have step: "actor_step a i s = (effs, Continue s')" by simp
  note inv = actor_step_inv [OF step assms(2,3)]
  have "active s' = p \<and> pending s' = None \<and>
    (\<exists>c \<in> set (commands (ins @ [i])). cmd_reply c = t \<and> width p = cmd_width c \<and>
       height p = cmd_height c \<and> fps p = cmd_fps c)"
    using step assms(2,3)
  proof (cases rule: actor_step_cases)
    case quiet
    with assms(5) show ?thesis by (auto simp: list_all_iff)
  next
    case (applied cur rep q d)
    then have "rep = Some t" "q = p" using assms(5) by (cases rep; auto simp: publish_def)+
    with applied assms(4) show ?thesis by (auto simp: pending_matches_def adopt_def same_picture_def)
  next
    case (broken rep q effs1 e d effs2 e')
    with assms(5) show ?thesis using commit_effects request_effects by fastforce
  qed (use assms(5) reply_to_Err in \<open>auto simp: publish_def request_configuration_Continue\<close>)
  with inv fl show ?thesis by (auto simp: actor_inv_def)
qed

section \<open>The negotiation\<close>

text \<open>
  What the actor negotiates, without devices, clocks or messages: a profile in use, a request
  under way, or a return to the profile in use after a failed change.
\<close>

datatype negotiation =
    Stable stream_profile
  | Negotiating stream_profile stream_profile u32
  | Restoring stream_profile u32

inductive negotiates :: "stream_profile set \<Rightarrow> negotiation \<Rightarrow> negotiation \<Rightarrow> bool"
  for common_set :: "stream_profile set" where
  request: "r \<in> common_set \<Longrightarrow> r \<noteq> p \<Longrightarrow> rid \<noteq> 0 \<Longrightarrow> negotiates common_set (Stable p) (Negotiating p r rid)"
| change: "q \<in> common_set \<Longrightarrow> negotiates common_set (Stable p) (Stable q)"
| undo_change: "rid \<noteq> 0 \<Longrightarrow> negotiates common_set (Stable p) (Restoring p rid)"
| agree: "q \<in> common_set \<Longrightarrow> same_picture q r \<Longrightarrow>
    negotiates common_set (Negotiating p r rid) (Stable q)"
| abandon: "negotiates common_set (Negotiating p r rid) (Stable p)"
| undo_agreement: "negotiates common_set (Negotiating p r rid) (Restoring p (next_request_id rid))"
| restore: "negotiates common_set (Restoring p rid) (Stable p)"

inductive_cases negotiates_from: "negotiates common_set (Restoring p rid) n"
  "negotiates common_set (Negotiating p r rid) n" "negotiates common_set (Stable p) n"

definition negotiation_of :: "'d actor \<Rightarrow> negotiation" where
  "negotiation_of s =
     (case pending s of
        None \<Rightarrow> Stable (active s)
      | Some cur \<Rightarrow>
          (case pc_kind cur of
             Configure prior rep \<Rightarrow> Negotiating (active s) (pc_requested cur) (pc_request_id cur)
           | Compensation prior e rep \<Rightarrow> Restoring (active s) (pc_request_id cur)))"

lemma negotiation_of_cong:
  "active s' = active s \<Longrightarrow> pending s' = pending s \<Longrightarrow> negotiation_of s' = negotiation_of s"
  by (simp add: negotiation_of_def split: option.split pending_kind.split)

lemma actor_step_refines:
  assumes "actor_step a i s = (effs, Continue s')" "branch_enabled i s" "actor_inv s"
  shows "negotiation_of s' = negotiation_of s \<or>
    negotiates (set (common s)) (negotiation_of s) (negotiation_of s')"
  using assms
proof (cases rule: actor_step_cases)
  case quiet
  then show ?thesis by (auto intro: negotiation_of_cong simp: same_negotiation_def)
next
  case capabilities
  then show ?thesis by (auto intro: negotiation_of_cong simp: same_negotiation_def)
next
  case (requested c p)
  then show ?thesis
    by (auto simp: negotiation_of_def request_configuration_Continue intro: negotiates.request)
next
  case (broken rep p effs1 e d effs2 e')
  then have "negotiates (set (common s)) (negotiation_of s) (negotiation_of s')"
    using assms(3)
    by (auto simp: negotiation_of_def request_configuration_Continue actor_inv_def
        intro: negotiates.undo_change [OF next_request_id_nonzero] negotiates.undo_agreement)
  then show ?thesis ..
qed (auto simp: negotiation_of_def adopt_def intro: negotiates.intros)

end
