(* ===== verification/Text_Utils.thy ===== *)
theory Text_Utils
  imports Rust_Prelude
begin

text \<open>
  The string functions of Rust's standard library that the discovery, ADB and mobile code
  call, on lists of Unicode scalar values: splitting, stripping, joining, lower-casing, and
  the decimal form of integers with its parser.
\<close>

section \<open>Stripping and splitting\<close>

definition strip_prefix :: "ustr \<Rightarrow> ustr \<Rightarrow> ustr option" where
  "strip_prefix pre s = (if starts_with pre s then Some (drop (length pre) s) else None)"

definition strip_suffix :: "ustr \<Rightarrow> ustr \<Rightarrow> ustr option" where
  "strip_suffix suf s = map_option rev (strip_prefix (rev suf) (rev s))"

fun split_once :: "nat \<Rightarrow> ustr \<Rightarrow> (ustr \<times> ustr) option" where
  "split_once c [] = None"
| "split_once c (x # xs) =
     (if x = c then Some ([], xs) else map_option (\<lambda>(a, b). (x # a, b)) (split_once c xs))"

text \<open>\<open>str::split(c)\<close> on a character class: always at least one piece.\<close>

fun split_by :: "(nat \<Rightarrow> bool) \<Rightarrow> ustr \<Rightarrow> ustr list" where
  "split_by P [] = [[]]"
| "split_by P (x # xs) =
     (if P x then [] # split_by P xs else (x # hd (split_by P xs)) # tl (split_by P xs))"

definition split_whitespace :: "ustr \<Rightarrow> ustr list" where
  "split_whitespace s = filter (\<lambda>w. w \<noteq> []) (split_by is_whitespace s)"

text \<open>\<open>str::lines\<close>: no last empty line, and a carriage return before a line feed goes with it.\<close>

definition strip_cr :: "ustr \<Rightarrow> ustr" where
  "strip_cr l = (if l \<noteq> [] \<and> last l = 13 then butlast l else l)"

definition lines :: "ustr \<Rightarrow> ustr list" where
  "lines s =
     (let ls = split_by (\<lambda>c. c = 10) s
      in map strip_cr (butlast ls) @ (if last ls = [] then [] else [last ls]))"

definition trim_end_matches :: "nat \<Rightarrow> ustr \<Rightarrow> ustr" where
  "trim_end_matches c s = rev (dropWhile (\<lambda>x. x = c) (rev s))"

primrec join :: "ustr \<Rightarrow> ustr list \<Rightarrow> ustr" where
  "join sep [] = []"
| "join sep (w # ws) = (if ws = [] then w else w @ sep @ join sep ws)"

section \<open>ASCII letters and digits\<close>

definition is_ascii_digit :: "nat \<Rightarrow> bool" where
  "is_ascii_digit c \<longleftrightarrow> 48 \<le> c \<and> c \<le> 57"

definition is_ascii_lowercase :: "nat \<Rightarrow> bool" where
  "is_ascii_lowercase c \<longleftrightarrow> 97 \<le> c \<and> c \<le> 122"

definition is_ascii_uppercase :: "nat \<Rightarrow> bool" where
  "is_ascii_uppercase c \<longleftrightarrow> 65 \<le> c \<and> c \<le> 90"

definition is_ascii_alphanumeric :: "nat \<Rightarrow> bool" where
  "is_ascii_alphanumeric c \<longleftrightarrow> is_ascii_digit c \<or> is_ascii_lowercase c \<or> is_ascii_uppercase c"

definition to_ascii_lowercase :: "nat \<Rightarrow> nat" where
  "to_ascii_lowercase c = (if is_ascii_uppercase c then c + 32 else c)"

section \<open>Decimal integers\<close>

fun show_dec :: "nat \<Rightarrow> ustr" where
  "show_dec n = (if n < 10 then [48 + n] else show_dec (n div 10) @ [48 + n mod 10])"

declare show_dec.simps [simp del]

definition dec_value :: "ustr \<Rightarrow> nat" where
  "dec_value ds = foldl (\<lambda>v d. v * 10 + (d - 48)) 0 ds"

text \<open>\<open>str::parse\<close> for an unsigned type of the given maximum: an optional plus sign, then digits.\<close>

definition parse_unsigned :: "nat \<Rightarrow> ustr \<Rightarrow> nat option" where
  "parse_unsigned limit s =
     (let ds = (case s of c # cs \<Rightarrow> if c = 43 then cs else s | [] \<Rightarrow> s)
      in if ds = [] \<or> \<not> list_all is_ascii_digit ds \<or> limit < dec_value ds then None
         else Some (dec_value ds))"

section \<open>UTF-8\<close>

text \<open>\<open>String::from_utf8\<close>: the well-formed sequences only, so no overlong form and no surrogate.\<close>

definition utf8_cont :: "u8 \<Rightarrow> bool" where
  "utf8_cont b \<longleftrightarrow> 0x80 \<le> unat b \<and> unat b \<le> 0xBF"

fun utf8_decode :: "u8 list \<Rightarrow> ustr option" where
  "utf8_decode [] = Some []"
| "utf8_decode (b # bs) =
     (if unat b < 0x80 then map_option ((#) (unat b)) (utf8_decode bs)
      else
        (case bs of
           b1 # r1 \<Rightarrow>
             if \<not> utf8_cont b1 then None
             else if 0xC2 \<le> unat b \<and> unat b \<le> 0xDF then
               map_option ((#) ((unat b - 0xC0) * 64 + (unat b1 - 0x80))) (utf8_decode r1)
             else
               (case r1 of
                  b2 # r2 \<Rightarrow>
                    if \<not> utf8_cont b2 then None
                    else if 0xE0 \<le> unat b \<and> unat b \<le> 0xEF then
                      (let c = (unat b - 0xE0) * 4096 + (unat b1 - 0x80) * 64 + (unat b2 - 0x80)
                       in if c < 0x800 \<or> 0xD800 \<le> c \<and> c \<le> 0xDFFF then None
                          else map_option ((#) c) (utf8_decode r2))
                    else
                      (case r2 of
                         b3 # r3 \<Rightarrow>
                           (let c = (unat b - 0xF0) * 262144 + (unat b1 - 0x80) * 4096 +
                                    (unat b2 - 0x80) * 64 + (unat b3 - 0x80)
                            in if \<not> utf8_cont b3 \<or> unat b < 0xF0 \<or> 0xF4 < unat b \<or>
                                  c < 0x10000 \<or> 0x10FFFF < c then None
                               else map_option ((#) c) (utf8_decode r3))
                       | [] \<Rightarrow> None)
                | [] \<Rightarrow> None)
         | [] \<Rightarrow> None))"

section \<open>Lemmas\<close>

lemma utf8_decode_ascii: "list_all (\<lambda>b. unat b < 0x80) bs \<Longrightarrow> utf8_decode bs = Some (map unat bs)"
  by (induction bs) auto

lemma strip_prefix_Some [simp]: "strip_prefix pre s = Some t \<longleftrightarrow> s = pre @ t"
  by (auto simp: strip_prefix_def starts_with_iff)

lemma strip_prefix_append [simp]: "strip_prefix pre (pre @ t) = Some t"
  by simp

lemma strip_prefix_None: "strip_prefix pre s = None \<longleftrightarrow> (\<forall>t. s \<noteq> pre @ t)"
  by (auto simp: strip_prefix_def starts_with_iff)

lemma strip_suffix_Some [simp]: "strip_suffix suf s = Some t \<longleftrightarrow> s = t @ suf"
  by (auto simp: strip_suffix_def) (metis rev_append rev_rev_ident)

lemma strip_suffix_None: "strip_suffix suf s = None \<longleftrightarrow> (\<forall>t. s \<noteq> t @ suf)"
  by (metis not_Some_eq strip_suffix_Some)

lemma split_once_Some:
  "split_once c s = Some (a, b) \<longleftrightarrow> s = a @ c # b \<and> c \<notin> set a"
proof (induction s arbitrary: a)
  case (Cons x xs)
  show ?case
  proof (cases a)
    case Nil
    then show ?thesis by auto
  next
    case (Cons y ys)
    then show ?thesis using Cons.IH [of ys] by auto
  qed
qed simp

lemma split_once_append [simp]: "c \<notin> set a \<Longrightarrow> split_once c (a @ c # b) = Some (a, b)"
  by (simp add: split_once_Some)

lemma split_once_None: "split_once c s = None \<longleftrightarrow> c \<notin> set s"
  by (induction s) auto

lemma split_by_nonempty [simp]: "split_by P s \<noteq> []"
  by (cases s) auto

lemma split_by_plain: "\<not> list_ex P s \<Longrightarrow> split_by P s = [s]"
  by (induction s) auto

lemma split_by_append: "\<not> list_ex P a \<Longrightarrow> P c \<Longrightarrow> split_by P (a @ c # s) = a # split_by P s"
  by (induction a) auto

lemma split_by_pieces: "w \<in> set (split_by P s) \<Longrightarrow> x \<in> set w \<Longrightarrow> \<not> P x \<and> x \<in> set s"
proof (induction s arbitrary: w)
  case (Cons y ys)
  obtain a l where al: "split_by P ys = a # l" by (cases "split_by P ys") auto
  with Cons.IH [of a] have "x \<in> set a \<Longrightarrow> \<not> P x \<and> x \<in> set ys" by simp
  with Cons al show ?case by (auto split: if_splits)
qed simp

lemma trim_matches_id: "s \<noteq> [] \<Longrightarrow> \<not> P (hd s) \<Longrightarrow> \<not> P (last s) \<Longrightarrow> trim_matches P s = s"
proof -
  assume s: "s \<noteq> []" "\<not> P (hd s)" "\<not> P (last s)"
  then have "dropWhile P s = s" by (cases s) auto
  moreover from s have "dropWhile P (rev s) = rev s" by (cases "rev s") (auto simp: last_rev [symmetric])
  ultimately show ?thesis by (simp add: trim_matches_def)
qed

text \<open>A word has characters and no white space.\<close>

definition word :: "ustr \<Rightarrow> bool" where
  "word w \<longleftrightarrow> w \<noteq> [] \<and> \<not> list_ex is_whitespace w"

lemma trim_word: "word w \<Longrightarrow> trim w = w"
  by (auto simp: word_def trim_alt list_ex_iff intro!: trim_matches_id)

lemma split_whitespace_word: "word w \<Longrightarrow> is_whitespace c \<Longrightarrow> split_whitespace (w @ c # s) = w # split_whitespace s"
  by (simp add: word_def split_whitespace_def split_by_append)

lemma split_whitespace_end: "word w \<Longrightarrow> split_whitespace w = [w]"
  by (simp add: word_def split_whitespace_def split_by_plain)

lemma split_whitespace_blank [simp]: "is_whitespace c \<Longrightarrow> split_whitespace (c # s) = split_whitespace s"
  by (simp add: split_whitespace_def)

lemma split_whitespace_blanks: "list_all is_whitespace g \<Longrightarrow> split_whitespace (g @ s) = split_whitespace s"
  by (induction g) auto

text \<open>White space inside a line, as between its words.\<close>

definition blank :: "nat \<Rightarrow> bool" where
  "blank c \<longleftrightarrow> is_whitespace c \<and> c \<noteq> 10"

definition gap :: "ustr \<Rightarrow> bool" where
  "gap g \<longleftrightarrow> g \<noteq> [] \<and> list_all blank g"

lemma blanks_white: "list_all blank g \<Longrightarrow> list_all is_whitespace g"
  by (simp add: list_all_iff blank_def)

lemma split_whitespace_gap:
  assumes "word w" "gap g"
  shows "split_whitespace (w @ g @ s) = w # split_whitespace s"
proof -
  from assms(2) obtain c g' where "g = c # g'" "is_whitespace c" "list_all is_whitespace g'"
    using blanks_white by (cases g) (auto simp: gap_def blank_def)
  with split_whitespace_word [OF assms(1), of c "g' @ s"] split_whitespace_blanks [of g' s] show ?thesis by simp
qed

lemma split_whitespace_words:
  assumes "word w" "list_all word ws" "list_all gap gs" "length gs = length ws"
  shows "split_whitespace (w @ concat (map2 (@) gs ws)) = w # ws"
  using assms(4,1-3)
proof (induction gs ws arbitrary: w rule: list_induct2)
  case Nil
  then show ?case by (simp add: split_whitespace_end)
next
  case (Cons g gs v ws)
  then show ?case using split_whitespace_gap [of w g] by simp
qed

lemma trim_between:
  assumes "list_all is_whitespace pre" "list_all is_whitespace post" "s \<noteq> []"
    and "\<not> is_whitespace (hd s)" "\<not> is_whitespace (last s)"
  shows "trim (pre @ s @ post) = s"
proof -
  from assms(3,4) have start: "dropWhile is_whitespace (pre @ s @ post) = s @ post"
    using assms(1) by (cases s) (auto simp: dropWhile_append list_all_iff)
  from assms(3,5) have "rev s \<noteq> []" "\<not> is_whitespace (hd (rev s))" by (simp_all add: hd_rev)
  then have "dropWhile is_whitespace (rev post @ rev s) = rev s"
    using assms(2) by (cases "rev s") (auto simp: dropWhile_append list_all_iff)
  with start show ?thesis by (simp add: trim_def trim_start_def)
qed

lemma lines_Nil [simp]: "lines [] = []"
  by (simp add: lines_def)

lemma lines_line: "10 \<notin> set l \<Longrightarrow> lines (l @ 10 # s) = strip_cr l # lines s"
  using split_by_append [of "\<lambda>c. c = 10" l 10 s]
  by (auto simp: lines_def Let_def list_ex_iff)

lemma hd_show_dec_nonempty [simp]: "show_dec n \<noteq> []"
  by (subst show_dec.simps) simp

lemma show_dec_digits: "c \<in> set (show_dec n) \<Longrightarrow> is_ascii_digit c"
proof (induction n rule: show_dec.induct)
  case (1 n)
  from 1(2) have "c \<in> set (if n < 10 then [48 + n] else show_dec (n div 10) @ [48 + n mod 10])"
    by (simp only: show_dec.simps [of n])
  then consider "n < 10" "c = 48 + n" | "\<not> n < 10" "c \<in> set (show_dec (n div 10))"
    | "c = 48 + n mod 10" by (auto split: if_splits)
  then show ?case
  proof cases
    case 2
    with 1(1) show ?thesis by simp
  qed (use mod_less_divisor [of 10 n] in \<open>auto simp: is_ascii_digit_def\<close>)
qed

lemma dec_value_snoc [simp]: "dec_value (ds @ [d]) = dec_value ds * 10 + (d - 48)"
  by (simp add: dec_value_def)

lemma dec_value_show_dec [simp]: "dec_value (show_dec n) = n"
proof (induction n rule: show_dec.induct)
  case (1 n)
  show ?case
  proof (cases "n < 10")
    case True
    then show ?thesis by (simp add: show_dec.simps [of n] dec_value_def)
  next
    case False
    with 1 show ?thesis by (simp add: show_dec.simps [of n])
  qed
qed

lemma show_dec_inject [simp]: "show_dec m = show_dec n \<longleftrightarrow> m = n"
  by (metis dec_value_show_dec)

lemma parse_unsigned_show_dec [simp]: "n \<le> limit \<Longrightarrow> parse_unsigned limit (show_dec n) = Some n"
proof -
  assume "n \<le> limit"
  moreover have "list_all is_ascii_digit (show_dec n)" by (auto simp: list_all_iff dest: show_dec_digits)
  moreover obtain c cs where "show_dec n = c # cs" by (cases "show_dec n") auto
  moreover from this have "c \<noteq> 43" using show_dec_digits [of c n] by (auto simp: is_ascii_digit_def)
  ultimately show ?thesis
    using dec_value_show_dec [of n] by (simp add: parse_unsigned_def del: dec_value_show_dec)
qed

end
