(* ===== verification/MobileCore.thy ===== *)
theory MobileCore
  imports Transport Text_Utils "HOL-Library.Multiset"
begin

text \<open>
  The phone's half of the program (\<open>rust/phonecam-mobile-core/src/lib.rs\<close>): the C functions
  the Kotlin and Swift applications call, over three process-wide slots.

  The slots are one record. No function panics while it holds a slot's lock, so no lock is
  ever poisoned and the branches for a poisoned lock are left out. A connection keeps the two
  bounded channels to the transport's tasks; \<open>tx_taken\<close> and \<open>rx_taken\<close> record what has left
  them, oldest first, beginning with the handshake that \<open>build_connection\<close> wrote. Serde's
  JSON reader and writer are parameters; \<open>dial\<close> is what the operating system answers while
  a connection is opened.
\<close>

section \<open>State\<close>

definition OUTBOUND_CHANNEL_CAPACITY :: nat where
  "OUTBOUND_CHANNEL_CAPACITY = 8"

definition INBOUND_CHANNEL_CAPACITY :: nat where
  "INBOUND_CHANNEL_CAPACITY = 64"

record frame_metadata =
  fm_len :: nat
  fm_pts :: u64
  fm_codec :: video_codec
  fm_width :: u16
  fm_height :: u16
  fm_is_keyframe :: bool

record core_config =
  endpoint_host :: ustr
  endpoint_port :: u16
  streaming_enabled :: bool

definition core_config_default :: core_config where
  "core_config_default =
     \<lparr>endpoint_host = lit ''127.0.0.1'', endpoint_port = 7878, streaming_enabled = False\<rparr>"

record transport_connection =
  tx_taken :: "message list"
  tx_queue :: "message list"
  tx_open :: bool
  rx_taken :: "message list"
  rx_queue :: "message list"
  rx_open :: bool
  conn_state :: connection_state
  peer_handshake :: handshake

record transport_client =
  tc_connection :: transport_connection
  tc_supported :: "stream_profile list"
  tc_active :: stream_profile
  tc_pending :: "(u32 \<times> stream_profile) option"

record video_config =
  vc_active_profile :: stream_profile
  vc_supported_profiles :: "stream_profile list"

record mobile_core =
  last_frame :: "frame_metadata option"
  core_config :: core_config
  transport_client :: "transport_client option"

definition boot :: mobile_core where
  "boot = \<lparr>last_frame = None, core_config = core_config_default, transport_client = None\<rparr>"

text \<open>A \<open>*const c_char\<close> argument, as \<open>is_null\<close> and \<open>CStr::to_str\<close> tell them apart.\<close>

datatype c_str = NullPtr | InvalidUtf8 | CStr ustr

datatype json = JString ustr | JBool bool | JNumber nat | JObject "(ustr \<times> json) list"

record serde_json =
  parse_video_config :: "ustr \<Rightarrow> video_config option"
  parse_profile_list :: "ustr \<Rightarrow> stream_profile list option"
  render_json :: "json \<Rightarrow> ustr option"

section \<open>Channels\<close>

text \<open>\<open>try_enqueue\<close>: a bounded channel takes a message when it has room and a receiver.\<close>

definition try_enqueue :: "message \<Rightarrow> transport_connection \<Rightarrow> transport_connection option" where
  "try_enqueue m c =
     (if tx_open c \<and> length (tx_queue c) < OUTBOUND_CHANNEL_CAPACITY
      then Some (c\<lparr>tx_queue := tx_queue c @ [m]\<rparr>) else None)"

text \<open>What the transport's tasks do to the two channels, and the end of the connection.\<close>

definition link_takes :: "transport_connection \<Rightarrow> transport_connection" where
  "link_takes c =
     (case tx_queue c of
        [] \<Rightarrow> c
      | m # ms \<Rightarrow> if tx_open c then c\<lparr>tx_taken := tx_taken c @ [m], tx_queue := ms\<rparr> else c)"

definition link_delivers :: "message \<Rightarrow> transport_connection \<Rightarrow> transport_connection" where
  "link_delivers m c =
     (if rx_open c \<and> length (rx_queue c) < INBOUND_CHANNEL_CAPACITY
      then c\<lparr>rx_queue := rx_queue c @ [m]\<rparr> else c)"

definition link_closes :: "transport_connection \<Rightarrow> transport_connection" where
  "link_closes c = c\<lparr>tx_open := False, rx_open := False, conn_state := Disconnected\<rparr>"

section \<open>Configuration\<close>

definition configure_endpoint :: "ustr \<Rightarrow> u16 \<Rightarrow> mobile_core \<Rightarrow> mobile_core" where
  "configure_endpoint host port s =
     (if trim host = [] then s
      else s\<lparr>core_config := (core_config s)\<lparr>endpoint_host := host, endpoint_port := port\<rparr>\<rparr>)"

definition show_endpoint :: "ustr \<Rightarrow> u16 \<Rightarrow> ustr" where
  "show_endpoint host port = host @ lit '':'' @ show_dec (unat port)"

definition current_endpoint :: "mobile_core \<Rightarrow> ustr" where
  "current_endpoint s = show_endpoint (endpoint_host (core_config s)) (endpoint_port (core_config s))"

definition set_streaming_enabled :: "bool \<Rightarrow> mobile_core \<Rightarrow> mobile_core" where
  "set_streaming_enabled enabled s =
     s\<lparr>core_config := (core_config s)\<lparr>streaming_enabled := enabled\<rparr>\<rparr>"

definition is_streaming_enabled :: "mobile_core \<Rightarrow> bool" where
  "is_streaming_enabled s = streaming_enabled (core_config s)"

definition mobile_handshake :: "video_config \<Rightarrow> handshake" where
  "mobile_handshake v =
     \<lparr>version = PROTOCOL_VERSION, device_name = lit ''PhoneCam Mobile'',
      supported_profiles = vc_supported_profiles v, active_profile = Some (vc_active_profile v)\<rparr>"

definition video_config_validate :: "video_config \<Rightarrow> bool" where
  "video_config_validate v = is_ok (handshake_validate (mobile_handshake v))"

section \<open>Opening and closing the connection\<close>

text \<open>The address bytes and the port of a \<open>SocketAddr\<close>.\<close>

type_synonym socket_addr = "u8 list \<times> u16"

record dial =
  runtime_built :: bool
  connect_elapsed :: bool
  dial_sock :: "ustr \<Rightarrow> socket_addr socket_net"
  dial_net :: handshake_net

definition new_connection :: "handshake \<Rightarrow> handshake \<Rightarrow> transport_connection" where
  "new_connection local peer =
     \<lparr>tx_taken = [Msg_Handshake local], tx_queue = [], tx_open = True,
      rx_taken = [], rx_queue = [], rx_open = True,
      conn_state = Streaming, peer_handshake = peer\<rparr>"

definition initialize_transport_client ::
  "bincode \<Rightarrow> dial \<Rightarrow> ustr \<Rightarrow> u16 \<Rightarrow> video_config \<Rightarrow> mobile_core \<Rightarrow> bool \<times> mobile_core" where
  "initialize_transport_client bc d host port v s =
     (if trim host = [] \<or> \<not> video_config_validate v \<or> \<not> runtime_built d \<or> connect_elapsed d
      then (False, s)
      else
        (case fst (connect bc (dial_sock d (show_endpoint host port)) (dial_net d) (mobile_handshake v)) of
           Ok (peer, _) \<Rightarrow>
             (True, s\<lparr>transport_client := Some
                \<lparr>tc_connection = new_connection (mobile_handshake v) peer,
                 tc_supported = vc_supported_profiles v, tc_active = vc_active_profile v,
                 tc_pending = None\<rparr>\<rparr>)
         | _ \<Rightarrow> (False, s)))"

definition shutdown_transport_client :: "mobile_core \<Rightarrow> mobile_core" where
  "shutdown_transport_client s = s\<lparr>transport_client := None\<rparr>"

definition phonecam_transport_init ::
  "bincode \<Rightarrow> serde_json \<Rightarrow> dial \<Rightarrow> c_str \<Rightarrow> u16 \<Rightarrow> c_str \<Rightarrow> mobile_core \<Rightarrow> bool \<times> mobile_core" where
  "phonecam_transport_init bc js d host port config_json s =
     (if port = 0 then (False, s)
      else
        (case (host, config_json) of
           (CStr h, CStr j) \<Rightarrow>
             if trim h = [] then (False, s)
             else
               (case parse_video_config js j of
                  None \<Rightarrow> (False, s)
                | Some v \<Rightarrow>
                    if \<not> video_config_validate v then (False, s)
                    else
                      let (initialized, s') =
                            initialize_transport_client bc d (trim h) port v
                              (configure_endpoint (trim h) port s)
                      in (initialized, set_streaming_enabled initialized s'))
         | _ \<Rightarrow> (False, s)))"

definition phonecam_transport_shutdown :: "mobile_core \<Rightarrow> mobile_core" where
  "phonecam_transport_shutdown s = shutdown_transport_client (set_streaming_enabled False s)"

definition phonecam_transport_is_connected :: "mobile_core \<Rightarrow> bool" where
  "phonecam_transport_is_connected s =
     (case transport_client s of
        None \<Rightarrow> False
      | Some c \<Rightarrow> conn_state (tc_connection c) \<in> {Handshaking, Streaming})"

section \<open>Frames and profiles\<close>

text \<open>The data pointer is \<open>None\<close> when null, and otherwise the bytes it points to.\<close>

definition phonecam_send_video_frame ::
  "u8 list option \<Rightarrow> u64 \<Rightarrow> u8 \<Rightarrow> u16 \<Rightarrow> u16 \<Rightarrow> bool \<Rightarrow> mobile_core \<Rightarrow> bool \<times> mobile_core" where
  "phonecam_send_video_frame data pts cd w h key s =
     (case (data, video_codec_try_from cd, transport_client s) of
        (Some payload, Ok c, Some client) \<Rightarrow>
          if payload = [] then (False, s)
          else
            let frame = \<lparr>vf_data = payload, pts_us = pts, vf_codec = c, vf_width = w, vf_height = h,
                         is_keyframe = key\<rparr>
            in if \<not> is_ok (frame_validate_against frame (tc_active client)) then (False, s)
               else
                 (case try_enqueue (Msg_VideoFrame frame) (tc_connection client) of
                    None \<Rightarrow> (False, s)
                  | Some conn \<Rightarrow>
                      (True, s\<lparr>transport_client := Some (client\<lparr>tc_connection := conn\<rparr>),
                               last_frame := Some \<lparr>fm_len = length payload, fm_pts = pts, fm_codec = c,
                                 fm_width = w, fm_height = h, fm_is_keyframe = key\<rparr>\<rparr>))
      | _ \<Rightarrow> (False, s))"

definition profile_from_ffi :: "u8 \<Rightarrow> u16 \<Rightarrow> u16 \<Rightarrow> u8 \<Rightarrow> stream_profile option" where
  "profile_from_ffi cd w h rate =
     (case video_codec_try_from cd of
        Ok c \<Rightarrow>
          let p = \<lparr>codec = c, width = w, height = h, fps = rate\<rparr>
          in if is_ok (validate p) then Some p else None
      | _ \<Rightarrow> None)"

definition phonecam_peer_supports_profile :: "u8 \<Rightarrow> u16 \<Rightarrow> u16 \<Rightarrow> u8 \<Rightarrow> mobile_core \<Rightarrow> bool" where
  "phonecam_peer_supports_profile cd w h rate s =
     (case (profile_from_ffi cd w h rate, transport_client s) of
        (Some p, Some c) \<Rightarrow> p \<in> set (supported_profiles (peer_handshake (tc_connection c)))
      | _ \<Rightarrow> False)"

definition phonecam_update_video_capabilities ::
  "serde_json \<Rightarrow> c_str \<Rightarrow> mobile_core \<Rightarrow> bool \<times> mobile_core" where
  "phonecam_update_video_capabilities js profiles_json s =
     (case profiles_json of
        CStr j \<Rightarrow>
          (case (parse_profile_list js j, transport_client s) of
             (Some profiles, Some client) \<Rightarrow>
               let update = \<lparr>vcu_supported_profiles = profiles\<rparr>
               in if \<not> is_ok (capabilities_validate update (tc_active client)) then (False, s)
                  else
                    (case try_enqueue (Msg_VideoCapabilitiesUpdate update) (tc_connection client) of
                       None \<Rightarrow> (False, s)
                     | Some conn \<Rightarrow>
                         (True, s\<lparr>transport_client := Some
                            (client\<lparr>tc_connection := conn, tc_supported := profiles\<rparr>)\<rparr>))
           | _ \<Rightarrow> (False, s))
      | _ \<Rightarrow> (False, s))"

section \<open>Control commands\<close>

definition json_of_codec :: "video_codec \<Rightarrow> json" where
  "json_of_codec c = JString (case c of H264 \<Rightarrow> lit ''h264'' | Hevc \<Rightarrow> lit ''hevc'')"

definition json_of_profile :: "stream_profile \<Rightarrow> json" where
  "json_of_profile p = JObject
     [(lit ''codec'', json_of_codec (codec p)), (lit ''width'', JNumber (unat (width p))),
      (lit ''height'', JNumber (unat (height p))), (lit ''fps'', JNumber (unat (fps p)))]"

primrec control_value :: "camera_control \<Rightarrow> json" where
  "control_value (SwitchCamera front) =
     JObject [(lit ''type'', JString (lit ''switch_camera'')), (lit ''front'', JBool front)]"
| "control_value RequestKeyframe = JObject [(lit ''type'', JString (lit ''request_keyframe''))]"
| "control_value (ConfigureStream rid p) = JObject
     [(lit ''type'', JString (lit ''configure_stream'')), (lit ''request_id'', JNumber (unat rid)),
      (lit ''profile'', json_of_profile p)]"

definition control_command_json :: "serde_json \<Rightarrow> camera_control \<Rightarrow> ustr option" where
  "control_command_json js c = render_json js (control_value c)"

text \<open>\<open>CString::new\<close> refuses a string that holds a NUL.\<close>

definition cstring_new :: "ustr \<Rightarrow> ustr option" where
  "cstring_new s = (if 0 \<in> set s then None else Some s)"

text \<open>
  The \<open>loop\<close> of \<open>phonecam_poll_control_command_json\<close> over the inbound queue: what it ends
  with, the messages it has consumed, and the queue it leaves.
\<close>

datatype polled = Polled camera_control | PolledGone | PolledEmpty

fun poll_loop :: "bool \<Rightarrow> message list \<Rightarrow> message list \<Rightarrow> polled \<times> message list \<times> message list" where
  "poll_loop alive taken [] = (if alive then PolledEmpty else PolledGone, taken, [])"
| "poll_loop alive taken (Msg_CameraControl (ConfigureStream rid p) # q) =
     (if is_ok (validate p)
      then (Polled (ConfigureStream rid p), taken @ [Msg_CameraControl (ConfigureStream rid p)], q)
      else poll_loop alive (taken @ [Msg_CameraControl (ConfigureStream rid p)]) q)"
| "poll_loop alive taken (Msg_CameraControl c # q) = (Polled c, taken @ [Msg_CameraControl c], q)"
| "poll_loop alive taken (Msg_Disconnect d # q) = (PolledGone, taken @ [Msg_Disconnect d], q)"
| "poll_loop alive taken (m # q) = poll_loop alive (taken @ [m]) q"

definition pending_after_poll :: "camera_control \<Rightarrow> (u32 \<times> stream_profile) option" where
  "pending_after_poll c = (case c of ConfigureStream rid p \<Rightarrow> Some (rid, p) | _ \<Rightarrow> None)"

definition phonecam_poll_control_command_json ::
  "serde_json \<Rightarrow> mobile_core \<Rightarrow> ustr option \<times> mobile_core" where
  "phonecam_poll_control_command_json js s =
     (case transport_client s of
        None \<Rightarrow> (None, s)
      | Some client \<Rightarrow>
          if tc_pending client \<noteq> None then (None, s)
          else
            let conn = tc_connection client;
                (result, taken, q) = poll_loop (rx_open conn) (rx_taken conn) (rx_queue conn);
                client' = client\<lparr>tc_connection := conn\<lparr>rx_taken := taken, rx_queue := q\<rparr>\<rparr>
            in (case result of
                  PolledGone \<Rightarrow> (None, s\<lparr>transport_client := None\<rparr>)
                | PolledEmpty \<Rightarrow> (None, s\<lparr>transport_client := Some client'\<rparr>)
                | Polled c \<Rightarrow>
                    (Option.bind (control_command_json js c) cstring_new,
                     s\<lparr>transport_client := Some (client'\<lparr>tc_pending := pending_after_poll c\<rparr>)\<rparr>)))"

section \<open>Configuration results\<close>

definition reported_outcome :: "u8 \<Rightarrow> stream_profile option \<Rightarrow> stream_configuration_outcome option" where
  "reported_outcome code applied =
     (if code = 0 then map_option Applied applied
      else if code = 1 then Some UnsupportedProfile
      else if code = 2 then Some CaptureConfigurationFailed
      else if code = 3 then Some EncoderInitializationFailed
      else None)"

definition phonecam_report_stream_configuration ::
  "u32 \<Rightarrow> u8 \<Rightarrow> u8 \<Rightarrow> u16 \<Rightarrow> u16 \<Rightarrow> u8 \<Rightarrow> mobile_core \<Rightarrow> bool \<times> mobile_core" where
  "phonecam_report_stream_configuration rid code cd w h rate s =
     (case transport_client s of
        None \<Rightarrow> (False, s)
      | Some client \<Rightarrow>
          if rid \<noteq> 0 \<and> map_option fst (tc_pending client) \<noteq> Some rid then (False, s)
          else
            let applied =
                  (if code = 0 then
                     case profile_from_ffi cd w h rate of
                       None \<Rightarrow> None
                     | Some p \<Rightarrow>
                         if p \<notin> set (tc_supported client) \<or>
                            p \<notin> set (supported_profiles (peer_handshake (tc_connection client)))
                         then None else Some p
                   else None)
            in (case reported_outcome code applied of
                  None \<Rightarrow> (False, s)
                | Some result \<Rightarrow>
                    (case try_enqueue
                            (Msg_StreamConfigurationResult \<lparr>request_id = rid, outcome = result\<rparr>)
                            (tc_connection client) of
                       None \<Rightarrow> (False, s)
                     | Some conn \<Rightarrow>
                         (True, s\<lparr>transport_client := Some (client\<lparr>
                            tc_connection := conn,
                            tc_active := (case applied of Some p \<Rightarrow> p | None \<Rightarrow> tc_active client),
                            tc_pending := (if rid \<noteq> 0 then None else tc_pending client)\<rparr>)\<rparr>))))"

section \<open>Runs\<close>

text \<open>The calls of the application and the events of the transport's tasks, one per step.\<close>

datatype mobile_event =
    ConfigureEndpoint ustr u16
  | SetStreaming bool
  | SendFrame "u8 list option" u64 u8 u16 u16 bool
  | TransportInit "dial" c_str u16 c_str
  | TransportShutdown
  | PollCommand
  | UpdateCapabilities c_str
  | ReportConfiguration u32 u8 u8 u16 u16 u8
  | LinkTakes
  | LinkDelivers message
  | LinkCloses

datatype ffi_value = Flag bool | Pointer "ustr option" | NoValue

definition on_link :: "(transport_connection \<Rightarrow> transport_connection) \<Rightarrow> mobile_core \<Rightarrow> mobile_core" where
  "on_link f s =
     s\<lparr>transport_client :=
        map_option (\<lambda>c. c\<lparr>tc_connection := f (tc_connection c)\<rparr>) (transport_client s)\<rparr>"

primrec mobile_step ::
  "bincode \<Rightarrow> serde_json \<Rightarrow> mobile_event \<Rightarrow> mobile_core \<Rightarrow> ffi_value \<times> mobile_core" where
  "mobile_step bc js (ConfigureEndpoint host port) s = (NoValue, configure_endpoint host port s)"
| "mobile_step bc js (SetStreaming enabled) s = (NoValue, set_streaming_enabled enabled s)"
| "mobile_step bc js (SendFrame data pts cd w h key) s =
     apfst Flag (phonecam_send_video_frame data pts cd w h key s)"
| "mobile_step bc js (TransportInit d host port cfg) s =
     apfst Flag (phonecam_transport_init bc js d host port cfg s)"
| "mobile_step bc js TransportShutdown s = (NoValue, phonecam_transport_shutdown s)"
| "mobile_step bc js PollCommand s = apfst Pointer (phonecam_poll_control_command_json js s)"
| "mobile_step bc js (UpdateCapabilities j) s = apfst Flag (phonecam_update_video_capabilities js j s)"
| "mobile_step bc js (ReportConfiguration rid code cd w h rate) s =
     apfst Flag (phonecam_report_stream_configuration rid code cd w h rate s)"
| "mobile_step bc js LinkTakes s = (NoValue, on_link link_takes s)"
| "mobile_step bc js (LinkDelivers m) s = (NoValue, on_link (link_delivers m) s)"
| "mobile_step bc js LinkCloses s = (NoValue, on_link link_closes s)"

lemma apfst_eq_pair: "apfst f p = (v, s) \<longleftrightarrow> (\<exists>b. v = f b \<and> p = (b, s))"
  by (cases p) auto

inductive mobile_reachable :: "bincode \<Rightarrow> serde_json \<Rightarrow> mobile_core \<Rightarrow> bool" for bc js where
  booted: "mobile_reachable bc js boot"
| called: "mobile_reachable bc js s \<Longrightarrow> mobile_step bc js ev s = (v, s') \<Longrightarrow> mobile_reachable bc js s'"

end
