(* ===== verification/Mobile_Invariants.thy ===== *)
theory Mobile_Invariants
  imports Step_Systems MobileCore Profiles
begin

text \<open>
  What the phone's C functions keep true. Every call and every event of the transport's tasks
  makes one of the moves of \<open>client_moves\<close> on the client, opens a fresh one or drops it
  (\<open>mobile_step_moves\<close>); the invariant of the client is then kept move by move. It says that
  the messages ever enqueued, replayed in order, are ones a desktop can follow, and that
  configuration requests are answered in order and at most once.
\<close>

section \<open>A desktop's view of the messages\<close>

text \<open>
  A follower keeps the profiles the phone has declared and the active one, and checks each
  message as the desktop does: a frame against the active profile, an update with the
  protocol's check, an applied profile for being common to both sides.
\<close>

type_synonym phone_view = "stream_profile list \<times> stream_profile"

definition follow_message :: "stream_profile list \<Rightarrow> phone_view \<Rightarrow> message \<Rightarrow> phone_view option" where
  "follow_message desktop view m =
     (case m of
        Msg_VideoFrame f \<Rightarrow>
          if is_ok (frame_validate_against f (snd view)) then Some view else None
      | Msg_VideoCapabilitiesUpdate u \<Rightarrow>
          if is_ok (capabilities_validate u (snd view))
          then Some (vcu_supported_profiles u, snd view) else None
      | Msg_StreamConfigurationResult r \<Rightarrow>
          (case outcome r of
             Applied p \<Rightarrow>
               if p \<in> set (common_profiles desktop (fst view)) then Some (fst view, p) else None
           | _ \<Rightarrow> Some view)
      | _ \<Rightarrow> Some view)"

primrec follows :: "stream_profile list \<Rightarrow> message list \<Rightarrow> phone_view \<Rightarrow> phone_view option" where
  "follows desktop [] view = Some view"
| "follows desktop (m # ms) view = Option.bind (follow_message desktop view m) (follows desktop ms)"

lemma follows_append:
  "follows desktop (ms @ ns) view = Option.bind (follows desktop ms view) (follows desktop ns)"
  by (induction ms arbitrary: view) (auto simp: bind_eq_None_conv split: bind_splits)

lemma follows_snoc:
  "follows desktop ms view = Some view' \<Longrightarrow>
   follows desktop (ms @ [m]) view = follow_message desktop view' m"
  by (cases "follow_message desktop view' m") (simp_all add: follows_append)

lemma follows_prefix:
  "follows desktop (ms @ ns) view = Some view' \<Longrightarrow> \<exists>v. follows desktop ms view = Some v"
  by (auto simp: follows_append split: bind_splits)

section \<open>Requests and answers\<close>

primrec configure_id :: "message \<Rightarrow> u32 list" where
  "configure_id (Msg_CameraControl c) =
     (case c of ConfigureStream rid p \<Rightarrow> if well_formed_profile p then [rid] else [] | _ \<Rightarrow> [])"
| "configure_id (Msg_Handshake h) = []"
| "configure_id (Msg_VideoFrame f) = []"
| "configure_id (Msg_AudioFrame f) = []"
| "configure_id (Msg_StatusUpdate u) = []"
| "configure_id (Msg_Disconnect d) = []"
| "configure_id (Msg_VideoCapabilitiesUpdate u) = []"
| "configure_id (Msg_StreamConfigurationResult r) = []"

definition requests_taken :: "message list \<Rightarrow> u32 list" where
  "requests_taken ms = filter (\<lambda>i. i \<noteq> 0) (concat (map configure_id ms))"

definition result_id :: "message \<Rightarrow> u32 list" where
  "result_id m = (case m of Msg_StreamConfigurationResult r \<Rightarrow> [request_id r] | _ \<Rightarrow> [])"

definition requests_answered :: "message list \<Rightarrow> u32 list" where
  "requests_answered ms = filter (\<lambda>i. i \<noteq> 0) (concat (map result_id ms))"

definition pending_id :: "(u32 \<times> stream_profile) option \<Rightarrow> u32 list" where
  "pending_id pend = (case pend of Some (i, _) \<Rightarrow> if i = 0 then [] else [i] | None \<Rightarrow> [])"

lemma requests_append [simp]:
  "requests_taken (ms @ ns) = requests_taken ms @ requests_taken ns"
  "requests_answered (ms @ ns) = requests_answered ms @ requests_answered ns"
  by (simp_all add: requests_taken_def requests_answered_def)

lemma requests_answered_simps [simp]:
  "requests_answered [Msg_VideoFrame f] = []"
  "requests_answered [Msg_VideoCapabilitiesUpdate u] = []"
  by (simp_all add: requests_answered_def result_id_def)

section \<open>The moves of a client\<close>

definition sent_log :: "transport_connection \<Rightarrow> message list" where
  "sent_log c = tx_taken c @ tx_queue c"

definition fresh_client :: "handshake \<Rightarrow> handshake \<Rightarrow> stream_profile \<Rightarrow> transport_client" where
  "fresh_client local peer act =
     \<lparr>tc_connection = new_connection local peer, tc_supported = supported_profiles local,
      tc_active = act, tc_pending = None\<rparr>"

inductive client_moves :: "transport_client \<Rightarrow> transport_client \<Rightarrow> bool" where
  stays: "client_moves c c"
| sends_frame: "try_enqueue (Msg_VideoFrame f) (tc_connection c) = Some conn \<Longrightarrow>
    is_ok (frame_validate_against f (tc_active c)) \<Longrightarrow>
    client_moves c (c\<lparr>tc_connection := conn\<rparr>)"
| declares: "try_enqueue (Msg_VideoCapabilitiesUpdate u) (tc_connection c) = Some conn \<Longrightarrow>
    is_ok (capabilities_validate u (tc_active c)) \<Longrightarrow>
    client_moves c (c\<lparr>tc_connection := conn, tc_supported := vcu_supported_profiles u\<rparr>)"
| applies: "try_enqueue (Msg_StreamConfigurationResult \<lparr>request_id = rid, outcome = Applied p\<rparr>)
      (tc_connection c) = Some conn \<Longrightarrow>
    p \<in> set (tc_supported c) \<Longrightarrow>
    p \<in> set (supported_profiles (peer_handshake (tc_connection c))) \<Longrightarrow>
    rid = 0 \<and> pend = tc_pending c \<or> rid \<noteq> 0 \<and> map_option fst (tc_pending c) = Some rid \<and> pend = None \<Longrightarrow>
    client_moves c (c\<lparr>tc_connection := conn, tc_active := p, tc_pending := pend\<rparr>)"
| refuses: "try_enqueue (Msg_StreamConfigurationResult \<lparr>request_id = rid, outcome = oc\<rparr>)
      (tc_connection c) = Some conn \<Longrightarrow>
    (\<forall>p. oc \<noteq> Applied p) \<Longrightarrow>
    rid = 0 \<and> pend = tc_pending c \<or> rid \<noteq> 0 \<and> map_option fst (tc_pending c) = Some rid \<and> pend = None \<Longrightarrow>
    client_moves c (c\<lparr>tc_connection := conn, tc_pending := pend\<rparr>)"
| polls: "tc_pending c = None \<Longrightarrow>
    poll_loop (rx_open (tc_connection c)) (rx_taken (tc_connection c)) (rx_queue (tc_connection c)) =
      (result, taken, q) \<Longrightarrow>
    result = PolledEmpty \<and> pend = None \<or> (\<exists>cmd. result = Polled cmd \<and> pend = pending_after_poll cmd) \<Longrightarrow>
    client_moves c (c\<lparr>tc_connection := (tc_connection c)\<lparr>rx_taken := taken, rx_queue := q\<rparr>,
      tc_pending := pend\<rparr>)"
| link: "f \<in> {link_takes, link_closes} \<union> range link_delivers \<Longrightarrow>
    client_moves c (c\<lparr>tc_connection := f (tc_connection c)\<rparr>)"

section \<open>Every step is a move\<close>

lemma try_enqueue_Some:
  "try_enqueue m c = Some c' \<longleftrightarrow>
     tx_open c \<and> length (tx_queue c) < OUTBOUND_CHANNEL_CAPACITY \<and> c' = c\<lparr>tx_queue := tx_queue c @ [m]\<rparr>"
  by (auto simp: try_enqueue_def)

lemma try_from_as_u8 [simp]: "video_codec_try_from (video_codec_as_u8 c) = Ok c"
  by (simp add: protocol_checks)

lemma profile_from_ffi_Some:
  "profile_from_ffi cd w h rate = Some p \<longleftrightarrow>
     well_formed_profile p \<and> cd = video_codec_as_u8 (codec p) \<and> w = width p \<and> h = height p \<and>
     rate = fps p"
proof
  assume "profile_from_ffi cd w h rate = Some p"
  then show "well_formed_profile p \<and> cd = video_codec_as_u8 (codec p) \<and> w = width p \<and> h = height p \<and>
     rate = fps p"
    by (auto simp: profile_from_ffi_def Let_def protocol_checks split: result.splits if_splits)
qed (simp add: profile_from_ffi_def Let_def well_formed_profile_def)

lemma send_video_frame_cases:
  assumes "phonecam_send_video_frame data pts cd w h key s = (b, s')"
  obtains "\<not> b" "s' = s"
  | f c conn where "b" "transport_client s = Some c" "data = Some (vf_data f)" "vf_data f \<noteq> []"
      "try_enqueue (Msg_VideoFrame f) (tc_connection c) = Some conn"
      "is_ok (frame_validate_against f (tc_active c))"
      "transport_client s' = Some (c\<lparr>tc_connection := conn\<rparr>)"
      "core_config s' = core_config s"
proof (cases b)
  case True
  with assms obtain payload cdc c conn where c: "data = Some payload" "payload \<noteq> []"
      "transport_client s = Some c"
    and ok: "is_ok (frame_validate_against \<lparr>vf_data = payload, pts_us = pts, vf_codec = cdc,
        vf_width = w, vf_height = h, is_keyframe = key\<rparr> (tc_active c))"
    and enq: "try_enqueue (Msg_VideoFrame \<lparr>vf_data = payload, pts_us = pts, vf_codec = cdc,
        vf_width = w, vf_height = h, is_keyframe = key\<rparr>) (tc_connection c) = Some conn"
    and s': "transport_client s' = Some (c\<lparr>tc_connection := conn\<rparr>)" "core_config s' = core_config s"
    by (auto simp: phonecam_send_video_frame_def Let_def simp del: is_ok_frame_validate
        split: option.splits result.splits if_splits)
  show thesis by (rule that(2) [OF True c(3) _ _ enq ok s']) (simp_all add: c)
next
  case False
  with assms that(1) show thesis
    by (auto simp: phonecam_send_video_frame_def Let_def split: option.splits result.splits if_splits)
qed

lemma update_capabilities_cases:
  assumes "phonecam_update_video_capabilities js j s = (b, s')"
  obtains "\<not> b" "s' = s"
  | u c conn where "b" "transport_client s = Some c"
      "try_enqueue (Msg_VideoCapabilitiesUpdate u) (tc_connection c) = Some conn"
      "is_ok (capabilities_validate u (tc_active c))"
      "s' = s\<lparr>transport_client :=
         Some (c\<lparr>tc_connection := conn, tc_supported := vcu_supported_profiles u\<rparr>)\<rparr>"
proof (cases b)
  case True
  with assms obtain str ps c conn where "j = CStr str" "parse_profile_list js str = Some ps"
      and c: "transport_client s = Some c"
    and ok: "is_ok (capabilities_validate \<lparr>vcu_supported_profiles = ps\<rparr> (tc_active c))"
    and enq: "try_enqueue (Msg_VideoCapabilitiesUpdate \<lparr>vcu_supported_profiles = ps\<rparr>)
        (tc_connection c) = Some conn"
    and s': "s' = s\<lparr>transport_client := Some (c\<lparr>tc_connection := conn, tc_supported := ps\<rparr>)\<rparr>"
    by (auto simp: phonecam_update_video_capabilities_def Let_def simp del: is_ok_capabilities_validate
        split: c_str.splits option.splits if_splits)
  show thesis by (rule that(2) [OF True c enq ok]) (simp add: s')
next
  case False
  with assms that(1) show thesis
    by (auto simp: phonecam_update_video_capabilities_def Let_def
        split: c_str.splits option.splits if_splits)
qed

lemma reported_outcome_Some:
  "reported_outcome code applied = Some oc \<longleftrightarrow>
     (\<exists>p. code = 0 \<and> applied = Some p \<and> oc = Applied p) \<or>
     code = 1 \<and> oc = UnsupportedProfile \<or> code = 2 \<and> oc = CaptureConfigurationFailed \<or>
     code = 3 \<and> oc = EncoderInitializationFailed"
  by (auto simp: reported_outcome_def)

lemma report_cases:
  assumes "phonecam_report_stream_configuration rid code cd w h rate s = (b, s')"
  obtains "\<not> b" "s' = s"
  | c conn pend p where "b" "transport_client s = Some c" "code = 0" "profile_from_ffi cd w h rate = Some p"
      "try_enqueue (Msg_StreamConfigurationResult \<lparr>request_id = rid, outcome = Applied p\<rparr>)
         (tc_connection c) = Some conn"
      "rid = 0 \<and> pend = tc_pending c \<or>
       rid \<noteq> 0 \<and> map_option fst (tc_pending c) = Some rid \<and> pend = None"
      "p \<in> set (tc_supported c)" "p \<in> set (supported_profiles (peer_handshake (tc_connection c)))"
      "s' = s\<lparr>transport_client := Some (c\<lparr>tc_connection := conn, tc_active := p, tc_pending := pend\<rparr>)\<rparr>"
  | c conn pend oc where "b" "transport_client s = Some c" "code \<noteq> 0" "\<forall>p. oc \<noteq> Applied p"
      "try_enqueue (Msg_StreamConfigurationResult \<lparr>request_id = rid, outcome = oc\<rparr>)
         (tc_connection c) = Some conn"
      "rid = 0 \<and> pend = tc_pending c \<or>
       rid \<noteq> 0 \<and> map_option fst (tc_pending c) = Some rid \<and> pend = None"
      "s' = s\<lparr>transport_client := Some (c\<lparr>tc_connection := conn, tc_pending := pend\<rparr>)\<rparr>"
proof (cases b)
  case False
  with assms that(1) show thesis
    by (auto simp: phonecam_report_stream_configuration_def Let_def split: option.splits if_splits)
next
  case True
  from assms True obtain c where c: "transport_client s = Some c"
    and id: "\<not> (rid \<noteq> 0 \<and> map_option fst (tc_pending c) \<noteq> Some rid)"
    by (auto simp: phonecam_report_stream_configuration_def split: option.splits if_splits)
  define pend where "pend = (if rid \<noteq> 0 then None else tc_pending c)"
  have pend: "rid = 0 \<and> pend = tc_pending c \<or>
       rid \<noteq> 0 \<and> map_option fst (tc_pending c) = Some rid \<and> pend = None"
    using id by (auto simp: pend_def)
  show thesis
  proof (cases "code = 0")
    case True
    with assms \<open>b\<close> c id obtain p conn where "profile_from_ffi cd w h rate = Some p"
        "p \<in> set (tc_supported c)" "p \<in> set (supported_profiles (peer_handshake (tc_connection c)))"
        "try_enqueue (Msg_StreamConfigurationResult \<lparr>request_id = rid, outcome = Applied p\<rparr>)
           (tc_connection c) = Some conn"
        "s' = s\<lparr>transport_client := Some (c\<lparr>tc_connection := conn, tc_active := p, tc_pending := pend\<rparr>)\<rparr>"
      by (auto simp: phonecam_report_stream_configuration_def reported_outcome_def Let_def pend_def
          split: option.splits if_splits)
    with that(2) [OF \<open>b\<close> c True _ _ pend] show thesis by blast
  next
    case False
    with assms \<open>b\<close> c id obtain oc conn where "reported_outcome code None = Some oc"
        "try_enqueue (Msg_StreamConfigurationResult \<lparr>request_id = rid, outcome = oc\<rparr>)
           (tc_connection c) = Some conn"
        "s' = s\<lparr>transport_client := Some (c\<lparr>tc_connection := conn, tc_pending := pend\<rparr>)\<rparr>"
      by (auto simp: phonecam_report_stream_configuration_def Let_def pend_def split: option.splits)
    moreover from this(1) have "\<forall>p. oc \<noteq> Applied p" by (auto simp: reported_outcome_Some)
    ultimately show thesis using that(3) [OF \<open>b\<close> c False _ _ pend] by blast
  qed
qed

lemma poll_cases:
  assumes "phonecam_poll_control_command_json js s = (r, s')" "transport_client s' = Some c'"
  obtains c where "transport_client s = Some c" "client_moves c c'"
proof -
  from assms obtain c where c: "transport_client s = Some c"
    by (auto simp: phonecam_poll_control_command_json_def split: option.splits)
  show thesis
  proof (cases "tc_pending c = None")
    case True
    obtain result taken q where p: "poll_loop (rx_open (tc_connection c)) (rx_taken (tc_connection c))
        (rx_queue (tc_connection c)) = (result, taken, q)" by (metis prod_cases3)
    define client where "client = (\<lambda>pend. c\<lparr>tc_connection :=
        (tc_connection c)\<lparr>rx_taken := taken, rx_queue := q\<rparr>, tc_pending := pend\<rparr>)"
    from assms c True p obtain pend where
        "result = PolledEmpty \<and> pend = None \<or> (\<exists>cmd. result = Polled cmd \<and> pend = pending_after_poll cmd)"
        "c' = client pend"
      by (cases result) (auto simp: phonecam_poll_control_command_json_def Let_def client_def)
    with client_moves.polls [OF True p] c that show thesis by (simp add: client_def)
  next
    case False
    with assms c that show thesis
      by (auto simp: phonecam_poll_control_command_json_def intro: client_moves.stays)
  qed
qed

lemma init_cases:
  assumes "phonecam_transport_init bc js d host port cfg s = (b, s')"
  obtains "\<not> b" "transport_client s' = transport_client s" "last_frame s' = last_frame s"
  | v peer where "b" "well_formed_handshake (mobile_handshake v)" "well_formed_handshake peer"
      "common_active (mobile_handshake v) peer" "streaming_enabled (core_config s')"
      "transport_client s' = Some (fresh_client (mobile_handshake v) peer (vc_active_profile v))"
proof (cases b)
  case True
  with assms obtain v peer str where v: "video_config_validate v" and b: "streaming_enabled (core_config s')"
    and conn: "fst (connect bc (dial_sock d str) (dial_net d) (mobile_handshake v)) = Ok peer"
    and s': "transport_client s' = Some (fresh_client (mobile_handshake v) (fst peer) (vc_active_profile v))"
    by (auto simp: phonecam_transport_init_def initialize_transport_client_def fresh_client_def
        mobile_handshake_def set_streaming_enabled_def Let_def
        split: c_str.splits option.splits if_splits result.splits prod.splits)
  obtain p t where peer: "peer = (p, t)" by (cases peer)
  from conn peer obtain states where "connect bc (dial_sock d str) (dial_net d) (mobile_handshake v) = (Ok (p, t), states)"
    by (metis prod.collapse)
  then have "build_connection bc (dial_net d) (mobile_handshake v) = Ok (p, t)"
    by (elim connect_cases) auto
  then have "well_formed_handshake p" "common_active (mobile_handshake v) p"
    by (auto simp: build_connection_Ok)
  with that(2) [OF True] v b s' peer show thesis by (simp add: video_config_validate_def)
next
  case False
  have "transport_client s' = transport_client s \<and> last_frame s' = last_frame s"
    using assms False
    by (auto simp: phonecam_transport_init_def initialize_transport_client_def
        set_streaming_enabled_def configure_endpoint_def Let_def
        split: c_str.splits option.splits if_splits result.splits prod.splits)
  with False that(1) show thesis by blast
qed

text \<open>
  What a call of the core can do to its client: nothing, one move, replace it by a fresh one, or
  drop it.
\<close>

definition core_moves :: "mobile_core \<Rightarrow> mobile_core \<Rightarrow> bool" where
  "core_moves s s' \<longleftrightarrow>
     (\<forall>c'. transport_client s' = Some c' \<longrightarrow>
        (\<exists>c. transport_client s = Some c \<and> client_moves c c') \<or>
        (\<exists>w peer. well_formed_handshake (mobile_handshake w) \<and> well_formed_handshake peer \<and>
           common_active (mobile_handshake w) peer \<and>
           c' = fresh_client (mobile_handshake w) peer (vc_active_profile w)))"

lemma core_stays: "transport_client s' = transport_client s \<Longrightarrow> core_moves s s'"
  by (auto simp: core_moves_def intro: client_moves.stays)

lemma core_drops: "transport_client s' = None \<Longrightarrow> core_moves s s'"
  by (simp add: core_moves_def)

lemma core_client_moves:
  "client_moves c c' \<Longrightarrow> transport_client s = Some c \<Longrightarrow> transport_client s' = Some c' \<Longrightarrow> core_moves s s'"
  by (simp add: core_moves_def)

lemma frame_core_moves:
  assumes "phonecam_send_video_frame data pts cd w h key s = (b, s')"
  shows "core_moves s s'"
  using assms
proof (cases rule: send_video_frame_cases)
  case (2 f c conn)
  from core_client_moves [OF client_moves.sends_frame [OF 2(5,6)] 2(2,7)] show ?thesis .
qed (simp add: core_stays)

lemma init_core_moves:
  assumes "phonecam_transport_init bc js d host port cfg s = (b, s')"
  shows "core_moves s s'"
  using assms
proof (cases rule: init_cases)
  case (2 w peer)
  then show ?thesis by (auto simp: core_moves_def)
qed (simp add: core_stays)

lemma poll_core_moves:
  assumes "phonecam_poll_control_command_json js s = (r, s')"
  shows "core_moves s s'"
  using poll_cases [OF assms] by (fastforce simp: core_moves_def)

lemma update_core_moves:
  assumes "phonecam_update_video_capabilities js j s = (b, s')"
  shows "core_moves s s'"
  using assms
proof (cases rule: update_capabilities_cases)
  case (2 u c conn)
  from core_client_moves [OF client_moves.declares [OF 2(3,4)] 2(2)] 2(5) show ?thesis by simp
qed (simp add: core_stays)

lemma report_core_moves:
  assumes "phonecam_report_stream_configuration rid code cd w h rate s = (b, s')"
  shows "core_moves s s'"
  using assms
proof (cases rule: report_cases)
  case (2 c conn pend p)
  from core_client_moves [OF client_moves.applies [OF 2(5,7,8,6)] 2(2)] 2(9) show ?thesis by simp
next
  case (3 c conn pend oc)
  from core_client_moves [OF client_moves.refuses [OF 3(5,4,6)] 3(2)] 3(7) show ?thesis by simp
qed (simp add: core_stays)

lemma link_core_moves:
  assumes "f \<in> {link_takes, link_closes} \<union> range link_delivers"
  shows "core_moves s (on_link f s)"
proof (cases "transport_client s")
  case (Some c)
  from core_client_moves [OF client_moves.link [OF assms] Some] Some show ?thesis by (simp add: on_link_def)
qed (simp add: core_drops on_link_def)

lemma mobile_step_core_moves:
  assumes "mobile_step bc js ev s = (v, s')"
  shows "core_moves s s'"
  using assms
  by (cases ev)
    (auto simp: apfst_eq_pair configure_endpoint_def set_streaming_enabled_def phonecam_transport_shutdown_def
      shutdown_transport_client_def
      intro: frame_core_moves init_core_moves poll_core_moves update_core_moves report_core_moves
        link_core_moves core_stays core_drops)

lemma mobile_step_moves:
  assumes "mobile_step bc js ev s = (v, s')" "transport_client s' = Some c'"
  obtains c where "transport_client s = Some c" "client_moves c c'"
  | w peer where "well_formed_handshake (mobile_handshake w)" "well_formed_handshake peer"
      "common_active (mobile_handshake w) peer"
      "c' = fresh_client (mobile_handshake w) peer (vc_active_profile w)"
  using mobile_step_core_moves [OF assms(1)] assms(2) by (auto simp: core_moves_def)

section \<open>The invariant\<close>

definition followed :: "transport_client \<Rightarrow> bool" where
  "followed c \<longleftrightarrow>
     (let conn = tc_connection c; desktop = supported_profiles (peer_handshake conn) in
      \<exists>hs ms a. sent_log conn = Msg_Handshake hs # ms \<and> well_formed_handshake hs \<and>
        active_profile hs = Some a \<and> a \<in> set desktop \<and>
        follows desktop ms (supported_profiles hs, a) = Some (tc_supported c, tc_active c))"

definition answers_in_order :: "transport_client \<Rightarrow> bool" where
  "answers_in_order c \<longleftrightarrow>
     requests_taken (rx_taken (tc_connection c)) =
       requests_answered (sent_log (tc_connection c)) @ pending_id (tc_pending c)"

definition client_inv :: "transport_client \<Rightarrow> bool" where
  "client_inv c \<longleftrightarrow>
     followed c \<and> answers_in_order c \<and> well_formed_profiles (tc_supported c) \<and>
     tc_active c \<in> set (tc_supported c) \<and>
     tc_active c \<in> set (supported_profiles (peer_handshake (tc_connection c))) \<and>
     length (tx_queue (tc_connection c)) \<le> OUTBOUND_CHANNEL_CAPACITY"

lemma fresh_client_inv:
  assumes "well_formed_handshake (mobile_handshake w)" "common_active (mobile_handshake w) peer"
  shows "client_inv (fresh_client (mobile_handshake w) peer (vc_active_profile w))"
  using assms
  by (auto simp: client_inv_def followed_def answers_in_order_def fresh_client_def new_connection_def
      sent_log_def mobile_handshake_def well_formed_handshake_def common_active_def
      requests_taken_def requests_answered_def pending_id_def result_id_def)

lemma followed_push:
  assumes "followed c" "try_enqueue m (tc_connection c) = Some conn"
    and "follow_message (supported_profiles (peer_handshake (tc_connection c)))
      (tc_supported c, tc_active c) m = Some (tc_supported c', tc_active c')"
    and "tc_connection c' = conn"
  shows "followed c'"
proof -
  from assms(1) obtain hs ms a where log: "sent_log (tc_connection c) = Msg_Handshake hs # ms"
    and hs: "well_formed_handshake hs" "active_profile hs = Some a"
      "a \<in> set (supported_profiles (peer_handshake (tc_connection c)))"
    and fol: "follows (supported_profiles (peer_handshake (tc_connection c))) ms (supported_profiles hs, a) =
      Some (tc_supported c, tc_active c)"
    by (auto simp: followed_def Let_def)
  from assms(2) log have "sent_log conn = Msg_Handshake hs # (ms @ [m])"
      "peer_handshake conn = peer_handshake (tc_connection c)"
    by (auto simp: try_enqueue_Some sent_log_def)
  with hs follows_snoc [OF fol, of m] assms(3,4) show ?thesis
    by (auto simp: followed_def Let_def)
qed

lemma enqueue_effects:
  assumes "try_enqueue m c = Some conn"
  shows "sent_log conn = sent_log c @ [m]" "rx_taken conn = rx_taken c"
    "peer_handshake conn = peer_handshake c" "length (tx_queue conn) \<le> OUTBOUND_CHANNEL_CAPACITY"
  using assms by (auto simp: try_enqueue_Some sent_log_def)

lemma link_effects:
  assumes "f \<in> {link_takes, link_closes} \<union> range link_delivers"
  shows "sent_log (f c) = sent_log c" "rx_taken (f c) = rx_taken c"
    "peer_handshake (f c) = peer_handshake c" "length (tx_queue (f c)) \<le> length (tx_queue c)"
  using assms
  by (auto simp: sent_log_def link_takes_def link_closes_def link_delivers_def split: list.splits)

definition poll_takes ::
  "message list \<Rightarrow> message list \<Rightarrow> polled \<Rightarrow> message list \<Rightarrow> message list \<Rightarrow> bool" where
  "poll_takes taken q result taken' q' \<longleftrightarrow>
     (\<exists>ms. taken' = taken @ ms \<and> q = ms @ q' \<and>
        requests_taken ms = (case result of Polled c \<Rightarrow> pending_id (pending_after_poll c) | _ \<Rightarrow> []))"

lemma poll_takes_skip:
  assumes "poll_takes (taken @ [m]) q result taken' q'" "requests_taken [m] = []"
  shows "poll_takes taken (m # q) result taken' q'"
proof -
  from assms(1) obtain ms where "taken' = (taken @ [m]) @ ms" "q = ms @ q'"
      "requests_taken ms = (case result of Polled c \<Rightarrow> pending_id (pending_after_poll c) | _ \<Rightarrow> [])"
    by (auto simp: poll_takes_def)
  with assms(2) requests_append(1) [of "[m]" ms] show ?thesis
    by (auto simp: poll_takes_def intro!: exI [of _ "m # ms"])
qed

lemma poll_takes_stop:
  "requests_taken [m] = (case result of Polled c \<Rightarrow> pending_id (pending_after_poll c) | _ \<Rightarrow> []) \<Longrightarrow>
   poll_takes taken (m # q) result (taken @ [m]) q"
  by (auto simp: poll_takes_def intro!: exI [of _ "[m]"])

lemma poll_takes_end:
  "(\<forall>c. result \<noteq> Polled c) \<Longrightarrow> poll_takes taken [] result taken []"
  by (auto simp: poll_takes_def requests_taken_def split: polled.splits)

lemma poll_loop_takes:
  "poll_loop alive taken q = (result, taken', q') \<Longrightarrow> poll_takes taken q result taken' q'"
proof (induction alive taken q rule: poll_loop.induct)
  case (1 alive taken)
  then show ?case by (auto intro!: poll_takes_end split: if_splits)
next
  case (2 alive taken rid p q)
  then show ?case
    by (cases "well_formed_profile p")
      (auto intro!: poll_takes_skip poll_takes_stop
        simp: requests_taken_def pending_after_poll_def pending_id_def)
qed (auto intro!: poll_takes_skip poll_takes_stop
      simp: requests_taken_def pending_after_poll_def pending_id_def)

lemma pending_id_cases:
  assumes "rid = 0 \<and> pend = tc_pending c \<or>
      rid \<noteq> 0 \<and> map_option fst (tc_pending c) = Some rid \<and> pend = None"
  shows "pending_id (tc_pending c) =
    requests_answered [Msg_StreamConfigurationResult \<lparr>request_id = rid, outcome = oc\<rparr>] @ pending_id pend"
  using assms by (auto simp: pending_id_def requests_answered_def result_id_def)

text \<open>A move that enqueues a message a follower takes, and answers what it takes from the pending slot.\<close>

lemma client_inv_enqueue:
  assumes "client_inv c" "try_enqueue m (tc_connection c) = Some (tc_connection c')"
    and "follow_message (supported_profiles (peer_handshake (tc_connection c))) (tc_supported c, tc_active c) m =
      Some (tc_supported c', tc_active c')"
    and "pending_id (tc_pending c) = requests_answered [m] @ pending_id (tc_pending c')"
    and "well_formed_profiles (tc_supported c')" "tc_active c' \<in> set (tc_supported c')"
    and "tc_active c' \<in> set (supported_profiles (peer_handshake (tc_connection c)))"
  shows "client_inv c'"
  using assms(1,4-7) enqueue_effects [OF assms(2)] followed_push [OF _ assms(2,3)]
  by (simp add: client_inv_def answers_in_order_def)

lemma client_inv_move:
  assumes "client_moves c c'" "client_inv c"
  shows "client_inv c'"
  using assms(1)
proof cases
  case stays
  with assms(2) show ?thesis by simp
next
  case (sends_frame f conn)
  then show ?thesis using assms(2)
    by (intro client_inv_enqueue [OF assms(2)]) (auto simp: follow_message_def client_inv_def)
next
  case (declares u conn)
  then show ?thesis using assms(2)
    by (intro client_inv_enqueue [OF assms(2)]) (auto simp: follow_message_def client_inv_def)
next
  case (applies rid p conn pend)
  then show ?thesis using assms(2) pending_id_cases [OF applies(5)]
    by (intro client_inv_enqueue [OF assms(2)]) (auto simp: follow_message_def client_inv_def)
next
  case (refuses rid oc conn pend)
  then show ?thesis using assms(2) pending_id_cases [OF refuses(4)]
    by (intro client_inv_enqueue [OF assms(2)])
      (auto simp: follow_message_def client_inv_def split: stream_configuration_outcome.splits)
next
  case (polls result taken q pend)
  from poll_loop_takes [OF polls(3)] polls(4)
  have "requests_taken taken = requests_taken (rx_taken (tc_connection c)) @ pending_id pend"
    by (auto simp: poll_takes_def pending_id_def)
  with polls(1,2) assms(2) show ?thesis
    by (auto simp: client_inv_def followed_def answers_in_order_def sent_log_def pending_id_def Let_def)
next
  case (link f)
  from link(1) link_effects [OF link(2), of "tc_connection c"] assms(2) show ?thesis
    by (auto simp: client_inv_def followed_def answers_in_order_def Let_def)
qed

text \<open>The phone's core as a machine.\<close>

definition phone_moves :: "bincode \<Rightarrow> serde_json \<Rightarrow> mobile_core \<Rightarrow> mobile_core \<Rightarrow> bool" where
  "phone_moves bc js s s' \<longleftrightarrow> (\<exists>ev v. mobile_step bc js ev s = (v, s'))"

lemma mobile_reachable_reaches: "mobile_reachable bc js s \<longleftrightarrow> reaches (\<lambda>s. s = boot) (phone_moves bc js) s"
proof
  show "mobile_reachable bc js s \<Longrightarrow> reaches (\<lambda>s. s = boot) (phone_moves bc js) s"
    by (induction rule: mobile_reachable.induct) (auto simp: phone_moves_def intro: reaches.intros)
  show "reaches (\<lambda>s. s = boot) (phone_moves bc js) s \<Longrightarrow> mobile_reachable bc js s"
    by (induction rule: reaches.induct) (auto simp: phone_moves_def intro: mobile_reachable.intros)
qed

interpretation phones: step_system "\<lambda>s. s = boot" "phone_moves bc js" "mobile_reachable bc js" for bc js
  by unfold_locales (rule mobile_reachable_reaches)

lemma reachable_client_inv:
  assumes "mobile_reachable bc js s" "transport_client s = Some c"
  shows "client_inv c"
proof -
  from assms(1) have "\<forall>c. transport_client s = Some c \<longrightarrow> client_inv c"
  proof (rule phones.invariant)
    fix s s'
    assume inv: "\<forall>c. transport_client s = Some c \<longrightarrow> client_inv c" and "phone_moves bc js s s'"
    then obtain ev v where step: "mobile_step bc js ev s = (v, s')" by (auto simp: phone_moves_def)
    show "\<forall>c. transport_client s' = Some c \<longrightarrow> client_inv c"
    proof (intro allI impI)
      fix c'
      assume "transport_client s' = Some c'"
      from step this show "client_inv c'"
        by (cases rule: mobile_step_moves) (use inv client_inv_move fresh_client_inv in auto)
    qed
  qed (simp add: boot_def)
  with assms(2) show ?thesis by simp
qed

end
