(* ===== verification/Session.thy ===== *)
theory Session
  imports Step_Systems Stream_Properties Mobile_Invariants
begin

text \<open>
  The two ends of a connection put together: the phone's C functions
  (\<open>rust/phonecam-mobile-core/src/lib.rs\<close>) and the desktop's connection actor
  (\<open>stream_connection\<close> in \<open>pipeline.rs\<close>), with the messages on their way between them.

  Each direction is a queue, which is what the transport makes of the byte streams; the
  phone's own two bounded channels are those of its model. A session lasts while both ends
  keep their connection. In a \<open>smooth\<close> session requests do not time out, a change of the
  phone's own does not cross a request, the application answers a request with the size and
  rate it was asked for, and the desktop's commits succeed; there the desktop's picture of the
  phone is the phone's state as far as the messages on the way do not say otherwise.
\<close>

section \<open>The state and its steps\<close>

record ('l, 'm, 'w) session =
  phone :: mobile_core
  desk :: "('l, 'm, 'w) stream_actor"
  to_desk :: "message list"
  to_phone :: "message list"

primrec sent_message :: "effect \<Rightarrow> message list" where
  "sent_message (Send m) = [m]"
| "sent_message (Reply t r) = []"
| "sent_message (Status st) = []"
| "sent_message (ResetDecoder c ok) = []"
| "sent_message (SubmitFrame f ok) = []"
| "sent_message (WriteFrame f ok) = []"

definition sent_by :: "effect list \<Rightarrow> message list" where
  "sent_by effs = concat (map sent_message effs)"

text \<open>The calls of the application that neither open nor close the connection.\<close>

definition within_connection :: "mobile_event \<Rightarrow> bool" where
  "within_connection ev \<longleftrightarrow>
     (case ev of
        TransportInit d host port cfg \<Rightarrow> False
      | TransportShutdown \<Rightarrow> False
      | LinkTakes \<Rightarrow> False
      | LinkDelivers m \<Rightarrow> False
      | LinkCloses \<Rightarrow> False
      | _ \<Rightarrow> True)"

datatype session_event =
    PhoneCalls mobile_event
  | PhoneTransmits
  | PhoneReceives
  | DeskTurns answers actor_input
  | DeskReceives answers
  | DeskSwitchesCamera bool

text \<open>A turn of the desktop's loop; when the loop ends, so does the session.\<close>

definition desk_turn ::
  "effect list \<times> ('l, 'm, 'w) output_device flow \<Rightarrow> ('l, 'm, 'w) session \<Rightarrow>
   ('l, 'm, 'w) session option" where
  "desk_turn ef s =
     (case snd ef of
        Continue d \<Rightarrow> Some (s\<lparr>desk := d, to_phone := to_phone s @ sent_by (fst ef)\<rparr>)
      | _ \<Rightarrow> None)"

primrec session_step ::
  "bincode \<Rightarrow> serde_json \<Rightarrow> session_event \<Rightarrow> ('l, 'm, 'w) session \<Rightarrow> ('l, 'm, 'w) session option" where
  "session_step bc js (PhoneCalls ev) s =
     (if within_connection ev then Some (s\<lparr>phone := snd (mobile_step bc js ev (phone s))\<rparr>) else None)"
| "session_step bc js PhoneTransmits s =
     (case transport_client (phone s) of
        None \<Rightarrow> None
      | Some c \<Rightarrow>
          (case tx_queue (tc_connection c) of
             [] \<Rightarrow> None
           | m # ms \<Rightarrow>
               if tx_open (tc_connection c)
               then Some (s\<lparr>phone := snd (mobile_step bc js LinkTakes (phone s)), to_desk := to_desk s @ [m]\<rparr>)
               else None))"
| "session_step bc js PhoneReceives s =
     (case (to_phone s, transport_client (phone s)) of
        (m # ms, Some c) \<Rightarrow>
          if rx_open (tc_connection c) \<and> length (rx_queue (tc_connection c)) < INBOUND_CHANNEL_CAPACITY
          then Some (s\<lparr>phone := snd (mobile_step bc js (LinkDelivers m) (phone s)), to_phone := ms\<rparr>)
          else None
      | _ \<Rightarrow> None)"
| "session_step bc js (DeskTurns a i) s =
     (case i of
        PeerMessage m \<Rightarrow> None
      | _ \<Rightarrow> if branch_enabled i (desk s) then desk_turn (actor_step a i (desk s)) s else None)"
| "session_step bc js (DeskReceives a) s =
     (case to_desk s of
        [] \<Rightarrow> None
      | m # ms \<Rightarrow> desk_turn (actor_step a (PeerMessage (Some m)) (desk s)) (s\<lparr>to_desk := ms\<rparr>))"
| "session_step bc js (DeskSwitchesCamera front) s =
     Some (s\<lparr>to_phone := to_phone s @ [Msg_CameraControl (SwitchCamera front)]\<rparr>)"

text \<open>Both ends as they are right after the handshakes.\<close>

inductive session_begins :: "('l, 'm, 'w) session \<Rightarrow> bool" where
  "transport_client p = Some (fresh_client (mobile_handshake v) h (vc_active_profile v)) \<Longrightarrow>
   well_formed_handshake (mobile_handshake v) \<Longrightarrow>
   actor_start worker a (mobile_handshake v) dev (supported_profiles h) = (effs, Continue d) \<Longrightarrow>
   session_begins \<lparr>phone = p, desk = d, to_desk = [], to_phone = sent_by effs\<rparr>"

inductive session_reachable :: "bincode \<Rightarrow> serde_json \<Rightarrow> ('l, 'm, 'w) session \<Rightarrow> bool" for bc js where
  begins: "session_begins s \<Longrightarrow> session_reachable bc js s"
| step: "session_reachable bc js s \<Longrightarrow> session_step bc js ev s = Some s' \<Longrightarrow> session_reachable bc js s'"

section \<open>Smooth sessions\<close>

definition smooth_report :: "mobile_event \<Rightarrow> transport_client option \<Rightarrow> bool" where
  "smooth_report ev cl \<longleftrightarrow>
     (case (ev, Option.bind cl tc_pending) of
        (ReportConfiguration rid code cd w h rate, Some (i, p)) \<Rightarrow>
          rid \<noteq> 0 \<and> code = 0 \<longrightarrow> w = width p \<and> h = height p \<and> rate = fps p
      | _ \<Rightarrow> True)"

definition smooth_arrival :: "message list \<Rightarrow> 'd actor \<Rightarrow> bool" where
  "smooth_arrival ms d \<longleftrightarrow>
     (case ms of
        Msg_StreamConfigurationResult r # _ \<Rightarrow>
          request_id r = 0 \<and> (\<exists>p. outcome r = Applied p) \<longrightarrow> pending d = None
      | _ \<Rightarrow> True)"

definition smooth_tick :: "answers \<Rightarrow> 'd actor \<Rightarrow> bool" where
  "smooth_tick a d \<longleftrightarrow> (case pending d of Some cur \<Rightarrow> now a < pc_deadline cur | None \<Rightarrow> True)"

definition smooth :: "session_event \<Rightarrow> ('l, 'm, 'w) session \<Rightarrow> bool" where
  "smooth ev s \<longleftrightarrow>
     (case ev of
        PhoneCalls call \<Rightarrow> smooth_report call (transport_client (phone s))
      | DeskTurns a i \<Rightarrow> (case i of Tick \<Rightarrow> smooth_tick a (desk s) | _ \<Rightarrow> True)
      | DeskReceives a \<Rightarrow> smooth_arrival (to_desk s) (desk s)
      | _ \<Rightarrow> True)"

inductive smooth_reachable :: "bincode \<Rightarrow> serde_json \<Rightarrow> ('l, 'm, 'w) session \<Rightarrow> bool" for bc js where
  smooth_begins: "session_begins s \<Longrightarrow> smooth_reachable bc js s"
| smooth_step: "smooth_reachable bc js s \<Longrightarrow> smooth ev s \<Longrightarrow> session_step bc js ev s = Some s' \<Longrightarrow>
    \<not> compensating (desk s') \<Longrightarrow> smooth_reachable bc js s'"

text \<open>Both are machines, and the smooth one refines the other.\<close>

lemma session_reachable_reaches:
  "session_reachable bc js s \<longleftrightarrow> reaches session_begins (\<lambda>s s'. \<exists>ev. session_step bc js ev s = Some s') s"
proof
  show "session_reachable bc js s \<Longrightarrow> reaches session_begins (\<lambda>s s'. \<exists>ev. session_step bc js ev s = Some s') s"
    by (induction rule: session_reachable.induct) (auto intro: reaches.intros)
  show "reaches session_begins (\<lambda>s s'. \<exists>ev. session_step bc js ev s = Some s') s \<Longrightarrow> session_reachable bc js s"
    by (induction rule: reaches.induct) (auto intro: session_reachable.intros)
qed

definition smooth_moves ::
  "bincode \<Rightarrow> serde_json \<Rightarrow> ('l, 'm, 'w) session \<Rightarrow> ('l, 'm, 'w) session \<Rightarrow> bool" where
  "smooth_moves bc js s s' \<longleftrightarrow>
     (\<exists>ev. smooth ev s \<and> session_step bc js ev s = Some s') \<and> \<not> compensating (desk s')"

lemma smooth_reachable_reaches:
  "smooth_reachable bc js s \<longleftrightarrow> reaches session_begins (smooth_moves bc js) s"
proof
  show "smooth_reachable bc js s \<Longrightarrow> reaches session_begins (smooth_moves bc js) s"
    by (induction rule: smooth_reachable.induct) (auto simp: smooth_moves_def intro: reaches.intros)
  show "reaches session_begins (smooth_moves bc js) s \<Longrightarrow> smooth_reachable bc js s"
    by (induction rule: reaches.induct) (auto simp: smooth_moves_def intro: smooth_reachable.intros)
qed

interpretation sessions: step_system session_begins "\<lambda>s s'. \<exists>ev. session_step bc js ev s = Some s'"
  "session_reachable bc js" for bc js
  by unfold_locales (rule session_reachable_reaches)

interpretation smooth_sessions: refinement_map session_begins "smooth_moves bc js" "smooth_reachable bc js"
  session_begins "\<lambda>s s'. \<exists>ev. session_step bc js ev s = Some s'" "session_reachable bc js" "\<lambda>s. s" for bc js
  by unfold_locales (auto simp: smooth_reachable_reaches smooth_moves_def)

section \<open>The one request under way\<close>

text \<open>
  A request of the desktop's and its answer are one token, wherever it is: on the way to the
  phone, with the application, or on the way back.
\<close>

datatype token = Asked u32 stream_profile | Answered u32 stream_configuration_outcome

definition request_token :: "message \<Rightarrow> token list" where
  "request_token m =
     (case m of
        Msg_CameraControl (ConfigureStream rid p) \<Rightarrow> if well_formed_profile p then [Asked rid p] else []
      | _ \<Rightarrow> [])"

definition answer_token :: "message \<Rightarrow> token list" where
  "answer_token m =
     (case m of
        Msg_StreamConfigurationResult r \<Rightarrow>
          if request_id r = 0 then [] else [Answered (request_id r) (outcome r)]
      | _ \<Rightarrow> [])"

definition asked_token :: "(u32 \<times> stream_profile) option \<Rightarrow> token list" where
  "asked_token pend = (case pend of Some (rid, p) \<Rightarrow> [Asked rid p] | None \<Rightarrow> [])"

definition request_tokens :: "message list \<Rightarrow> token list" where
  "request_tokens ms = concat (map request_token ms)"

definition answer_tokens :: "message list \<Rightarrow> token list" where
  "answer_tokens ms = concat (map answer_token ms)"

lemma tokens_simps [simp]:
  "request_tokens [] = []" "request_tokens (m # ms) = request_token m @ request_tokens ms"
  "request_tokens (ms @ ns) = request_tokens ms @ request_tokens ns"
  "answer_tokens [] = []" "answer_tokens (m # ms) = answer_token m @ answer_tokens ms"
  "answer_tokens (ms @ ns) = answer_tokens ms @ answer_tokens ns"
  by (simp_all add: request_tokens_def answer_tokens_def)

definition tokens :: "transport_client \<Rightarrow> message list \<Rightarrow> message list \<Rightarrow> token list" where
  "tokens c td tp =
     answer_tokens (td @ tx_queue (tc_connection c)) @ asked_token (tc_pending c) @
     request_tokens (rx_queue (tc_connection c) @ tp)"

primrec token_fits :: "pending_configuration \<Rightarrow> token \<Rightarrow> bool" where
  "token_fits cur (Asked rid p) \<longleftrightarrow> rid = pc_request_id cur \<and> p = pc_requested cur"
| "token_fits cur (Answered rid result) \<longleftrightarrow>
     rid = pc_request_id cur \<and> (\<forall>p. result = Applied p \<longrightarrow> same_picture p (pc_requested cur))"

definition expected :: "pending_configuration option \<Rightarrow> token list \<Rightarrow> bool" where
  "expected pend ts \<longleftrightarrow>
     (case pend of None \<Rightarrow> ts = [] | Some cur \<Rightarrow> (\<exists>t. ts = [t] \<and> token_fits cur t))"

lemma expected_answer:
  assumes "expected pend (ts @ [Asked rid p] @ us)" "\<And>q. result = Applied q \<Longrightarrow> same_picture q p"
  shows "expected pend (ts @ [Answered rid result] @ us)"
  using assms by (auto simp: expected_def append_eq_Cons_conv split: option.splits)

definition in_step ::
  "transport_client \<Rightarrow> ('l, 'm, 'w) stream_actor \<Rightarrow> message list \<Rightarrow> message list \<Rightarrow> bool" where
  "in_step c d td tp \<longleftrightarrow>
     list_all well_formed_profile (peer_profiles d) \<and>
     supported_profiles (peer_handshake (tc_connection c)) = local_profiles d \<and>
     follows (local_profiles d) (td @ tx_queue (tc_connection c)) (peer_profiles d, active d) =
       Some (tc_supported c, tc_active c) \<and>
     expected (pending d) (tokens c td tp)"

definition session_inv :: "('l, 'm, 'w) session \<Rightarrow> bool" where
  "session_inv s \<longleftrightarrow>
     actor_inv (desk s) \<and> \<not> compensating (desk s) \<and>
     (\<forall>c. transport_client (phone s) = Some c \<longrightarrow> in_step c (desk s) (to_desk s) (to_phone s))"

section \<open>The phone's side\<close>

text \<open>Enqueueing a message that the desktop can follow; its token is new or answers the pending one.\<close>

lemma in_step_enqueue:
  assumes "in_step c d td tp" "try_enqueue m (tc_connection c) = Some conn" "tc_connection c' = conn"
    and "follow_message (local_profiles d) (tc_supported c, tc_active c) m = Some (tc_supported c', tc_active c')"
    and "answer_token m = [] \<and> tc_pending c' = tc_pending c \<or>
      (\<exists>rid p oc. tc_pending c = Some (rid, p) \<and> tc_pending c' = None \<and> answer_token m = [Answered rid oc] \<and>
        (\<forall>q. oc = Applied q \<longrightarrow> same_picture q p))"
  shows "in_step c' d td tp"
proof -
  from assms(2,3) have conn: "tx_queue (tc_connection c') = tx_queue (tc_connection c) @ [m]"
      "rx_queue (tc_connection c') = rx_queue (tc_connection c)"
      "peer_handshake (tc_connection c') = peer_handshake (tc_connection c)"
    by (auto simp: try_enqueue_Some)
  from assms(1) have old: "expected (pending d) (tokens c td tp)"
      "follows (local_profiles d) (td @ tx_queue (tc_connection c)) (peer_profiles d, active d) =
         Some (tc_supported c, tc_active c)"
    by (simp_all add: in_step_def)
  have "expected (pending d) (tokens c' td tp)"
    using assms(5)
  proof
    assume "answer_token m = [] \<and> tc_pending c' = tc_pending c"
    with old(1) show ?thesis by (simp add: tokens_def conn)
  next
    assume "\<exists>rid p oc. tc_pending c = Some (rid, p) \<and> tc_pending c' = None \<and>
      answer_token m = [Answered rid oc] \<and> (\<forall>q. oc = Applied q \<longrightarrow> same_picture q p)"
    then obtain rid p oc where "tc_pending c = Some (rid, p)" "tc_pending c' = None"
        "answer_token m = [Answered rid oc]" "\<And>q. oc = Applied q \<Longrightarrow> same_picture q p" by blast
    with old(1) show ?thesis
      using expected_answer [of "pending d" "answer_tokens (td @ tx_queue (tc_connection c))" rid p
          "request_tokens (rx_queue (tc_connection c) @ tp)" oc]
      by (simp add: tokens_def conn asked_token_def)
  qed
  with assms(1,4) follows_snoc [OF old(2), of m] show ?thesis by (simp add: in_step_def conn)
qed

lemma poll_loop_tokens:
  "poll_loop alive taken q = (result, taken', q') \<Longrightarrow>
   request_tokens q =
     (case result of Polled c \<Rightarrow> asked_token (pending_after_poll c) | _ \<Rightarrow> []) @ request_tokens q'"
  by (induction alive taken q rule: poll_loop.induct)
    (auto simp: request_token_def pending_after_poll_def asked_token_def split: if_splits)

lemma in_step_poll:
  assumes "phonecam_poll_control_command_json js s = (r, s')"
    and "transport_client s' = Some c'"
    and "\<And>c. transport_client s = Some c \<Longrightarrow> in_step c d td tp"
  shows "in_step c' d td tp"
proof -
  from assms(1,2) obtain c where c: "transport_client s = Some c"
    by (auto simp: phonecam_poll_control_command_json_def split: option.splits)
  note inv = assms(3) [OF c]
  show ?thesis
  proof (cases "tc_pending c")
    case None
    obtain result taken q where p: "poll_loop (rx_open (tc_connection c)) (rx_taken (tc_connection c))
        (rx_queue (tc_connection c)) = (result, taken, q)" by (metis prod_cases3)
    from assms(1,2) c None p have "tc_supported c' = tc_supported c" "tc_active c' = tc_active c"
        "tx_queue (tc_connection c') = tx_queue (tc_connection c)" "rx_queue (tc_connection c') = q"
        "peer_handshake (tc_connection c') = peer_handshake (tc_connection c)"
        "asked_token (tc_pending c') =
           (case result of Polled cmd \<Rightarrow> asked_token (pending_after_poll cmd) | _ \<Rightarrow> [])"
      by (auto simp: phonecam_poll_control_command_json_def Let_def asked_token_def split: polled.splits)
    with inv None poll_loop_tokens [OF p] show ?thesis
      by (simp add: in_step_def tokens_def asked_token_def)
  next
    case (Some pend)
    with assms(1,2) c inv show ?thesis by (auto simp: phonecam_poll_control_command_json_def)
  qed
qed

lemma in_step_report:
  assumes "phonecam_report_stream_configuration rid code cd w h rate s = (b, s')"
    and "transport_client s' = Some c'"
    and "\<And>c. transport_client s = Some c \<Longrightarrow> in_step c d td tp"
    and "smooth_report (ReportConfiguration rid code cd w h rate) (transport_client s)"
  shows "in_step c' d td tp"
  using assms(1)
proof (cases rule: report_cases)
  case 1
  with assms(2,3) show ?thesis by simp
next
  case (2 c conn pend p)
  note inv = assms(3) [OF 2(2)]
  from 2(9) assms(2) have c': "c' = c\<lparr>tc_connection := conn, tc_active := p, tc_pending := pend\<rparr>" by simp
  have "same_picture p q" if "rid \<noteq> 0" "tc_pending c = Some (rid, q)" for q
    using assms(4) that 2(2,3,4) by (simp add: smooth_report_def profile_from_ffi_Some same_picture_def)
  with 2(6) have "answer_token (Msg_StreamConfigurationResult \<lparr>request_id = rid, outcome = Applied p\<rparr>) = [] \<and>
      tc_pending c' = tc_pending c \<or>
    (\<exists>rid' q oc. tc_pending c = Some (rid', q) \<and> tc_pending c' = None \<and>
      answer_token (Msg_StreamConfigurationResult \<lparr>request_id = rid, outcome = Applied p\<rparr>) = [Answered rid' oc] \<and>
      (\<forall>q'. oc = Applied q' \<longrightarrow> same_picture q' q))"
    by (auto simp: c' answer_token_def)
  moreover have "p \<in> set (local_profiles d)" using inv 2(8) by (simp add: in_step_def)
  ultimately show ?thesis
    using inv 2(5,7) by (intro in_step_enqueue [OF inv 2(5)]) (simp_all add: c' follow_message_def)
next
  case (3 c conn pend oc)
  note inv = assms(3) [OF 3(2)]
  from 3(7) assms(2) have c': "c' = c\<lparr>tc_connection := conn, tc_pending := pend\<rparr>" by simp
  from 3(4,6) have "answer_token (Msg_StreamConfigurationResult \<lparr>request_id = rid, outcome = oc\<rparr>) = [] \<and>
      tc_pending c' = tc_pending c \<or>
    (\<exists>rid' q oc'. tc_pending c = Some (rid', q) \<and> tc_pending c' = None \<and>
      answer_token (Msg_StreamConfigurationResult \<lparr>request_id = rid, outcome = oc\<rparr>) = [Answered rid' oc'] \<and>
      (\<forall>q'. oc' = Applied q' \<longrightarrow> same_picture q' q))"
    by (auto simp: c' answer_token_def)
  with 3(4) show ?thesis
    by (intro in_step_enqueue [OF inv 3(5)])
      (auto simp: c' follow_message_def split: stream_configuration_outcome.splits)
qed

lemma in_step_call:
  assumes "mobile_step bc js ev s = (v, s')" "within_connection ev"
    and "transport_client s' = Some c'"
    and "\<And>c. transport_client s = Some c \<Longrightarrow> in_step c d td tp"
    and "smooth_report ev (transport_client s)"
  shows "in_step c' d td tp"
proof (cases ev)
  case (SendFrame data pts cd w h key)
  with assms(1) obtain b where "phonecam_send_video_frame data pts cd w h key s = (b, s')"
    by (auto simp: apfst_eq_pair)
  then show ?thesis
  proof (cases rule: send_video_frame_cases)
    case (2 f c conn)
    with assms(3) show ?thesis
      by (intro in_step_enqueue [OF assms(4) [OF 2(2)] 2(5)]) (auto simp: follow_message_def answer_token_def)
  qed (use assms in simp)
next
  case PollCommand
  with assms(1) obtain r where "phonecam_poll_control_command_json js s = (r, s')"
    by (auto simp: apfst_eq_pair)
  from in_step_poll [OF this assms(3,4)] show ?thesis .
next
  case (UpdateCapabilities j)
  with assms(1) obtain b where "phonecam_update_video_capabilities js j s = (b, s')"
    by (auto simp: apfst_eq_pair)
  then show ?thesis
  proof (cases rule: update_capabilities_cases)
    case (2 u c conn)
    with assms(3) show ?thesis
      by (intro in_step_enqueue [OF assms(4) [OF 2(2)] 2(3)]) (auto simp: follow_message_def answer_token_def)
  qed (use assms in simp)
next
  case (ReportConfiguration rid code cd w h rate)
  with assms(1) obtain b where "phonecam_report_stream_configuration rid code cd w h rate s = (b, s')"
    by (auto simp: apfst_eq_pair)
  from in_step_report [OF this assms(3,4)] assms(5) ReportConfiguration show ?thesis by simp
qed (use assms in \<open>auto simp: within_connection_def configure_endpoint_def set_streaming_enabled_def
    split: if_splits\<close>)

lemma in_step_transmits:
  "in_step c d td tp \<Longrightarrow> tx_queue (tc_connection c) = m # ms \<Longrightarrow> tx_open (tc_connection c) \<Longrightarrow>
   in_step (c\<lparr>tc_connection := link_takes (tc_connection c)\<rparr>) d (td @ [m]) tp"
  by (simp add: in_step_def tokens_def link_takes_def)

lemma in_step_receives:
  "in_step c d td (m # tp) \<Longrightarrow> rx_open (tc_connection c) \<Longrightarrow>
   length (rx_queue (tc_connection c)) < INBOUND_CHANNEL_CAPACITY \<Longrightarrow>
   in_step (c\<lparr>tc_connection := link_delivers m (tc_connection c)\<rparr>) d td tp"
  by (simp add: in_step_def tokens_def link_delivers_def)

section \<open>The desktop's side\<close>

lemma sent_by_simps [simp]:
  "sent_by [] = []" "sent_by (e # effs) = sent_message e @ sent_by effs"
  "sent_by (effs @ effs') = sent_by effs @ sent_by effs'"
  "sent_by (reply_to rep r) = []" "sent_message (publish s) = []"
  by (simp_all add: sent_by_def publish_def) (cases rep; simp)

lemma in_step_quiet:
  assumes "in_step c d td tp" "same_negotiation d d'" "same_profiles d d'" "request_tokens sent = []"
  shows "in_step c d' td (tp @ sent)"
  using assms by (simp add: in_step_def tokens_def same_negotiation_def same_profiles_def)

lemma quiet_refl: "same_negotiation s s" "same_profiles s s"
  by (simp_all add: same_negotiation_def same_profiles_def)

lemma on_decoder_event_sends:
  "on_decoder_event a ev s = (effs, fl) \<Longrightarrow> request_tokens (sent_by effs) = []"
  by (auto simp: on_decoder_event_def request_token_def
      split: option.splits decode_event.splits prod.splits result.splits if_splits)

lemma on_video_frame_sends:
  "on_video_frame a f s = (effs, fl) \<Longrightarrow> request_tokens (sent_by effs) = []"
  by (auto simp: on_video_frame_def Let_def request_token_def split: if_splits)

lemma in_step_request:
  assumes "in_step c d td tp" "actor_inv d" "pending d = None" "p \<in> set (common d)"
    and "request_configuration a p kind d = (effs, Continue d')"
  shows "in_step c d' td (tp @ sent_by effs)"
proof -
  have "well_formed_profile p"
    using assms(1,2,4) by (auto simp: in_step_def actor_inv_def list_all_iff)
  with assms show ?thesis
    by (auto simp: in_step_def tokens_def request_configuration_Continue expected_def request_token_def
        configure_message_def)
qed

lemma in_step_turn:
  assumes "actor_step a i d = (effs, Continue d')" "branch_enabled i d" "\<And>m. i \<noteq> PeerMessage m"
    and "i = Tick \<Longrightarrow> smooth_tick a d" "actor_inv d" "in_step c d td tp"
  shows "in_step c d' td (tp @ sent_by effs)"
proof (cases i)
  case (StateChanged st)
  with assms show ?thesis
    by (auto simp: actor_step_def on_state_changed_def split: if_splits)
next
  case Tick
  with assms show ?thesis
    by (auto simp: actor_step_def on_tick_def smooth_tick_def split: option.splits)
next
  case (Command cmd)
  with assms(1) have "on_command a cmd d = (effs, Continue d')" by (simp add: actor_step_def)
  then show ?thesis
  proof (cases rule: on_command_Continue)
    case (answered x r)
    with assms(6) show ?thesis by simp
  next
    case (requested x p)
    then show ?thesis
      using assms(2) Command by (intro in_step_request [OF assms(6,5)]) (auto simp: branch_enabled_def)
  qed
next
  case (DecoderEvent ev)
  with assms(1) have ev: "on_decoder_event a ev d = (effs, Continue d')" by (simp add: actor_step_def)
  from in_step_quiet [OF assms(6)] on_decoder_event_quiet [OF ev] on_decoder_event_sends [OF ev]
  show ?thesis by blast
qed (use assms in \<open>simp_all add: actor_step_def\<close>)

text \<open>What a result does when the change it reports is carried out.\<close>

lemma request_compensates:
  "request_configuration a p (Compensation prior e rep) s = (effs, Continue s') \<Longrightarrow> compensating s'"
  by (auto simp: request_configuration_Continue compensating_def)

lemma on_unsolicited_adopts:
  assumes "on_unsolicited_result a (Applied p) s = (effs, Continue s')" "p \<in> set (common s)"
    and "\<not> compensating s'"
  shows "\<exists>d. s' = adopt p d s" "sent_by effs = []"
proof -
  have "(\<exists>d. s' = adopt p d s) \<and> sent_by effs = []"
    using assms commit_and_reset_Committed(1) [of a p "out_dev s"]
    by (auto simp: on_unsolicited_result_def Let_def
        split: prod.splits commit_outcome.splits dest: request_compensates)
  then show "\<exists>d. s' = adopt p d s" "sent_by effs = []" by blast+
qed

lemma on_configure_adopts:
  assumes "on_configure_result a cur prior rep (Applied p) s = (effs, Continue s')"
    and "p \<in> set (common s)" "same_picture p (pc_requested cur)" "\<not> compensating s'"
  shows "\<exists>d. s' = adopt p d s" "sent_by effs = []"
proof -
  have "(\<exists>d. s' = adopt p d s) \<and> sent_by effs = []"
    using assms commit_and_reset_Committed(1) [of a p "out_dev s"]
    by (auto simp: on_configure_result_def accepts_applied_profile_iff Let_def
        split: prod.splits commit_outcome.splits dest: request_compensates)
  then show "\<exists>d. s' = adopt p d s" "sent_by effs = []" by blast+
qed

lemma in_step_advance:
  assumes "in_step c d (m # td) tp"
    and "follow_message (local_profiles d) (peer_profiles d, active d) m = Some (peer_profiles d', active d')"
    and "local_profiles d' = local_profiles d" "list_all well_formed_profile (peer_profiles d')"
    and "request_tokens sent = []"
    and "\<And>ts. expected (pending d) (answer_token m @ ts) \<Longrightarrow> expected (pending d') ts"
  shows "in_step c d' td (tp @ sent)"
  using assms(1-5) assms(6) [of "tokens c td tp"] by (simp add: in_step_def tokens_def)

text \<open>What a result does to the desktop of a smooth session.\<close>

lemma smooth_result:
  assumes "on_configuration_result a r d = (effs, Continue d')" "actor_inv d" "\<not> compensating d" "\<not> compensating d'"
    and "expected (pending d) (answer_token (Msg_StreamConfigurationResult r) @ ts)"
    and "\<And>p. outcome r = Applied p \<Longrightarrow> p \<in> set (common d)"
    and "smooth_arrival (Msg_StreamConfigurationResult r # td) d"
  shows "active d' = (case outcome r of Applied p \<Rightarrow> p | _ \<Rightarrow> active d) \<and>
    pending d' = (if request_id r = 0 then pending d else None) \<and>
    peer_profiles d' = peer_profiles d \<and> local_profiles d' = local_profiles d \<and> sent_by effs = []"
  using assms(1,2)
proof (cases rule: on_configuration_result_cases)
  case ignored
  with assms(5) have zero: "request_id r = 0" "pending d \<noteq> None"
    by (auto simp: expected_def answer_token_def split: option.splits if_splits)
  with assms(7) have "\<forall>p. outcome r \<noteq> Applied p" by (auto simp: smooth_arrival_def)
  with ignored(1,2) zero show ?thesis by (simp split: stream_configuration_outcome.splits)
next
  case unsolicited
  show ?thesis
  proof (cases "\<exists>p. outcome r = Applied p")
    case True
    then obtain p where p: "outcome r = Applied p" ..
    from on_unsolicited_adopts [OF unsolicited(2) [unfolded p] assms(6) [OF p] assms(4)] obtain dev where
        "d' = adopt p dev d" "sent_by effs = []" by blast
    with p unsolicited show ?thesis by (simp add: adopt_def)
  next
    case False
    with unsolicited(2) have "d' = d" "effs = []"
      by (auto simp: on_unsolicited_result_def split: stream_configuration_outcome.splits)
    with False unsolicited(3) show ?thesis by (simp split: stream_configuration_outcome.splits)
  qed
next
  case (answer cur rep)
  have asked: "request_id r \<noteq> 0" using answer(1,4) assms(2) by (auto simp: actor_inv_def)
  show ?thesis
  proof (cases "\<exists>p. outcome r = Applied p")
    case True
    then obtain p where p: "outcome r = Applied p" ..
    with asked answer(1) assms(5) have "same_picture p (pc_requested cur)"
      by (auto simp: expected_def answer_token_def)
    from on_configure_adopts [OF answer(3) [unfolded p] assms(6) [OF p] this assms(4)] obtain dev where
        "d' = adopt p dev d" "sent_by effs = []" by blast
    with p asked show ?thesis by (simp add: adopt_def)
  next
    case False
    with answer(3) have "d' = d\<lparr>pending := None\<rparr>" "sent_by effs = []"
      by (auto simp: on_configure_result_def split: stream_configuration_outcome.splits)
    with False asked show ?thesis by (simp split: stream_configuration_outcome.splits)
  qed
next
  case (undoing cur e rep)
  with assms(3) show ?thesis by (simp add: compensating_def)
qed

lemma in_step_result:
  assumes inv: "in_step c d (Msg_StreamConfigurationResult r # td) tp" "actor_inv d" "\<not> compensating d"
    and step: "on_configuration_result a r d = (effs, Continue d')" "\<not> compensating d'"
    and "smooth_arrival (Msg_StreamConfigurationResult r # td) d"
  shows "in_step c d' td (tp @ sent_by effs)"
proof -
  let ?m = "Msg_StreamConfigurationResult r"
  have wf: "list_all well_formed_profile (peer_profiles d)" and com: "set (common d) = set (local_profiles d) \<inter> set (peer_profiles d)"
    using inv by (auto simp: in_step_def actor_inv_def)
  obtain view where view: "follow_message (local_profiles d) (peer_profiles d, active d) ?m = Some view"
    using inv(1) by (auto simp: in_step_def split: bind_splits)
  have exp: "expected (pending d) (answer_token ?m @ tokens c td tp)"
    using inv(1) by (simp add: in_step_def tokens_def)
  have applied: "p \<in> set (common d)" if "outcome r = Applied p" for p
    using view that com by (auto simp: follow_message_def split: if_splits)
  note after = smooth_result [OF step(1) inv(2,3) step(2) exp applied assms(6)]
  have "view = (peer_profiles d', active d')"
    using view after by (auto simp: follow_message_def split: stream_configuration_outcome.splits if_splits)
  with view after wf show ?thesis
    by (intro in_step_advance [OF inv(1)])
      (auto simp: expected_def answer_token_def split: option.splits if_splits)
qed

lemma in_step_frame:
  assumes inv: "in_step c d (Msg_VideoFrame f # td) tp" and f: "on_video_frame a f d = (effs, Continue d')"
  shows "in_step c d' td (tp @ sent_by effs)"
proof -
  from on_video_frame_quiet [OF f] have "local_profiles d' = local_profiles d" "peer_profiles d' = peer_profiles d"
      "active d' = active d" "pending d' = pending d"
    by (simp_all add: same_negotiation_def same_profiles_def)
  moreover from inv have "is_ok (frame_validate_against f (active d))" "list_all well_formed_profile (peer_profiles d)"
    by (auto simp: in_step_def follow_message_def split: bind_splits if_splits)
  ultimately show ?thesis
    by (intro in_step_advance [OF inv _ _ _ on_video_frame_sends [OF f]])
      (simp_all add: follow_message_def answer_token_def)
qed

lemma in_step_capabilities:
  assumes inv: "in_step c d (Msg_VideoCapabilitiesUpdate u # td) tp" and step: "on_capabilities u d = (effs, Continue d')"
  shows "in_step c d' td (tp @ sent_by effs)"
proof -
  from inv have ok: "is_ok (capabilities_validate u (active d))"
    by (auto simp: in_step_def follow_message_def split: bind_splits if_splits)
  with step have "d' = d\<lparr>peer_profiles := vcu_supported_profiles u,
      common := common_profiles (local_profiles d) (vcu_supported_profiles u)\<rparr>" "sent_by effs = []"
    by (auto simp: on_capabilities_def Let_def simp del: is_ok_capabilities_validate)
  moreover have "list_all well_formed_profile (vcu_supported_profiles u)"
    using ok by (auto simp: well_formed_profiles_def)
  ultimately show ?thesis using ok
    by (intro in_step_advance [OF inv]) (simp_all add: follow_message_def answer_token_def)
qed

lemma in_step_message:
  assumes inv: "in_step c d (m # td) tp" "actor_inv d" "\<not> compensating d"
    and step: "actor_step a (PeerMessage (Some m)) d = (effs, Continue d')" "\<not> compensating d'"
    and "smooth_arrival (m # td) d"
  shows "in_step c d' td (tp @ sent_by effs)"
proof -
  have wf: "list_all well_formed_profile (peer_profiles d)" using inv by (simp add: in_step_def)
  have msg: "on_message a (Some m) d = (effs, Continue d')" using step(1) by (simp add: actor_step_def)
  have other: ?thesis if "d' = d" "effs = []"
      "follow_message (local_profiles d) (peer_profiles d, active d) m = Some (peer_profiles d, active d)"
      "answer_token m = []"
    using that wf in_step_advance [OF inv(1), of d' "[]"] by simp
  show ?thesis
  proof (cases m)
    case (Msg_StreamConfigurationResult r)
    with msg have "on_configuration_result a r d = (effs, Continue d')" by (simp add: on_message_def)
    with in_step_result [OF _ inv(2,3) _ step(2)] inv(1) assms(6) Msg_StreamConfigurationResult show ?thesis by simp
  next
    case (Msg_VideoFrame f)
    with msg inv(1) show ?thesis by (auto simp: on_message_def intro: in_step_frame)
  next
    case (Msg_VideoCapabilitiesUpdate u)
    with msg inv(1) show ?thesis by (auto simp: on_message_def intro: in_step_capabilities)
  qed (use msg in \<open>intro other; simp add: on_message_def follow_message_def answer_token_def\<close>)+
qed

section \<open>Every smooth session\<close>

lemma session_begins_inv:
  assumes "session_begins s"
  shows "session_inv s"
  using assms
proof cases
  case (1 p v h worker a dev effs d)
  note inv = actor_start_inv [OF 1(4)]
  from 1(4) have d: "pending d = None" "peer_profiles d = vc_supported_profiles v"
      "local_profiles d = supported_profiles h" "active d = vc_active_profile v" "sent_by effs = []"
    by (auto simp: actor_start_def Let_def mobile_handshake_def
        split: option.splits if_splits prod.splits result.splits)
  have "list_all well_formed_profile (vc_supported_profiles v)"
    using 1(3) by (auto simp: well_formed_handshake_def well_formed_profiles_def mobile_handshake_def)
  with 1(1,2) inv d show ?thesis
    by (auto simp: session_inv_def in_step_def fresh_client_def new_connection_def tokens_def
        asked_token_def expected_def compensating_def mobile_handshake_def)
qed

lemma desk_turn_Some:
  "desk_turn ef s = Some s' \<longleftrightarrow>
     (\<exists>effs d. ef = (effs, Continue d) \<and> s' = s\<lparr>desk := d, to_phone := to_phone s @ sent_by effs\<rparr>)"
  by (cases ef) (auto simp: desk_turn_def split: flow.splits)

lemma session_step_inv:
  assumes "session_step bc js ev s = Some s'" "smooth ev s" "session_inv s" "\<not> compensating (desk s')"
  shows "session_inv s'"
proof (cases ev)
  case (PhoneCalls call)
  obtain v p where call: "mobile_step bc js call (phone s) = (v, p)" by fastforce
  with assms PhoneCalls show ?thesis
    using in_step_call [OF call, of _ "desk s" "to_desk s" "to_phone s"]
    by (auto simp: session_inv_def smooth_def split: if_splits)
next
  case PhoneTransmits
  with assms show ?thesis
    using in_step_transmits
    by (auto simp: session_inv_def on_link_def split: option.splits list.splits if_splits)
next
  case PhoneReceives
  with assms show ?thesis
    using in_step_receives
    by (auto simp: session_inv_def on_link_def split: option.splits list.splits if_splits)
next
  case (DeskTurns a i)
  with assms obtain effs d where step: "actor_step a i (desk s) = (effs, Continue d)" "branch_enabled i (desk s)"
      "\<And>m. i \<noteq> PeerMessage m" "i = Tick \<Longrightarrow> smooth_tick a (desk s)"
      "s' = s\<lparr>desk := d, to_phone := to_phone s @ sent_by effs\<rparr>"
    by (cases i) (auto simp: desk_turn_Some smooth_def split: if_splits)
  with assms(3,4) actor_step_inv [OF step(1,2)] in_step_turn [OF step(1-4)] show ?thesis
    by (auto simp: session_inv_def)
next
  case (DeskReceives a)
  with assms(1) obtain m ms effs d where step: "to_desk s = m # ms"
      "actor_step a (PeerMessage (Some m)) (desk s) = (effs, Continue d)"
      "s' = s\<lparr>to_desk := ms, desk := d, to_phone := to_phone s @ sent_by effs\<rparr>"
    by (auto simp: desk_turn_Some split: list.splits)
  with assms DeskReceives actor_step_inv [OF step(2)] in_step_message [OF _ _ _ step(2)] show ?thesis
    by (auto simp: session_inv_def smooth_def branch_enabled_def)
next
  case (DeskSwitchesCamera front)
  with assms show ?thesis
    by (auto simp: session_inv_def in_step_def tokens_def request_token_def)
qed

lemma smooth_reachable_inv:
  assumes "smooth_reachable bc js s"
  shows "session_inv s"
  using assms
  by (rule smooth_sessions.detailed.invariant)
    (auto simp: smooth_moves_def intro: session_begins_inv session_step_inv)

section \<open>What the two ends send\<close>

text \<open>
  The phone enqueues frames, updates and results, the desktop camera controls, and within a
  session the phone's two channels stay open.
\<close>

definition from_phone :: "message \<Rightarrow> bool" where
  "from_phone m \<longleftrightarrow>
     (case m of Msg_VideoFrame f \<Rightarrow> True | Msg_VideoCapabilitiesUpdate u \<Rightarrow> True
      | Msg_StreamConfigurationResult r \<Rightarrow> True | _ \<Rightarrow> False)"

definition from_desk :: "message \<Rightarrow> bool" where
  "from_desk m \<longleftrightarrow> (\<exists>c. m = Msg_CameraControl c)"

lemma from_simps [simp]:
  "from_phone (Msg_VideoFrame f)" "from_phone (Msg_VideoCapabilitiesUpdate u)"
  "from_phone (Msg_StreamConfigurationResult r)" "from_desk (Msg_CameraControl c)"
  by (simp_all add: from_phone_def from_desk_def)

lemma commit_sends: "commit_and_reset a p d = (effs, oc, d') \<Longrightarrow> list_all from_desk (sent_by effs)"
  by (auto simp: commit_and_reset_def split: prod.splits result.splits option.splits)

lemma request_sends: "request_configuration a p kind s = (effs, fl) \<Longrightarrow> list_all from_desk (sent_by effs)"
  by (auto simp: request_configuration_def configure_message_def Let_def split: if_splits)

lemma result_sends:
  "on_unsolicited_result a oc s = (effs, fl) \<Longrightarrow> list_all from_desk (sent_by effs)"
  "on_configure_result a cur prior rep oc s = (effs, fl) \<Longrightarrow> list_all from_desk (sent_by effs)"
  "on_compensation_result a prior e rep oc s = (effs, fl) \<Longrightarrow> list_all from_desk (sent_by effs)"
  by (auto simp: on_unsolicited_result_def on_configure_result_def on_compensation_result_def Let_def
      dest!: commit_sends request_sends
      split: stream_configuration_outcome.splits prod.splits commit_outcome.splits if_splits reconfigure_failure.splits)

lemma actor_step_sends:
  assumes "actor_step a i s = (effs, fl)"
  shows "list_all from_desk (sent_by effs)"
proof (cases i)
  case (Command c)
  with assms show ?thesis
    by (auto simp: actor_step_def on_command_def dest: request_sends split: option.splits result.splits if_splits)
next
  case (DecoderEvent ev)
  with assms show ?thesis
    by (auto simp: actor_step_def on_decoder_event_def
        split: option.splits decode_event.splits prod.splits result.splits if_splits)
next
  case (PeerMessage m)
  show ?thesis
  proof (cases "\<exists>r. m = Some (Msg_StreamConfigurationResult r)")
    case True
    with assms PeerMessage show ?thesis
      by (auto simp: actor_step_def on_message_def on_configuration_result_def dest: result_sends
          split: option.splits pending_kind.splits if_splits)
  next
    case False
    with assms PeerMessage show ?thesis
      by (auto simp: actor_step_def on_message_def on_video_frame_def on_capabilities_def Let_def
          split: option.splits message.splits if_splits)
  qed
qed (use assms in \<open>auto simp: actor_step_def on_tick_def on_state_changed_def
    split: option.splits pending_kind.splits if_splits\<close>)

definition orderly_client :: "transport_client \<Rightarrow> bool" where
  "orderly_client c \<longleftrightarrow>
     tx_open (tc_connection c) \<and> rx_open (tc_connection c) \<and>
     list_all from_phone (tx_queue (tc_connection c)) \<and> list_all from_desk (rx_queue (tc_connection c))"

definition orderly :: "('l, 'm, 'w) session \<Rightarrow> bool" where
  "orderly s \<longleftrightarrow>
     list_all from_phone (to_desk s) \<and> list_all from_desk (to_phone s) \<and>
     (\<forall>c. transport_client (phone s) = Some c \<longrightarrow> orderly_client c)"

lemma orderly_enqueue:
  "orderly_client c \<Longrightarrow> try_enqueue m (tc_connection c) = Some (tc_connection c') \<Longrightarrow> from_phone m \<Longrightarrow> orderly_client c'"
  by (auto simp: orderly_client_def try_enqueue_Some)

text \<open>Polling a queue of the desktop's messages on an open channel gets on, and never ends the connection.\<close>

lemma poll_loop_progress:
  "poll_loop alive taken q = (result, taken', q') \<Longrightarrow> alive \<Longrightarrow> list_all from_desk q \<Longrightarrow>
   result \<noteq> PolledGone \<and> list_all from_desk q' \<and> length q' \<le> length q \<and> (q \<noteq> [] \<longrightarrow> length q' < length q)"
  by (induction alive taken q rule: poll_loop.induct) (auto simp: from_desk_def split: if_splits)

lemma orderly_poll:
  assumes "transport_client s = Some c" "orderly_client c"
  shows "\<exists>c'. transport_client (snd (phonecam_poll_control_command_json js s)) = Some c' \<and> orderly_client c' \<and>
    tx_queue (tc_connection c') = tx_queue (tc_connection c) \<and>
    length (rx_queue (tc_connection c')) \<le> length (rx_queue (tc_connection c)) \<and>
    (tc_pending c = None \<and> rx_queue (tc_connection c) \<noteq> [] \<longrightarrow>
       length (rx_queue (tc_connection c')) < length (rx_queue (tc_connection c)))"
proof (cases "tc_pending c")
  case None
  obtain result taken q where p: "poll_loop (rx_open (tc_connection c)) (rx_taken (tc_connection c))
      (rx_queue (tc_connection c)) = (result, taken, q)" by (metis prod_cases3)
  from poll_loop_progress [OF p] assms None p show ?thesis
    by (auto simp: phonecam_poll_control_command_json_def Let_def orderly_client_def split: polled.splits)
qed (use assms in \<open>simp add: phonecam_poll_control_command_json_def\<close>)

lemma orderly_call:
  assumes "mobile_step bc js ev s = (v, s')" "within_connection ev" "transport_client s' = Some c'"
    and "\<And>c. transport_client s = Some c \<Longrightarrow> orderly_client c"
  shows "orderly_client c'"
proof (cases ev)
  case (SendFrame data pts cd w h key)
  with assms(1) obtain b where "phonecam_send_video_frame data pts cd w h key s = (b, s')"
    by (auto simp: apfst_eq_pair)
  then show ?thesis
    by (cases rule: send_video_frame_cases) (use assms(3,4) in \<open>auto intro: orderly_enqueue\<close>)
next
  case PollCommand
  with assms(1) have s': "s' = snd (phonecam_poll_control_command_json js s)" by (simp add: prod_eq_iff)
  with assms(3) obtain c where "transport_client s = Some c"
    by (auto simp: phonecam_poll_control_command_json_def split: option.splits)
  from orderly_poll [OF this assms(4) [OF this], of js] assms(3) show ?thesis by (auto simp: s')
next
  case (UpdateCapabilities j)
  with assms(1) obtain b where "phonecam_update_video_capabilities js j s = (b, s')"
    by (auto simp: apfst_eq_pair)
  then show ?thesis
    by (cases rule: update_capabilities_cases) (use assms(3,4) in \<open>auto intro: orderly_enqueue\<close>)
next
  case (ReportConfiguration rid code cd w h rate)
  with assms(1) obtain b where "phonecam_report_stream_configuration rid code cd w h rate s = (b, s')"
    by (auto simp: apfst_eq_pair)
  then show ?thesis
    by (cases rule: report_cases) (use assms(3,4) in \<open>auto intro: orderly_enqueue\<close>)
qed (use assms in \<open>auto simp: within_connection_def configure_endpoint_def set_streaming_enabled_def
    split: if_splits\<close>)

lemma orderly_begins: "session_begins s \<Longrightarrow> orderly s"
  by (induction rule: session_begins.induct)
    (auto simp: orderly_def orderly_client_def fresh_client_def new_connection_def actor_start_def Let_def
      dest!: commit_sends split: option.splits if_splits prod.splits result.splits)

lemma orderly_step:
  assumes "session_step bc js ev s = Some s'" "orderly s"
  shows "orderly s'"
proof (cases ev)
  case (PhoneCalls call)
  obtain v p where "mobile_step bc js call (phone s) = (v, p)" by fastforce
  with assms PhoneCalls orderly_call [OF this] show ?thesis
    by (auto simp: orderly_def split: if_splits)
next
  case PhoneTransmits
  with assms show ?thesis
    by (auto simp: orderly_def orderly_client_def on_link_def link_takes_def split: option.splits list.splits if_splits)
next
  case PhoneReceives
  with assms show ?thesis
    by (auto simp: orderly_def orderly_client_def on_link_def link_delivers_def split: option.splits list.splits if_splits)
next
  case (DeskTurns a i)
  with assms show ?thesis
    by (auto simp: orderly_def desk_turn_Some dest!: actor_step_sends split: actor_input.splits if_splits)
next
  case (DeskReceives a)
  with assms show ?thesis
    by (auto simp: orderly_def desk_turn_Some dest!: actor_step_sends split: list.splits)
next
  case (DeskSwitchesCamera front)
  with assms show ?thesis by (auto simp: orderly_def)
qed

lemma session_reachable_orderly:
  assumes "session_reachable bc js s"
  shows "orderly s"
  using assms by (rule sessions.invariant) (auto intro: orderly_begins orderly_step)

end
