(* ===== verification/Wired.thy ===== *)
theory Wired
  imports Session
begin

text \<open>
  A session over bytes: the phone's C functions and the desktop's connection actor joined by
  the transport's own loops (\<open>writer_loop\<close> and \<open>reader_loop\<close> in
  \<open>rust/phonecam-transport/src/client.rs\<close>), one iteration of a loop per step.

  \<open>Session\<close> has a queue of messages in each direction. Here each direction is the bytes on the
  wire between a writer and a reader, keepalive pings among them, and the bounded channels at
  both ends. Every step of this machine is one of the session's or does nothing there, so that
  what holds of sessions holds of the bytes.
\<close>

section \<open>The state and its steps\<close>

record ('l, 'm, 'w) wired =
  w_phone :: mobile_core
  w_desk :: "('l, 'm, 'w) stream_actor"
  up_wire :: "u8 list"
  desk_inbound :: "message list"
  desk_outbound :: "message list"
  down_wire :: "u8 list"

text \<open>An iteration of \<open>writer_loop\<close> that goes on, and what it adds to the wire.\<close>

definition written :: "bincode \<Rightarrow> writer_event \<Rightarrow> u8 list \<Rightarrow> u8 list option" where
  "written bc ev bytes =
     (case writer_step bc (ev, None) of Inr bs \<Rightarrow> Some (bytes @ bs) | Inl r \<Rightarrow> None)"

text \<open>An iteration of \<open>reader_loop\<close> that goes on: what it forwards, and the bytes left.\<close>

definition received :: "bincode \<Rightarrow> u8 list \<Rightarrow> (message option \<times> u8 list) option" where
  "received bc bytes =
     (case reader_step bc \<lparr>timed_out = False, inbound_open = True\<rparr> (bytes, UnexpectedEof) of
        Inr (d, rest) \<Rightarrow> Some (d, fst rest)
      | Inl r \<Rightarrow> None)"

datatype wired_event =
    Calls mobile_event
  | PhoneWrites
  | PhonePings
  | PhoneReads
  | Turns answers actor_input
  | Takes answers
  | Switches bool
  | DeskWrites
  | DeskPings
  | DeskReads

text \<open>A turn that sends more than the outbound channel has room for waits.\<close>

definition wired_turn ::
  "effect list \<times> ('l, 'm, 'w) output_device flow \<Rightarrow> ('l, 'm, 'w) wired \<Rightarrow> ('l, 'm, 'w) wired option" where
  "wired_turn ef w =
     (case snd ef of
        Continue d \<Rightarrow>
          if length (desk_outbound w @ sent_by (fst ef)) \<le> OUTBOUND_CHANNEL_CAPACITY
          then Some (w\<lparr>w_desk := d, desk_outbound := desk_outbound w @ sent_by (fst ef)\<rparr>)
          else None
      | _ \<Rightarrow> None)"

primrec wired_step ::
  "bincode \<Rightarrow> serde_json \<Rightarrow> wired_event \<Rightarrow> ('l, 'm, 'w) wired \<Rightarrow> ('l, 'm, 'w) wired option" where
  "wired_step bc js (Calls ev) w =
     (if within_connection ev then Some (w\<lparr>w_phone := snd (mobile_step bc js ev (w_phone w))\<rparr>) else None)"
| "wired_step bc js PhoneWrites w =
     (case transport_client (w_phone w) of
        None \<Rightarrow> None
      | Some c \<Rightarrow>
          (case tx_queue (tc_connection c) of
             [] \<Rightarrow> None
           | m # ms \<Rightarrow>
               if tx_open (tc_connection c)
               then map_option (\<lambda>bytes. w\<lparr>w_phone := snd (mobile_step bc js LinkTakes (w_phone w)), up_wire := bytes\<rparr>)
                      (written bc (Outbound (Some m)) (up_wire w))
               else None))"
| "wired_step bc js PhonePings w =
     map_option (\<lambda>bytes. w\<lparr>up_wire := bytes\<rparr>) (written bc KeepaliveTick (up_wire w))"
| "wired_step bc js PhoneReads w =
     (case received bc (down_wire w) of
        None \<Rightarrow> None
      | Some (None, rest) \<Rightarrow> Some (w\<lparr>down_wire := rest\<rparr>)
      | Some (Some m, rest) \<Rightarrow>
          (case transport_client (w_phone w) of
             None \<Rightarrow> None
           | Some c \<Rightarrow>
               if rx_open (tc_connection c) \<and> length (rx_queue (tc_connection c)) < INBOUND_CHANNEL_CAPACITY
               then Some (w\<lparr>w_phone := snd (mobile_step bc js (LinkDelivers m) (w_phone w)), down_wire := rest\<rparr>)
               else None))"
| "wired_step bc js (Turns a i) w =
     (case i of
        PeerMessage m \<Rightarrow> None
      | _ \<Rightarrow> if branch_enabled i (w_desk w) then wired_turn (actor_step a i (w_desk w)) w else None)"
| "wired_step bc js (Takes a) w =
     (case desk_inbound w of
        [] \<Rightarrow> None
      | m # ms \<Rightarrow> wired_turn (actor_step a (PeerMessage (Some m)) (w_desk w)) (w\<lparr>desk_inbound := ms\<rparr>))"
| "wired_step bc js (Switches front) w =
     (if length (desk_outbound w) < OUTBOUND_CHANNEL_CAPACITY
      then Some (w\<lparr>desk_outbound := desk_outbound w @ [Msg_CameraControl (SwitchCamera front)]\<rparr>)
      else None)"
| "wired_step bc js DeskWrites w =
     (case desk_outbound w of
        [] \<Rightarrow> None
      | m # ms \<Rightarrow>
          map_option (\<lambda>bytes. w\<lparr>desk_outbound := ms, down_wire := bytes\<rparr>)
            (written bc (Outbound (Some m)) (down_wire w)))"
| "wired_step bc js DeskPings w =
     map_option (\<lambda>bytes. w\<lparr>down_wire := bytes\<rparr>) (written bc KeepaliveTick (down_wire w))"
| "wired_step bc js DeskReads w =
     (case received bc (up_wire w) of
        None \<Rightarrow> None
      | Some (None, rest) \<Rightarrow> Some (w\<lparr>up_wire := rest\<rparr>)
      | Some (Some m, rest) \<Rightarrow>
          if length (desk_inbound w) < INBOUND_CHANNEL_CAPACITY
          then Some (w\<lparr>up_wire := rest, desk_inbound := desk_inbound w @ [m]\<rparr>) else None)"

definition wired_of :: "('l, 'm, 'w) session \<Rightarrow> ('l, 'm, 'w) wired" where
  "wired_of s = \<lparr>w_phone = phone s, w_desk = desk s, up_wire = [], desk_inbound = to_desk s,
     desk_outbound = to_phone s, down_wire = []\<rparr>"

inductive wired_reachable :: "bincode \<Rightarrow> serde_json \<Rightarrow> ('l, 'm, 'w) wired \<Rightarrow> bool" for bc js where
  wired_begins: "session_begins s \<Longrightarrow> wired_reachable bc js (wired_of s)"
| wired_steps: "wired_reachable bc js w \<Longrightarrow> wired_step bc js ev w = Some w' \<Longrightarrow> wired_reachable bc js w'"

text \<open>Smooth, as in \<open>Session\<close>.\<close>

definition wired_smooth :: "wired_event \<Rightarrow> ('l, 'm, 'w) wired \<Rightarrow> bool" where
  "wired_smooth ev w \<longleftrightarrow>
     (case ev of
        Calls call \<Rightarrow> smooth_report call (transport_client (w_phone w))
      | Turns a i \<Rightarrow> (case i of Tick \<Rightarrow> smooth_tick a (w_desk w) | _ \<Rightarrow> True)
      | Takes a \<Rightarrow> smooth_arrival (desk_inbound w) (w_desk w)
      | _ \<Rightarrow> True)"

inductive wired_smooth_reachable :: "bincode \<Rightarrow> serde_json \<Rightarrow> ('l, 'm, 'w) wired \<Rightarrow> bool" for bc js where
  smooth_wired_begins: "session_begins s \<Longrightarrow> wired_smooth_reachable bc js (wired_of s)"
| smooth_wired_steps: "wired_smooth_reachable bc js w \<Longrightarrow> wired_smooth ev w \<Longrightarrow> wired_step bc js ev w = Some w' \<Longrightarrow>
    \<not> compensating (w_desk w') \<Longrightarrow> wired_smooth_reachable bc js w'"

section \<open>Messages that survive the wire\<close>

definition survives :: "message \<Rightarrow> bool" where
  "survives m \<longleftrightarrow> \<not> is_handshake m \<and> m \<noteq> ping_message"

lemma survives_simps [simp]:
  "survives (Msg_CameraControl c)" "survives (Msg_VideoFrame f)"
  "survives (Msg_StreamConfigurationResult r)" "survives (Msg_VideoCapabilitiesUpdate u)"
  by (simp_all add: survives_def is_handshake_def ping_message_def)

lemma ping_no_handshake [simp]: "\<not> is_handshake ping_message"
  by (simp add: is_handshake_def ping_message_def)

definition queue_survives :: "mobile_core \<Rightarrow> bool" where
  "queue_survives p \<longleftrightarrow>
     (\<forall>c. transport_client p = Some c \<longrightarrow> list_all survives (tx_queue (tc_connection c)))"

lemma enqueued_survives:
  "try_enqueue m c = Some c' \<Longrightarrow> survives m \<Longrightarrow> list_all survives (tx_queue c) \<Longrightarrow> list_all survives (tx_queue c')"
  by (auto simp: try_enqueue_Some)

lemma client_moves_survive:
  assumes "client_moves c c'" "list_all survives (tx_queue (tc_connection c))"
  shows "list_all survives (tx_queue (tc_connection c'))"
  using assms
proof cases
  case (link f)
  then show ?thesis using assms(2)
    by (auto simp: link_takes_def link_delivers_def link_closes_def split: list.splits)
qed (auto intro: enqueued_survives)

lemma phone_step_survives:
  assumes "mobile_step bc js ev p = (v, p')" "queue_survives p"
  shows "queue_survives p'"
  unfolding queue_survives_def
proof safe
  fix c'
  assume "transport_client p' = Some c'"
  from mobile_step_moves [OF assms(1) this] show "list_all survives (tx_queue (tc_connection c'))"
  proof cases
    case (1 c)
    with assms(2) show ?thesis by (auto simp: queue_survives_def intro: client_moves_survive)
  next
    case (2 w peer)
    then show ?thesis by (simp add: fresh_client_def new_connection_def)
  qed
qed

lemma phone_snd_survives: "queue_survives p \<Longrightarrow> queue_survives (snd (mobile_step bc js ev p))"
  using phone_step_survives [of bc js ev p "fst (mobile_step bc js ev p)" "snd (mobile_step bc js ev p)"] by simp

lemma from_desk_survives: "from_desk m \<Longrightarrow> survives m"
  by (auto simp: from_desk_def)

lemma desk_sends_survive: "actor_step a i s = (effs, fl) \<Longrightarrow> list_all survives (sent_by effs)"
  using actor_step_sends from_desk_survives by (metis list.pred_mono_strong)

section \<open>What is on a wire\<close>

text \<open>The messages whose frames the bytes are.\<close>

definition carries :: "bincode \<Rightarrow> u8 list \<Rightarrow> message list \<Rightarrow> bool" where
  "carries bc bytes ms \<longleftrightarrow> send_all (encode_frame bc) ms = Ok bytes \<and> list_all (\<lambda>m. \<not> is_handshake m) ms"

definition payload :: "message list \<Rightarrow> message list" where
  "payload ms = [m \<leftarrow> ms. m \<noteq> ping_message]"

lemma payload_simps [simp]:
  "payload [] = []" "payload (ms @ ns) = payload ms @ payload ns" "payload [ping_message] = []"
  "survives m \<Longrightarrow> payload [m] = [m]"
  by (simp_all add: payload_def survives_def)

lemma send_all_snoc:
  "send_all send ms = Ok bytes \<Longrightarrow> send m = Ok bs \<Longrightarrow> send_all send (ms @ [m]) = Ok (bytes @ bs)"
  by (induction ms arbitrary: bytes) (auto simp: result_eqs)

lemma carries_empty [simp]: "carries bc [] []"
  by (simp add: carries_def)

lemma written_carries:
  assumes "carries bc bytes ms" "written bc ev bytes = Some bytes'" "event_message ev = Some m" "\<not> is_handshake m"
  shows "carries bc bytes' (ms @ [m])"
proof -
  from assms(2,3) obtain bs where "encode_frame bc m = Ok bs" "bytes' = bytes @ bs"
    by (cases ev) (auto simp: written_def write_message_def result_eqs split: result.splits)
  with assms(1,4) show ?thesis by (simp add: carries_def send_all_snoc)
qed

lemma received_carries:
  assumes "bincode_ok bc" "carries bc bytes ms" "received bc bytes = Some (d, rest)"
  shows "\<exists>m ms'. ms = m # ms' \<and> d = forwarded m \<and> carries bc rest ms'"
proof (cases ms)
  case Nil
  with assms show ?thesis
    by (auto simp: carries_def received_def reader_step_cases read_message_empty)
next
  case (Cons m ms')
  with assms(2) obtain b bs' where b: "encode_frame bc m = Ok b" "send_all (encode_frame bc) ms' = Ok bs'"
      "bytes = b @ bs'" "\<not> is_handshake m" "list_all (\<lambda>m. \<not> is_handshake m) ms'"
    by (auto simp: carries_def result_eqs)
  with assms(3) have "d = forwarded m" "rest = bs'"
    by (auto simp: received_def reader_step_message [OF assms(1) b(1)] split: if_splits)
  with Cons b show ?thesis by (simp add: carries_def)
qed

section \<open>The simulation\<close>

definition represents :: "bincode \<Rightarrow> ('l, 'm, 'w) wired \<Rightarrow> ('l, 'm, 'w) session \<Rightarrow> bool" where
  "represents bc w s \<longleftrightarrow>
     phone s = w_phone w \<and> desk s = w_desk w \<and>
     (\<exists>up. carries bc (up_wire w) up \<and> to_desk s = desk_inbound w @ payload up) \<and>
     (\<exists>down. carries bc (down_wire w) down \<and> to_phone s = payload down @ desk_outbound w) \<and>
     queue_survives (w_phone w) \<and> list_all survives (desk_outbound w)"

text \<open>The session's step behind one of the machine, if it has one.\<close>

definition session_event_of :: "bincode \<Rightarrow> wired_event \<Rightarrow> ('l, 'm, 'w) wired \<Rightarrow> session_event option" where
  "session_event_of bc ev w =
     (case ev of
        Calls call \<Rightarrow> Some (PhoneCalls call)
      | PhoneWrites \<Rightarrow> Some PhoneTransmits
      | PhoneReads \<Rightarrow>
          (case received bc (down_wire w) of Some (Some m, rest) \<Rightarrow> Some PhoneReceives | _ \<Rightarrow> None)
      | Turns a i \<Rightarrow> Some (DeskTurns a i)
      | Takes a \<Rightarrow> Some (DeskReceives a)
      | Switches front \<Rightarrow> Some (DeskSwitchesCamera front)
      | _ \<Rightarrow> None)"

definition session_moves ::
  "bincode \<Rightarrow> serde_json \<Rightarrow> session_event option \<Rightarrow> ('l, 'm, 'w) session \<Rightarrow> ('l, 'm, 'w) session \<Rightarrow> bool" where
  "session_moves bc js sev s s' \<longleftrightarrow>
     (case sev of None \<Rightarrow> s' = s | Some e \<Rightarrow> session_step bc js e s = Some s')"

lemma wired_turn_Some:
  "wired_turn ef w = Some w' \<longleftrightarrow>
     (\<exists>effs d. ef = (effs, Continue d) \<and> length (desk_outbound w @ sent_by effs) \<le> OUTBOUND_CHANNEL_CAPACITY \<and>
       w' = w\<lparr>w_desk := d, desk_outbound := desk_outbound w @ sent_by effs\<rparr>)"
  by (cases ef) (auto simp: wired_turn_def split: flow.splits)

lemma represents_turn:
  assumes "represents bc w s" "actor_step a i (w_desk w) = (effs, Continue d)"
  shows "represents bc (w\<lparr>w_desk := d, desk_outbound := desk_outbound w @ sent_by effs\<rparr>)
    (s\<lparr>desk := d, to_phone := to_phone s @ sent_by effs\<rparr>)"
  using assms(1) desk_sends_survive [OF assms(2)] by (auto simp: represents_def)

lemma wired_phone_writes:
  assumes "represents bc w s" "wired_step bc js PhoneWrites w = Some w'"
  shows "\<exists>s'. session_step bc js PhoneTransmits s = Some s' \<and> represents bc w' s'"
proof -
  from assms(2) obtain c m ms bytes where c: "transport_client (w_phone w) = Some c"
      "tx_queue (tc_connection c) = m # ms" "tx_open (tc_connection c)"
      "written bc (Outbound (Some m)) (up_wire w) = Some bytes"
      "w' = w\<lparr>w_phone := snd (mobile_step bc js LinkTakes (w_phone w)), up_wire := bytes\<rparr>"
    by (auto split: option.splits list.splits if_splits)
  from assms(1) obtain up where up: "carries bc (up_wire w) up" "to_desk s = desk_inbound w @ payload up"
    by (auto simp: represents_def)
  have "queue_survives (w_phone w)" using assms(1) by (simp add: represents_def)
  with c(1,2) have m: "survives m" by (auto simp: queue_survives_def)
  have "carries bc bytes (up @ [m])"
    using written_carries [OF up(1) c(4)] m by (simp add: survives_def)
  moreover have "queue_survives (snd (mobile_step bc js LinkTakes (w_phone w)))"
    using phone_snd_survives \<open>queue_survives (w_phone w)\<close> .
  ultimately show ?thesis
    using assms(1) c up(2) m by (fastforce simp: represents_def simp del: mobile_step.simps)
qed

lemma wired_phone_reads:
  assumes "bincode_ok bc" "represents bc w s" "wired_step bc js PhoneReads w = Some w'"
  shows "\<exists>s'. session_moves bc js (session_event_of bc PhoneReads w) s s' \<and> represents bc w' s'"
proof -
  from assms(3) obtain d rest where d: "received bc (down_wire w) = Some (d, rest)"
    by (auto split: option.splits)
  from assms(2) obtain down where down: "carries bc (down_wire w) down" "to_phone s = payload down @ desk_outbound w"
    by (auto simp: represents_def)
  from received_carries [OF assms(1) down(1) d] obtain m ms where m: "down = m # ms" "d = forwarded m" "carries bc rest ms"
    by blast
  show ?thesis
  proof (cases "m = ping_message")
    case True
    with m(2) have "d = None" by (simp add: forwarded_def)
    moreover have "payload down = payload ms" using m(1) True by (simp add: payload_def)
    ultimately show ?thesis
      using assms(2,3) d m(3) down(2) by (auto simp: session_event_of_def session_moves_def represents_def)
  next
    case False
    with m(2) have dm: "d = Some m" by (simp add: forwarded_def)
    with assms(3) d obtain c where c: "transport_client (w_phone w) = Some c" "rx_open (tc_connection c)"
        "length (rx_queue (tc_connection c)) < INBOUND_CHANNEL_CAPACITY"
        "w' = w\<lparr>w_phone := snd (mobile_step bc js (LinkDelivers m) (w_phone w)), down_wire := rest\<rparr>"
      by (auto split: option.splits if_splits simp del: mobile_step.simps)
    have "to_phone s = m # payload ms @ desk_outbound w" using down(2) m(1) False by (simp add: payload_def)
    moreover have "queue_survives (snd (mobile_step bc js (LinkDelivers m) (w_phone w)))"
      using assms(2) by (auto simp: represents_def simp del: mobile_step.simps intro: phone_snd_survives)
    ultimately show ?thesis
      using assms(2) c d dm m(3)
      by (fastforce simp: session_event_of_def session_moves_def represents_def simp del: mobile_step.simps)
  qed
qed

text \<open>A ping adds nothing to what a wire stands for.\<close>

lemma pinged:
  assumes "carries bc bytes ms" "written bc KeepaliveTick bytes = Some bytes'"
  shows "\<exists>ms'. carries bc bytes' ms' \<and> payload ms' = payload ms"
  using written_carries [OF assms, of ping_message] by (auto intro!: exI [of _ "ms @ [ping_message]"])

lemma represents_pings:
  assumes "represents bc w s"
  shows "written bc KeepaliveTick (up_wire w) = Some bytes \<Longrightarrow> represents bc (w\<lparr>up_wire := bytes\<rparr>) s"
    and "written bc KeepaliveTick (down_wire w) = Some bytes \<Longrightarrow> represents bc (w\<lparr>down_wire := bytes\<rparr>) s"
proof -
  from assms obtain up down where wires: "carries bc (up_wire w) up" "to_desk s = desk_inbound w @ payload up"
      "carries bc (down_wire w) down" "to_phone s = payload down @ desk_outbound w"
    by (auto simp: represents_def)
  show "represents bc (w\<lparr>up_wire := bytes\<rparr>) s" if "written bc KeepaliveTick (up_wire w) = Some bytes"
    using pinged [OF wires(1) that] wires(2) assms by (auto simp: represents_def)
  show "represents bc (w\<lparr>down_wire := bytes\<rparr>) s" if "written bc KeepaliveTick (down_wire w) = Some bytes"
    using pinged [OF wires(3) that] wires(4) assms by (auto simp: represents_def)
qed

lemma represents_turns:
  assumes "represents bc w s" "actor_step a i (w_desk w) = (effs, Continue d)"
    and "branch_enabled i (w_desk w)" "\<And>m. i \<noteq> PeerMessage m"
  shows "session_step bc js (DeskTurns a i) s = Some (s\<lparr>desk := d, to_phone := to_phone s @ sent_by effs\<rparr>)"
proof -
  have "desk s = w_desk w" using assms(1) by (simp add: represents_def)
  with assms(2-4) show ?thesis by (cases i) (auto simp: desk_turn_Some)
qed

text \<open>A message taken off the channel, by a desktop in the state of the session.\<close>

lemma represents_takes:
  assumes "represents bc w s" "desk_inbound w = m # ms"
    and "actor_step a (PeerMessage (Some m)) (w_desk w) = (effs, Continue d)"
  shows "\<exists>rest. to_desk s = m # rest \<and>
    session_step bc js (DeskReceives a) s =
      Some (s\<lparr>to_desk := rest, desk := d, to_phone := to_phone s @ sent_by effs\<rparr>) \<and>
    represents bc (w\<lparr>desk_inbound := ms, w_desk := d, desk_outbound := desk_outbound w @ sent_by effs\<rparr>)
      (s\<lparr>to_desk := rest, desk := d, to_phone := to_phone s @ sent_by effs\<rparr>)"
proof -
  from assms(1,2) obtain rest where rest: "to_desk s = m # rest" "desk s = w_desk w"
    and less: "represents bc (w\<lparr>desk_inbound := ms\<rparr>) (s\<lparr>to_desk := rest\<rparr>)"
    by (auto simp: represents_def)
  have "represents bc (w\<lparr>desk_inbound := ms, w_desk := d, desk_outbound := desk_outbound w @ sent_by effs\<rparr>)
      (s\<lparr>to_desk := rest, desk := d, to_phone := to_phone s @ sent_by effs\<rparr>)"
    using represents_turn [OF less, of a "PeerMessage (Some m)" effs d] assms(3) by simp
  with rest assms(3) show ?thesis by (simp add: desk_turn_Some)
qed

lemma wired_turns:
  assumes "represents bc w s" "wired_step bc js (Turns a i) w = Some w'"
  shows "\<exists>s'. session_step bc js (DeskTurns a i) s = Some s' \<and> represents bc w' s'"
proof -
  from assms(2) obtain effs d where step: "actor_step a i (w_desk w) = (effs, Continue d)" "branch_enabled i (w_desk w)"
      "\<And>m. i \<noteq> PeerMessage m" "w' = w\<lparr>w_desk := d, desk_outbound := desk_outbound w @ sent_by effs\<rparr>"
    by (cases i) (auto simp: wired_turn_Some split: if_splits)
  with represents_turns [OF assms(1) step(1-3)] represents_turn [OF assms(1) step(1)] show ?thesis by auto
qed

lemma wired_takes:
  assumes "represents bc w s" "wired_step bc js (Takes a) w = Some w'"
  shows "\<exists>s'. session_step bc js (DeskReceives a) s = Some s' \<and> represents bc w' s'"
proof -
  from assms(2) obtain m ms effs d where step: "desk_inbound w = m # ms"
      "actor_step a (PeerMessage (Some m)) (w_desk w) = (effs, Continue d)"
      "w' = w\<lparr>desk_inbound := ms, w_desk := d, desk_outbound := desk_outbound w @ sent_by effs\<rparr>"
    by (auto simp: wired_turn_Some split: list.splits)
  with represents_takes [OF assms(1) step(1,2)] show ?thesis by blast
qed

lemma wired_desk_writes_message:
  assumes "represents bc w s" "wired_step bc js DeskWrites w = Some w'"
  shows "represents bc w' s"
proof -
  from assms(2) obtain m ms bytes where c: "desk_outbound w = m # ms"
      "written bc (Outbound (Some m)) (down_wire w) = Some bytes" "w' = w\<lparr>desk_outbound := ms, down_wire := bytes\<rparr>"
    by (auto split: list.splits)
  from assms(1) obtain down where down: "carries bc (down_wire w) down" "to_phone s = payload down @ desk_outbound w"
    by (auto simp: represents_def)
  have m: "survives m" using assms(1) c(1) by (simp add: represents_def)
  then have "carries bc bytes (down @ [m])"
    using written_carries [OF down(1) c(2)] by (simp add: survives_def)
  moreover have "to_phone s = payload (down @ [m]) @ ms" using down(2) c(1) m by simp
  ultimately show ?thesis using assms(1) c(1,3) by (auto simp: represents_def)
qed

lemma represents_reads:
  assumes "bincode_ok bc" "represents bc w s" "received bc (up_wire w) = Some (d, rest)"
  shows "represents bc
    (w\<lparr>up_wire := rest, desk_inbound := desk_inbound w @ (case d of None \<Rightarrow> [] | Some m \<Rightarrow> [m])\<rparr>) s"
proof -
  from assms(2) obtain up where up: "carries bc (up_wire w) up" "to_desk s = desk_inbound w @ payload up"
    by (auto simp: represents_def)
  from received_carries [OF assms(1) up(1) assms(3)] obtain m ms where m: "up = m # ms" "d = forwarded m"
      "carries bc rest ms"
    by blast
  have "payload up = (case d of None \<Rightarrow> [] | Some m \<Rightarrow> [m]) @ payload ms"
    using m(1,2) by (simp add: payload_def forwarded_def)
  with assms(2) m(3) up(2) show ?thesis by (auto simp: represents_def)
qed

lemma wired_desk_reads_message:
  assumes "bincode_ok bc" "represents bc w s" "wired_step bc js DeskReads w = Some w'"
  shows "represents bc w' s"
proof -
  from assms(3) obtain d rest where d: "received bc (up_wire w) = Some (d, rest)" by (auto split: option.splits)
  with assms(3) have "w' = w\<lparr>up_wire := rest, desk_inbound := desk_inbound w @ (case d of None \<Rightarrow> [] | Some m \<Rightarrow> [m])\<rparr>"
    by (auto split: option.splits if_splits)
  with represents_reads [OF assms(1,2) d] show ?thesis by simp
qed

lemma wired_step_simulates:
  assumes "bincode_ok bc" "represents bc w s" "wired_step bc js ev w = Some w'"
  shows "\<exists>s'. session_moves bc js (session_event_of bc ev w) s s' \<and> represents bc w' s'"
proof (cases ev)
  case (Calls call)
  with assms(2,3) show ?thesis
    by (auto simp: session_event_of_def session_moves_def represents_def intro: phone_snd_survives split: if_splits)
next
  case PhoneReads
  with assms wired_phone_reads show ?thesis by blast
next
  case (Switches front)
  with assms(2,3) show ?thesis
    by (auto simp: session_event_of_def session_moves_def represents_def split: if_splits)
next
  case PhoneWrites
  with wired_phone_writes [OF assms(2)] assms(3) show ?thesis
    by (simp add: session_event_of_def session_moves_def del: session_step.simps wired_step.simps)
next
  case (Turns a i)
  with wired_turns [OF assms(2)] assms(3) show ?thesis
    by (simp add: session_event_of_def session_moves_def del: session_step.simps wired_step.simps)
next
  case (Takes a)
  with wired_takes [OF assms(2)] assms(3) show ?thesis
    by (simp add: session_event_of_def session_moves_def del: session_step.simps wired_step.simps)
next
  case DeskWrites
  with wired_desk_writes_message [OF assms(2)] assms(3) show ?thesis
    by (simp add: session_event_of_def session_moves_def del: wired_step.simps)
next
  case DeskReads
  with wired_desk_reads_message [OF assms(1,2)] assms(3) show ?thesis
    by (simp add: session_event_of_def session_moves_def del: wired_step.simps)
qed (use assms(3) represents_pings [OF assms(2)] in \<open>auto simp: session_event_of_def session_moves_def\<close>)

lemma wired_of_represents:
  assumes "session_begins s"
  shows "represents bc (wired_of s) s"
  using assms
proof cases
  case (1 p v h worker a dev effs d)
  from 1(4) have "sent_by effs = []"
    by (auto simp: actor_start_def Let_def split: option.splits if_splits prod.splits result.splits)
  with 1(1,2) show ?thesis
    by (auto simp: represents_def wired_of_def queue_survives_def fresh_client_def new_connection_def
        intro: exI [of _ "[]"])
qed

lemma smooth_event_of:
  assumes "wired_smooth ev w" "represents bc w s" "wired_step bc js ev w = Some w'" "session_event_of bc ev w = Some e"
  shows "smooth e s"
  using assms
  by (cases ev)
    (auto simp: wired_smooth_def session_event_of_def smooth_def represents_def smooth_arrival_def
      split: option.splits list.splits prod.splits actor_input.splits)

section \<open>The machines over bytes as simulations\<close>

definition wired_starts :: "bincode \<Rightarrow> ('l, 'm, 'w) wired \<Rightarrow> bool" where
  "wired_starts bc w \<longleftrightarrow> bincode_ok bc \<and> (\<exists>s. session_begins s \<and> w = wired_of s)"

definition wired_moves :: "bincode \<Rightarrow> serde_json \<Rightarrow> ('l, 'm, 'w) wired \<Rightarrow> ('l, 'm, 'w) wired \<Rightarrow> bool" where
  "wired_moves bc js w w' \<longleftrightarrow> (\<exists>ev. wired_step bc js ev w = Some w')"

definition wired_smooth_moves ::
  "bincode \<Rightarrow> serde_json \<Rightarrow> ('l, 'm, 'w) wired \<Rightarrow> ('l, 'm, 'w) wired \<Rightarrow> bool" where
  "wired_smooth_moves bc js w w' \<longleftrightarrow>
     (\<exists>ev. wired_smooth ev w \<and> wired_step bc js ev w = Some w') \<and> \<not> compensating (w_desk w')"

lemma wired_reaches:
  "bincode_ok bc \<and> wired_reachable bc js w \<longleftrightarrow> reaches (wired_starts bc) (wired_moves bc js) w"
proof
  assume ok: "bincode_ok bc \<and> wired_reachable bc js w"
  then have "wired_reachable bc js w" ..
  then show "reaches (wired_starts bc) (wired_moves bc js) w"
    by (induction rule: wired_reachable.induct)
      (use ok in \<open>auto simp: wired_starts_def wired_moves_def intro: reaches.intros\<close>)
next
  show "reaches (wired_starts bc) (wired_moves bc js) w \<Longrightarrow> bincode_ok bc \<and> wired_reachable bc js w"
    by (induction rule: reaches.induct) (auto simp: wired_starts_def wired_moves_def intro: wired_reachable.intros)
qed

lemma wired_smooth_reaches:
  "bincode_ok bc \<and> wired_smooth_reachable bc js w \<longleftrightarrow> reaches (wired_starts bc) (wired_smooth_moves bc js) w"
proof
  assume ok: "bincode_ok bc \<and> wired_smooth_reachable bc js w"
  then have "wired_smooth_reachable bc js w" ..
  then show "reaches (wired_starts bc) (wired_smooth_moves bc js) w"
    by (induction rule: wired_smooth_reachable.induct)
      (use ok in \<open>auto simp: wired_starts_def wired_smooth_moves_def intro: reaches.intros\<close>)
next
  show "reaches (wired_starts bc) (wired_smooth_moves bc js) w \<Longrightarrow> bincode_ok bc \<and> wired_smooth_reachable bc js w"
    by (induction rule: reaches.induct)
      (auto simp: wired_starts_def wired_smooth_moves_def intro: wired_smooth_reachable.intros)
qed

lemma wired_moves_session:
  assumes "bincode_ok bc" "represents bc w s" "wired_moves bc js w w'"
  shows "\<exists>s'. (\<lambda>s s'. \<exists>ev. session_step bc js ev s = Some s')\<^sup>=\<^sup>= s s' \<and> represents bc w' s'"
proof -
  from assms(3) obtain ev where "wired_step bc js ev w = Some w'" by (auto simp: wired_moves_def)
  from wired_step_simulates [OF assms(1,2) this] show ?thesis
    by (cases "session_event_of bc ev w") (auto simp: session_moves_def)
qed

lemma wired_moves_smoothly:
  assumes "bincode_ok bc" "represents bc w s" "wired_smooth_moves bc js w w'"
  shows "\<exists>s'. (smooth_moves bc js)\<^sup>=\<^sup>= s s' \<and> represents bc w' s'"
proof -
  from assms(3) obtain ev where ev: "wired_smooth ev w" "wired_step bc js ev w = Some w'" "\<not> compensating (w_desk w')"
    by (auto simp: wired_smooth_moves_def)
  from wired_step_simulates [OF assms(1,2) ev(2)] obtain s' where
      s': "session_moves bc js (session_event_of bc ev w) s s'" "represents bc w' s'" by blast
  with ev(3) have "\<not> compensating (desk s')" by (simp add: represents_def)
  with s' smooth_event_of [OF ev(1) assms(2) ev(2)] show ?thesis
    by (cases "session_event_of bc ev w") (auto simp: session_moves_def smooth_moves_def)
qed

interpretation wires: simulates
  "wired_starts bc" "wired_moves bc js" "\<lambda>w. bincode_ok bc \<and> wired_reachable bc js w"
  session_begins "\<lambda>s s'. \<exists>ev. session_step bc js ev s = Some s'" "session_reachable bc js"
  "represents bc" for bc js
  by unfold_locales
    (auto simp: wired_starts_def wired_reaches [symmetric] intro: wired_of_represents dest: wired_moves_session)

interpretation smooth_wires: simulates
  "wired_starts bc" "wired_smooth_moves bc js" "\<lambda>w. bincode_ok bc \<and> wired_smooth_reachable bc js w"
  session_begins "smooth_moves bc js" "smooth_reachable bc js"
  "represents bc" for bc js
  by unfold_locales
    (auto simp: wired_starts_def wired_smooth_reaches [symmetric] intro: wired_of_represents
      dest: wired_moves_smoothly)

interpretation smooth_among_wires: refinement_map
  "wired_starts bc" "wired_smooth_moves bc js" "\<lambda>w. bincode_ok bc \<and> wired_smooth_reachable bc js w"
  "wired_starts bc" "wired_moves bc js" "\<lambda>w. bincode_ok bc \<and> wired_reachable bc js w" "\<lambda>w. w" for bc js
  by unfold_locales (auto simp: wired_smooth_moves_def wired_moves_def)

end
