(* ===== verification/Stream_Claims.thy ===== *)
theory Stream_Claims
  imports Stream_Properties
begin

text \<open>
  The properties of the connection actor with a sample run: a Linux output that cannot do 60
  frames per second, a phone that offers three profiles, and two commands.
\<close>

section \<open>A sample run\<close>

definition good :: answers where
  "good = \<lparr>now = 0, send_ok = True, reset_answer = None, queue_has_room = True\<rparr>"

definition later :: "nat \<Rightarrow> answers" where
  "later t = good\<lparr>now := t\<rparr>"

definition sample_profiles :: "stream_profile list" where
  "sample_profiles = [H264_720P30, HEVC_720P30, H264_1080P60]"

definition sample_peer :: handshake where
  "sample_peer = \<lparr>version = PROTOCOL_VERSION, device_name = lit ''Pixel'',
     supported_profiles = sample_profiles, active_profile = Some H264_720P30\<rparr>"

definition sample_device :: "(v4l2_world, unit, unit) output_device" where
  "sample_device = LinuxDevice sample_v4l2 sample_linux_output"

definition sample_state :: "(v4l2_world, unit, unit) stream_actor" where
  "sample_state =
     \<lparr>out_dev = LinuxDevice sample_v4l2 sample_linux_committed, local_profiles = sample_profiles,
      peer_profiles = sample_profiles, common = sample_profiles, active = H264_720P30,
      request_counter = 0, pending = None, keyframe_request_in_flight = False\<rparr>"

definition command_for :: "stream_profile \<Rightarrow> codec_preference \<Rightarrow> reply_token \<Rightarrow> pipeline_command" where
  "command_for p pref t = \<lparr>cmd_width = width p, cmd_height = height p, cmd_fps = fps p,
     cmd_preference = pref, cmd_reply = t\<rparr>"

definition waiting_for :: "u32 \<Rightarrow> stream_profile \<Rightarrow> reply_token \<Rightarrow> (v4l2_world, unit, unit) stream_actor" where
  "waiting_for rid p t = sample_state\<lparr>request_counter := rid,
     pending := Some \<lparr>pc_request_id = rid, pc_requested = p, pc_deadline = 5000,
                      pc_kind = Configure H264_720P30 (Some t)\<rparr>\<rparr>"

definition configuration_result :: "u32 \<Rightarrow> stream_configuration_outcome \<Rightarrow> actor_input" where
  "configuration_result rid out =
     PeerMessage (Some (Msg_StreamConfigurationResult \<lparr>request_id = rid, outcome = out\<rparr>))"

definition undoing :: "(v4l2_world, unit, unit) stream_actor" where
  "undoing = sample_state\<lparr>out_dev := LinuxDevice sample_v4l2 sample_linux_failed, request_counter := 2,
     pending := Some \<lparr>pc_request_id = 2, pc_requested = H264_720P30, pc_deadline = 5000,
       pc_kind = Compensation H264_720P30
         (AppliedCommit (OutputFailed (CommitFailed (InvalidFormat (DriverReturnedInterval (1, 30) 60)))))
         (Some 8)\<rparr>\<rparr>"

lemma sample_common: "common_profiles sample_profiles sample_profiles = sample_profiles"
  by (simp add: common_profiles_def)

lemma sample_actor_start:
  "actor_start (Ok ()) good sample_peer sample_device sample_profiles =
     ([ResetDecoder H264 True, publish sample_state], Continue sample_state)"
  using sample_linux_commits(1)
  by (simp add: actor_start_def sample_peer_def sample_device_def sample_common good_def
      sample_state_def Let_def) (simp add: sample_profiles_def H264_720P30_def)

lemma sample_actor_start_reachable: "actor_reachable [] [ResetDecoder H264 True, publish sample_state] sample_state"
  by (rule actor_reachable.start [OF sample_actor_start])

lemma sample_preflight:
  "linux_preflight sample_v4l2 sample_linux_committed p = Ok ()" if "p \<in> set sample_profiles"
  using that
  by (auto simp: sample_profiles_def HEVC_720P30_def sample_linux_simps)

lemma sample_command:
  "actor_step good (Command (Some (command_for HEVC_720P30 PreferAuto 7))) sample_state =
     ([Send (configure_message 1 HEVC_720P30)], Continue (waiting_for 1 HEVC_720P30 7))"
  "actor_step good (Command (Some (command_for H264_1080P60 PreferAuto 8))) sample_state =
     ([Send (configure_message 1 H264_1080P60)], Continue (waiting_for 1 H264_1080P60 8))"
proof -
  have resolved: "resolve_profile sample_profiles (width HEVC_720P30) (height HEVC_720P30) (fps HEVC_720P30) PreferAuto =
      Ok HEVC_720P30"
    "resolve_profile sample_profiles (width H264_1080P60) (height H264_1080P60) (fps H264_1080P60) PreferAuto =
      Ok H264_1080P60"
    by code_simp+
  have mem: "HEVC_720P30 \<in> set sample_profiles" "H264_1080P60 \<in> set sample_profiles"
    by (simp_all add: sample_profiles_def)
  have differ: "HEVC_720P30 \<noteq> H264_720P30" "H264_1080P60 \<noteq> H264_720P30"
    by (simp_all add: HEVC_720P30_def H264_720P30_def H264_1080P60_def)
  show "actor_step good (Command (Some (command_for HEVC_720P30 PreferAuto 7))) sample_state =
     ([Send (configure_message 1 HEVC_720P30)], Continue (waiting_for 1 HEVC_720P30 7))"
    "actor_step good (Command (Some (command_for H264_1080P60 PreferAuto 8))) sample_state =
     ([Send (configure_message 1 H264_1080P60)], Continue (waiting_for 1 H264_1080P60 8))"
    using resolved sample_preflight [OF mem(1)] sample_preflight [OF mem(2)] differ
    by (simp_all add: actor_step_def on_command_def command_for_def sample_state_def
        request_configuration_def good_def next_request_id_def waiting_for_def CONFIGURATION_TIMEOUT_def)
qed

definition switched :: "(v4l2_world, unit, unit) stream_actor" where
  "switched = sample_state\<lparr>out_dev := LinuxDevice sample_v4l2
       (sample_linux_committed\<lparr>lo_committed := Some HEVC_720P30\<rparr>),
     active := HEVC_720P30, request_counter := 1\<rparr>"

lemma sample_commit_hevc:
  "linux_commit sample_v4l2 sample_linux_committed HEVC_720P30 =
     (Ok (), sample_linux_committed\<lparr>lo_committed := Some HEVC_720P30\<rparr>)"
  by (simp add: sample_linux_simps sample_linux_committed_def HEVC_720P30_def)

lemma sample_applied:
  "actor_step good (configuration_result 1 (Applied HEVC_720P30)) (waiting_for 1 HEVC_720P30 7) =
     ([ResetDecoder Hevc True, publish switched, Reply 7 (Ok HEVC_720P30)], Continue switched)"
proof -
  have "accepts_applied_profile sample_profiles HEVC_720P30 HEVC_720P30"
    by (simp add: accepts_applied_profile_iff same_picture_def sample_profiles_def)
  moreover have "codec HEVC_720P30 = Hevc" by (simp add: HEVC_720P30_def)
  ultimately show ?thesis
    using sample_commit_hevc
    by (simp add: actor_step_def on_message_def configuration_result_def on_configuration_result_def
        waiting_for_def on_configure_result_def sample_state_def commit_and_reset_def good_def
        adopt_def switched_def Let_def)
qed

lemma sample_failed_commit:
  "actor_step good (configuration_result 1 (Applied H264_1080P60)) (waiting_for 1 H264_1080P60 8) =
     ([Send (configure_message 2 H264_720P30)], Continue undoing)"
proof -
  have "accepts_applied_profile sample_profiles H264_1080P60 H264_1080P60"
    by (simp add: accepts_applied_profile_iff same_picture_def sample_profiles_def)
  then show ?thesis
    using sample_linux_commits(2)
    by (simp add: actor_step_def on_message_def configuration_result_def on_configuration_result_def
        waiting_for_def on_configure_result_def sample_state_def commit_and_reset_def good_def
        request_configuration_def next_request_id_def CONFIGURATION_TIMEOUT_def undoing_def Let_def)
qed

lemma waiting_reachable:
  "actor_reachable [Command (Some (command_for HEVC_720P30 PreferAuto 7))]
     [ResetDecoder H264 True, publish sample_state, Send (configure_message 1 HEVC_720P30)]
     (waiting_for 1 HEVC_720P30 7)"
  "actor_reachable [Command (Some (command_for H264_1080P60 PreferAuto 8))]
     [ResetDecoder H264 True, publish sample_state, Send (configure_message 1 H264_1080P60)]
     (waiting_for 1 H264_1080P60 8)"
  using actor_reachable.step [OF sample_actor_start_reachable _ sample_command(1)]
    actor_reachable.step [OF sample_actor_start_reachable _ sample_command(2)]
  by (simp_all add: branch_enabled_def sample_state_def)

lemma switched_reachable:
  "actor_reachable
     [Command (Some (command_for HEVC_720P30 PreferAuto 7)), configuration_result 1 (Applied HEVC_720P30)]
     [ResetDecoder H264 True, publish sample_state, Send (configure_message 1 HEVC_720P30),
      ResetDecoder Hevc True, publish switched, Reply 7 (Ok HEVC_720P30)] switched"
  using actor_reachable.step [OF waiting_reachable(1) _ sample_applied]
  by (simp add: branch_enabled_def configuration_result_def)

section \<open>Runs\<close>

text \<open>Several turns of the loop in a row, up to the one that ends the actor.\<close>

fun actor_run ::
  "(answers \<times> actor_input) list \<Rightarrow> ('l, 'm, 'w) stream_actor \<Rightarrow>
   effect list \<times> ('l, 'm, 'w) output_device flow" where
  "actor_run [] s = ([], Continue s)"
| "actor_run ((a, i) # rest) s =
     (case actor_step a i s of
        (effs, Continue s1) \<Rightarrow> (case actor_run rest s1 of (effs', fl) \<Rightarrow> (effs @ effs', fl))
      | (effs, fl) \<Rightarrow> (effs, fl))"

definition shows_profile :: "video_frame \<Rightarrow> stream_profile \<Rightarrow> bool" where
  "shows_profile f p \<longleftrightarrow> vf_codec f = codec p \<and> vf_width f = width p \<and> vf_height f = height p"

text \<open>What the phone sends after it applied \<open>p\<close>, and the ticks in between.\<close>

definition phone_stream_of :: "stream_profile \<Rightarrow> actor_input \<Rightarrow> bool" where
  "phone_stream_of p i \<longleftrightarrow>
     i = Tick \<or> (\<exists>f. i = PeerMessage (Some (Msg_VideoFrame f)) \<and> shows_profile f p)"

definition same_encoding :: "stream_profile \<Rightarrow> stream_profile \<Rightarrow> bool" where
  "same_encoding p q \<longleftrightarrow> codec p = codec q \<and> width p = width q \<and> height p = height q"

lemma foreign_stream_ignored:
  assumes "pending s = None" "\<not> same_encoding p (active s)" "list_all (\<lambda>(a, i). phone_stream_of p i) turns"
  shows "actor_run turns s = ([], Continue s)"
  using assms(3)
proof (induction turns)
  case (Cons turn turns)
  obtain a i where turn: "turn = (a, i)" by fastforce
  with Cons.prems have "phone_stream_of p i" by simp
  then have "actor_step a i s = ([], Continue s)"
    using assms(1,2)
    by (auto simp: phone_stream_of_def actor_step_def on_tick_def on_message_def on_video_frame_def
        shows_profile_def same_encoding_def)
  with Cons turn show ?case by simp
qed simp

section \<open>Properties\<close>

text \<open>
  C1. At every turn of the actor's loop the active profile is a valid profile both sides offer, and
  the output device has exactly its format unless a failed change is being undone. A pending
  request carries the current, non-zero request number; a pending change asks for another
  profile than the active one, and an undo for the active one.
\<close>

theorem actor_keeps_output_and_profile_in_step:
  fixes s :: "('l, 'm, 'w) stream_actor"
  assumes "actor_reachable ins effs s"
  shows "active s \<in> set (local_profiles s) \<inter> set (peer_profiles s) \<and> well_formed_profile (active s) \<and>
    (case pending s of
       None \<Rightarrow> output_format (out_dev s) =
         Some (native_format_of (output_pixel_format (out_dev s)) (active s))
     | Some cur \<Rightarrow> pc_request_id cur = request_counter s \<and> request_counter s \<noteq> 0 \<and>
         (case pc_kind cur of
            Configure prior rep \<Rightarrow> prior = active s \<and> pc_requested cur \<noteq> active s \<and>
              output_format (out_dev s) =
                Some (native_format_of (output_pixel_format (out_dev s)) (active s))
          | Compensation prior e rep \<Rightarrow> prior = active s \<and> pc_requested cur = active s))"
  using reachable_inv [OF assms]
  by (auto simp: actor_inv_def in_format_def split: option.splits pending_kind.splits)

theorem actor_keeps_output_and_profile_in_step_witness:
  "output_format (out_dev switched) = Some (native_format_of Yuyv HEVC_720P30)"
  using actor_keeps_output_and_profile_in_step [OF switched_reachable]
  by (simp add: switched_def sample_state_def)

text \<open>
  C8. The decoder always stands at the codec of the active profile, and every frame the actor
  submits to it, accepted or refused by its queue, has the codec of the decoder's last
  successful reset: no frame of one codec ever reaches a decoder of the other.
\<close>

theorem decoder_follows_active_profile:
  fixes s :: "('l, 'm, 'w) stream_actor"
  assumes "actor_reachable ins effs s"
  shows "decoder_codec effs None = Some (codec (active s)) \<and> submits_follow_resets effs None"
  by (rule reachable_codec [OF assms])

theorem decoder_follows_active_profile_witness:
  "decoder_codec [ResetDecoder H264 True, publish sample_state, Send (configure_message 1 HEVC_720P30),
      ResetDecoder Hevc True, publish switched, Reply 7 (Ok HEVC_720P30)] None = Some Hevc"
  using decoder_follows_active_profile [OF switched_reachable] by (simp add: switched_def HEVC_720P30_def)

text \<open>
  The status last published is the truth whenever no change is being undone: connected, with
  the profiles both sides offer now, the active profile, and the output format of exactly
  that profile.
\<close>

theorem published_status_is_current:
  fixes s :: "('l, 'm, 'w) stream_actor"
  assumes "actor_reachable ins effs s" "\<not> compensating s"
  shows "last_status effs None =
    Some (status_connected (common_profiles (local_profiles s) (peer_profiles s)) (active s)
      (Some (native_format_of (output_pixel_format (out_dev s)) (active s))))"
  using reachable_status [OF assms] reachable_inv [OF assms(1)]
  by (simp add: truthful_status_def actor_inv_def)

theorem published_status_is_current_witness:
  "last_status [ResetDecoder H264 True, publish sample_state, Send (configure_message 1 HEVC_720P30),
      ResetDecoder Hevc True, publish switched, Reply 7 (Ok HEVC_720P30)] None =
    Some (status_connected sample_profiles HEVC_720P30 (Some (native_format_of Yuyv HEVC_720P30)))"
  using published_status_is_current [OF switched_reachable]
  by (simp add: compensating_def switched_def sample_state_def sample_common)

text \<open>
  C15. Every command is answered exactly once: at every turn of the loop the answers given, counted
  with multiplicity, are those of the commands received except the one that may be pending.
\<close>

theorem commands_answered_exactly_once:
  fixes s :: "('l, 'm, 'w) stream_actor"
  assumes "actor_reachable ins effs s"
  shows "mset (map fst (replies effs)) +
      (case pending_reply s of None \<Rightarrow> {#} | Some t \<Rightarrow> {#t#}) =
    mset (map cmd_reply (commands ins))"
  using reachable_replies [OF assms] by (simp add: tokens_replied_def outstanding_def)

theorem commands_answered_exactly_once_witness:
  "mset (map fst (replies [ResetDecoder H264 True, publish sample_state,
      Send (configure_message 1 H264_1080P60)])) + {#8#} = {#8#}"
  using commands_answered_exactly_once [OF waiting_reachable(2)]
  by (simp add: pending_reply_def waiting_for_def command_for_def)

text \<open>
  C14. An \<open>Ok(profile)\<close> answer is a promise kept: when the actor gives it, the profile is active,
  committed to the output and offered by both sides, nothing is pending, the actor goes on,
  and the command so answered asked for exactly this size and rate.
\<close>

theorem ok_answer_is_in_effect:
  fixes s :: "('l, 'm, 'w) stream_actor"
  assumes "actor_reachable ins effs s" "branch_enabled i s" "actor_step a i s = (effs', fl)"
    and "Reply t (Ok p) \<in> set effs'"
  shows "\<exists>s'. fl = Continue s' \<and> active s' = p \<and> pending s' = None \<and>
    output_format (out_dev s') = Some (native_format_of (output_pixel_format (out_dev s')) p) \<and>
    p \<in> set (local_profiles s') \<and> p \<in> set (peer_profiles s') \<and>
    (\<exists>c \<in> set (commands (ins @ [i])). cmd_reply c = t \<and> width p = cmd_width c \<and>
       height p = cmd_height c \<and> fps p = cmd_fps c)"
  using actor_step_Ok_reply [OF assms(3,2) reachable_inv [OF assms(1)]
      reachable_pending_matches [OF assms(1)] assms(4)]
  by (auto simp: in_format_def)

theorem ok_answer_is_in_effect_witness:
  "active switched = HEVC_720P30 \<and> pending switched = None"
  using ok_answer_is_in_effect [OF waiting_reachable(1) _ sample_applied, of 7 HEVC_720P30]
  by (simp add: branch_enabled_def configuration_result_def)

text \<open>
  C18. The actor refines the negotiation: whatever arrives, a turn of the loop either leaves the
  negotiation as it is or makes one of its moves, so a change is only ever to a profile both
  sides offer, with the size and rate that were requested, and an undo ends at the profile
  that was active before.
\<close>

theorem actor_refines_negotiation:
  fixes s :: "('l, 'm, 'w) stream_actor"
  assumes "actor_reachable ins effs s" "branch_enabled i s" "actor_step a i s = (effs', Continue s')"
  shows "negotiation_of s' = negotiation_of s \<or>
    negotiates (set (common_profiles (local_profiles s) (peer_profiles s)))
      (negotiation_of s) (negotiation_of s')"
  using actor_step_refines [OF assms(3,2)] reachable_inv [OF assms(1)]
  by (simp add: actor_inv_def)

theorem actor_refines_negotiation_witness:
  "negotiates (set sample_profiles) (Negotiating H264_720P30 H264_1080P60 1) (Restoring H264_720P30 2)"
  using actor_refines_negotiation [OF waiting_reachable(2) _ sample_failed_commit]
  by (simp add: branch_enabled_def configuration_result_def negotiation_of_def waiting_for_def
      undoing_def sample_state_def sample_common)

text \<open>
  A profile the phone applies after its request has timed out is lost for good: the result is
  ignored without an answer to the phone, and from then on every frame the phone sends in
  that profile is dropped in silence, for as long as the phone goes on.
\<close>

theorem late_result_freezes_the_picture:
  fixes s :: "('l, 'm, 'w) stream_actor"
  assumes "pending s = None" "rid \<noteq> 0" "\<not> same_encoding p (active s)"
    and "list_all (\<lambda>(a, i). phone_stream_of p i) turns"
  shows "actor_run ((a, configuration_result rid (Applied p)) # turns) s = ([], Continue s)"
proof -
  have "actor_step a (configuration_result rid (Applied p)) s = ([], Continue s)"
    using assms(1,2)
    by (simp add: configuration_result_def actor_step_def on_message_def on_configuration_result_def)
  with foreign_stream_ignored [OF assms(1,3,4)] show ?thesis by simp
qed

definition hevc_frame_of :: "u64 \<Rightarrow> video_frame" where
  "hevc_frame_of pts = \<lparr>vf_data = [], pts_us = pts, vf_codec = Hevc, vf_width = 1280, vf_height = 720,
     is_keyframe = True\<rparr>"

theorem late_result_freezes_the_picture_witness:
  "actor_run [(later 5000, Tick), (later 5001, configuration_result 1 (Applied HEVC_720P30)),
      (good, PeerMessage (Some (Msg_VideoFrame (hevc_frame_of 1))))] (waiting_for 1 HEVC_720P30 7) =
    ([Reply 7 (Err ConfigurationTimedOut)], Continue (sample_state\<lparr>request_counter := 1\<rparr>))"
proof -
  have "actor_step (later 5000) Tick (waiting_for 1 HEVC_720P30 7) =
      ([Reply 7 (Err ConfigurationTimedOut)], Continue (sample_state\<lparr>request_counter := 1\<rparr>))"
    by (simp add: actor_step_def on_tick_def waiting_for_def later_def good_def sample_state_def)
  moreover have "actor_run [(later 5001, configuration_result 1 (Applied HEVC_720P30)),
      (good, PeerMessage (Some (Msg_VideoFrame (hevc_frame_of 1))))] (sample_state\<lparr>request_counter := 1\<rparr>) =
    ([], Continue (sample_state\<lparr>request_counter := 1\<rparr>))"
    by (rule late_result_freezes_the_picture)
      (simp_all add: sample_state_def same_encoding_def HEVC_720P30_def H264_720P30_def phone_stream_of_def
        shows_profile_def hevc_frame_of_def)
  ultimately show ?thesis by simp
qed

end
