(* ===== verification/Mobile_Claims.thy ===== *)
theory Mobile_Claims
  imports Mobile_Invariants
begin

text \<open>
  What the phone's C functions guarantee, with a connected phone as the running example.
\<close>

section \<open>A connected phone\<close>

definition sample_config :: video_config where
  "sample_config =
     \<lparr>vc_active_profile = H264_720P30, vc_supported_profiles = [H264_720P30, HEVC_720P30]\<rparr>"

definition sample_peer :: handshake where
  "sample_peer =
     \<lparr>version = 2, device_name = lit ''desktop'', supported_profiles = [HEVC_720P30, H264_720P30],
      active_profile = None\<rparr>"

definition sample_codec :: bincode where
  "sample_codec = table_bincode [(mobile_handshake sample_config, [1]), (sample_peer, [2])] []"

definition sample_json :: serde_json where
  "sample_json = \<lparr>parse_video_config = (\<lambda>_. Some sample_config),
     parse_profile_list = (\<lambda>_. Some [H264_720P30]), render_json = (\<lambda>_. Some (lit ''{}''))\<rparr>"

definition sample_dial :: dial where
  "sample_dial = \<lparr>runtime_built = True, connect_elapsed = False,
     dial_sock = (\<lambda>_. \<lparr>resolved = Inr [([10, 0, 0, 2], 7878)], tcp_fault = None, nodelay_fault = None\<rparr>),
     dial_net = quiet_net [0, 0, 0, 2, 1, 2] UnexpectedEof\<rparr>"

abbreviation sample_call :: "mobile_event \<Rightarrow> mobile_core \<Rightarrow> ffi_value \<times> mobile_core" where
  "sample_call \<equiv> mobile_step sample_codec sample_json"

definition sample_client :: transport_client where
  "sample_client = fresh_client (mobile_handshake sample_config) sample_peer H264_720P30"

definition sample_connected :: mobile_core where
  "sample_connected = \<lparr>last_frame = None,
     core_config = \<lparr>endpoint_host = lit ''10.0.0.2'', endpoint_port = 7878, streaming_enabled = True\<rparr>,
     transport_client = Some sample_client\<rparr>"

lemma sample_codec_ok: "bincode_ok sample_codec"
  unfolding sample_codec_def by (rule table_bincode_ok) simp_all

lemma sample_profiles_ok:
  "well_formed_profile H264_720P30" "well_formed_profile HEVC_720P30" "H264_720P30 \<noteq> HEVC_720P30"
  by (simp_all add: well_formed_profile_def H264_720P30_def HEVC_720P30_def SUPPORTED_DIMENSIONS_def
      SUPPORTED_FRAME_RATES_def)

lemma sample_handshakes:
  "well_formed_handshake (mobile_handshake sample_config)" "well_formed_handshake sample_peer"
  "common_active (mobile_handshake sample_config) sample_peer"
  using sample_profiles_ok
  by (auto simp: well_formed_handshake_def mobile_handshake_def sample_config_def sample_peer_def
      PROTOCOL_VERSION_def well_formed_profiles_def common_active_def)

lemma sample_hello_frames:
  "encode_frame sample_codec (Msg_Handshake (mobile_handshake sample_config)) = Ok [0, 0, 0, 2, 1, 1]"
  "encode_frame sample_codec (Msg_Handshake sample_peer) = Ok [0, 0, 0, 2, 1, 2]"
proof -
  have "mobile_handshake sample_config \<noteq> sample_peer"
    by (simp add: mobile_handshake_def sample_peer_def)
  then show "encode_frame sample_codec (Msg_Handshake (mobile_handshake sample_config)) = Ok [0, 0, 0, 2, 1, 1]"
    "encode_frame sample_codec (Msg_Handshake sample_peer) = Ok [0, 0, 0, 2, 1, 2]"
    by (simp_all add: encode_frame_def sample_codec_def table_bincode_def table_serde_def
        encode_payload_def u32_try_from_usize_def frame_constants checked_add_usize_def
        to_be_bytes_def to_le_bytes_def upt_rec)
qed

lemma sample_connect:
  "fst (connect sample_codec (dial_sock sample_dial str) (dial_net sample_dial)
     (mobile_handshake sample_config)) = Ok (sample_peer, ([], UnexpectedEof))"
proof -
  have "read_message sample_codec ([0, 0, 0, 2, 1, 2] @ [], UnexpectedEof) =
      Ok (Msg_Handshake sample_peer, ([], UnexpectedEof))"
    by (rule read_message_encoded [OF sample_codec_ok sample_hello_frames(2)])
  then have "build_connection sample_codec (dial_net sample_dial) (mobile_handshake sample_config) =
      Ok (sample_peer, ([], UnexpectedEof))"
    using sample_hello_frames(1) sample_handshakes
    by (simp add: build_connection_Ok exchange_handshakes_Ok sample_dial_def quiet_net_def)
  moreover have "handshake_validate (mobile_handshake sample_config) = Ok ()"
    using sample_handshakes(1) by (simp add: protocol_checks)
  ultimately show ?thesis
    by (simp add: connect_def sample_dial_def first_address_def io_call_def Let_def)
qed

lemma sample_init:
  "sample_call (TransportInit sample_dial (CStr (lit ''10.0.0.2'')) 7878 (CStr [])) boot =
     (Flag True, sample_connected)"
proof -
  have "trim (lit ''10.0.0.2'') = lit ''10.0.0.2''"
    by (simp add: trim_def trim_start_def is_whitespace_def)
  with sample_connect sample_handshakes(1) show ?thesis
    by (simp add: phonecam_transport_init_def initialize_transport_client_def sample_json_def
        video_config_validate_def sample_dial_def Let_def boot_def sample_connected_def
        configure_endpoint_def set_streaming_enabled_def core_config_default_def sample_client_def
        fresh_client_def mobile_handshake_def sample_config_def)
qed

lemma sample_connected_reachable: "mobile_reachable sample_codec sample_json sample_connected"
  by (rule mobile_reachable.called [OF mobile_reachable.booted sample_init])

definition sample_asked :: transport_client where
  "sample_asked = sample_client\<lparr>tc_connection := (tc_connection sample_client)
     \<lparr>rx_queue := [Msg_StatusUpdate \<lparr>status = []\<rparr>, Msg_CameraControl (ConfigureStream 7 HEVC_720P30)]\<rparr>\<rparr>"

definition sample_polled :: transport_client where
  "sample_polled = sample_client\<lparr>tc_connection := (tc_connection sample_client)
     \<lparr>rx_taken := [Msg_StatusUpdate \<lparr>status = []\<rparr>, Msg_CameraControl (ConfigureStream 7 HEVC_720P30)]\<rparr>,
      tc_pending := Some (7, HEVC_720P30)\<rparr>"

definition sample_reported :: transport_client where
  "sample_reported = sample_polled\<lparr>tc_connection := (tc_connection sample_polled)
     \<lparr>tx_queue := [Msg_StreamConfigurationResult \<lparr>request_id = 7, outcome = Applied HEVC_720P30\<rparr>]\<rparr>,
      tc_active := HEVC_720P30, tc_pending := None\<rparr>"

lemmas sample_clients = sample_client_def sample_asked_def sample_polled_def sample_reported_def
  fresh_client_def new_connection_def

lemma sample_deliveries:
  "sample_call (LinkDelivers (Msg_StatusUpdate \<lparr>status = []\<rparr>)) sample_connected = (NoValue, s1) \<Longrightarrow>
   sample_call (LinkDelivers (Msg_CameraControl (ConfigureStream 7 HEVC_720P30))) s1 =
     (NoValue, sample_connected\<lparr>transport_client := Some sample_asked\<rparr>)"
  by (auto simp: on_link_def link_delivers_def sample_connected_def sample_clients
      INBOUND_CHANNEL_CAPACITY_def)

lemma sample_poll:
  "sample_call PollCommand (sample_connected\<lparr>transport_client := Some sample_asked\<rparr>) =
     (Pointer (Some (lit ''{}'')), sample_connected\<lparr>transport_client := Some sample_polled\<rparr>)"
  using sample_profiles_ok
  by (simp add: phonecam_poll_control_command_json_def sample_clients sample_json_def Let_def
      control_command_json_def cstring_new_def pending_after_poll_def)

lemma sample_report:
  "sample_call (ReportConfiguration 7 0 1 1280 720 30)
     (sample_connected\<lparr>transport_client := Some sample_polled\<rparr>) =
     (Flag True, sample_connected\<lparr>transport_client := Some sample_reported\<rparr>)"
proof -
  have "profile_from_ffi 1 1280 720 30 = Some HEVC_720P30"
    using sample_profiles_ok by (simp add: profile_from_ffi_Some HEVC_720P30_def)
  then show ?thesis
    by (simp add: phonecam_report_stream_configuration_def sample_clients Let_def reported_outcome_def
        try_enqueue_def OUTBOUND_CHANNEL_CAPACITY_def mobile_handshake_def sample_config_def sample_peer_def)
qed

lemma sample_run_reachable:
  "mobile_reachable sample_codec sample_json (sample_connected\<lparr>transport_client := Some sample_asked\<rparr>)"
  "mobile_reachable sample_codec sample_json (sample_connected\<lparr>transport_client := Some sample_polled\<rparr>)"
  "mobile_reachable sample_codec sample_json (sample_connected\<lparr>transport_client := Some sample_reported\<rparr>)"
proof -
  obtain v s1 where s1: "sample_call (LinkDelivers (Msg_StatusUpdate \<lparr>status = []\<rparr>)) sample_connected = (v, s1)"
    by fastforce
  then have "v = NoValue" by simp
  note delivered = sample_deliveries [OF s1 [unfolded this]]
  note r1 = mobile_reachable.called [OF mobile_reachable.called [OF sample_connected_reachable s1] delivered]
  note r2 = mobile_reachable.called [OF r1 sample_poll]
  show "mobile_reachable sample_codec sample_json (sample_connected\<lparr>transport_client := Some sample_asked\<rparr>)"
    "mobile_reachable sample_codec sample_json (sample_connected\<lparr>transport_client := Some sample_polled\<rparr>)"
    "mobile_reachable sample_codec sample_json (sample_connected\<lparr>transport_client := Some sample_reported\<rparr>)"
    using r1 r2 mobile_reachable.called [OF r2 sample_report] by blast+
qed

section \<open>Properties\<close>

text \<open>
  C10. Everything the phone has ever enqueued on a connection is a session a desktop can follow:
  it begins with a well-formed handshake, and replaying the rest in order, each frame has the
  active profile's codec and size, each update passes the protocol's check, and each applied
  profile is common to both sides; the replay ends at the profiles the phone now holds, and
  its active profile is one that both sides support.
\<close>

theorem phone_messages_can_be_followed:
  assumes "mobile_reachable bc js s" "transport_client s = Some c"
  shows "(\<exists>hs ms a. tx_taken (tc_connection c) @ tx_queue (tc_connection c) = Msg_Handshake hs # ms \<and>
      well_formed_handshake hs \<and> active_profile hs = Some a \<and>
      follows (supported_profiles (peer_handshake (tc_connection c))) ms (supported_profiles hs, a) =
        Some (tc_supported c, tc_active c)) \<and>
    tc_active c \<in> set (tc_supported c) \<inter> set (supported_profiles (peer_handshake (tc_connection c))) \<and>
    well_formed_profiles (tc_supported c)"
  using reachable_client_inv [OF assms]
  by (auto simp: client_inv_def followed_def sent_log_def Let_def)

theorem phone_messages_can_be_followed_witness:
  "\<exists>hs ms a. tx_taken (tc_connection sample_reported) @ tx_queue (tc_connection sample_reported) =
       Msg_Handshake hs # ms \<and>
     follows (supported_profiles sample_peer) ms (supported_profiles hs, a) =
       Some ([H264_720P30, HEVC_720P30], HEVC_720P30)"
  using phone_messages_can_be_followed [OF sample_run_reachable(3), of sample_reported]
  by (auto simp: sample_clients mobile_handshake_def sample_config_def)

text \<open>
  C17. Configuration requests are answered in order and at most once: the identifiers of the valid
  requests taken off the connection are those of the results enqueued, in the same order,
  followed by the one that is still pending. The identifier zero marks a change of the
  phone's own and is not counted.
\<close>

theorem requests_answered_in_order:
  assumes "mobile_reachable bc js s" "transport_client s = Some c"
  shows "requests_taken (rx_taken (tc_connection c)) =
    requests_answered (tx_taken (tc_connection c) @ tx_queue (tc_connection c)) @
    pending_id (tc_pending c)"
  using reachable_client_inv [OF assms] by (simp add: client_inv_def answers_in_order_def sent_log_def)

theorem requests_answered_in_order_witness:
  "requests_taken [Msg_StatusUpdate \<lparr>status = []\<rparr>, Msg_CameraControl (ConfigureStream 7 HEVC_720P30)] =
     requests_answered [Msg_Handshake (mobile_handshake sample_config)] @ [7]"
  using requests_answered_in_order [OF sample_run_reachable(2), of sample_polled]
  by (simp add: sample_clients pending_id_def)

definition submits :: "mobile_event \<Rightarrow> bool" where
  "submits ev \<longleftrightarrow>
     (case ev of SendFrame data pts cd w h key \<Rightarrow> True | UpdateCapabilities j \<Rightarrow> True
      | ReportConfiguration rid code cd w h rate \<Rightarrow> True | _ \<Rightarrow> False)"

text \<open>
  The calls that submit something to the desktop are all or nothing: one that returns false
  leaves every slot as it was, and one that returns true has enqueued exactly one message on
  a connection that was open and had room.
\<close>

theorem submissions_are_all_or_nothing:
  assumes "submits ev" "mobile_step bc js ev s = (v, s')"
  shows "v = Flag False \<and> s' = s \<or>
    v = Flag True \<and> (\<exists>c c' m. transport_client s = Some c \<and> transport_client s' = Some c' \<and>
      try_enqueue m (tc_connection c) = Some (tc_connection c') \<and> core_config s' = core_config s)"
proof (cases ev)
  case (SendFrame data pts cd w h key)
  with assms(2) obtain b where b: "phonecam_send_video_frame data pts cd w h key s = (b, s')" "v = Flag b"
    by (auto simp: apfst_eq_pair)
  from b(1) show ?thesis by (cases rule: send_video_frame_cases) (auto simp: b(2))
next
  case (UpdateCapabilities j)
  with assms(2) obtain b where b: "phonecam_update_video_capabilities js j s = (b, s')" "v = Flag b"
    by (auto simp: apfst_eq_pair)
  from b(1) show ?thesis by (cases rule: update_capabilities_cases) (auto simp: b(2))
next
  case (ReportConfiguration rid code cd w h rate)
  with assms(2) obtain b where
      b: "phonecam_report_stream_configuration rid code cd w h rate s = (b, s')" "v = Flag b"
    by (auto simp: apfst_eq_pair)
  from b(1) show ?thesis by (cases rule: report_cases) (auto simp: b(2))
qed (use assms(1) in \<open>simp_all add: submits_def\<close>)

theorem submissions_are_all_or_nothing_witness:
  "\<exists>m. try_enqueue m (tc_connection sample_polled) = Some (tc_connection sample_reported)"
  using submissions_are_all_or_nothing [OF _ sample_report]
  by (auto simp: submits_def sample_connected_def)

text \<open>
  A frame is accepted exactly when its data is not empty, its codec is known, codec and size are
  those of the active profile, and the open channel has room for it.
\<close>

theorem frame_accepted_iff:
  "fst (phonecam_send_video_frame data pts cd w h key s) \<longleftrightarrow>
     (\<exists>c. transport_client s = Some c \<and> data \<noteq> None \<and> data \<noteq> Some [] \<and>
        cd = video_codec_as_u8 (codec (tc_active c)) \<and> w = width (tc_active c) \<and> h = height (tc_active c) \<and>
        tx_open (tc_connection c) \<and> length (tx_queue (tc_connection c)) < OUTBOUND_CHANNEL_CAPACITY)"
    (is "?accepted \<longleftrightarrow> ?conditions")
proof
  assume ?accepted
  then obtain s' where "phonecam_send_video_frame data pts cd w h key s = (True, s')"
    by (metis (full_types) prod.collapse)
  then show ?conditions
    by (auto simp: phonecam_send_video_frame_def Let_def try_enqueue_Some protocol_checks
        split: option.splits result.splits if_splits)
next
  assume ?conditions
  then obtain c b bs where "transport_client s = Some c" "data = Some (b # bs)"
      "cd = video_codec_as_u8 (codec (tc_active c))" "w = width (tc_active c)" "h = height (tc_active c)"
      "tx_open (tc_connection c)" "length (tx_queue (tc_connection c)) < OUTBOUND_CHANNEL_CAPACITY"
    by (metis neq_Nil_conv not_Some_eq)
  then show ?accepted
    by (simp add: phonecam_send_video_frame_def Let_def try_enqueue_def)
qed

definition for_application :: "message \<Rightarrow> bool" where
  "for_application m \<longleftrightarrow>
     (case m of Msg_Disconnect d \<Rightarrow> True
      | Msg_CameraControl (ConfigureStream rid p) \<Rightarrow> well_formed_profile p
      | Msg_CameraControl c \<Rightarrow> True | _ \<Rightarrow> False)"

lemma for_application_simps [simp]:
  "for_application (Msg_Disconnect d)"
  "for_application (Msg_CameraControl (ConfigureStream rid p)) \<longleftrightarrow> well_formed_profile p"
  "for_application (Msg_CameraControl (SwitchCamera front))"
  "for_application (Msg_CameraControl RequestKeyframe)"
  "\<not> for_application (Msg_Handshake hs)"
  "\<not> for_application (Msg_VideoFrame vf)"
  "\<not> for_application (Msg_AudioFrame af)"
  "\<not> for_application (Msg_StatusUpdate u)"
  "\<not> for_application (Msg_VideoCapabilitiesUpdate v)"
  "\<not> for_application (Msg_StreamConfigurationResult r)"
  by (simp_all add: for_application_def)

text \<open>
  A poll skips what is not for the application, invalid requests included, and stops at the
  first valid command or at a disconnect, leaving everything behind it in the queue; with
  neither in the queue it has taken the whole of it, and the connection is given up exactly
  when its other end is gone.
\<close>

theorem poll_stops_at_the_first_command:
  "poll_loop alive taken q =
     (let skipped = takeWhile (\<lambda>m. \<not> for_application m) q
      in case dropWhile (\<lambda>m. \<not> for_application m) q of
           [] \<Rightarrow> (if alive then PolledEmpty else PolledGone, taken @ skipped, [])
         | m # rest \<Rightarrow>
             (case m of Msg_CameraControl c \<Rightarrow> Polled c | _ \<Rightarrow> PolledGone, taken @ skipped @ [m], rest))"
  by (induction alive taken q rule: poll_loop.induct) (simp_all add: Let_def cong: list.case_cong)

definition reconnects :: "mobile_event \<Rightarrow> bool" where
  "reconnects ev \<longleftrightarrow>
     (case ev of TransportInit d host port cfg \<Rightarrow> True | TransportShutdown \<Rightarrow> True | _ \<Rightarrow> False)"

primrec mobile_run ::
  "bincode \<Rightarrow> serde_json \<Rightarrow> mobile_event list \<Rightarrow> mobile_core \<Rightarrow> (mobile_event \<times> ffi_value) list \<times> mobile_core" where
  "mobile_run bc js [] s = ([], s)"
| "mobile_run bc js (ev # evs) s =
     (case mobile_step bc js ev s of
        (v, s') \<Rightarrow> (case mobile_run bc js evs s' of (log, s'') \<Rightarrow> ((ev, v) # log, s'')))"

lemma zero_request_step:
  assumes "transport_client s = Some c" "tc_pending c = Some (0, p)" "\<not> reconnects ev"
    and "mobile_step bc js ev s = (v, s')"
  shows "(ev = PollCommand \<longrightarrow> v = Pointer None) \<and>
    (\<exists>c'. transport_client s' = Some c' \<and> tc_pending c' = Some (0, p))"
proof (cases ev)
  case (SendFrame data pts cd w h key)
  with assms(4) obtain b where "phonecam_send_video_frame data pts cd w h key s = (b, s')"
    by (auto simp: apfst_eq_pair)
  then show ?thesis by (cases rule: send_video_frame_cases) (use assms SendFrame in auto)
next
  case (UpdateCapabilities j)
  with assms(4) obtain b where "phonecam_update_video_capabilities js j s = (b, s')"
    by (auto simp: apfst_eq_pair)
  then show ?thesis by (cases rule: update_capabilities_cases) (use assms UpdateCapabilities in auto)
next
  case (ReportConfiguration rid code cd w h rate)
  with assms(4) obtain b where "phonecam_report_stream_configuration rid code cd w h rate s = (b, s')"
    by (auto simp: apfst_eq_pair)
  then show ?thesis by (cases rule: report_cases) (use assms ReportConfiguration in auto)
next
  case PollCommand
  with assms show ?thesis by (auto simp: phonecam_poll_control_command_json_def)
qed (use assms in \<open>auto simp: reconnects_def configure_endpoint_def set_streaming_enabled_def
    on_link_def split: if_splits\<close>)

text \<open>
  A request with identifier zero, once polled, is never cleared: whatever the application
  reports and whatever the desktop sends, no later command is handed out on that connection.
\<close>

theorem zero_request_blocks_polling:
  assumes "transport_client s = Some c" "tc_pending c = Some (0, p)"
    and "list_all (\<lambda>ev. \<not> reconnects ev) evs" "mobile_run bc js evs s = (log, s')"
  shows "(PollCommand, v) \<in> set log \<Longrightarrow> v = Pointer None"
  using assms
proof (induction evs arbitrary: s c log)
  case (Cons ev evs)
  obtain v1 s1 log1 where step: "mobile_step bc js ev s = (v1, s1)"
    and run: "mobile_run bc js evs s1 = (log1, s')" "log = (ev, v1) # log1"
    using Cons.prems(5) by (auto split: prod.splits)
  from zero_request_step [OF Cons.prems(2,3) _ step] Cons.prems(4)
  obtain c1 where "ev = PollCommand \<longrightarrow> v1 = Pointer None" "transport_client s1 = Some c1"
      "tc_pending c1 = Some (0, p)"
    by auto
  with Cons run show ?case by auto
qed simp

definition sample_zero :: transport_client where
  "sample_zero = sample_client\<lparr>tc_pending := Some (0, HEVC_720P30)\<rparr>"

theorem zero_request_blocks_polling_witness:
  "snd (hd (fst (mobile_run sample_codec sample_json [PollCommand]
     (sample_connected\<lparr>transport_client := Some sample_zero\<rparr>)))) = Pointer None"
proof -
  let ?s = "sample_connected\<lparr>transport_client := Some sample_zero\<rparr>"
  obtain v s' where step: "sample_call PollCommand ?s = (v, s')" by fastforce
  then have "mobile_run sample_codec sample_json [PollCommand] ?s = ([(PollCommand, v)], s')" by simp
  with zero_request_blocks_polling [OF _ _ _ this, of sample_zero HEVC_720P30 v] show ?thesis
    by (simp add: sample_zero_def reconnects_def)
qed

end
