(* ===== verification/Session_Claims.thy ===== *)
theory Session_Claims
  imports Session Stream_Claims Mobile_Claims
begin

text \<open>
  What holds between the phone and the desktop: in smooth sessions they agree up to the
  messages on the way, and outside of them a change of the phone's own can be lost.
\<close>

section \<open>A sample session\<close>

text \<open>The phone of \<open>Mobile_Claims\<close> and a desktop on the Linux output of \<open>Stream_Claims\<close>.\<close>

definition sample_desk :: "(v4l2_world, unit, unit) stream_actor" where
  "sample_desk = sample_state\<lparr>local_profiles := [HEVC_720P30, H264_720P30],
     peer_profiles := [H264_720P30, HEVC_720P30], common := [HEVC_720P30, H264_720P30]\<rparr>"

definition sample_session :: "(v4l2_world, unit, unit) session" where
  "sample_session = \<lparr>phone = sample_connected, desk = sample_desk, to_desk = [], to_phone = []\<rparr>"

lemma sample_desk_starts:
  "actor_start (Ok ()) good (mobile_handshake sample_config) sample_device
      (supported_profiles Mobile_Claims.sample_peer) =
    ([ResetDecoder H264 True, publish sample_desk], Continue sample_desk)"
  using sample_linux_commits(1)
  by (simp add: actor_start_def mobile_handshake_def sample_config_def Mobile_Claims.sample_peer_def
      sample_device_def good_def sample_desk_def sample_state_def common_profiles_def Let_def)
    (simp add: H264_720P30_def)

lemma sample_phone_connected:
  "transport_client sample_connected = Some (fresh_client (mobile_handshake sample_config) Mobile_Claims.sample_peer
     (vc_active_profile sample_config))"
  by (simp add: sample_connected_def sample_client_def) (simp add: sample_config_def)

lemma sample_session_begins: "session_begins sample_session"
  using session_begins.intros [OF sample_phone_connected sample_handshakes(1) sample_desk_starts]
  by (simp add: sample_session_def sent_by_def publish_def)

primrec session_run ::
  "bincode \<Rightarrow> serde_json \<Rightarrow> session_event list \<Rightarrow> ('l, 'm, 'w) session \<Rightarrow> ('l, 'm, 'w) session option" where
  "session_run bc js [] s = Some s"
| "session_run bc js (ev # evs) s = Option.bind (session_step bc js ev s) (session_run bc js evs)"

lemma session_run_reachable:
  "session_run bc js evs s = Some s' \<Longrightarrow> session_reachable bc js s \<Longrightarrow> session_reachable bc js s'"
  by (induction evs arbitrary: s) (auto split: bind_splits intro: session_reachable.step)

text \<open>The phone during the session: its queues, its active profile and its pending request.\<close>

definition phone_at ::
  "message list \<Rightarrow> message list \<Rightarrow> message list \<Rightarrow> message list \<Rightarrow> stream_profile \<Rightarrow>
   (u32 \<times> stream_profile) option \<Rightarrow> mobile_core" where
  "phone_at sent txq taken rxq act pend = sample_connected\<lparr>transport_client := Some (sample_client
     \<lparr>tc_connection := (tc_connection sample_client)
        \<lparr>tx_taken := Msg_Handshake (mobile_handshake sample_config) # sent, tx_queue := txq,
         rx_taken := taken, rx_queue := rxq\<rparr>,
      tc_active := act, tc_pending := pend\<rparr>)\<rparr>"

definition hevc_asked :: message where
  "hevc_asked = configure_message 1 HEVC_720P30"

definition result_message :: "u32 \<Rightarrow> stream_configuration_outcome \<Rightarrow> message" where
  "result_message rid oc = Msg_StreamConfigurationResult \<lparr>request_id = rid, outcome = oc\<rparr>"

lemmas phone_at_simps = phone_at_def sample_connected_def sample_clients hevc_asked_def
  configure_message_def result_message_def

lemma phone_start: "sample_connected = phone_at [] [] [] [] H264_720P30 None"
  by (simp add: phone_at_simps)

lemma phone_client:
  "\<exists>c. transport_client (phone_at sent txq taken rxq act pend) = Some c \<and>
     tx_queue (tc_connection c) = txq \<and> rx_queue (tc_connection c) = rxq \<and> tx_open (tc_connection c) \<and>
     rx_open (tc_connection c) \<and> tc_active c = act \<and> tc_pending c = pend"
  by (simp add: phone_at_simps)

lemma phone_receives:
  "rxq = [] \<Longrightarrow> snd (sample_call (LinkDelivers m) (phone_at sent txq taken rxq act pend)) =
     phone_at sent txq taken [m] act pend"
  by (simp add: on_link_def link_delivers_def phone_at_simps INBOUND_CHANNEL_CAPACITY_def)

lemma phone_transmits:
  "snd (sample_call LinkTakes (phone_at sent (m # txq) taken rxq act pend)) =
     phone_at (sent @ [m]) txq taken rxq act pend"
  by (simp add: on_link_def link_takes_def phone_at_simps)

lemma phone_polls:
  "snd (sample_call PollCommand (phone_at sent txq [] [hevc_asked] act None)) =
     phone_at sent txq [hevc_asked] [] act (Some (1, HEVC_720P30))"
  using sample_profiles_ok(2)
  by (simp add: phonecam_poll_control_command_json_def phone_at_simps pending_after_poll_def Let_def)

lemma hevc_from_ffi: "profile_from_ffi 1 1280 720 30 = Some HEVC_720P30"
  using sample_profiles_ok(2) by (simp add: profile_from_ffi_Some HEVC_720P30_def)

lemma phone_applies:
  assumes "rid = 0 \<and> pend' = pend \<or> rid \<noteq> 0 \<and> map_option fst pend = Some rid \<and> pend' = None"
    and "length txq < 8"
  shows "snd (sample_call (ReportConfiguration rid 0 1 1280 720 30) (phone_at sent txq taken rxq act pend)) =
    phone_at sent (txq @ [result_message rid (Applied HEVC_720P30)]) taken rxq HEVC_720P30 pend'"
  using assms hevc_from_ffi
  by (auto simp: phonecam_report_stream_configuration_def phone_at_simps reported_outcome_def
      try_enqueue_def OUTBOUND_CHANNEL_CAPACITY_def mobile_handshake_def sample_config_def
      Mobile_Claims.sample_peer_def Let_def)

lemma phone_refuses:
  "length txq < 8 \<Longrightarrow>
   snd (sample_call (ReportConfiguration 1 2 0 0 0 0) (phone_at sent txq taken rxq act (Some (1, p)))) =
     phone_at sent (txq @ [result_message 1 CaptureConfigurationFailed]) taken rxq act None"
  by (simp add: phonecam_report_stream_configuration_def phone_at_simps reported_outcome_def
      try_enqueue_def OUTBOUND_CHANNEL_CAPACITY_def Let_def)

definition desk_waiting :: "(v4l2_world, unit, unit) stream_actor" where
  "desk_waiting = sample_desk\<lparr>request_counter := 1,
     pending := Some \<lparr>pc_request_id = 1, pc_requested = HEVC_720P30, pc_deadline = 5000,
                      pc_kind = Configure H264_720P30 (Some 7)\<rparr>\<rparr>"

lemma desk_asks:
  "actor_step good (Command (Some (command_for HEVC_720P30 PreferAuto 7))) sample_desk =
     ([Send hevc_asked], Continue desk_waiting)"
proof -
  have "resolve_profile [HEVC_720P30, H264_720P30] (width HEVC_720P30) (height HEVC_720P30) (fps HEVC_720P30)
      PreferAuto = Ok HEVC_720P30"
    by code_simp
  moreover have "HEVC_720P30 \<in> set sample_profiles" by (simp add: sample_profiles_def)
  ultimately show ?thesis
    using sample_preflight [of HEVC_720P30] sample_profiles_ok(3)
    by (simp add: actor_step_def on_command_def command_for_def sample_desk_def sample_state_def
        request_configuration_def good_def next_request_id_def desk_waiting_def CONFIGURATION_TIMEOUT_def
        hevc_asked_def)
qed

definition desk_switched :: "(v4l2_world, unit, unit) stream_actor" where
  "desk_switched = sample_desk\<lparr>out_dev := LinuxDevice sample_v4l2
       (sample_linux_committed\<lparr>lo_committed := Some HEVC_720P30\<rparr>),
     active := HEVC_720P30, request_counter := 1\<rparr>"

lemma desk_adopts:
  "actor_step good (PeerMessage (Some (result_message 1 (Applied HEVC_720P30)))) desk_waiting =
     ([ResetDecoder Hevc True, publish desk_switched, Reply 7 (Ok HEVC_720P30)], Continue desk_switched)"
proof -
  have "accepts_applied_profile [HEVC_720P30, H264_720P30] HEVC_720P30 HEVC_720P30"
    by (simp add: accepts_applied_profile_iff same_picture_def)
  moreover have "codec HEVC_720P30 = Hevc" by (simp add: HEVC_720P30_def)
  ultimately show ?thesis
    using sample_commit_hevc
    by (simp add: actor_step_def on_message_def result_message_def on_configuration_result_def
        desk_waiting_def on_configure_result_def sample_desk_def sample_state_def commit_and_reset_def good_def
        adopt_def desk_switched_def Let_def)
qed

lemma desk_ignores:
  "actor_step good (PeerMessage (Some (result_message 0 oc))) desk_waiting = ([], Continue desk_waiting)"
  by (simp add: actor_step_def on_message_def result_message_def on_configuration_result_def desk_waiting_def)

lemma desk_is_refused:
  "actor_step good (PeerMessage (Some (result_message 1 CaptureConfigurationFailed))) desk_waiting =
     ([Reply 7 (Err (PhoneRejected CaptureConfigurationFailed))],
      Continue (sample_desk\<lparr>request_counter := 1\<rparr>))"
  by (simp add: actor_step_def on_message_def result_message_def on_configuration_result_def
      desk_waiting_def on_configure_result_def sample_desk_def sample_state_def)

section \<open>Two runs\<close>

abbreviation sample_step ::
  "session_event \<Rightarrow> (v4l2_world, unit, unit) session \<Rightarrow> (v4l2_world, unit, unit) session option" where
  "sample_step \<equiv> session_step sample_codec sample_json"

abbreviation sess ::
  "mobile_core \<Rightarrow> (v4l2_world, unit, unit) stream_actor \<Rightarrow> message list \<Rightarrow> message list \<Rightarrow>
   (v4l2_world, unit, unit) session" where
  "sess p d td tp \<equiv> \<lparr>phone = p, desk = d, to_desk = td, to_phone = tp\<rparr>"

lemma session_asks:
  "sample_step (DeskTurns good (Command (Some (command_for HEVC_720P30 PreferAuto 7)))) (sess p sample_desk td tp) =
     Some (sess p desk_waiting td (tp @ [hevc_asked]))"
  using desk_asks by (simp add: branch_enabled_def desk_turn_def sent_by_def) (simp add: sample_desk_def sample_state_def)

lemma session_receives:
  "sample_step PhoneReceives (sess (phone_at sent txq taken [] act pend) d td (m # tp)) =
     Some (sess (phone_at sent txq taken [m] act pend) d td tp)"
  using phone_client [of sent txq taken "[]" act pend] phone_receives [of "[]" m sent txq taken act pend]
  by (auto simp: INBOUND_CHANNEL_CAPACITY_def)

lemma session_transmits:
  "sample_step PhoneTransmits (sess (phone_at sent (m # txq) taken rxq act pend) d td tp) =
     Some (sess (phone_at (sent @ [m]) txq taken rxq act pend) d (td @ [m]) tp)"
  using phone_client [of sent "m # txq" taken rxq act pend] phone_transmits [of sent m txq taken rxq act pend]
  by auto

lemma session_delivers:
  "actor_step a (PeerMessage (Some m)) d = (effs, Continue d') \<Longrightarrow>
   sample_step (DeskReceives a) (sess p d (m # td) tp) = Some (sess p d' td (tp @ sent_by effs))"
  by (simp add: desk_turn_def)

lemma session_calls:
  "within_connection call \<Longrightarrow> snd (sample_call call p) = p' \<Longrightarrow>
   sample_step (PhoneCalls call) (sess p d td tp) = Some (sess p' d td tp)"
  by simp

definition report_hevc :: "u32 \<Rightarrow> mobile_event" where
  "report_hevc rid = ReportConfiguration rid 0 1 1280 720 30"

definition refuse_one :: mobile_event where
  "refuse_one = ReportConfiguration 1 2 0 0 0 0"

lemma calls_within: "within_connection PollCommand" "within_connection (report_hevc rid)" "within_connection refuse_one"
  by (simp_all add: within_connection_def report_hevc_def refuse_one_def)

lemma session_polls:
  "sample_step (PhoneCalls PollCommand) (sess (phone_at sent txq [] [hevc_asked] act None) d td tp) =
     Some (sess (phone_at sent txq [hevc_asked] [] act (Some (1, HEVC_720P30))) d td tp)"
  by (rule session_calls [OF calls_within(1) phone_polls])

lemma session_applies:
  assumes "rid = 0 \<and> pend' = pend \<or> rid \<noteq> 0 \<and> map_option fst pend = Some rid \<and> pend' = None"
  shows "sample_step (PhoneCalls (report_hevc rid)) (sess (phone_at sent [] taken rxq act pend) d td tp) =
    Some (sess (phone_at sent [result_message rid (Applied HEVC_720P30)] taken rxq HEVC_720P30 pend') d td tp)"
  using phone_applies [OF assms, of "[]" sent taken rxq act]
  by (intro session_calls [OF calls_within(2)]) (simp add: report_hevc_def)

lemma session_refuses:
  "sample_step (PhoneCalls refuse_one) (sess (phone_at sent [m] taken rxq act (Some (1, p))) d td tp) =
    Some (sess (phone_at sent [m, result_message 1 CaptureConfigurationFailed] taken rxq act None) d td tp)"
  using phone_refuses [of "[m]" sent taken rxq act p]
  by (intro session_calls [OF calls_within(3)]) (simp add: refuse_one_def)

text \<open>A request on its way; and one that is answered, with the state it ends in.\<close>

lemma sample_quiet: "\<not> compensating desk_waiting" "\<not> compensating desk_switched"
  by (simp_all add: compensating_def desk_waiting_def desk_switched_def sample_desk_def sample_state_def)

lemma smooth_asked:
  "smooth_reachable sample_codec sample_json (sess (phone_at [] [] [] [] H264_720P30 None) desk_waiting [] [hevc_asked])"
proof -
  have "smooth_reachable sample_codec sample_json (sess (phone_at [] [] [] [] H264_720P30 None) sample_desk [] [])"
    using smooth_reachable.smooth_begins [OF sample_session_begins] by (simp add: sample_session_def phone_start)
  from smooth_reachable.smooth_step [OF this _ session_asks] show ?thesis
    using sample_quiet by (simp add: smooth_def)
qed

lemma smooth_switch:
  "smooth_reachable sample_codec sample_json
     (sess (phone_at [result_message 1 (Applied HEVC_720P30)] [] [hevc_asked] [] HEVC_720P30 None)
       desk_switched [] [])"
proof -
  let ?r = "result_message 1 (Applied HEVC_720P30)"
  note quiet = sample_quiet
  from smooth_reachable.smooth_step [OF smooth_asked _ session_receives]
  have "smooth_reachable sample_codec sample_json (sess (phone_at [] [] [] [hevc_asked] H264_720P30 None) desk_waiting [] [])"
    using quiet by (simp add: smooth_def)
  from smooth_reachable.smooth_step [OF this _ session_polls]
  have "smooth_reachable sample_codec sample_json
      (sess (phone_at [] [] [hevc_asked] [] H264_720P30 (Some (1, HEVC_720P30))) desk_waiting [] [])"
    using quiet by (simp add: smooth_def smooth_report_def)
  from smooth_reachable.smooth_step [OF this _ session_applies [of 1 None]]
  have "smooth_reachable sample_codec sample_json
      (sess (phone_at [] [?r] [hevc_asked] [] HEVC_720P30 None) desk_waiting [] [])"
    using quiet by (simp add: smooth_def smooth_report_def report_hevc_def phone_at_def HEVC_720P30_def)
  from smooth_reachable.smooth_step [OF this _ session_transmits]
  have "smooth_reachable sample_codec sample_json
      (sess (phone_at [?r] [] [hevc_asked] [] HEVC_720P30 None) desk_waiting [?r] [])"
    using quiet by (simp add: smooth_def)
  from smooth_reachable.smooth_step [OF this _ session_delivers [OF desk_adopts]]
  show ?thesis using quiet by (simp add: smooth_def smooth_arrival_def result_message_def)
qed

text \<open>A frame of the phone's active profile is taken by the phone's own queue.\<close>

definition a_frame :: "stream_profile \<Rightarrow> video_frame" where
  "a_frame p = \<lparr>vf_data = [1], pts_us = 0, vf_codec = codec p, vf_width = width p, vf_height = height p,
     is_keyframe = False\<rparr>"

definition send_a_frame :: "stream_profile \<Rightarrow> mobile_event" where
  "send_a_frame p = SendFrame (Some [1]) 0 (video_codec_as_u8 (codec p)) (width p) (height p) False"

text \<open>What \<open>last_frame\<close> holds afterwards, which nothing else reads.\<close>

definition frame_noted :: "stream_profile \<Rightarrow> mobile_core \<Rightarrow> mobile_core" where
  "frame_noted p s = s\<lparr>last_frame := Some \<lparr>fm_len = 1, fm_pts = 0, fm_codec = codec p,
     fm_width = width p, fm_height = height p, fm_is_keyframe = False\<rparr>\<rparr>"

lemma phone_sends_frame:
  "length txq < 8 \<Longrightarrow> sample_call (send_a_frame act) (phone_at sent txq taken rxq act pend) =
     (Flag True, frame_noted act (phone_at sent (txq @ [Msg_VideoFrame (a_frame act)]) taken rxq act pend))"
  by (simp add: send_a_frame_def phonecam_send_video_frame_def phone_at_simps a_frame_def try_enqueue_def
      OUTBOUND_CHANNEL_CAPACITY_def frame_noted_def protocol_checks Let_def)

lemma session_sends_frame:
  "sample_step (PhoneCalls (send_a_frame act)) (sess (phone_at sent [] taken rxq act pend) d td tp) =
     Some (sess (frame_noted act (phone_at sent [Msg_VideoFrame (a_frame act)] taken rxq act pend)) d td tp)"
  using phone_sends_frame [of "[]" act sent taken rxq pend]
  by (intro session_calls) (simp_all add: within_connection_def send_a_frame_def)

lemma session_transmits_noted:
  "sample_step PhoneTransmits (sess (frame_noted p (phone_at sent (m # txq) taken rxq act pend)) d td tp) =
     Some (sess (frame_noted p (phone_at (sent @ [m]) txq taken rxq act pend)) d (td @ [m]) tp)"
  by (simp add: on_link_def link_takes_def phone_at_simps frame_noted_def)

section \<open>Properties\<close>

text \<open>
  C4. In a smooth session (no timeout, no failed commit, no report of a change of the phone's own
  arriving while a request is pending, and an application that reports success of a request
  only with the size and rate requested) both ends agree up to the messages on the way:
  replaying these from the profiles and the active profile the desktop holds leads to those
  the phone holds, so with nothing on the way they are the same; and the request the desktop
  waits for, when there is one, is in exactly one place: on its way, with the application, or
  answered on its way back.
\<close>

theorem smooth_sessions_agree:
  assumes "smooth_reachable bc js s" "transport_client (phone s) = Some c"
  shows "follows (local_profiles (desk s)) (to_desk s @ tx_queue (tc_connection c))
      (peer_profiles (desk s), active (desk s)) = Some (tc_supported c, tc_active c) \<and>
    (to_desk s = [] \<and> tx_queue (tc_connection c) = [] \<longrightarrow>
      peer_profiles (desk s) = tc_supported c \<and> active (desk s) = tc_active c) \<and>
    (case pending (desk s) of
       None \<Rightarrow> tokens c (to_desk s) (to_phone s) = []
     | Some cur \<Rightarrow> \<exists>t. tokens c (to_desk s) (to_phone s) = [t] \<and> token_fits cur t)"
  using smooth_reachable_inv [OF assms(1)] assms(2)
  by (auto simp: session_inv_def in_step_def expected_def split: option.splits)

theorem smooth_sessions_agree_witness:
  "active desk_switched = HEVC_720P30 \<and>
   follows (local_profiles desk_switched) [] (peer_profiles desk_switched, active desk_switched) =
     Some ([H264_720P30, HEVC_720P30], HEVC_720P30)"
proof -
  obtain c where "transport_client (phone_at [result_message 1 (Applied HEVC_720P30)] [] [hevc_asked] []
      HEVC_720P30 None) = Some c" "tx_queue (tc_connection c) = []"
      "tc_supported c = [H264_720P30, HEVC_720P30]" "tc_active c = HEVC_720P30"
    by (simp add: phone_at_simps mobile_handshake_def sample_config_def)
  with smooth_sessions_agree [OF smooth_switch, of c] show ?thesis by (simp add: desk_switched_def)
qed

text \<open>
  C9. No frame of a smooth session is dropped for its profile: whenever a frame arrives, the
  desktop submits it to the decoder if the decoder's queue has room.
\<close>

theorem smooth_frames_reach_the_decoder:
  assumes "smooth_reachable bc js s" "transport_client (phone s) \<noteq> None"
    and "to_desk s = Msg_VideoFrame f # ms" "queue_has_room a"
  shows "\<exists>d. session_step bc js (DeskReceives a) s = Some (s\<lparr>desk := d, to_desk := ms\<rparr>) \<and>
    actor_step a (PeerMessage (Some (Msg_VideoFrame f))) (desk s) = ([SubmitFrame f True], Continue d) \<and>
    vf_codec f = codec (active (desk s)) \<and> vf_width f = width (active (desk s)) \<and>
    vf_height f = height (active (desk s))"
proof -
  from assms(2) obtain c where "transport_client (phone s) = Some c" by auto
  with smooth_reachable_inv [OF assms(1)] have "in_step c (desk s) (to_desk s) (to_phone s)"
    by (simp add: session_inv_def)
  with assms(3) have ok: "is_ok (frame_validate_against f (active (desk s)))"
    by (auto simp: in_step_def follow_message_def split: bind_splits if_splits)
  then have "vf_codec f = codec (active (desk s)) \<and> vf_width f = width (active (desk s)) \<and>
      vf_height f = height (active (desk s))" by simp
  moreover have "\<exists>d. actor_step a (PeerMessage (Some (Msg_VideoFrame f))) (desk s) = ([SubmitFrame f True], Continue d)"
    using ok assms(4)
    by (simp add: actor_step_def on_message_def on_video_frame_def Let_def del: is_ok_frame_validate)
  ultimately show ?thesis using assms(3) by (auto simp: desk_turn_def)
qed

theorem smooth_frames_reach_the_decoder_witness:
  "\<exists>(s :: (v4l2_world, unit, unit) session) d. session_step sample_codec sample_json (DeskReceives good) s =
     Some (s\<lparr>desk := d, to_desk := []\<rparr>) \<and>
   actor_step good (PeerMessage (Some (Msg_VideoFrame (a_frame HEVC_720P30)))) (desk s) =
     ([SubmitFrame (a_frame HEVC_720P30) True], Continue d)"
proof -
  let ?f = "Msg_VideoFrame (a_frame HEVC_720P30)" and ?r = "result_message 1 (Applied HEVC_720P30)"
  let ?s = "sess (frame_noted HEVC_720P30 (phone_at [?r, ?f] [] [hevc_asked] [] HEVC_720P30 None)) desk_switched [?f] []"
  have quiet: "\<not> compensating desk_switched"
    by (simp add: compensating_def desk_switched_def sample_desk_def sample_state_def)
  from smooth_reachable.smooth_step [OF smooth_switch _ session_sends_frame]
  have "smooth_reachable sample_codec sample_json (sess (frame_noted HEVC_720P30
      (phone_at [?r] [?f] [hevc_asked] [] HEVC_720P30 None)) desk_switched [] [])"
    using quiet by (simp add: smooth_def smooth_report_def send_a_frame_def)
  from smooth_reachable.smooth_step [OF this _ session_transmits_noted]
  have s: "smooth_reachable sample_codec sample_json ?s"
    using quiet by (simp add: smooth_def)
  have "queue_has_room good" by (simp add: good_def)
  moreover have "transport_client (frame_noted HEVC_720P30 p) = transport_client p" for p
    by (simp add: frame_noted_def)
  moreover have "transport_client (phone_at [?r, ?f] [] [hevc_asked] [] HEVC_720P30 None) \<noteq> None"
    by (simp add: phone_at_def)
  ultimately obtain d where "session_step sample_codec sample_json (DeskReceives good) ?s = Some (?s\<lparr>desk := d, to_desk := []\<rparr>) \<and>
      actor_step good (PeerMessage (Some (Msg_VideoFrame (a_frame HEVC_720P30)))) (desk ?s) =
        ([SubmitFrame (a_frame HEVC_720P30) True], Continue d)"
    using smooth_frames_reach_the_decoder [OF s, of "a_frame HEVC_720P30" "[]" good] by auto
  then show ?thesis by blast
qed

text \<open>Every frame of its active profile is taken by the phone, and no other.\<close>

lemma phone_accepts:
  assumes "length txq < 8"
  shows "fst (phonecam_send_video_frame data pts cd w h key (phone_at sent txq taken rxq act pend)) \<longleftrightarrow>
      (\<exists>b bs. data = Some (b # bs)) \<and> cd = video_codec_as_u8 (codec act) \<and> w = width act \<and> h = height act"
    (is "?accepted \<longleftrightarrow> ?fits")
    and "phonecam_send_video_frame (Some (b # bs)) pts (video_codec_as_u8 (codec act)) (width act) (height act) key
        (phone_at sent txq taken rxq act pend) =
      (True, (phone_at sent (txq @ [Msg_VideoFrame \<lparr>vf_data = b # bs, pts_us = pts, vf_codec = codec act,
          vf_width = width act, vf_height = height act, is_keyframe = key\<rparr>]) taken rxq act pend)
        \<lparr>last_frame := Some \<lparr>fm_len = length (b # bs), fm_pts = pts, fm_codec = codec act, fm_width = width act,
          fm_height = height act, fm_is_keyframe = key\<rparr>\<rparr>)"
proof -
  obtain c where "transport_client (phone_at sent txq taken rxq act pend) = Some c" "tx_queue (tc_connection c) = txq"
      "tx_open (tc_connection c)" "tc_active c = act"
    using phone_client by metis
  with assms show "?accepted \<longleftrightarrow> ?fits"
    by (auto simp: frame_accepted_iff OUTBOUND_CHANNEL_CAPACITY_def neq_Nil_conv)
qed (use assms in \<open>simp add: phonecam_send_video_frame_def phone_at_simps try_enqueue_def
  OUTBOUND_CHANNEL_CAPACITY_def protocol_checks Let_def\<close>)

text \<open>
  C27. Outside smooth sessions a change can be lost for good. The phone changes to HEVC by itself
  while a request is on its way to it, reports the change, and then refuses the request: the
  desktop ignores the report, because it waits for another identifier, and keeps the old
  profile at the refusal. Then nothing is on the way and nothing pending. The phone takes from
  its application the frames of the new profile, whatever their data, time and kind, and no
  others; and the desktop drops every one of them, with no effect and no change of its state,
  so that it would drop any number of them.
\<close>

theorem change_during_a_request_is_lost:
  "\<exists>(s :: (v4l2_world, unit, unit) session) c. session_reachable sample_codec sample_json s \<and>
     transport_client (phone s) = Some c \<and> to_desk s = [] \<and> to_phone s = [] \<and>
     tx_queue (tc_connection c) = [] \<and> rx_queue (tc_connection c) = [] \<and>
     pending (desk s) = None \<and> tc_pending c = None \<and>
     tc_active c = HEVC_720P30 \<and> active (desk s) = H264_720P30 \<and>
     (\<forall>data pts cd w h key.
        fst (phonecam_send_video_frame data pts cd w h key (phone s)) \<longleftrightarrow>
          (\<exists>b bs. data = Some (b # bs)) \<and> cd = video_codec_as_u8 Hevc \<and> w = 1280 \<and> h = 720) \<and>
     (\<forall>b bs pts key. \<exists>p' c' f.
        phonecam_send_video_frame (Some (b # bs)) pts (video_codec_as_u8 Hevc) 1280 720 key (phone s) = (True, p') \<and>
        transport_client p' = Some c' \<and> tx_queue (tc_connection c') = [Msg_VideoFrame f] \<and>
        vf_data f = b # bs \<and> is_keyframe f = key \<and>
        (\<forall>a. actor_step a (PeerMessage (Some (Msg_VideoFrame f))) (desk s) = ([], Continue (desk s))))"
proof -
  let ?r = "result_message 0 (Applied HEVC_720P30)" and ?n = "result_message 1 CaptureConfigurationFailed"
  let ?last = "phone_at [?r, ?n] [] [hevc_asked] [] HEVC_720P30 None" and ?desk = "sample_desk\<lparr>request_counter := 1\<rparr>"
  let ?s = "sess ?last ?desk [] []"
  have "session_run sample_codec sample_json
      [DeskTurns good (Command (Some (command_for HEVC_720P30 PreferAuto 7))), PhoneCalls (report_hevc 0),
       PhoneReceives, PhoneCalls PollCommand, PhoneCalls refuse_one, PhoneTransmits, PhoneTransmits,
       DeskReceives good, DeskReceives good]
      (sess (phone_at [] [] [] [] H264_720P30 None) sample_desk [] []) = Some ?s"
    by (simp del: session_step.simps add: session_asks session_receives session_transmits session_polls
        session_applies session_refuses session_delivers [OF desk_ignores] session_delivers [OF desk_is_refused])
  from session_run_reachable [OF this] session_reachable.begins [OF sample_session_begins]
  have reach: "session_reachable sample_codec sample_json ?s"
    by (simp add: sample_session_def phone_start)
  have hevc: "codec HEVC_720P30 = Hevc" "width HEVC_720P30 = 1280" "height HEVC_720P30 = 720"
    by (simp_all add: HEVC_720P30_def)
  have dropped: "actor_step a (PeerMessage (Some (Msg_VideoFrame f))) ?desk = ([], Continue ?desk)"
    if "vf_codec f = Hevc" for a f
  proof -
    have "\<not> is_ok (frame_validate_against f (active ?desk))"
      using that by (simp add: sample_desk_def sample_state_def H264_720P30_def)
    then show ?thesis by (simp add: actor_step_def on_message_def on_video_frame_def del: is_ok_frame_validate)
  qed
  have sent: "\<exists>p' c' f. phonecam_send_video_frame (Some (b # bs)) pts (video_codec_as_u8 Hevc) 1280 720 key ?last = (True, p') \<and>
      transport_client p' = Some c' \<and> tx_queue (tc_connection c') = [Msg_VideoFrame f] \<and>
      vf_data f = b # bs \<and> is_keyframe f = key \<and>
      (\<forall>a. actor_step a (PeerMessage (Some (Msg_VideoFrame f))) ?desk = ([], Continue ?desk))" for b bs pts key
  proof -
    let ?f = "\<lparr>vf_data = b # bs, pts_us = pts, vf_codec = Hevc, vf_width = 1280, vf_height = 720, is_keyframe = key\<rparr>"
    obtain c' where "transport_client (phone_at [?r, ?n] [Msg_VideoFrame ?f] [hevc_asked] [] HEVC_720P30 None) = Some c'"
        "tx_queue (tc_connection c') = [Msg_VideoFrame ?f]"
      using phone_client by metis
    then show ?thesis
      using phone_accepts(2) [of "[]" b bs pts HEVC_720P30 key "[?r, ?n]" "[hevc_asked]" "[]" None] dropped [of ?f]
      by (simp add: hevc)
  qed
  obtain c where c: "transport_client ?last = Some c" "tx_queue (tc_connection c) = []"
      "rx_queue (tc_connection c) = []" "tc_active c = HEVC_720P30" "tc_pending c = None"
    using phone_client by metis
  have "pending ?desk = None" "active ?desk = H264_720P30" by (simp_all add: sample_desk_def sample_state_def)
  then show ?thesis
    using reach c sent phone_accepts(1) [of "[]"] by (intro exI [of _ ?s] exI [of _ c]) (simp add: hevc)
qed

end
