(* ===== verification/Wired_Claims.thy ===== *)
theory Wired_Claims
  imports Wired Session_Claims
begin

text \<open>
  What holds between the phone and the desktop over the bytes of their connection: every run
  is one of the session's, and when nothing is on the way in a smooth one, both ends agree.
\<close>

section \<open>A sample run\<close>

definition link_codec :: bincode where
  "link_codec = (table_bincode [] [(\<lparr>status = KEEPALIVE_PING\<rparr>, [4])])
     \<lparr>bc_camera_control := table_serde [(ConfigureStream 1 HEVC_720P30, [7])],
      bc_stream_configuration_result := table_serde [(\<lparr>request_id = 1, outcome = Applied HEVC_720P30\<rparr>, [8])]\<rparr>"

lemma link_codec_ok: "bincode_ok link_codec"
  using table_bincode_ok [of "[]" "[(\<lparr>status = KEEPALIVE_PING\<rparr>, [4])]"]
  by (simp add: link_codec_def bincode_ok_def table_serde_ok)

lemma link_frames:
  "encode_frame link_codec hevc_asked = Ok [0, 0, 0, 2, 4, 7]"
  "encode_frame link_codec (result_message 1 (Applied HEVC_720P30)) = Ok [0, 0, 0, 2, 7, 8]"
  "encode_frame link_codec ping_message = Ok [0, 0, 0, 2, 5, 4]"
  by (simp_all add: encode_frame_def link_codec_def hevc_asked_def configure_message_def result_message_def
      ping_message_def KEEPALIVE_PING_def table_bincode_def table_serde_def
      encode_payload_def u32_try_from_usize_def frame_constants checked_add_usize_def
      to_be_bytes_def to_le_bytes_def upt_rec)

lemma link_written:
  "written link_codec (Outbound (Some hevc_asked)) bytes = Some (bytes @ [0, 0, 0, 2, 4, 7])"
  "written link_codec (Outbound (Some (result_message 1 (Applied HEVC_720P30)))) bytes = Some (bytes @ [0, 0, 0, 2, 7, 8])"
  "written link_codec KeepaliveTick bytes = Some (bytes @ [0, 0, 0, 2, 5, 4])"
  by (simp_all add: written_def write_message_def link_frames)

lemma received_frame:
  assumes "encode_frame link_codec m = Ok bs" "\<not> is_handshake m"
  shows "received link_codec (bs @ rest) = Some (forwarded m, rest)"
  using assms by (simp add: received_def reader_step_message [OF link_codec_ok assms(1)])

lemma link_received:
  "received link_codec [0, 0, 0, 2, 4, 7] = Some (Some hevc_asked, [])"
  "received link_codec [0, 0, 0, 2, 7, 8] = Some (Some (result_message 1 (Applied HEVC_720P30)), [])"
  "received link_codec ([0, 0, 0, 2, 5, 4] @ rest) = Some (None, rest)"
  using received_frame [OF link_frames(1), of "[]"] received_frame [OF link_frames(2), of "[]"]
    received_frame [OF link_frames(3), of rest]
  by (simp_all add: forwarded_def hevc_asked_def configure_message_def result_message_def is_handshake_def ping_message_def)

lemma link_call:
  "\<forall>d h prt c. ev \<noteq> TransportInit d h prt c \<Longrightarrow> mobile_step link_codec sample_json ev p = sample_call ev p"
  by (cases ev) auto

abbreviation wst ::
  "mobile_core \<Rightarrow> (v4l2_world, unit, unit) stream_actor \<Rightarrow> u8 list \<Rightarrow> message list \<Rightarrow> message list \<Rightarrow> u8 list \<Rightarrow>
   (v4l2_world, unit, unit) wired" where
  "wst p d up din dout down \<equiv> \<lparr>w_phone = p, w_desk = d, up_wire = up, desk_inbound = din, desk_outbound = dout,
     down_wire = down\<rparr>"

abbreviation link_step where
  "link_step \<equiv> wired_step link_codec sample_json"

abbreviation link_reachable :: "(v4l2_world, unit, unit) wired \<Rightarrow> bool" where
  "link_reachable \<equiv> wired_smooth_reachable link_codec sample_json"

lemma wired_asks:
  "link_step (Turns good (Command (Some (command_for HEVC_720P30 PreferAuto 7)))) (wst p sample_desk up din [] down) =
     Some (wst p desk_waiting up din [hevc_asked] down)"
  using desk_asks
  by (simp add: branch_enabled_def wired_turn_def sent_by_def OUTBOUND_CHANNEL_CAPACITY_def)
    (simp add: sample_desk_def sample_state_def)

lemma wired_desk_writes:
  "link_step DeskWrites (wst p d up din [hevc_asked] []) = Some (wst p d up din [] [0, 0, 0, 2, 4, 7])"
  by (simp add: link_written)

lemma wired_phone_pings: "link_step PhonePings (wst p d [] din dout down) = Some (wst p d [0, 0, 0, 2, 5, 4] din dout down)"
  by (simp add: link_written)

lemma wired_phone_receives:
  "link_step PhoneReads (wst (phone_at sent txq taken [] act pend) d up din dout [0, 0, 0, 2, 4, 7]) =
     Some (wst (phone_at sent txq taken [hevc_asked] act pend) d up din dout [])"
  using phone_client [of sent txq taken "[]" act pend] phone_receives [of "[]" hevc_asked sent txq taken act pend]
  by (auto simp: link_received INBOUND_CHANNEL_CAPACITY_def simp del: mobile_step.simps)
    (simp_all add: link_call)

lemma wired_calls:
  assumes "within_connection call" "snd (sample_call call p) = p'"
  shows "link_step (Calls call) (wst p d up din dout down) = Some (wst p' d up din dout down)"
proof -
  have "\<forall>x h prt c. call \<noteq> TransportInit x h prt c" using assms(1) by (auto simp: within_connection_def)
  with assms show ?thesis by (simp add: link_call del: mobile_step.simps)
qed

lemma wired_phone_writes_result:
  "link_step PhoneWrites (wst (phone_at sent [result_message 1 (Applied HEVC_720P30)] taken rxq act pend) d up din dout down) =
     Some (wst (phone_at (sent @ [result_message 1 (Applied HEVC_720P30)]) [] taken rxq act pend) d
       (up @ [0, 0, 0, 2, 7, 8]) din dout down)"
  using phone_client [of sent "[result_message 1 (Applied HEVC_720P30)]" taken rxq act pend]
    phone_transmits [of sent "result_message 1 (Applied HEVC_720P30)" "[]" taken rxq act pend]
  by (auto simp: link_written simp del: mobile_step.simps) (simp_all add: link_call del: mobile_step.simps)

lemma wired_desk_reads:
  "link_step DeskReads (wst p d ([0, 0, 0, 2, 5, 4] @ up) din dout down) = Some (wst p d up din dout down)"
  "link_step DeskReads (wst p d [0, 0, 0, 2, 7, 8] [] dout down) =
     Some (wst p d [] [result_message 1 (Applied HEVC_720P30)] dout down)"
  using link_received(3) [of up] by (simp_all add: link_received INBOUND_CHANNEL_CAPACITY_def)

lemma wired_desk_takes:
  "link_step (Takes good) (wst p desk_waiting up [result_message 1 (Applied HEVC_720P30)] dout down) =
     (if length dout \<le> 8 then Some (wst p desk_switched up [] dout down) else None)"
  using desk_adopts by (simp add: wired_turn_def sent_by_def OUTBOUND_CHANNEL_CAPACITY_def publish_def)

text \<open>A change of codec over the wire, a ping before its answer.\<close>

lemma wired_switch:
  "link_reachable (wst (phone_at [result_message 1 (Applied HEVC_720P30)] [] [hevc_asked] [] HEVC_720P30 None)
     desk_switched [] [] [] [])"
proof -
  let ?r = "result_message 1 (Applied HEVC_720P30)" and ?ping = "[0, 0, 0, 2, 5, 4] :: u8 list"
  have quiet: "\<not> compensating desk_waiting" "\<not> compensating desk_switched"
    by (simp_all add: compensating_def desk_waiting_def desk_switched_def sample_desk_def sample_state_def)
  note step = wired_smooth_reachable.smooth_wired_steps
  have "link_reachable (wst (phone_at [] [] [] [] H264_720P30 None) sample_desk [] [] [] [])"
    using wired_smooth_reachable.smooth_wired_begins [OF sample_session_begins]
    by (simp add: sample_session_def phone_start wired_of_def)
  from step [OF this _ wired_asks]
  have "link_reachable (wst (phone_at [] [] [] [] H264_720P30 None) desk_waiting [] [] [hevc_asked] [])"
    using quiet by (simp add: wired_smooth_def)
  from step [OF step [OF this _ wired_desk_writes] _ wired_phone_pings]
  have "link_reachable (wst (phone_at [] [] [] [] H264_720P30 None) desk_waiting ?ping [] [] [0, 0, 0, 2, 4, 7])"
    using quiet by (simp add: wired_smooth_def)
  from step [OF this _ wired_phone_receives]
  have "link_reachable (wst (phone_at [] [] [] [hevc_asked] H264_720P30 None) desk_waiting ?ping [] [] [])"
    using quiet by (simp add: wired_smooth_def)
  from step [OF this _ wired_calls [OF calls_within(1) phone_polls]]
  have "link_reachable (wst (phone_at [] [] [hevc_asked] [] H264_720P30 (Some (1, HEVC_720P30))) desk_waiting ?ping [] [] [])"
    using quiet by (simp add: wired_smooth_def smooth_report_def)
  from step [OF this _ wired_calls [OF calls_within(2) phone_applies [of 1 None, folded report_hevc_def]]]
  have "link_reachable (wst (phone_at [] [?r] [hevc_asked] [] HEVC_720P30 None) desk_waiting ?ping [] [] [])"
    using quiet by (simp add: wired_smooth_def smooth_report_def report_hevc_def phone_at_def HEVC_720P30_def)
  from step [OF this _ wired_phone_writes_result]
  have "link_reachable (wst (phone_at [?r] [] [hevc_asked] [] HEVC_720P30 None) desk_waiting (?ping @ [0, 0, 0, 2, 7, 8]) [] [] [])"
    using quiet by (simp add: wired_smooth_def)
  from step [OF this _ wired_desk_reads(1)]
  have "link_reachable (wst (phone_at [?r] [] [hevc_asked] [] HEVC_720P30 None) desk_waiting [0, 0, 0, 2, 7, 8] [] [] [])"
    using quiet by (simp add: wired_smooth_def)
  from step [OF this _ wired_desk_reads(2)]
  have "link_reachable (wst (phone_at [?r] [] [hevc_asked] [] HEVC_720P30 None) desk_waiting [] [?r] [] [])"
    using quiet by (simp add: wired_smooth_def)
  from step [OF this, of "Takes good"] wired_desk_takes show ?thesis
    using quiet by (simp add: wired_smooth_def smooth_arrival_def result_message_def)
qed

lemma empty_wire_carries: "bincode_ok bc \<Longrightarrow> carries bc [] ms \<Longrightarrow> ms = []"
  using wire.send_nonempty [of bc] by (cases ms) (auto simp: carries_def result_eqs)

text \<open>What a smooth session with nothing on its way to the desktop means.\<close>

lemma quiet_session_agrees:
  assumes "bincode_ok bc" "smooth_reachable bc js s" "represents bc w s" "transport_client (w_phone w) = Some c"
    and "up_wire w = []" "desk_inbound w = []" "tx_queue (tc_connection c) = []"
  shows "tc_active c = active (w_desk w) \<and> tc_supported c = peer_profiles (w_desk w) \<and>
    (down_wire w = [] \<and> desk_outbound w = [] \<and> rx_queue (tc_connection c) = [] \<and> tc_pending c = None \<longrightarrow>
      pending (w_desk w) = None)"
proof -
  from assms(3,5,6) have td: "to_desk s = []"
    by (auto simp: represents_def dest: empty_wire_carries [OF assms(1)])
  from assms(3) have same: "phone s = w_phone w" "desk s = w_desk w" by (simp_all add: represents_def)
  have inv: "in_step c (w_desk w) [] (to_phone s)"
    using smooth_reachable_inv [OF assms(2)] assms(4) same td by (auto simp: session_inv_def)
  have "to_phone s = []" if "down_wire w = []" "desk_outbound w = []"
    using assms(3) that by (auto simp: represents_def dest: empty_wire_carries [OF assms(1)])
  with inv assms(7) show ?thesis
    by (auto simp: in_step_def tokens_def asked_token_def expected_def split: option.splits)
qed

section \<open>Properties\<close>

text \<open>
  C3. The transport implements the session's queues. In every run of phone, transport and desktop
  over bytes, keepalive pings included, the two ends are in states of a session whose queues
  hold exactly the messages that are buffered or on the wire: the bytes of each direction are
  the frames of some messages, which without the pings continue the buffered ones.
\<close>

theorem wired_runs_are_sessions:
  assumes "bincode_ok bc" "wired_reachable bc js w"
  shows "\<exists>s up down. session_reachable bc js s \<and> phone s = w_phone w \<and> desk s = w_desk w \<and>
    send_all (encode_frame bc) up = Ok (up_wire w) \<and>
    to_desk s = desk_inbound w @ [m \<leftarrow> up. m \<noteq> ping_message] \<and>
    send_all (encode_frame bc) down = Ok (down_wire w) \<and>
    to_phone s = [m \<leftarrow> down. m \<noteq> ping_message] @ desk_outbound w"
  using wires.represented [OF conjI [OF assms]] by (auto simp: represents_def carries_def payload_def)

theorem wired_runs_are_sessions_witness:
  "\<exists>s :: (v4l2_world, unit, unit) session. session_reachable link_codec sample_json s \<and> desk s = desk_switched \<and>
     to_desk s = [] \<and> to_phone s = []"
proof -
  have "wired_reachable link_codec sample_json (wst (phone_at [result_message 1 (Applied HEVC_720P30)] [] [hevc_asked] []
      HEVC_720P30 None) desk_switched [] [] [] [])"
    using smooth_among_wires.mapped [OF conjI [OF link_codec_ok wired_switch]] ..
  from wired_runs_are_sessions [OF link_codec_ok this]
  obtain s up down where "session_reachable link_codec sample_json s" "desk s = desk_switched"
      "send_all (encode_frame link_codec) up = Ok []" "to_desk s = [m \<leftarrow> up. m \<noteq> ping_message]"
      "send_all (encode_frame link_codec) down = Ok []" "to_phone s = [m \<leftarrow> down. m \<noteq> ping_message]"
    by auto
  moreover have "ms = []" if "send_all (encode_frame link_codec) ms = Ok []" for ms
    using that wire.send_nonempty [OF link_codec_ok] by (cases ms) (auto simp: result_eqs)
  ultimately show ?thesis by fastforce
qed

text \<open>
  When nothing is on its way to the desktop, neither buffered nor on the wire, then in every
  smooth run both ends hold the same active profile and the same profiles of the phone; and
  when nothing is on its way back either and the application has no request open, the desktop
  is waiting for none.
\<close>

theorem quiet_wires_mean_agreement:
  assumes "bincode_ok bc" "wired_smooth_reachable bc js w" "transport_client (w_phone w) = Some c"
    and "up_wire w = []" "desk_inbound w = []" "tx_queue (tc_connection c) = []"
  shows "tc_active c = active (w_desk w) \<and> tc_supported c = peer_profiles (w_desk w) \<and>
    (down_wire w = [] \<and> desk_outbound w = [] \<and> rx_queue (tc_connection c) = [] \<and> tc_pending c = None \<longrightarrow>
      pending (w_desk w) = None)"
  using smooth_wires.represented [OF conjI [OF assms(1,2)]] quiet_session_agrees [OF assms(1) _ _ assms(3-6)] by blast

theorem quiet_wires_mean_agreement_witness:
  "\<exists>c. transport_client (phone_at [result_message 1 (Applied HEVC_720P30)] [] [hevc_asked] [] HEVC_720P30 None) = Some c \<and>
     tc_active c = active desk_switched \<and> pending desk_switched = None"
proof -
  obtain c where "transport_client (phone_at [result_message 1 (Applied HEVC_720P30)] [] [hevc_asked] []
      HEVC_720P30 None) = Some c" "tx_queue (tc_connection c) = []" "rx_queue (tc_connection c) = []"
      "tc_pending c = None"
    using phone_client by metis
  with quiet_wires_mean_agreement [OF link_codec_ok wired_switch, of c] show ?thesis by auto
qed

end
