(* ===== verification/Settling.thy ===== *)
theory Settling
  imports Session_Claims
begin

text \<open>
  Progress of a session: from wherever a smooth session is, it can come to rest, in a number of
  steps that the messages on the way bound, and at rest both ends stand at the same profile.
  The session (\<open>Session\<close>) is that of \<open>rust/phonecam-mobile-core/src/lib.rs\<close> and of
  \<open>stream_connection\<close> in \<open>pipeline.rs\<close>.
\<close>

section \<open>Devices that take every change\<close>

text \<open>A device of which every commit of a profile of \<open>P\<close> succeeds, now and after any such commits.\<close>

coinductive accepting :: "stream_profile set \<Rightarrow> ('l, 'm, 'w) output_device \<Rightarrow> bool" for P where
  "\<forall>p \<in> P. \<exists>d'. output_commit d p = (Ok (), d') \<and> accepting P d' \<Longrightarrow> accepting P d"

lemma commit_accepted:
  assumes "accepting P d" "p \<in> P"
  obtains d' where "commit_and_reset good p d = ([ResetDecoder (codec p) True], Committed, d')" "accepting P d'"
proof -
  from assms obtain d' where "output_commit d p = (Ok (), d')" "accepting P d'"
    by (auto elim: accepting.cases)
  then show thesis by (intro that [of d']) (simp_all add: commit_and_reset_def good_def)
qed

section \<open>The desktop takes what arrives\<close>

lemma result_goes_on:
  assumes "actor_inv d" "\<not> compensating d" "accepting (set (local_profiles d)) (out_dev d)"
    and "expected (pending d) (answer_token (Msg_StreamConfigurationResult r) @ ts)"
    and "\<And>p. outcome r = Applied p \<Longrightarrow> p \<in> set (common d)"
  shows "\<exists>effs d'. on_configuration_result good r d = (effs, Continue d') \<and> \<not> compensating d' \<and>
    accepting (set (local_profiles d)) (out_dev d')"
proof (cases "\<exists>p. outcome r = Applied p")
  case True
  then obtain p where p: "outcome r = Applied p" ..
  with assms(1,5) have mem: "p \<in> set (common d)" "p \<in> set (local_profiles d)" by (auto simp: actor_inv_def)
  obtain d1 where commit: "commit_and_reset good p (out_dev d) = ([ResetDecoder (codec p) True], Committed, d1)"
      "accepting (set (local_profiles d)) d1"
    using commit_accepted [OF assms(3) mem(2)] .
  show ?thesis
  proof (cases "pending d")
    case None
    with assms(4) have "request_id r = 0" by (auto simp: expected_def answer_token_def split: if_splits)
    with None p mem commit show ?thesis
      by (simp add: on_configuration_result_def on_unsolicited_result_def Let_def compensating_def adopt_def)
  next
    case (Some cur)
    with assms(2) obtain prior rep where "pc_kind cur = Configure prior rep"
      by (cases "pc_kind cur") (auto simp: compensating_def)
    with Some p mem commit assms(2-4) show ?thesis
      by (auto simp: on_configuration_result_def on_configure_result_def accepts_applied_profile_iff Let_def
          compensating_def adopt_def expected_def answer_token_def split: if_splits)
  qed
next
  case False
  show ?thesis
  proof (cases "pending d")
    case None
    with False assms(2,3) show ?thesis
      by (cases "outcome r") (auto simp: on_configuration_result_def on_unsolicited_result_def)
  next
    case (Some cur)
    with assms(2) obtain prior rep where "pc_kind cur = Configure prior rep"
      by (cases "pc_kind cur") (auto simp: compensating_def)
    with False Some assms(2,3) show ?thesis
      by (cases "outcome r")
        (auto simp: on_configuration_result_def on_configure_result_def compensating_def)
  qed
qed

definition own_change :: "message \<Rightarrow> bool" where
  "own_change m \<longleftrightarrow> (\<exists>r. m = Msg_StreamConfigurationResult r \<and> request_id r = 0 \<and> (\<exists>p. outcome r = Applied p))"

text \<open>
  The desktop takes the next message, sends nothing, and waits for nothing it did not wait for
  before.
\<close>

lemma desk_goes_on:
  assumes inv: "in_step c d (m # td) tp" "actor_inv d" "\<not> compensating d"
    and "from_phone m" "accepting (set (local_profiles d)) (out_dev d)" "pending d = None \<or> \<not> own_change m"
  shows "\<exists>effs d'. actor_step good (PeerMessage (Some m)) d = (effs, Continue d') \<and> \<not> compensating d' \<and>
    accepting (set (local_profiles d)) (out_dev d') \<and> local_profiles d' = local_profiles d \<and>
    (pending d' = pending d \<or> pending d' = None) \<and> sent_by effs = [] \<and> smooth_arrival (m # td) d"
proof (cases m)
  case (Msg_VideoFrame f)
  with assms show ?thesis
    by (simp add: actor_step_def on_message_def on_video_frame_def good_def smooth_arrival_def compensating_def)
next
  case (Msg_VideoCapabilitiesUpdate u)
  with assms show ?thesis
    by (simp add: actor_step_def on_message_def on_capabilities_def smooth_arrival_def compensating_def Let_def)
next
  case (Msg_StreamConfigurationResult r)
  have arrival: "smooth_arrival (Msg_StreamConfigurationResult r # td) d"
    using assms(6) Msg_StreamConfigurationResult by (auto simp: smooth_arrival_def own_change_def)
  have exp: "expected (pending d) (answer_token (Msg_StreamConfigurationResult r) @ tokens c td tp)"
    using inv(1) Msg_StreamConfigurationResult by (simp add: in_step_def tokens_def)
  have com: "p \<in> set (common d)" if "outcome r = Applied p" for p
    using inv that Msg_StreamConfigurationResult
    by (auto simp: in_step_def actor_inv_def follow_message_def split: bind_splits if_splits)
  from result_goes_on [OF inv(2,3) assms(5) exp com] obtain effs d' where
      "on_configuration_result good r d = (effs, Continue d')" "\<not> compensating d'"
      "accepting (set (local_profiles d)) (out_dev d')"
    by blast
  with smooth_result [OF this(1) inv(2,3) this(2) exp com arrival] arrival Msg_StreamConfigurationResult show ?thesis
    by (auto simp: actor_step_def on_message_def split: if_splits)
qed (use assms(4) in \<open>simp_all add: from_phone_def\<close>)

section \<open>One step nearer to rest\<close>

text \<open>
  No change of the phone's own crosses a request, and what is left to do: a message on its way to
  the phone costs five steps at most, one in its queue four, a request with the application three.
\<close>

definition crossing_free :: "('l, 'm, 'w) session \<Rightarrow> bool" where
  "crossing_free s \<longleftrightarrow>
     pending (desk s) = None \<or>
     (\<forall>m \<in> set (to_desk s) \<union> (case transport_client (phone s) of None \<Rightarrow> {} | Some c \<Rightarrow> set (tx_queue (tc_connection c))).
        \<not> own_change m)"

definition client_left :: "transport_client \<Rightarrow> nat" where
  "client_left c =
     2 * length (tx_queue (tc_connection c)) + (if tc_pending c = None then 0 else 3) +
     4 * length (rx_queue (tc_connection c))"

definition way_left :: "('l, 'm, 'w) session \<Rightarrow> nat" where
  "way_left s = length (to_desk s) + 5 * length (to_phone s) +
     (case transport_client (phone s) of None \<Rightarrow> 0 | Some c \<Rightarrow> client_left c)"

definition settling :: "bincode \<Rightarrow> serde_json \<Rightarrow> ('l, 'm, 'w) session \<Rightarrow> bool" where
  "settling bc js s \<longleftrightarrow>
     smooth_reachable bc js s \<and> transport_client (phone s) \<noteq> None \<and> crossing_free s \<and>
     accepting (set (local_profiles (desk s))) (out_dev (desk s))"

lemma settling_facts:
  assumes "settling bc js s" "transport_client (phone s) = Some c"
  shows "in_step c (desk s) (to_desk s) (to_phone s)" "actor_inv (desk s)" "\<not> compensating (desk s)"
    "orderly_client c" "list_all from_phone (to_desk s)"
proof -
  have smooth: "smooth_reachable bc js s" using assms(1) by (simp add: settling_def)
  from smooth_reachable_inv [OF smooth] assms(2)
  show "in_step c (desk s) (to_desk s) (to_phone s)" "actor_inv (desk s)" "\<not> compensating (desk s)"
    by (simp_all add: session_inv_def)
  from session_reachable_orderly [OF smooth_sessions.mapped [OF smooth]] assms(2)
  show "orderly_client c" "list_all from_phone (to_desk s)" by (simp_all add: orderly_def)
qed

lemma settling_moves:
  assumes "settling bc js s" "smooth ev s" "session_step bc js ev s = Some s'" "\<not> compensating (desk s')"
    and "transport_client (phone s') \<noteq> None" "crossing_free s'"
    and "local_profiles (desk s') = local_profiles (desk s)"
    and "accepting (set (local_profiles (desk s))) (out_dev (desk s'))"
  shows "smooth_moves bc js s s' \<and> settling bc js s'"
  using assms smooth_reachable.smooth_step [OF _ assms(2-4)] by (auto simp: settling_def smooth_moves_def)

lemma settle_receive:
  assumes "settling bc js s" "to_desk s = m # ms"
  shows "\<exists>s'. smooth_moves bc js s s' \<and> settling bc js s' \<and> way_left s' < way_left s"
proof -
  obtain c where c: "transport_client (phone s) = Some c" using assms(1) by (auto simp: settling_def)
  note facts = settling_facts [OF assms(1) c, unfolded assms(2)]
  from assms c have free: "pending (desk s) = None \<or> \<not> own_change m" by (auto simp: settling_def crossing_free_def)
  have dev: "accepting (set (local_profiles (desk s))) (out_dev (desk s))" using assms(1) by (simp add: settling_def)
  from desk_goes_on [OF facts(1-3) _ dev free] facts(5) obtain effs d where
      d: "actor_step good (PeerMessage (Some m)) (desk s) = (effs, Continue d)" "\<not> compensating d"
        "accepting (set (local_profiles (desk s))) (out_dev d)" "local_profiles d = local_profiles (desk s)"
        "pending d = pending (desk s) \<or> pending d = None" "sent_by effs = []" "smooth_arrival (m # ms) (desk s)"
    by auto
  let ?s = "s\<lparr>to_desk := ms, desk := d\<rparr>"
  have "session_step bc js (DeskReceives good) s = Some ?s"
    using assms(2) d by (simp add: desk_turn_Some)
  moreover have "crossing_free ?s" using assms d(5) c by (auto simp: settling_def crossing_free_def)
  ultimately have "smooth_moves bc js s ?s \<and> settling bc js ?s"
    using c d assms by (intro settling_moves [where ev = "DeskReceives good"]) (simp_all add: smooth_def)
  then show ?thesis using assms(2) c by (intro exI [of _ ?s]) (simp add: way_left_def)
qed

text \<open>The steps of the phone keep the desktop as it is.\<close>

lemma settle_phone:
  assumes "settling bc js s" "smooth ev s" "session_step bc js ev s = Some s'" "desk s' = desk s"
    and "transport_client (phone s) = Some c" "transport_client (phone s') = Some c'"
    and "\<And>m. m \<in> set (to_desk s') \<union> set (tx_queue (tc_connection c')) \<Longrightarrow> own_change m \<Longrightarrow>
      m \<in> set (to_desk s) \<union> set (tx_queue (tc_connection c))"
    and "length (to_desk s') + 5 * length (to_phone s') + client_left c' <
      length (to_desk s) + 5 * length (to_phone s) + client_left c"
  shows "\<exists>s'. smooth_moves bc js s s' \<and> settling bc js s' \<and> way_left s' < way_left s"
proof -
  have "crossing_free s'"
    using assms(1,4-7) by (auto simp: settling_def crossing_free_def)
  with settling_facts(3) [OF assms(1,5)] assms have "smooth_moves bc js s s' \<and> settling bc js s'"
    by (intro settling_moves [OF assms(1-3)]) (simp_all add: settling_def)
  then show ?thesis using assms(5,6,8) by (intro exI [of _ s']) (simp add: way_left_def)
qed

lemma settle_transmit:
  assumes "settling bc js s" "transport_client (phone s) = Some c" "tx_queue (tc_connection c) = m # ms"
  shows "\<exists>s'. smooth_moves bc js s s' \<and> settling bc js s' \<and> way_left s' < way_left s"
proof -
  have "tx_open (tc_connection c)" using settling_facts(4) [OF assms(1,2)] by (simp add: orderly_client_def)
  with assms(2,3) show ?thesis
    by (intro settle_phone [OF assms(1), where ev = PhoneTransmits and c = c
        and c' = "c\<lparr>tc_connection := link_takes (tc_connection c)\<rparr>"
        and s' = "s\<lparr>phone := snd (mobile_step bc js LinkTakes (phone s)), to_desk := to_desk s @ [m]\<rparr>"])
      (auto simp: smooth_def on_link_def link_takes_def client_left_def)
qed

lemma settle_deliver:
  assumes "settling bc js s" "transport_client (phone s) = Some c" "to_phone s = m # ms"
    and "rx_queue (tc_connection c) = []"
  shows "\<exists>s'. smooth_moves bc js s s' \<and> settling bc js s' \<and> way_left s' < way_left s"
proof -
  have "rx_open (tc_connection c)" using settling_facts(4) [OF assms(1,2)] by (simp add: orderly_client_def)
  with assms(2-4) show ?thesis
    by (intro settle_phone [OF assms(1), where ev = PhoneReceives and c = c
        and c' = "c\<lparr>tc_connection := link_delivers m (tc_connection c)\<rparr>"
        and s' = "s\<lparr>phone := snd (mobile_step bc js (LinkDelivers m) (phone s)), to_phone := ms\<rparr>"])
      (auto simp: smooth_def on_link_def link_delivers_def client_left_def INBOUND_CHANNEL_CAPACITY_def)
qed

lemma settle_poll:
  assumes "settling bc js s" "transport_client (phone s) = Some c" "tc_pending c = None"
    and "rx_queue (tc_connection c) \<noteq> []"
  shows "\<exists>s'. smooth_moves bc js s s' \<and> settling bc js s' \<and> way_left s' < way_left s"
proof -
  from orderly_poll [OF assms(2) settling_facts(4) [OF assms(1,2)], of js] assms(3,4) obtain c' where
      c': "transport_client (snd (phonecam_poll_control_command_json js (phone s))) = Some c'"
        "tx_queue (tc_connection c') = tx_queue (tc_connection c)"
        "length (rx_queue (tc_connection c')) < length (rx_queue (tc_connection c))"
    by blast
  with assms show ?thesis
    by (intro settle_phone [OF assms(1), where ev = "PhoneCalls PollCommand" and c = c and c' = c'
        and s' = "s\<lparr>phone := snd (phonecam_poll_control_command_json js (phone s))\<rparr>"])
      (auto simp: smooth_def smooth_report_def within_connection_def client_left_def)
qed

text \<open>The application answers a request, if only with a refusal.\<close>

lemma settle_answer:
  assumes "settling bc js s" "transport_client (phone s) = Some c" "tc_pending c = Some (rid, p)"
    and "tx_queue (tc_connection c) = []"
  shows "\<exists>s'. smooth_moves bc js s s' \<and> settling bc js s' \<and> way_left s' < way_left s"
proof -
  note facts = settling_facts [OF assms(1,2)]
  let ?m = "Msg_StreamConfigurationResult \<lparr>request_id = rid, outcome = UnsupportedProfile\<rparr>"
  have "expected (pending (desk s)) (tokens c (to_desk s) (to_phone s))" using facts(1) by (simp add: in_step_def)
  then have "rid \<noteq> 0" using facts(2) assms(3)
    by (auto simp: expected_def tokens_def asked_token_def actor_inv_def append_eq_Cons_conv Cons_eq_append_conv
        split: option.splits)
  moreover have "tx_open (tc_connection c)" using facts(4) by (simp add: orderly_client_def)
  ultimately have "transport_client (snd (phonecam_report_stream_configuration rid 1 0 0 0 0 (phone s))) =
      Some (c\<lparr>tc_connection := (tc_connection c)\<lparr>tx_queue := [?m]\<rparr>, tc_pending := None\<rparr>)"
    using assms(2-4)
    by (simp add: phonecam_report_stream_configuration_def reported_outcome_def try_enqueue_def
        OUTBOUND_CHANNEL_CAPACITY_def)
  with assms(2-4) show ?thesis
    by (intro settle_phone [OF assms(1), where ev = "PhoneCalls (ReportConfiguration rid 1 0 0 0 0)" and c = c
        and c' = "c\<lparr>tc_connection := (tc_connection c)\<lparr>tx_queue := [?m]\<rparr>, tc_pending := None\<rparr>"
        and s' = "s\<lparr>phone := snd (phonecam_report_stream_configuration rid 1 0 0 0 0 (phone s))\<rparr>"])
      (auto simp: smooth_def smooth_report_def within_connection_def client_left_def own_change_def)
qed

lemma settle_step:
  assumes "settling bc js s" "way_left s \<noteq> 0"
  shows "\<exists>s'. smooth_moves bc js s s' \<and> settling bc js s' \<and> way_left s' < way_left s"
proof -
  obtain c where c: "transport_client (phone s) = Some c" using assms(1) by (auto simp: settling_def)
  show ?thesis
  proof (cases "to_desk s")
    case Nil
    with assms c show ?thesis
      using settle_transmit [OF assms(1) c] settle_answer [OF assms(1) c] settle_poll [OF assms(1) c]
        settle_deliver [OF assms(1) c]
      by (cases "tx_queue (tc_connection c)"; cases "tc_pending c"; cases "rx_queue (tc_connection c)";
          cases "to_phone s") (auto simp: way_left_def client_left_def)
  qed (rule settle_receive [OF assms(1)])
qed

lemma settles:
  assumes "settling bc js s"
  shows "\<exists>n s'. n \<le> way_left s \<and> (smooth_moves bc js ^^ n) s s' \<and> settling bc js s' \<and> way_left s' = 0"
  using assms
proof (induction "way_left s" arbitrary: s rule: less_induct)
  case less
  show ?case
  proof (cases "way_left s = 0")
    case True
    with less.prems show ?thesis by (intro exI [of _ 0] exI [of _ s]) simp
  next
    case False
    from settle_step [OF less.prems this] obtain s1 where
        s1: "smooth_moves bc js s s1" "settling bc js s1" "way_left s1 < way_left s" by blast
    from less.hyps [OF s1(3,2)] obtain n s' where
        "n \<le> way_left s1" "(smooth_moves bc js ^^ n) s1 s'" "settling bc js s'" "way_left s' = 0" by blast
    with s1 show ?thesis
      by (intro exI [of _ "Suc n"] exI [of _ s']) (simp add: relpowp_Suc_I2 del: relpowp.simps)
  qed
qed

section \<open>Properties\<close>

text \<open>
  C6. A smooth session can always come to rest: unless a change of the phone's own crosses a request,
  and when the output takes the changes it is asked for, there is a smooth continuation, of no more
  steps than the messages on the way cost, after which nothing is on the way or with the
  application, the desktop waits for no request, and both ends hold the same active profile and the
  same profiles of the phone.
\<close>

theorem smooth_sessions_can_settle:
  assumes "smooth_reachable bc js s" "transport_client (phone s) \<noteq> None" "crossing_free s"
    and "accepting (set (local_profiles (desk s))) (out_dev (desk s))"
  shows "\<exists>n s' c. n \<le> way_left s \<and> (smooth_moves bc js ^^ n) s s' \<and> transport_client (phone s') = Some c \<and>
    to_desk s' = [] \<and> to_phone s' = [] \<and> tx_queue (tc_connection c) = [] \<and> rx_queue (tc_connection c) = [] \<and>
    tc_pending c = None \<and> pending (desk s') = None \<and>
    active (desk s') = tc_active c \<and> peer_profiles (desk s') = tc_supported c"
proof -
  have "settling bc js s" using assms by (simp add: settling_def)
  from settles [OF this] obtain n s' where run: "n \<le> way_left s" "(smooth_moves bc js ^^ n) s s'"
    and rest: "settling bc js s'" "way_left s' = 0" by blast
  obtain c where c: "transport_client (phone s') = Some c" using rest(1) by (auto simp: settling_def)
  have quiet: "to_desk s' = []" "to_phone s' = []" "tx_queue (tc_connection c) = []"
      "rx_queue (tc_connection c) = []" "tc_pending c = None"
    using rest(2) c by (simp_all add: way_left_def client_left_def split: if_splits)
  have "pending (desk s') = None" "active (desk s') = tc_active c" "peer_profiles (desk s') = tc_supported c"
    using settling_facts(1) [OF rest(1) c] quiet
    by (auto simp: in_step_def tokens_def asked_token_def expected_def split: option.splits)
  with run c quiet show ?thesis by blast
qed

lemma sample_output_accepts: "accepting {HEVC_720P30, H264_720P30} (LinuxDevice sample_v4l2 out)"
proof (coinduction arbitrary: out)
  case accepting
  have "\<exists>out'. linux_commit sample_v4l2 out p = (Ok (), out')" if "p \<in> {HEVC_720P30, H264_720P30}" for p
    using that by (auto simp: HEVC_720P30_def sample_linux_simps)
  then show ?case by fastforce
qed

theorem smooth_sessions_can_settle_witness:
  "\<exists>n s' c. n \<le> 5 \<and>
     (smooth_moves sample_codec sample_json ^^ n)
       (sess (phone_at [] [] [] [] H264_720P30 None) desk_waiting [] [hevc_asked]) s' \<and>
     transport_client (phone s') = Some c \<and> to_phone s' = [] \<and> pending (desk s') = None \<and>
     active (desk s') = tc_active c"
proof -
  let ?s = "sess (phone_at [] [] [] [] H264_720P30 None) desk_waiting [] [hevc_asked]"
  have client: "transport_client (phone ?s) \<noteq> None" and free: "crossing_free ?s" and left: "way_left ?s = 5"
    by (simp_all add: phone_at_simps crossing_free_def way_left_def client_left_def)
  have "accepting (set (local_profiles (desk ?s))) (out_dev (desk ?s))"
    using sample_output_accepts by (simp add: desk_waiting_def sample_desk_def sample_state_def)
  from smooth_sessions_can_settle [OF smooth_asked client free this] show ?thesis
    unfolding left by blast
qed

end
