(* ===== verification/Playback.thy ===== *)
theory Playback
  imports Stream_Properties
begin

text \<open>
  The connection actor together with its decode worker: \<open>stream_connection\<close> in
  \<open>pipeline.rs\<close> over \<open>DecodeWorker\<close> in \<open>decode.rs\<close>.

  The actor's model takes what the decoder answers as an argument; here these answers come
  from the worker's model. A turn of the loop that calls \<open>reset\<close> is suspended until the worker
  acknowledges it, and only the decoder's thread moves meanwhile. When the loop ends, in
  whatever way, the worker is dropped.
\<close>

section \<open>The state and its steps\<close>

datatype player_phase = Playing | InReset actor_input | Over

record ('l, 'm, 'w, 'd, 'h) player =
  pl_actor :: "('l, 'm, 'w) stream_actor"
  pl_worker :: "('d, 'h) worker"
  pl_phase :: player_phase

primrec reset_of :: "effect \<Rightarrow> video_codec option" where
  "reset_of (Send m) = None"
| "reset_of (Reply t r) = None"
| "reset_of (Status st) = None"
| "reset_of (ResetDecoder c ok) = Some c"
| "reset_of (SubmitFrame f ok) = None"
| "reset_of (WriteFrame f ok) = None"

primrec submit_effect :: "effect \<Rightarrow> ('d, 'h) worker \<Rightarrow> ('d, 'h) worker" where
  "submit_effect (Send m) w = w"
| "submit_effect (Reply t r) w = w"
| "submit_effect (Status st) w = w"
| "submit_effect (ResetDecoder c ok) w = w"
| "submit_effect (SubmitFrame f ok) w = fst (try_send f w)"
| "submit_effect (WriteFrame f ok) w = w"

text \<open>A decoder event is one that \<open>recv\<close> answers; a frame fits when \<open>try_send\<close> takes it.\<close>

definition worker_after_input :: "actor_input \<Rightarrow> ('d, 'h) worker \<Rightarrow> ('d, 'h) worker option" where
  "worker_after_input inp w =
     (case inp of
        DecoderEvent ev \<Rightarrow>
          (case recv_event w of
             None \<Rightarrow> None
           | Some (w', received) \<Rightarrow> if ev = received then Some w' else None)
      | _ \<Rightarrow> Some w)"

definition answers_of :: "answers \<Rightarrow> actor_input \<Rightarrow> ('d, 'h) worker \<Rightarrow> answers" where
  "answers_of a inp w =
     (case inp of
        PeerMessage (Some (Msg_VideoFrame f)) \<Rightarrow> a\<lparr>queue_has_room := is_ok (snd (try_send f w))\<rparr>
      | _ \<Rightarrow> a)"

definition reset_error :: "(unit, decode_error) result \<Rightarrow> decode_error option" where
  "reset_error r = (case r of Err e \<Rightarrow> Some e | _ \<Rightarrow> None)"

definition finish_turn ::
  "effect list \<times> ('l, 'm, 'w) output_device flow \<Rightarrow> ('d, 'h) worker \<Rightarrow> ('l, 'm, 'w, 'd, 'h) player \<Rightarrow>
   effect list \<times> ('l, 'm, 'w, 'd, 'h) player" where
  "finish_turn ef w p =
     (let w' = fold submit_effect (fst ef) w
      in (fst ef,
          case snd ef of
            Continue s \<Rightarrow> p\<lparr>pl_actor := s, pl_worker := w', pl_phase := Playing\<rparr>
          | _ \<Rightarrow> p\<lparr>pl_worker := worker_drop w', pl_phase := Over\<rparr>))"

definition take_turn ::
  "answers \<Rightarrow> actor_input \<Rightarrow> ('d, 'h) worker \<Rightarrow> ('l, 'm, 'w, 'd, 'h) player \<Rightarrow>
   (effect list \<times> ('l, 'm, 'w, 'd, 'h) player) option" where
  "take_turn a inp w p =
     (let turn = actor_step a inp (pl_actor p)
      in case find_map reset_of (fst turn) of
           None \<Rightarrow> Some (finish_turn turn w p)
         | Some c \<Rightarrow>
             (case reset_begin c w of
                None \<Rightarrow> None
              | Some (w', None) \<Rightarrow> Some ([], p\<lparr>pl_worker := w', pl_phase := InReset inp\<rparr>)
              | Some (w', Some e) \<Rightarrow>
                  Some (finish_turn (actor_step (a\<lparr>reset_answer := Some e\<rparr>) inp (pl_actor p)) w' p)))"

datatype player_event = Turn answers actor_input | ThreadRuns | ResetReturns answers

primrec player_step ::
  "'d openh264 \<Rightarrow> ('h, 'n) rust_h265 \<Rightarrow> player_event \<Rightarrow> ('l, 'm, 'w, 'd, 'h) player \<Rightarrow>
   (effect list \<times> ('l, 'm, 'w, 'd, 'h) player) option" where
  "player_step api hapi (Turn a inp) p =
     (if pl_phase p = Playing \<and> branch_enabled inp (pl_actor p)
      then Option.bind (worker_after_input inp (pl_worker p))
             (\<lambda>w. take_turn (answers_of a inp w) inp w p)
      else None)"
| "player_step api hapi ThreadRuns p =
     map_option (\<lambda>w. ([], p\<lparr>pl_worker := w\<rparr>)) (thread_step api hapi (pl_worker p))"
| "player_step api hapi (ResetReturns a) p =
     (case pl_phase p of
        InReset inp \<Rightarrow>
          (case reset_end (pl_worker p) of
             None \<Rightarrow> None
           | Some (w, r) \<Rightarrow>
               Some (finish_turn (actor_step (a\<lparr>reset_answer := reset_error r\<rparr>) inp (pl_actor p)) w p))
      | _ \<Rightarrow> None)"

text \<open>
  The start: the worker is made and reset to the active codec before the loop is entered. The
  frames accepted since the last successful reset are kept beside the state.
\<close>

primrec accept_effect :: "effect \<Rightarrow> video_frame list \<Rightarrow> video_frame list" where
  "accept_effect (Send m) fs = fs"
| "accept_effect (Reply t r) fs = fs"
| "accept_effect (Status st) fs = fs"
| "accept_effect (ResetDecoder c ok) fs = (if ok then [] else fs)"
| "accept_effect (SubmitFrame f ok) fs = (if ok then fs @ [f] else fs)"
| "accept_effect (WriteFrame f ok) fs = fs"

inductive player_reachable ::
  "'d openh264 \<Rightarrow> ('h, 'n) rust_h265 \<Rightarrow> video_frame list \<Rightarrow> ('l, 'm, 'w, 'd, 'h) player \<Rightarrow> bool"
  for api hapi where
  starts: "decoder_start api hapi = Ok d0 \<Longrightarrow>
    actor_start (Ok ()) a h dev local = (effs, Continue s) \<Longrightarrow>
    worker_run api hapi [ResetBegin (codec (active s)), Thread] (worker_new d0) = Some w0 \<Longrightarrow>
    reset_end w0 = Some (w, Ok ()) \<Longrightarrow>
    player_reachable api hapi [] \<lparr>pl_actor = s, pl_worker = w, pl_phase = Playing\<rparr>"
| steps: "player_reachable api hapi fs p \<Longrightarrow> player_step api hapi ev p = Some (effs, p') \<Longrightarrow>
    player_reachable api hapi (fold accept_effect effs fs) p'"

section \<open>What a turn does to the decoder\<close>

primrec submit_of :: "effect \<Rightarrow> (video_frame \<times> bool) list" where
  "submit_of (Send m) = []"
| "submit_of (Reply t r) = []"
| "submit_of (Status st) = []"
| "submit_of (ResetDecoder c ok) = []"
| "submit_of (SubmitFrame f ok) = [(f, ok)]"
| "submit_of (WriteFrame f ok) = []"

definition submits :: "effect list \<Rightarrow> (video_frame \<times> bool) list" where
  "submits effs = concat (map submit_of effs)"

lemma submits_simps [simp]:
  "submits [] = []" "submits (e # effs) = submit_of e @ submits effs"
  "submits (effs @ effs') = submits effs @ submits effs'"
  "submits (reply_to rep r) = []" "submit_of (publish s) = []"
  by (simp_all add: submits_def publish_def) (cases rep; simp)

lemma resets_append [simp]:
  "find_map reset_of (effs @ effs') =
     (case find_map reset_of effs of Some c \<Rightarrow> Some c | None \<Rightarrow> find_map reset_of effs')"
  by (induction effs) (auto split: option.splits)

text \<open>Effects without a reset and with the given submissions.\<close>

lemma fold_submit:
  "fold submit_effect effs w = fold (\<lambda>(f, ok) w. fst (try_send f w)) (submits effs) w"
proof (induction effs arbitrary: w)
  case (Cons e effs)
  then show ?case by (cases e) simp_all
qed simp

lemma fold_accept:
  "find_map reset_of effs = None \<Longrightarrow>
   fold accept_effect effs fs = fs @ map fst (filter snd (submits effs))"
proof (induction effs arbitrary: fs)
  case (Cons e effs)
  then show ?case by (cases e) (simp_all split: option.splits)
qed simp

lemma commit_and_reset_shape:
  "commit_and_reset a p d = (effs, oc, d') \<Longrightarrow>
   (effs = [] \<and> oc \<noteq> Committed \<and> (\<forall>a'. commit_and_reset a' p d = (effs, oc, d'))) \<or>
   (effs = [ResetDecoder (codec p) (reset_answer a = None)] \<and>
    oc = (case reset_answer a of None \<Rightarrow> Committed | Some e \<Rightarrow> CommitFailure (DecoderResetFailed e)))"
  by (auto simp: commit_and_reset_def split: prod.splits result.splits option.splits)

text \<open>Effects that do not touch the decoder.\<close>

definition off_decoder :: "effect list \<Rightarrow> bool" where
  "off_decoder effs \<longleftrightarrow> list_all (\<lambda>e. submit_of e = [] \<and> reset_of e = None) effs"

lemma off_decoder_simps [simp]:
  "off_decoder []" "off_decoder (Send m # effs) = off_decoder effs" "off_decoder (Reply t r # effs) = off_decoder effs"
  "off_decoder (Status st # effs) = off_decoder effs" "off_decoder (WriteFrame n ok # effs) = off_decoder effs"
  "off_decoder (effs @ effs') \<longleftrightarrow> off_decoder effs \<and> off_decoder effs'"
  "off_decoder (reply_to rep r)" "off_decoder (publish s # effs) = off_decoder effs"
  by (simp_all add: off_decoder_def publish_def) (cases rep; simp)

lemma off_decoder_effects:
  assumes "off_decoder effs"
  shows "submits effs = []" "find_map reset_of effs = None" "fold accept_effect effs fs = fs"
proof -
  show "submits effs = []" using assms by (simp add: off_decoder_def submits_def list_all_iff)
  moreover show none: "find_map reset_of effs = None"
    using assms by (induction effs) (simp_all add: off_decoder_def)
  ultimately show "fold accept_effect effs fs = fs" by (simp add: fold_accept)
qed

lemma request_off_decoder:
  assumes "request_configuration a p kind s = (effs, fl)"
  shows "off_decoder effs" "fl = Continue s' \<Longrightarrow> active s' = active s"
  using assms by (auto simp: request_configuration_def Let_def split: if_splits)

text \<open>
  The three ways a turn ends as far as the decoder is concerned: a frame is offered to it, it
  is reset, or it is left alone.
\<close>

definition leaves_decoder :: "'d actor \<Rightarrow> effect list \<Rightarrow> 'd flow \<Rightarrow> bool" where
  "leaves_decoder s effs fl \<longleftrightarrow>
     submits effs = [] \<and> find_map reset_of effs = None \<and> (\<forall>s'. fl = Continue s' \<longrightarrow> active s' = active s)"

definition resets_decoder :: "answers \<Rightarrow> 'd actor \<Rightarrow> video_codec \<Rightarrow> effect list \<Rightarrow> 'd flow \<Rightarrow> bool" where
  "resets_decoder a s c effs fl \<longleftrightarrow>
     submits effs = [] \<and> find_map reset_of effs = Some c \<and>
     (\<forall>fs. fold accept_effect effs fs = (if reset_answer a = None then [] else fs)) \<and>
     (\<forall>s'. fl = Continue s' \<longrightarrow>
        (if reset_answer a = None then codec (active s') = c else active s' = active s))"

definition offers_frame :: "answers \<Rightarrow> actor_input \<Rightarrow> 'd actor \<Rightarrow> effect list \<Rightarrow> 'd flow \<Rightarrow> bool" where
  "offers_frame a inp s effs fl \<longleftrightarrow>
     (\<exists>f. inp = PeerMessage (Some (Msg_VideoFrame f)) \<and> is_ok (frame_validate_against f (active s)) \<and>
        submits effs = [(f, queue_has_room a)]) \<and>
     find_map reset_of effs = None \<and> (\<forall>s'. fl = Continue s' \<longrightarrow> active s' = active s)"

definition uses_decoder :: "answers \<Rightarrow> actor_input \<Rightarrow> 'd actor \<Rightarrow> effect list \<Rightarrow> 'd flow \<Rightarrow> bool" where
  "uses_decoder a inp s effs fl \<longleftrightarrow>
     leaves_decoder s effs fl \<or> (\<exists>c. resets_decoder a s c effs fl) \<or> offers_frame a inp s effs fl"

lemma off_leaves:
  "off_decoder effs \<Longrightarrow> (\<And>s'. fl = Continue s' \<Longrightarrow> active s' = active s) \<Longrightarrow> uses_decoder a inp s effs fl"
  by (simp add: uses_decoder_def leaves_decoder_def off_decoder_effects)

lemma commit_uses_decoder:
  assumes "commit_and_reset a p d = (effs1, oc, d')" "off_decoder effs2"
    and "\<And>s'. oc = Committed \<Longrightarrow> fl = Continue s' \<Longrightarrow> active s' = p"
    and "\<And>s'. oc \<noteq> Committed \<Longrightarrow> fl = Continue s' \<Longrightarrow> active s' = active s"
  shows "uses_decoder a inp s (effs1 @ effs2) fl"
  using commit_and_reset_shape [OF assms(1)]
proof
  assume "effs1 = [] \<and> oc \<noteq> Committed \<and> (\<forall>a'. commit_and_reset a' p d = (effs1, oc, d'))"
  with assms(2,4) show ?thesis by (intro off_leaves) simp_all
next
  assume reset: "effs1 = [ResetDecoder (codec p) (reset_answer a = None)] \<and>
    oc = (case reset_answer a of None \<Rightarrow> Committed | Some e \<Rightarrow> CommitFailure (DecoderResetFailed e))"
  then have "oc = Committed \<longleftrightarrow> reset_answer a = None" by (simp split: option.splits)
  with reset assms(3,4) off_decoder_effects [OF assms(2)] have "resets_decoder a s (codec p) (effs1 @ effs2) fl"
    by (auto simp: resets_decoder_def)
  then show ?thesis by (auto simp: uses_decoder_def)
qed

lemma on_video_frame_decoder:
  "on_video_frame a f s = (effs, fl) \<Longrightarrow> uses_decoder a (PeerMessage (Some (Msg_VideoFrame f))) s effs fl"
  by (auto simp: on_video_frame_def Let_def uses_decoder_def leaves_decoder_def offers_frame_def
      split: if_splits)

lemma on_unsolicited_decoder:
  assumes "on_unsolicited_result a result s = (effs, fl)"
  shows "uses_decoder a inp s effs fl"
proof (cases "\<exists>p. result = Applied p \<and> p \<in> set (common s)")
  case True
  then obtain p where p: "result = Applied p" "p \<in> set (common s)" by blast
  obtain effs1 oc d where commit: "commit_and_reset a p (out_dev s) = (effs1, oc, d)"
    by (cases "commit_and_reset a p (out_dev s)") auto
  show ?thesis
  proof (cases oc)
    case (CommitFailure e)
    obtain effs2 fl2 where request: "request_configuration a (active s)
        (Compensation (active s) (UnsolicitedCommit e) None) (s\<lparr>out_dev := d\<rparr>) = (effs2, fl2)" by fastforce
    with assms p commit CommitFailure have "effs = effs1 @ effs2" "fl = fl2"
      by (simp_all add: on_unsolicited_result_def)
    then show ?thesis
      using commit_uses_decoder [OF commit request_off_decoder(1) [OF request], of fl2 s inp]
        request_off_decoder(2) [OF request] CommitFailure by auto
  next
    case Committed
    with assms p commit have "effs = effs1 @ [publish (adopt p d s)]" "fl = Continue (adopt p d s)"
      by (simp_all add: on_unsolicited_result_def Let_def)
    then show ?thesis
      using Committed by (auto intro!: commit_uses_decoder [OF commit] simp: adopt_def)
  next
    case CommitPanic
    with assms p commit have "effs = effs1 @ []" "fl = Panicked" by (simp_all add: on_unsolicited_result_def)
    with commit_uses_decoder [OF commit, of "[]"] CommitPanic show ?thesis by (metis flow.distinct(5) off_decoder_simps(1))
  qed
next
  case False
  with assms have "effs = []" "fl = Continue s"
    by (auto simp: on_unsolicited_result_def split: stream_configuration_outcome.splits)
  then show ?thesis by (intro off_leaves) simp_all
qed

lemma on_configure_decoder:
  assumes "on_configure_result a cur prior rep result s = (effs, fl)"
  shows "uses_decoder a inp s effs fl"
proof (cases "\<exists>p. result = Applied p \<and> accepts_applied_profile (common s) (pc_requested cur) p")
  case True
  then obtain p where p: "result = Applied p" "accepts_applied_profile (common s) (pc_requested cur) p" by blast
  obtain effs1 oc d where commit: "commit_and_reset a p (out_dev s) = (effs1, oc, d)"
    by (cases "commit_and_reset a p (out_dev s)") auto
  show ?thesis
  proof (cases oc)
    case (CommitFailure e)
    obtain effs2 fl2 where request: "request_configuration a prior
        (Compensation prior (AppliedCommit e) rep) (s\<lparr>out_dev := d\<rparr>) = (effs2, fl2)" by fastforce
    with assms p commit CommitFailure have "effs = effs1 @ effs2" "fl = fl2"
      by (simp_all add: on_configure_result_def)
    then show ?thesis
      using commit_uses_decoder [OF commit request_off_decoder(1) [OF request], of fl2 s inp]
        request_off_decoder(2) [OF request] CommitFailure by auto
  next
    case Committed
    with assms p commit have "effs = effs1 @ [publish (adopt p d s)] @ reply_to rep (Ok p)" "fl = Continue (adopt p d s)"
      by (simp_all add: on_configure_result_def Let_def)
    then show ?thesis
      using Committed by (auto intro!: commit_uses_decoder [OF commit] simp: adopt_def)
  next
    case CommitPanic
    with assms p commit have "effs = effs1 @ []" "fl = Panicked" by (simp_all add: on_configure_result_def)
    with commit_uses_decoder [OF commit, of "[]"] CommitPanic show ?thesis by (metis flow.distinct(5) off_decoder_simps(1))
  qed
next
  case False
  with assms have "effs = reply_to rep (Err (PhoneRejected result))" "fl = Continue (s\<lparr>pending := None\<rparr>)"
    by (auto simp: on_configure_result_def split: stream_configuration_outcome.splits)
  then show ?thesis by (intro off_leaves) simp_all
qed

lemma on_compensation_decoder:
  assumes "on_compensation_result a prior e rep result s = (effs, fl)"
  shows "uses_decoder a inp s effs fl"
proof (cases "result = Applied prior")
  case True
  obtain effs1 oc d where commit: "commit_and_reset a prior (out_dev s) = (effs1, oc, d)"
    by (cases "commit_and_reset a prior (out_dev s)") auto
  show ?thesis
  proof (cases oc)
    case Committed
    with assms True commit have "effs = effs1 @ [publish (adopt prior d s)] @ reply_to rep (Err (Compensated e))"
        "fl = Continue (adopt prior d s)"
      by (simp_all add: on_compensation_result_def Let_def)
    then show ?thesis
      using Committed by (auto intro!: commit_uses_decoder [OF commit] simp: adopt_def)
  next
    case (CommitFailure r)
    with assms True commit have "effs = effs1 @ []" "\<forall>s'. fl \<noteq> Continue s'"
      by (auto simp: on_compensation_result_def split: reconfigure_failure.splits)
    with commit_uses_decoder [OF commit, of "[]"] CommitFailure show ?thesis by (metis off_decoder_simps(1))
  next
    case CommitPanic
    with assms True commit have "effs = effs1 @ []" "\<forall>s'. fl \<noteq> Continue s'"
      by (auto simp: on_compensation_result_def)
    with commit_uses_decoder [OF commit, of "[]"] CommitPanic show ?thesis by (metis off_decoder_simps(1))
  qed
next
  case False
  with assms have "effs = reply_to rep (Err (Compensated e))" "\<forall>s'. fl \<noteq> Continue s'"
    by (auto simp: on_compensation_result_def)
  then show ?thesis by (intro off_leaves) simp_all
qed

lemma on_configuration_result_decoder:
  assumes "on_configuration_result a r s = (effs, fl)"
  shows "uses_decoder a inp s effs fl"
proof (cases "pending s")
  case None
  with assms on_unsolicited_decoder show ?thesis
    by (cases "request_id r = 0") (auto simp: on_configuration_result_def intro: off_leaves)
next
  case (Some cur)
  with assms on_configure_decoder on_compensation_decoder show ?thesis
    by (cases "request_id r = pc_request_id cur"; cases "pc_kind cur")
      (auto simp: on_configuration_result_def intro: off_leaves)
qed

lemma on_message_decoder:
  assumes "on_message a msg s = (effs, fl)"
  shows "uses_decoder a (PeerMessage msg) s effs fl"
proof (cases msg)
  case None
  with assms show ?thesis by (intro off_leaves) (auto simp: on_message_def)
next
  case (Some m)
  show ?thesis
  proof (cases m)
    case (Msg_VideoFrame f)
    with assms Some on_video_frame_decoder show ?thesis by (auto simp: on_message_def)
  next
    case (Msg_VideoCapabilitiesUpdate u)
    with assms Some show ?thesis
      by (intro off_leaves) (auto simp: on_message_def on_capabilities_def Let_def split: if_splits)
  next
    case (Msg_StreamConfigurationResult r)
    with assms Some show ?thesis by (intro on_configuration_result_decoder) (simp add: on_message_def)
  qed (use assms Some in \<open>intro off_leaves; auto simp: on_message_def\<close>)+
qed

lemma actor_step_decoder:
  assumes "actor_step a inp s = (effs, fl)"
  shows "uses_decoder a inp s effs fl"
proof (cases inp)
  case ShutdownChanged
  with assms show ?thesis by (intro off_leaves) (auto simp: actor_step_def)
next
  case (StateChanged st)
  with assms show ?thesis by (intro off_leaves) (auto simp: actor_step_def on_state_changed_def split: if_splits)
next
  case Tick
  with assms show ?thesis
    by (intro off_leaves) (auto simp: actor_step_def on_tick_def split: option.splits if_splits pending_kind.splits)
next
  case (Command c)
  with assms show ?thesis
    by (intro off_leaves)
      (auto simp: actor_step_def on_command_def request_off_decoder split: option.splits if_splits result.splits)
next
  case (DecoderEvent ev)
  with assms show ?thesis
    by (intro off_leaves)
      (auto simp: actor_step_def on_decoder_event_def
        split: option.splits decode_event.splits if_splits result.splits prod.splits)
next
  case (PeerMessage msg)
  with assms show ?thesis by (simp add: actor_step_def on_message_decoder)
qed

text \<open>Whether a turn resets the decoder, and to what, does not depend on the answers.\<close>

lemma commit_resets:
  "find_map reset_of (fst (commit_and_reset a p d)) =
     (if is_ok (fst (output_commit d p)) then Some (codec p) else None)"
  by (auto simp: commit_and_reset_def split: prod.splits result.splits option.splits)

lemma request_resets [simp]: "find_map reset_of (fst (request_configuration a p kind s)) = None"
  by (simp add: request_configuration_def Let_def)

lemma reply_resets [simp]: "find_map reset_of (reply_to rep r) = None" "reset_of (publish s) = None"
  by (cases rep) (simp_all add: publish_def)

lemma on_unsolicited_resets:
  "find_map reset_of (fst (on_unsolicited_result a result s)) =
     (case result of Applied p \<Rightarrow>
        if p \<in> set (common s) then find_map reset_of (fst (commit_and_reset a p (out_dev s))) else None
      | _ \<Rightarrow> None)"
  by (simp add: on_unsolicited_result_def Let_def split_beta
      split: stream_configuration_outcome.split commit_outcome.split option.split)

lemma on_configure_resets:
  "find_map reset_of (fst (on_configure_result a cur prior rep result s)) =
     (case result of Applied p \<Rightarrow>
        if accepts_applied_profile (common s) (pc_requested cur) p
        then find_map reset_of (fst (commit_and_reset a p (out_dev s))) else None
      | _ \<Rightarrow> None)"
  by (simp add: on_configure_result_def Let_def split_beta
      split: stream_configuration_outcome.split commit_outcome.split option.split)

lemma on_compensation_resets:
  "find_map reset_of (fst (on_compensation_result a prior e rep result s)) =
     (if result = Applied prior then find_map reset_of (fst (commit_and_reset a prior (out_dev s))) else None)"
  by (simp add: on_compensation_result_def Let_def split_beta
      split: commit_outcome.split reconfigure_failure.split option.split)

text \<open>Only the result of a configuration can reset it.\<close>

lemma only_results_reset:
  assumes "find_map reset_of (fst (actor_step a inp s)) = Some c"
  shows "\<exists>r. inp = PeerMessage (Some (Msg_StreamConfigurationResult r))"
  using assms
  by (auto simp: actor_step_def on_state_changed_def on_tick_def on_command_def on_decoder_event_def
      on_message_def on_video_frame_def on_capabilities_def Let_def
      split: actor_input.splits option.splits pending_kind.splits result.splits decode_event.splits
        prod.splits message.splits if_splits)

lemma turn_resets_cong:
  "find_map reset_of (fst (actor_step a inp s)) = find_map reset_of (fst (actor_step a' inp s))"
proof (cases "\<exists>r. inp = PeerMessage (Some (Msg_StreamConfigurationResult r))")
  case True
  then show ?thesis
    by (auto simp: actor_step_def on_message_def on_configuration_result_def on_unsolicited_resets
        on_configure_resets on_compensation_resets commit_resets
        split: option.split pending_kind.split stream_configuration_outcome.split)
next
  case False
  then show ?thesis by (metis not_None_eq only_results_reset)
qed

lemma turn_resets: "find_map reset_of (fst (actor_step a inp s)) = Some c \<Longrightarrow>
  find_map reset_of (fst (actor_step a' inp s)) = Some c"
  by (metis turn_resets_cong)

section \<open>The invariant\<close>

text \<open>
  While the loop runs, the worker's pictures come from the frames accepted since the last
  reset, and each of these has the active profile; during a reset this still holds of the old
  profile until the worker has acknowledged.
\<close>

definition pictures_current :: "video_frame list \<Rightarrow> ('l, 'm, 'w, 'd, 'h) player \<Rightarrow> bool" where
  "pictures_current fs p \<longleftrightarrow>
     pictures_from (codec (active (pl_actor p))) fs (pl_worker p) \<and>
     list_all (\<lambda>f. is_ok (frame_validate_against f (active (pl_actor p)))) fs"

definition player_inv ::
  "'d openh264 \<Rightarrow> ('h, 'n) rust_h265 \<Rightarrow> video_frame list \<Rightarrow> ('l, 'm, 'w, 'd, 'h) player \<Rightarrow> bool" where
  "player_inv api hapi fs p \<longleftrightarrow>
     worker_reachable api hapi (pl_worker p) \<and>
     (case pl_phase p of
        Playing \<Rightarrow> client (pl_worker p) = Idle \<and> actor_inv (pl_actor p) \<and> pictures_current fs p
      | InReset inp \<Rightarrow>
          actor_inv (pl_actor p) \<and> branch_enabled inp (pl_actor p) \<and>
          (\<exists>c. client (pl_worker p) = Awaiting c \<and>
             (\<forall>a. find_map reset_of (fst (actor_step a inp (pl_actor p))) = Some c)) \<and>
          (ack (pl_worker p) = Some (Ok ()) \<or> pictures_current fs p)
      | Over \<Rightarrow>
          client (pl_worker p) = Dropped \<and>
          (phase (pl_worker p) = Finished \<or> control_q (pl_worker p) = [Shutdown]))"

lemma pictures_from_idle:
  assumes "worker_step api hapi a w = Some w'" "no_reset a" "client w = Idle" "reset_protocol w"
    and "pictures_from c fs w"
  shows "pictures_from c (fs @ sent_frames [a]) w'"
proof (cases "control_q w = []")
  case True
  with assms show ?thesis by (intro pictures_from_step)
next
  case False
  with assms(3,4) have "phase w = Finished" by (simp add: reset_protocol_def)
  with assms show ?thesis
    by (auto simp: worker_ops pictures_from_def no_reset_def set_event_frames event_frames_empty subset_iff
        split: worker_splits)
qed

lemma try_send_accepts:
  assumes "client w = Idle" "reset_protocol w" "pictures_from c fs w"
  shows "pictures_from c (if is_ok (snd (try_send f w)) then fs @ [f] else fs) (fst (try_send f w))"
proof (cases "is_ok (snd (try_send f w))")
  case True
  with assms pictures_from_idle [of _ _ "TrySend f" w "fst (try_send f w)" c fs] show ?thesis
    by (simp add: worker_step_def no_reset_def)
next
  case False
  then have "fst (try_send f w) = w" by (auto simp: try_send_def split: if_splits)
  with assms False show ?thesis by simp
qed

lemma thread_keeps_pictures:
  assumes "thread_step api hapi w = Some w'" "client w = Awaiting c'" "reset_protocol w"
    and "ack w = Some (Ok ()) \<or> pictures_from c fs w"
  shows "ack w' = Some (Ok ()) \<or> pictures_from c fs w'" "client w' = Awaiting c'"
proof -
  show "client w' = Awaiting c'"
    using assms(1,2) by (auto simp: worker_ops split: worker_splits)
  show "ack w' = Some (Ok ()) \<or> pictures_from c fs w'"
  proof (cases "ack w")
    case (Some r)
    with assms(1-3) show ?thesis by (auto simp: reset_protocol_def worker_ops split: worker_splits)
  next
    case None
    with assms(2,3) have queue: "phase w = Finished \<or> control_q w = [Reset c']"
      by (simp add: reset_protocol_def)
    from None assms(4) have pictures: "pictures_from c fs w" by simp
    show ?thesis
    proof (cases "phase w")
      case Polling
      obtain d r where d: "reset_backend api hapi (decoder w) c' = (d, r)" by fastforce
      with assms(1) queue Polling have w': "w' = w\<lparr>control_q := [], frame_q := [], decoder := d, ack := Some r\<rparr>"
        by (simp add: thread_step_def apply_control_def)
      show ?thesis
      proof (cases "r = Ok ()")
        case False
        with d have "dec_codec d = dec_codec (decoder w)" "waiting_for_idr d = waiting_for_idr (decoder w)"
          by (auto simp: reset_backend_def split: video_codec.splits result.splits)
        with pictures w' Polling show ?thesis by (simp add: pictures_from_def)
      qed (simp add: w')
    next
      case (Sending es)
      with assms(1) pictures show ?thesis
        by (auto simp: thread_step_def send_event_def pictures_from_def sending_def set_event_frames
            event_frames_empty split: list.splits if_splits)
    qed (use assms(1) in \<open>simp add: thread_step_def\<close>)
  qed
qed

text \<open>Finishing a turn, from a worker on which the turn's frame, if any, is still to be offered.\<close>

text \<open>
  What is true of the pictures after a turn that goes on: they are kept when the decoder was left
  alone, none are there after a reset, and an accepted frame joins those they may come from.
\<close>

lemma turn_pictures:
  assumes turn: "actor_step a inp s = (effs, Continue s')"
    and w: "worker_reachable api hapi w" "client w = Idle"
    and reset: "\<And>c. find_map reset_of effs = Some c \<Longrightarrow> reset_answer a = None \<Longrightarrow> fresh_after_reset c w"
    and pictures: "find_map reset_of effs = None \<or> reset_answer a \<noteq> None \<Longrightarrow>
      pictures_from (codec (active s)) fs w \<and> list_all (\<lambda>f. is_ok (frame_validate_against f (active s))) fs"
    and room: "\<And>f. inp = PeerMessage (Some (Msg_VideoFrame f)) \<Longrightarrow> queue_has_room a = is_ok (snd (try_send f w))"
  shows "pictures_from (codec (active s')) (fold accept_effect effs fs) (fold submit_effect effs w) \<and>
    list_all (\<lambda>f. is_ok (frame_validate_against f (active s'))) (fold accept_effect effs fs)"
  using actor_step_decoder [OF turn] unfolding uses_decoder_def
proof (elim disjE exE)
  assume "leaves_decoder s effs (Continue s')"
  with pictures show ?thesis by (simp add: leaves_decoder_def fold_submit fold_accept)
next
  fix c
  assume r: "resets_decoder a s c effs (Continue s')"
  show ?thesis
  proof (cases "reset_answer a")
    case None
    with r have "fold accept_effect effs fs = []" "fold submit_effect effs w = w" "codec (active s') = c"
        "find_map reset_of effs = Some c"
      by (simp_all add: resets_decoder_def fold_submit)
    with reset None fresh_pictures_from show ?thesis by simp
  next
    case (Some e)
    with r pictures show ?thesis by (simp add: resets_decoder_def fold_submit)
  qed
next
  assume "offers_frame a inp s effs (Continue s')"
  then obtain f where f: "inp = PeerMessage (Some (Msg_VideoFrame f))" "is_ok (frame_validate_against f (active s))"
      "submits effs = [(f, queue_has_room a)]" "find_map reset_of effs = None" "active s' = active s"
    by (auto simp: offers_frame_def)
  with pictures have old: "pictures_from (codec (active s)) fs w"
      "list_all (\<lambda>f. is_ok (frame_validate_against f (active s))) fs" by simp_all
  from try_send_accepts [OF w(2) reachable_invariants(1) [OF w(1)] old(1), of f] f old(2) room [OF f(1)]
  show ?thesis by (simp add: fold_submit fold_accept del: is_ok_frame_validate split: if_splits)
qed

lemma finish_turn_inv:
  assumes turn: "actor_step a inp s = (effs, fl)" "pl_actor p = s" "actor_inv s" "branch_enabled inp s"
    and w: "worker_reachable api hapi w" "client w = Idle"
    and reset: "\<And>c. find_map reset_of effs = Some c \<Longrightarrow> reset_answer a = None \<Longrightarrow> fresh_after_reset c w"
    and pictures: "find_map reset_of effs = None \<or> reset_answer a \<noteq> None \<Longrightarrow>
      pictures_from (codec (active s)) fs w \<and> list_all (\<lambda>f. is_ok (frame_validate_against f (active s))) fs"
    and room: "\<And>f. inp = PeerMessage (Some (Msg_VideoFrame f)) \<Longrightarrow> queue_has_room a = is_ok (snd (try_send f w))"
  shows "player_inv api hapi (fold accept_effect effs fs) (snd (finish_turn (effs, fl) w p))"
proof -
  let ?w = "fold submit_effect effs w"
  have offer: "worker_reachable api hapi (fst (try_send f w)) \<and> client (fst (try_send f w)) = Idle" for f
    using worker_reachable.stepped [OF w(1), of "TrySend f"] w(2)
    by (auto simp: worker_step_def try_send_def)
  have worker: "worker_reachable api hapi ?w \<and> client ?w = Idle"
    using actor_step_decoder [OF turn(1)] w offer
    by (auto simp: uses_decoder_def leaves_decoder_def resets_decoder_def offers_frame_def fold_submit)
  show ?thesis
  proof (cases fl)
    case (Continue s')
    with turn actor_step_inv have "actor_inv s'" by blast
    with worker Continue turn_pictures [OF turn(1) [unfolded Continue] w reset pictures room] show ?thesis
      by (simp add: finish_turn_def player_inv_def pictures_current_def del: is_ok_frame_validate)
  qed (use worker worker_reachable.stepped [of api hapi ?w DropWorker] reachable_invariants(1) [of api hapi ?w] in
      \<open>simp_all add: finish_turn_def player_inv_def worker_step_def reset_protocol_def,
        auto simp: worker_drop_def\<close>)
qed

lemma fresh_reachable: "fresh_after_reset c w \<Longrightarrow> pictures_from c [] w \<and> client w = Idle"
  by (simp add: fresh_pictures_from) (simp add: fresh_after_reset_def)

lemma player_starts_inv:
  assumes "decoder_start api hapi = Ok d0" "actor_start (Ok ()) a h dev local = (effs, Continue s)"
    and "worker_run api hapi [ResetBegin (codec (active s)), Thread] (worker_new d0) = Some w0"
    and "reset_end w0 = Some (w, Ok ())"
  shows "player_inv api hapi [] \<lparr>pl_actor = s, pl_worker = w, pl_phase = Playing\<rparr>"
proof -
  have w0: "worker_reachable api hapi w0"
    by (rule worker_run_reachable [OF worker_reachable.started assms(3)]) (simp add: decode_worker_new_Ok assms(1))
  have c: "client w0 = Awaiting (codec (active s))"
    using assms(3) by (auto simp: worker_ops worker_new_def split: option.splits prod.splits if_splits)
  with w0 assms(4) worker_reachable.stepped [OF w0, of ResetEnd w] have "worker_reachable api hapi w"
    by (simp add: worker_step_def)
  with fresh_reachable [OF reset_end_fresh [OF reachable_invariants(1) [OF w0] c assms(4)]]
    actor_start_inv [OF assms(2)]
  show ?thesis by (simp add: player_inv_def pictures_current_def)
qed

lemma worker_after_input_pictures:
  assumes "worker_after_input inp w = Some w'" "worker_reachable api hapi w" "client w = Idle"
    and "pictures_from c fs w"
  shows "worker_reachable api hapi w' \<and> client w' = Idle \<and> pictures_from c fs w'"
proof (cases "w' = w")
  case False
  with assms(1) obtain ev where "recv_event w = Some (w', ev)"
    by (auto simp: worker_after_input_def split: actor_input.splits option.splits prod.splits if_splits)
  with assms(3) have step: "worker_step api hapi RecvEvent w = Some w'" by (simp add: worker_step_def)
  moreover have "client w' = Idle"
    using step assms(3) by (auto simp: worker_ops split: worker_splits)
  ultimately show ?thesis
    using pictures_from_idle [OF step _ assms(3) reachable_invariants(1) [OF assms(2)] assms(4)]
      worker_reachable.stepped [OF assms(2)]
    by (simp add: no_reset_def)
qed (use assms in simp)

lemma reset_begins_inv:
  assumes "actor_step a inp (pl_actor p) = (es, fl)" "find_map reset_of es = Some c" "reset_begin c w = Some (w1, None)"
    and "branch_enabled inp (pl_actor p)" "actor_inv (pl_actor p)"
    and w: "worker_reachable api hapi w" "client w = Idle"
    and pictures: "pictures_from (codec (active (pl_actor p))) fs w"
      "list_all (\<lambda>f. is_ok (frame_validate_against f (active (pl_actor p)))) fs"
  shows "player_inv api hapi fs (p\<lparr>pl_worker := w1, pl_phase := InReset inp\<rparr>)"
proof -
  from assms(3) have w1: "w1 = w\<lparr>control_q := control_q w @ [Reset c], client := Awaiting c, ack := None\<rparr>"
    by (auto simp: reset_begin_def split: if_splits)
  have "worker_step api hapi (ResetBegin c) w = Some w1" using assms(3) w(2) by (simp add: worker_step_def)
  with w(1) have "worker_reachable api hapi w1" by (rule worker_reachable.stepped)
  moreover have "\<forall>a'. find_map reset_of (fst (actor_step a' inp (pl_actor p))) = Some c"
    using assms(1,2) turn_resets [of a inp "pl_actor p" c] by simp
  ultimately show ?thesis
    using w1 assms(4,5) pictures
    by (simp add: player_inv_def pictures_current_def pictures_from_def del: is_ok_frame_validate)
qed

lemma player_turn_inv:
  assumes "take_turn (answers_of a inp w) inp w p = Some (effs, p')"
    and "pl_phase p = Playing" "branch_enabled inp (pl_actor p)" "actor_inv (pl_actor p)"
    and w: "worker_reachable api hapi w" "client w = Idle"
    and pictures: "pictures_from (codec (active (pl_actor p))) fs w"
      "list_all (\<lambda>f. is_ok (frame_validate_against f (active (pl_actor p)))) fs"
  shows "player_inv api hapi (fold accept_effect effs fs) p'"
proof -
  let ?a = "answers_of a inp w" and ?s = "pl_actor p"
  have finish: ?thesis
    if "actor_step (?a\<lparr>reset_answer := r\<rparr>) inp ?s = (es, fl)" "(effs, p') = finish_turn (es, fl) w p"
      and "find_map reset_of es = None \<or> r \<noteq> None" for r es fl
  proof -
    have "player_inv api hapi (fold accept_effect es fs) (snd (finish_turn (es, fl) w p))"
      by (rule finish_turn_inv [OF that(1) refl assms(4,3) w])
        (use pictures that(3) in \<open>auto simp: answers_of_def simp del: is_ok_frame_validate\<close>)
    moreover from that(2) have "effs = es" by (simp add: finish_turn_def Let_def)
    ultimately show ?thesis by (simp flip: that(2))
  qed
  obtain es fl where turn: "actor_step ?a inp ?s = (es, fl)" by fastforce
  show ?thesis
  proof (cases "find_map reset_of es")
    case None
    with assms(1) turn show ?thesis by (intro finish [of "reset_answer ?a" es fl]) (simp_all add: take_turn_def)
  next
    case (Some c)
    with assms(1) turn obtain w1 err where begun: "reset_begin c w = Some (w1, err)"
      by (cases "reset_begin c w") (auto simp: take_turn_def)
    show ?thesis
    proof (cases err)
      case None
      with assms(1) turn Some begun have "effs = []" "p' = p\<lparr>pl_worker := w1, pl_phase := InReset inp\<rparr>"
        by (simp_all add: take_turn_def)
      with reset_begins_inv [OF turn Some begun [unfolded None] assms(3,4) w pictures] show ?thesis by simp
    next
      case failed: (Some e)
      with begun have "w1 = w" by (auto simp: reset_begin_def split: if_splits)
      obtain es' fl' where "actor_step (?a\<lparr>reset_answer := Some e\<rparr>) inp ?s = (es', fl')" by fastforce
      with assms(1) turn Some begun failed \<open>w1 = w\<close> show ?thesis
        by (intro finish [of "Some e" es' fl']) (simp_all add: take_turn_def)
    qed
  qed
qed

lemma reset_returns_inv:
  assumes inv: "player_inv api hapi fs p" "pl_phase p = InReset inp" "reset_end (pl_worker p) = Some (w, r)"
    and turn: "actor_step (a\<lparr>reset_answer := reset_error r\<rparr>) inp (pl_actor p) = (effs, fl)"
  shows "player_inv api hapi (fold accept_effect effs fs) (snd (finish_turn (effs, fl) w p))"
proof -
  from inv obtain c where w0: "worker_reachable api hapi (pl_worker p)" "client (pl_worker p) = Awaiting c"
      "\<forall>a. find_map reset_of (fst (actor_step a inp (pl_actor p))) = Some c"
      "ack (pl_worker p) = Some (Ok ()) \<or> pictures_current fs p"
    and s: "actor_inv (pl_actor p)" "branch_enabled inp (pl_actor p)"
    by (auto simp: player_inv_def)
  note protocol = reachable_invariants(1) [OF w0(1)]
  have reset: "find_map reset_of effs = Some c" using w0(3) turn by (metis fst_conv)
  have w: "worker_reachable api hapi w" "client w = Idle"
    using worker_reachable.stepped [OF w0(1), of ResetEnd w] inv(3) w0(2)
    by (auto simp: worker_step_def reset_end_def split: option.splits result.splits if_splits)
  have panic: "r \<noteq> Panic"
    using inv(3) protocol w0(2) by (auto simp: reset_end_def reset_protocol_def split: option.splits result.splits if_splits)
  have not_frame: "inp \<noteq> PeerMessage (Some (Msg_VideoFrame f))" for f
    using only_results_reset [of a' inp "pl_actor p" c for a'] w0(3) by blast
  show ?thesis
  proof (cases r)
    case (Ok u)
    with inv(3) reset_end_fresh [OF protocol w0(2)] have "fresh_after_reset c w" by simp
    then show ?thesis
      by (intro finish_turn_inv [OF turn refl s w]) (use Ok reset not_frame in \<open>simp_all add: reset_error_def\<close>)
  next
    case (Err e)
    with inv(3) have "ack (pl_worker p) \<noteq> Some (Ok ())" "frame_q w = frame_q (pl_worker p)"
        "decoder w = decoder (pl_worker p)" "event_q w = event_q (pl_worker p)" "phase w = phase (pl_worker p)"
      by (auto simp: reset_end_def split: option.splits result.splits if_splits)
    with w0(4) have "pictures_from (codec (active (pl_actor p))) fs w"
        "list_all (\<lambda>f. is_ok (frame_validate_against f (active (pl_actor p)))) fs"
      by (simp_all add: pictures_current_def pictures_from_def del: is_ok_frame_validate)
    then show ?thesis
      by (intro finish_turn_inv [OF turn refl s w])
        (use Err reset not_frame in \<open>simp_all add: reset_error_def del: is_ok_frame_validate\<close>)
  qed (use panic in simp)
qed

lemma thread_runs_inv:
  assumes "player_inv api hapi fs p" "thread_step api hapi (pl_worker p) = Some w"
  shows "player_inv api hapi fs (p\<lparr>pl_worker := w\<rparr>)"
proof -
  have step: "worker_step api hapi Thread (pl_worker p) = Some w" using assms(2) by (simp add: worker_step_def)
  from assms(1) have reach: "worker_reachable api hapi (pl_worker p)" by (simp add: player_inv_def)
  with step have w: "worker_reachable api hapi w" by (rule worker_reachable.stepped [rotated])
  note protocol = reachable_invariants(1) [OF reach]
  show ?thesis
  proof (cases "pl_phase p")
    case Playing
    with assms(1) have idle: "client (pl_worker p) = Idle" by (simp add: player_inv_def)
    then have "client w = Idle" using step by (auto simp: worker_ops split: worker_splits)
    with Playing assms(1) w pictures_from_idle [OF step _ idle protocol] show ?thesis
      by (simp add: player_inv_def pictures_current_def no_reset_def del: is_ok_frame_validate)
  next
    case (InReset inp)
    with assms(1) obtain c where c: "client (pl_worker p) = Awaiting c"
        "ack (pl_worker p) = Some (Ok ()) \<or> pictures_current fs p"
      by (auto simp: player_inv_def)
    have "ack (pl_worker p) \<noteq> Some (Ok ())"
      using assms(2) protocol c(1) by (auto simp: reset_protocol_def thread_step_def)
    then have "ack w = Some (Ok ()) \<or> pictures_current fs (p\<lparr>pl_worker := w\<rparr>)"
      using thread_keeps_pictures(1) [OF assms(2) c(1) protocol] c(2)
      by (auto simp: pictures_current_def simp del: is_ok_frame_validate)
    with InReset assms(1) w c(1) thread_keeps_pictures(2) [OF assms(2) c(1) protocol, of _ fs] c(2) show ?thesis
      by (auto simp: player_inv_def pictures_current_def simp del: is_ok_frame_validate)
  next
    case Over
    with assms w show ?thesis
      by (auto simp: player_inv_def thread_step_def send_event_def apply_control_def
          split: worker_phase.splits list.splits if_splits)
  qed
qed

lemma player_step_inv:
  assumes "player_step api hapi ev p = Some (effs, p')" "player_inv api hapi fs p"
  shows "player_inv api hapi (fold accept_effect effs fs) p'"
proof (cases ev)
  case (Turn a inp)
  with assms(1) obtain w where w: "pl_phase p = Playing" "branch_enabled inp (pl_actor p)"
      "worker_after_input inp (pl_worker p) = Some w" "take_turn (answers_of a inp w) inp w p = Some (effs, p')"
    by (auto split: if_splits bind_splits)
  with assms(2) have old: "worker_reachable api hapi (pl_worker p)" "client (pl_worker p) = Idle"
      "actor_inv (pl_actor p)" "pictures_current fs p"
    by (simp_all add: player_inv_def)
  then have pictures: "pictures_from (codec (active (pl_actor p))) fs (pl_worker p)"
      "list_all (\<lambda>f. is_ok (frame_validate_against f (active (pl_actor p)))) fs"
    by (simp_all add: pictures_current_def del: is_ok_frame_validate)
  note after = worker_after_input_pictures [OF w(3) old(1,2) pictures(1)]
  show ?thesis by (rule player_turn_inv [OF w(4,1,2) old(3)]) (use after pictures(2) in blast)+
next
  case ThreadRuns
  with assms thread_runs_inv show ?thesis by auto
next
  case (ResetReturns a)
  with assms(1) obtain inp w r where reset: "pl_phase p = InReset inp" "reset_end (pl_worker p) = Some (w, r)"
      "(effs, p') = finish_turn (actor_step (a\<lparr>reset_answer := reset_error r\<rparr>) inp (pl_actor p)) w p"
    by (auto split: player_phase.splits option.splits)
  obtain es fl where turn: "actor_step (a\<lparr>reset_answer := reset_error r\<rparr>) inp (pl_actor p) = (es, fl)" by fastforce
  with reset(3) have "effs = es" by (simp add: finish_turn_def Let_def)
  with reset_returns_inv [OF assms(2) reset(1,2) turn] reset(3) turn show ?thesis by (metis snd_conv)
qed

lemma player_reachable_inv: "player_reachable api hapi fs p \<Longrightarrow> player_inv api hapi fs p"
  by (induction rule: player_reachable.induct) (blast intro: player_starts_inv player_step_inv)+

end
