(* ===== verification/Phone_To_Screen.thy ===== *)
theory Phone_To_Screen
  imports Wired Playback "HOL-Library.Sublist"
begin

text \<open>
  The whole path of a picture: the phone's C functions, the two transport loops over bytes, the
  desktop's connection actor and its decode worker, one step at a time in any order.

  It puts together the machines of \<open>Wired\<close> (everything but the decoder) and of \<open>Playback\<close> (the
  actor with the decoder), which share the actor. Each run is a run of the player and, up to
  the message whose turn waits inside \<open>reset\<close>, a run of the session.
\<close>

section \<open>The state and its steps\<close>

record ('l, 'm, 'w, 'd, 'h) live =
  lv_wires :: "('l, 'm, 'w) wired"
  lv_worker :: "('d, 'h) worker"
  lv_phase :: player_phase
  lv_accepted :: "video_frame list"

definition player_of :: "('l, 'm, 'w, 'd, 'h) live \<Rightarrow> ('l, 'm, 'w, 'd, 'h) player" where
  "player_of s = \<lparr>pl_actor = w_desk (lv_wires s), pl_worker = lv_worker s, pl_phase = lv_phase s\<rparr>"

lemma player_of_simps [simp]:
  "pl_actor (player_of s) = w_desk (lv_wires s)" "pl_worker (player_of s) = lv_worker s"
  "pl_phase (player_of s) = lv_phase s"
  by (simp_all add: player_of_def)

text \<open>
  What a turn leaves behind, on the state \<open>s\<close> that its input was taken from. A turn that sends
  more than the outbound channel has room for waits.
\<close>

definition settle ::
  "('l, 'm, 'w, 'd, 'h) live \<Rightarrow> effect list \<times> ('l, 'm, 'w, 'd, 'h) player \<Rightarrow> ('l, 'm, 'w, 'd, 'h) live option" where
  "settle s t =
     (let w = lv_wires s; out = desk_outbound w @ sent_by (fst t) in
      if length out \<le> OUTBOUND_CHANNEL_CAPACITY
      then Some (s\<lparr>lv_wires := w\<lparr>w_desk := pl_actor (snd t), desk_outbound := out\<rparr>,
                   lv_worker := pl_worker (snd t), lv_phase := pl_phase (snd t),
                   lv_accepted := fold accept_effect (fst t) (lv_accepted s)\<rparr>)
      else None)"

datatype live_event =
    Link wired_event
  | Acts answers actor_input
  | Consumes answers
  | Decodes
  | Resumes answers

definition on_the_link :: "wired_event \<Rightarrow> bool" where
  "on_the_link ev \<longleftrightarrow> (case ev of Turns a i \<Rightarrow> False | Takes a \<Rightarrow> False | _ \<Rightarrow> True)"

primrec live_step ::
  "bincode \<Rightarrow> serde_json \<Rightarrow> 'd openh264 \<Rightarrow> ('h, 'n) rust_h265 \<Rightarrow> live_event \<Rightarrow>
   ('l, 'm, 'w, 'd, 'h) live \<Rightarrow> ('l, 'm, 'w, 'd, 'h) live option" where
  "live_step bc js api hapi (Link ev) s =
     (if on_the_link ev then map_option (\<lambda>w. s\<lparr>lv_wires := w\<rparr>) (wired_step bc js ev (lv_wires s)) else None)"
| "live_step bc js api hapi (Acts a i) s =
     (case i of
        PeerMessage m \<Rightarrow> None
      | _ \<Rightarrow> Option.bind (player_step api hapi (Turn a i) (player_of s)) (settle s))"
| "live_step bc js api hapi (Consumes a) s =
     (case desk_inbound (lv_wires s) of
        [] \<Rightarrow> None
      | m # ms \<Rightarrow>
          Option.bind (player_step api hapi (Turn a (PeerMessage (Some m))) (player_of s))
            (settle (s\<lparr>lv_wires := (lv_wires s)\<lparr>desk_inbound := ms\<rparr>\<rparr>)))"
| "live_step bc js api hapi Decodes s = Option.bind (player_step api hapi ThreadRuns (player_of s)) (settle s)"
| "live_step bc js api hapi (Resumes a) s =
     Option.bind (player_step api hapi (ResetReturns a) (player_of s)) (settle s)"

text \<open>Both ends right after the handshakes and the decoder reset to the active codec.\<close>

inductive live_begins ::
  "'d openh264 \<Rightarrow> ('h, 'n) rust_h265 \<Rightarrow> ('l, 'm, 'w, 'd, 'h) live \<Rightarrow> bool" for api hapi where
  "transport_client p = Some (fresh_client (mobile_handshake v) h (vc_active_profile v)) \<Longrightarrow>
   well_formed_handshake (mobile_handshake v) \<Longrightarrow>
   decoder_start api hapi = Ok d0 \<Longrightarrow>
   actor_start (Ok ()) a (mobile_handshake v) dev (supported_profiles h) = (effs, Continue d) \<Longrightarrow>
   worker_run api hapi [ResetBegin (codec (active d)), Thread] (worker_new d0) = Some w0 \<Longrightarrow>
   reset_end w0 = Some (w, Ok ()) \<Longrightarrow>
   live_begins api hapi
     \<lparr>lv_wires = wired_of \<lparr>phone = p, desk = d, to_desk = [], to_phone = sent_by effs\<rparr>,
      lv_worker = w, lv_phase = Playing, lv_accepted = []\<rparr>"

inductive live_reachable ::
  "bincode \<Rightarrow> serde_json \<Rightarrow> 'd openh264 \<Rightarrow> ('h, 'n) rust_h265 \<Rightarrow> ('l, 'm, 'w, 'd, 'h) live \<Rightarrow> bool"
  for bc js api hapi where
  goes_live: "live_begins api hapi s \<Longrightarrow> live_reachable bc js api hapi s"
| lives: "live_reachable bc js api hapi s \<Longrightarrow> live_step bc js api hapi ev s = Some s' \<Longrightarrow>
    live_reachable bc js api hapi s'"

text \<open>Smooth, as in \<open>Session\<close>; a turn that resumes is smooth when the message it holds arrived so.\<close>

definition held :: "player_phase \<Rightarrow> message list" where
  "held ph = (case ph of InReset (PeerMessage (Some m)) \<Rightarrow> [m] | _ \<Rightarrow> [])"

definition live_smooth :: "live_event \<Rightarrow> ('l, 'm, 'w, 'd, 'h) live \<Rightarrow> bool" where
  "live_smooth ev s \<longleftrightarrow>
     (case ev of
        Link e \<Rightarrow> wired_smooth e (lv_wires s)
      | Acts a i \<Rightarrow> (case i of Tick \<Rightarrow> smooth_tick a (w_desk (lv_wires s)) | _ \<Rightarrow> True)
      | Consumes a \<Rightarrow> smooth_arrival (desk_inbound (lv_wires s)) (w_desk (lv_wires s))
      | Decodes \<Rightarrow> True
      | Resumes a \<Rightarrow> smooth_arrival (held (lv_phase s)) (w_desk (lv_wires s)))"

inductive live_smooth_reachable ::
  "bincode \<Rightarrow> serde_json \<Rightarrow> 'd openh264 \<Rightarrow> ('h, 'n) rust_h265 \<Rightarrow> ('l, 'm, 'w, 'd, 'h) live \<Rightarrow> bool"
  for bc js api hapi where
  goes_live_smoothly: "live_begins api hapi s \<Longrightarrow> live_smooth_reachable bc js api hapi s"
| lives_smoothly: "live_smooth_reachable bc js api hapi s \<Longrightarrow> live_smooth ev s \<Longrightarrow>
    live_step bc js api hapi ev s = Some s' \<Longrightarrow> \<not> compensating (w_desk (lv_wires s')) \<Longrightarrow>
    live_smooth_reachable bc js api hapi s'"

section \<open>Every run is one of the player\<close>

definition player_begins ::
  "'d openh264 \<Rightarrow> ('h, 'n) rust_h265 \<Rightarrow> video_frame list \<times> ('l, 'm, 'w, 'd, 'h) player \<Rightarrow> bool" where
  "player_begins api hapi fp \<longleftrightarrow> fst fp = [] \<and>
     (\<exists>d0 a h dev local effs s w0 w. decoder_start api hapi = Ok d0 \<and>
        actor_start (Ok ()) a h dev local = (effs, Continue s) \<and>
        worker_run api hapi [ResetBegin (codec (active s)), Thread] (worker_new d0) = Some w0 \<and>
        reset_end w0 = Some (w, Ok ()) \<and> snd fp = \<lparr>pl_actor = s, pl_worker = w, pl_phase = Playing\<rparr>)"

definition player_moves ::
  "'d openh264 \<Rightarrow> ('h, 'n) rust_h265 \<Rightarrow> video_frame list \<times> ('l, 'm, 'w, 'd, 'h) player \<Rightarrow>
   video_frame list \<times> ('l, 'm, 'w, 'd, 'h) player \<Rightarrow> bool" where
  "player_moves api hapi fp fp' \<longleftrightarrow>
     (\<exists>ev effs. player_step api hapi ev (snd fp) = Some (effs, snd fp') \<and> fst fp' = fold accept_effect effs (fst fp))"

lemma player_reaches:
  "player_reachable api hapi (fst fp) (snd fp) \<longleftrightarrow> reaches (player_begins api hapi) (player_moves api hapi) fp"
proof
  show "reaches (player_begins api hapi) (player_moves api hapi) fp \<Longrightarrow> player_reachable api hapi (fst fp) (snd fp)"
    by (induction rule: reaches.induct)
      (auto simp: player_begins_def player_moves_def simp del: worker_run.simps intro: player_reachable.intros)
  have "player_reachable api hapi fs p \<Longrightarrow> reaches (player_begins api hapi) (player_moves api hapi) (fs, p)" for fs p
  proof (induction rule: player_reachable.induct)
    case (starts d0 a h dev local effs s w0 w)
    then show ?case by (intro reaches_start) (fastforce simp: player_begins_def simp del: worker_run.simps)
  next
    case (steps fs p ev effs p')
    then have "player_moves api hapi (fs, p) (fold accept_effect effs fs, p')" by (auto simp: player_moves_def)
    with steps show ?case by (blast intro: reaches_step)
  qed
  from this [of "fst fp" "snd fp"]
  show "player_reachable api hapi (fst fp) (snd fp) \<Longrightarrow> reaches (player_begins api hapi) (player_moves api hapi) fp"
    by simp
qed

definition live_starts ::
  "bincode \<Rightarrow> 'd openh264 \<Rightarrow> ('h, 'n) rust_h265 \<Rightarrow> ('l, 'm, 'w, 'd, 'h) live \<Rightarrow> bool" where
  "live_starts bc api hapi s \<longleftrightarrow> bincode_ok bc \<and> live_begins api hapi s"

definition live_moves ::
  "bincode \<Rightarrow> serde_json \<Rightarrow> 'd openh264 \<Rightarrow> ('h, 'n) rust_h265 \<Rightarrow>
   ('l, 'm, 'w, 'd, 'h) live \<Rightarrow> ('l, 'm, 'w, 'd, 'h) live \<Rightarrow> bool" where
  "live_moves bc js api hapi s s' \<longleftrightarrow> (\<exists>ev. live_step bc js api hapi ev s = Some s')"

lemma live_reaches:
  "bincode_ok bc \<and> live_reachable bc js api hapi s \<longleftrightarrow>
     reaches (live_starts bc api hapi) (live_moves bc js api hapi) s"
proof
  assume ok: "bincode_ok bc \<and> live_reachable bc js api hapi s"
  then have "live_reachable bc js api hapi s" ..
  then show "reaches (live_starts bc api hapi) (live_moves bc js api hapi) s"
    by (induction rule: live_reachable.induct)
      (use ok in \<open>auto simp: live_starts_def live_moves_def intro: reaches.intros\<close>)
next
  show "reaches (live_starts bc api hapi) (live_moves bc js api hapi) s \<Longrightarrow>
      bincode_ok bc \<and> live_reachable bc js api hapi s"
    by (induction rule: reaches.induct) (auto simp: live_starts_def live_moves_def intro: live_reachable.intros)
qed

lemma settle_Some:
  "settle s (effs, p) = Some s' \<longleftrightarrow>
     length (desk_outbound (lv_wires s) @ sent_by effs) \<le> OUTBOUND_CHANNEL_CAPACITY \<and>
     s' = s\<lparr>lv_wires := (lv_wires s)\<lparr>w_desk := pl_actor p, desk_outbound := desk_outbound (lv_wires s) @ sent_by effs\<rparr>,
            lv_worker := pl_worker p, lv_phase := pl_phase p, lv_accepted := fold accept_effect effs (lv_accepted s)\<rparr>"
  by (auto simp: settle_def Let_def)

lemma settle_player:
  "settle s (effs, p) = Some s' \<Longrightarrow> player_of s' = p \<and> lv_accepted s' = fold accept_effect effs (lv_accepted s)"
  by (auto simp: settle_Some player_of_def)

lemma link_keeps_desk: "on_the_link ev \<Longrightarrow> wired_step bc js ev w = Some w' \<Longrightarrow> w_desk w' = w_desk w"
  by (cases ev) (auto simp: on_the_link_def split: option.splits list.splits prod.splits if_splits)

lemma settle_moves:
  assumes "player_step api hapi ev (player_of s) = Some (effs, p)" "settle s0 (effs, p) = Some s'"
    and "lv_accepted s0 = lv_accepted s"
  shows "player_moves api hapi (lv_accepted s, player_of s) (lv_accepted s', player_of s')"
  using assms settle_player [OF assms(2)] by (auto simp: player_moves_def)

lemma live_moves_player:
  assumes "live_moves bc js api hapi s s'"
  shows "(player_moves api hapi)\<^sup>=\<^sup>= (lv_accepted s, player_of s) (lv_accepted s', player_of s')"
proof -
  from assms obtain ev where ev: "live_step bc js api hapi ev s = Some s'" by (auto simp: live_moves_def)
  show ?thesis
  proof (cases ev)
    case (Link e)
    with ev have "player_of s' = player_of s \<and> lv_accepted s' = lv_accepted s"
      by (auto simp: player_of_def dest: link_keeps_desk split: if_splits)
    then show ?thesis by simp
  next
    case (Acts a i)
    with ev show ?thesis
      by (cases i) (auto simp del: player_step.simps split: bind_splits intro: settle_moves)
  next
    case (Consumes a)
    with ev show ?thesis
      by (auto simp del: player_step.simps split: bind_splits list.splits intro: settle_moves)
  qed (use ev in \<open>auto simp del: player_step.simps split: bind_splits intro: settle_moves\<close>)
qed

interpretation live_players: refinement_map
  "live_starts bc api hapi" "live_moves bc js api hapi" "\<lambda>s. bincode_ok bc \<and> live_reachable bc js api hapi s"
  "player_begins api hapi" "player_moves api hapi" "\<lambda>fp. player_reachable api hapi (fst fp) (snd fp)"
  "\<lambda>s. (lv_accepted s, player_of s)" for bc js api hapi
proof unfold_locales
  fix s
  show "bincode_ok bc \<and> live_reachable bc js api hapi s \<longleftrightarrow>
      reaches (live_starts bc api hapi) (live_moves bc js api hapi) s"
    by (rule live_reaches)
  assume "live_starts bc api hapi s"
  then show "player_begins api hapi (lv_accepted s, player_of s)"
    by (fastforce simp: live_starts_def player_begins_def player_of_def wired_of_def simp del: worker_run.simps
        elim!: live_begins.cases)
qed (auto simp: player_reaches [symmetric] dest: live_moves_player)

lemma live_reachable_player:
  "bincode_ok bc \<Longrightarrow> live_reachable bc js api hapi s \<Longrightarrow> player_inv api hapi (lv_accepted s) (player_of s)"
  using live_players.mapped [OF conjI] player_reachable_inv by fastforce

section \<open>Every run is one of the session\<close>

text \<open>
  A message whose turn waits inside \<open>reset\<close> has left the channel, but the session still has it
  before it. What the frames now with the decoder are to the phone: messages it has given to
  its transport, in the order it gave them.
\<close>

lemma held_simps [simp]:
  "held Playing = []" "held Over = []" "held (InReset (PeerMessage (Some m))) = [m]"
  by (simp_all add: held_def)

definition with_held :: "message list \<Rightarrow> ('l, 'm, 'w) wired \<Rightarrow> ('l, 'm, 'w) wired" where
  "with_held ms w = w\<lparr>desk_inbound := ms @ desk_inbound w\<rparr>"

definition sent_by_phone :: "video_frame list \<Rightarrow> ('l, 'm, 'w) session \<Rightarrow> bool" where
  "sent_by_phone fs t \<longleftrightarrow>
     (\<forall>c. transport_client (phone t) = Some c \<longrightarrow>
        (\<exists>taken. tx_taken (tc_connection c) = taken @ to_desk t \<and> subseq (map Msg_VideoFrame fs) taken))"

definition accounts_for :: "bincode \<Rightarrow> ('l, 'm, 'w, 'd, 'h) live \<Rightarrow> ('l, 'm, 'w) session \<Rightarrow> bool" where
  "accounts_for bc s t \<longleftrightarrow> lv_phase s \<noteq> Over \<longrightarrow>
     represents bc (with_held (held (lv_phase s)) (lv_wires s)) t \<and> sent_by_phone (lv_accepted s) t"

subsection \<open>The phone and the wires\<close>

lemma call_keeps_taken:
  assumes "within_connection ev" "mobile_step bc js ev p = (v, p')" "transport_client p' = Some c'"
  shows "\<exists>c. transport_client p = Some c \<and> tx_taken (tc_connection c') = tx_taken (tc_connection c)"
  using assms
proof (cases ev)
  case (SendFrame data pts cd w h key)
  with assms(2) obtain b where "phonecam_send_video_frame data pts cd w h key p = (b, p')"
    by (auto simp: apfst_eq_pair)
  then show ?thesis by (cases rule: send_video_frame_cases) (use assms(3) in \<open>auto simp: try_enqueue_Some\<close>)
next
  case (UpdateCapabilities j)
  with assms(2) obtain b where "phonecam_update_video_capabilities js j p = (b, p')"
    by (auto simp: apfst_eq_pair)
  then show ?thesis by (cases rule: update_capabilities_cases) (use assms(3) in \<open>auto simp: try_enqueue_Some\<close>)
next
  case (ReportConfiguration rid code cd w h rate)
  with assms(2) obtain b where "phonecam_report_stream_configuration rid code cd w h rate p = (b, p')"
    by (auto simp: apfst_eq_pair)
  then show ?thesis by (cases rule: report_cases) (use assms(3) in \<open>auto simp: try_enqueue_Some\<close>)
next
  case PollCommand
  with assms(2,3) show ?thesis
    by (auto simp: phonecam_poll_control_command_json_def Let_def split: option.splits if_splits prod.splits polled.splits)
qed (auto simp: within_connection_def configure_endpoint_def set_streaming_enabled_def split: if_splits)

lemma session_keeps_sent:
  assumes "session_step bc js e t = Some t'" "\<And>a. e \<noteq> DeskReceives a" "sent_by_phone fs t"
  shows "sent_by_phone fs t'"
proof (cases e)
  case (PhoneCalls call)
  obtain v p where call: "mobile_step bc js call (phone t) = (v, p)" by fastforce
  with assms(1) PhoneCalls have "within_connection call" "t' = t\<lparr>phone := p\<rparr>" by (auto split: if_splits)
  with call_keeps_taken [OF _ call] assms(3) show ?thesis by (fastforce simp: sent_by_phone_def)
next
  case PhoneTransmits
  with assms(1,3) show ?thesis
    by (fastforce simp: sent_by_phone_def on_link_def link_takes_def split: option.splits list.splits if_splits)
next
  case PhoneReceives
  with assms(1,3) show ?thesis
    by (auto simp: sent_by_phone_def on_link_def link_delivers_def split: option.splits list.splits if_splits)
next
  case (DeskTurns a i)
  with assms(1,3) show ?thesis
    by (cases i) (auto simp: sent_by_phone_def desk_turn_Some split: if_splits)
qed (use assms in \<open>auto simp: sent_by_phone_def\<close>)

lemma link_with_held:
  assumes "on_the_link ev" "ev \<noteq> DeskReads"
  shows "wired_step bc js ev (with_held ms w) = map_option (with_held ms) (wired_step bc js ev w)"
  using assms
  by (cases ev; cases w)
    (auto simp: with_held_def on_the_link_def option.map_comp comp_def split: option.splits list.splits if_splits)

text \<open>
  What a step is in the session: nothing, or one of its steps, which is smooth if \<open>sm\<close> holds.
\<close>

definition follows_in :: "bincode \<Rightarrow> serde_json \<Rightarrow> bool \<Rightarrow> ('l, 'm, 'w) session \<Rightarrow> ('l, 'm, 'w) session \<Rightarrow> bool" where
  "follows_in bc js sm t t' \<longleftrightarrow> t' = t \<or> (\<exists>e. session_step bc js e t = Some t' \<and> (sm \<longrightarrow> smooth e t))"

lemma follows_in_step:
  "session_step bc js e t = Some t' \<Longrightarrow> (sm \<Longrightarrow> smooth e t) \<Longrightarrow> follows_in bc js sm t t'"
  "follows_in bc js sm t t"
  by (auto simp: follows_in_def)

lemma link_accounted:
  assumes "bincode_ok bc" "on_the_link ev" "wired_step bc js ev w = Some w'"
    and "represents bc (with_held ms w) t" "sent_by_phone fs t"
  shows "\<exists>t'. follows_in bc js (wired_smooth ev w) t t' \<and> represents bc (with_held ms w') t' \<and> sent_by_phone fs t'"
proof (cases "ev = DeskReads")
  case True
  with assms(3) obtain d rest where d: "received bc (up_wire w) = Some (d, rest)"
      "w' = w\<lparr>up_wire := rest, desk_inbound := desk_inbound w @ (case d of None \<Rightarrow> [] | Some m \<Rightarrow> [m])\<rparr>"
    by (auto split: option.splits if_splits)
  with represents_reads [OF assms(1,4), of d rest] assms(5) show ?thesis
    by (auto simp: with_held_def intro: follows_in_step)
next
  case False
  with assms(2,3) have held: "wired_step bc js ev (with_held ms w) = Some (with_held ms w')" by (simp add: link_with_held)
  from wired_step_simulates [OF assms(1,4) this] obtain t' where
      t': "session_moves bc js (session_event_of bc ev (with_held ms w)) t t'" "represents bc (with_held ms w') t'"
    by blast
  have other: "session_event_of bc ev (with_held ms w) \<noteq> Some (DeskReceives a)" for a
    using assms(2) by (cases ev) (auto simp: session_event_of_def on_the_link_def split: option.splits)
  show ?thesis
  proof (cases "session_event_of bc ev (with_held ms w)")
    case None
    with t' assms(5) show ?thesis by (auto simp: session_moves_def intro: follows_in_step)
  next
    case (Some e)
    with t'(1) have step: "session_step bc js e t = Some t'" by (simp add: session_moves_def)
    then have "sent_by_phone fs t'" by (rule session_keeps_sent) (use Some other assms(5) in auto)
    moreover have "smooth e t" if "wired_smooth ev w"
    proof (rule smooth_event_of [OF _ assms(4) held Some])
      show "wired_smooth ev (with_held ms w)"
        using that assms(2) by (cases ev) (simp_all add: wired_smooth_def with_held_def on_the_link_def)
    qed
    ultimately show ?thesis using step t'(2) by (blast intro: follows_in_step)
  qed
qed

subsection \<open>The turns of the desktop\<close>

text \<open>How a turn begins and ends, and what it makes of the frames with the decoder.\<close>

definition turned ::
  "answers \<Rightarrow> actor_input \<Rightarrow> ('l, 'm, 'w, 'd, 'h) player \<Rightarrow> effect list \<Rightarrow> ('l, 'm, 'w, 'd, 'h) player \<Rightarrow> bool" where
  "turned a inp p effs p' \<longleftrightarrow> pl_phase p' = Over \<or>
     (\<exists>a'. now a' = now a \<and> actor_step a' inp (pl_actor p) = (effs, Continue (pl_actor p'))) \<and> pl_phase p' = Playing"

lemma now_answers_of [simp]: "now (answers_of a inp w) = now a"
  by (auto simp: answers_of_def split: actor_input.split option.split message.split)

lemma turned_answers [simp]:
  "turned (answers_of a inp' w) inp p effs p' = turned a inp p effs p'"
  "turned (a\<lparr>reset_answer := e\<rparr>) inp p effs p' = turned a inp p effs p'"
  by (simp_all add: turned_def)

lemma finish_turned: "finish_turn (actor_step a inp (pl_actor p)) w p = (effs, p') \<Longrightarrow> turned a inp p effs p'"
  by (cases "actor_step a inp (pl_actor p)") (auto simp: finish_turn_def turned_def Let_def split: flow.splits)

lemma turn_cases:
  assumes "player_step api hapi (Turn a inp) p = Some (effs, p')"
  shows "pl_phase p = Playing \<and> branch_enabled inp (pl_actor p) \<and>
    (turned a inp p effs p' \<or> effs = [] \<and> pl_actor p' = pl_actor p \<and> pl_phase p' = InReset inp \<and>
       (\<exists>r. inp = PeerMessage (Some (Msg_StreamConfigurationResult r))))"
  using assms
  by (auto simp: take_turn_def Let_def split: if_splits bind_splits option.splits
      dest!: finish_turned only_results_reset)

lemma accepted_by_turn:
  assumes "actor_step a inp s = (effs, fl)"
  shows "fold accept_effect effs fs \<in> {[], fs} \<or>
    (\<exists>f. inp = PeerMessage (Some (Msg_VideoFrame f)) \<and> fold accept_effect effs fs = fs @ [f])"
  using actor_step_decoder [OF assms]
  by (auto simp: uses_decoder_def leaves_decoder_def resets_decoder_def offers_frame_def fold_accept split: if_splits)

lemma smooth_arrival_head: "smooth_arrival (m # ms) d = smooth_arrival (m # ms') d"
  by (auto simp: smooth_arrival_def split: message.split)

lemma consumed_accounted:
  assumes "represents bc w t" "desk_inbound w = m # ms" "sent_by_phone fs t"
    and "actor_step a (PeerMessage (Some m)) (w_desk w) = (effs, Continue d)"
  shows "\<exists>t'. follows_in bc js (smooth_arrival (m # ms) (w_desk w)) t t' \<and>
    represents bc (w\<lparr>desk_inbound := ms, w_desk := d, desk_outbound := desk_outbound w @ sent_by effs\<rparr>) t' \<and>
    sent_by_phone (fold accept_effect effs fs) t'"
proof -
  from represents_takes [OF assms(1,2,4)] obtain rest where rest: "to_desk t = m # rest"
    and t': "session_step bc js (DeskReceives a) t =
        Some (t\<lparr>to_desk := rest, desk := d, to_phone := to_phone t @ sent_by effs\<rparr>)"
      "represents bc (w\<lparr>desk_inbound := ms, w_desk := d, desk_outbound := desk_outbound w @ sent_by effs\<rparr>)
        (t\<lparr>to_desk := rest, desk := d, to_phone := to_phone t @ sent_by effs\<rparr>)"
    by blast
  have "subseq (map Msg_VideoFrame (fold accept_effect effs fs)) (taken @ [m])"
    if "subseq (map Msg_VideoFrame fs) taken" for taken
    using accepted_by_turn [OF assms(4), of fs] that by (auto intro: subseq_append')
  with assms(3) rest have "sent_by_phone (fold accept_effect effs fs)
      (t\<lparr>to_desk := rest, desk := d, to_phone := to_phone t @ sent_by effs\<rparr>)"
    by (fastforce simp: sent_by_phone_def)
  moreover have "smooth (DeskReceives a) t" if "smooth_arrival (m # ms) (w_desk w)"
    using that assms(1) rest smooth_arrival_head [of m ms "w_desk w" rest] by (simp add: smooth_def represents_def)
  ultimately show ?thesis using t' by (blast intro: follows_in_step)
qed

lemma acted_accounted:
  assumes "represents bc w t" "sent_by_phone fs t" "branch_enabled i (w_desk w)" "\<And>m. i \<noteq> PeerMessage m"
    and "actor_step a i (w_desk w) = (effs, Continue d)"
  shows "\<exists>t'. follows_in bc js (i = Tick \<longrightarrow> smooth_tick a (w_desk w)) t t' \<and>
    represents bc (w\<lparr>w_desk := d, desk_outbound := desk_outbound w @ sent_by effs\<rparr>) t' \<and>
    sent_by_phone (fold accept_effect effs fs) t'"
proof -
  note step = represents_turns [OF assms(1,5,3,4), where js = js]
  have "fold accept_effect effs fs \<in> {[], fs}" using accepted_by_turn [OF assms(5), of fs] assms(4) by blast
  with session_keeps_sent [OF step _ assms(2)] have
      "sent_by_phone (fold accept_effect effs fs) (t\<lparr>desk := d, to_phone := to_phone t @ sent_by effs\<rparr>)"
    by (auto simp: sent_by_phone_def)
  moreover have "smooth (DeskTurns a i) t" if "i = Tick \<longrightarrow> smooth_tick a (w_desk w)"
    using that assms(1) by (cases i) (simp_all add: smooth_def represents_def)
  ultimately show ?thesis using step represents_turn [OF assms(1,5)] by (blast intro: follows_in_step)
qed

subsection \<open>The simulation\<close>

lemma resume_cases:
  assumes "player_step api hapi (ResetReturns a) p = Some (effs, p')" "player_inv api hapi fs p"
  obtains m where "pl_phase p = InReset (PeerMessage (Some m))" "turned a (PeerMessage (Some m)) p effs p'"
proof -
  from assms(1) obtain inp where inp: "pl_phase p = InReset inp" "turned a inp p effs p'"
    by (auto split: player_phase.splits option.splits dest!: finish_turned)
  with assms(2) obtain c where "find_map reset_of (fst (actor_step a inp (pl_actor p))) = Some c"
    by (auto simp: player_inv_def)
  with inp that only_results_reset show thesis by blast
qed

lemma with_held_nil [simp]: "with_held [] w = w"
  by (simp add: with_held_def)

lemma consumes_accounted:
  assumes acc: "accounts_for bc s t" and m: "desk_inbound (lv_wires s) = m # ms" and live: "lv_phase s' \<noteq> Over"
    and p: "player_step api hapi (Turn a (PeerMessage (Some m))) (player_of s) = Some (effs, p)"
      "settle (s\<lparr>lv_wires := (lv_wires s)\<lparr>desk_inbound := ms\<rparr>\<rparr>) (effs, p) = Some s'"
  shows "\<exists>t'. follows_in bc js (live_smooth (Consumes a) s) t t' \<and> accounts_for bc s' t'"
proof -
  from turn_cases [OF p(1)] have "lv_phase s = Playing" by simp
  with acc have rep: "represents bc (lv_wires s) t" "sent_by_phone (lv_accepted s) t" by (simp_all add: accounts_for_def)
  show ?thesis
  proof (cases "turned a (PeerMessage (Some m)) (player_of s) effs p")
    case True
    with live p(2) obtain a' where "actor_step a' (PeerMessage (Some m)) (w_desk (lv_wires s)) = (effs, Continue (pl_actor p))"
        "pl_phase p = Playing"
      by (auto simp: turned_def settle_Some)
    with p(2) m consumed_accounted [OF rep(1) m rep(2), of a' effs "pl_actor p" js] show ?thesis
      by (auto simp: accounts_for_def settle_Some live_smooth_def)
  next
    case False
    with turn_cases [OF p(1)] p(2) have "with_held (held (lv_phase s')) (lv_wires s') = lv_wires s"
        "lv_accepted s' = lv_accepted s"
      using m by (auto simp: settle_Some with_held_def sent_by_def)
    with rep show ?thesis by (auto simp: accounts_for_def intro: follows_in_step)
  qed
qed

lemma resumes_accounted:
  assumes acc: "accounts_for bc s t" and inv: "player_inv api hapi (lv_accepted s) (player_of s)" and live: "lv_phase s' \<noteq> Over"
    and p: "player_step api hapi (ResetReturns a) (player_of s) = Some (effs, p)" "settle s (effs, p) = Some s'"
  shows "\<exists>t'. follows_in bc js (live_smooth (Resumes a) s) t t' \<and> accounts_for bc s' t'"
proof -
  from resume_cases [OF p(1) inv] obtain m where m: "lv_phase s = InReset (PeerMessage (Some m))"
      "turned a (PeerMessage (Some m)) (player_of s) effs p"
    by (metis player_of_simps(3))
  with live p(2) obtain a' where "actor_step a' (PeerMessage (Some m)) (w_desk (lv_wires s)) = (effs, Continue (pl_actor p))"
      "pl_phase p = Playing"
    by (auto simp: turned_def settle_Some)
  with acc m(1) consumed_accounted
      [of bc "with_held [m] (lv_wires s)" t m "desk_inbound (lv_wires s)" "lv_accepted s" a' effs "pl_actor p" js]
  obtain t' where "follows_in bc js (smooth_arrival (m # desk_inbound (lv_wires s)) (w_desk (lv_wires s))) t t'"
      "represents bc ((lv_wires s)\<lparr>w_desk := pl_actor p, desk_outbound := desk_outbound (lv_wires s) @ sent_by effs\<rparr>) t'"
      "sent_by_phone (fold accept_effect effs (lv_accepted s)) t'"
    by (auto simp: accounts_for_def with_held_def)
  moreover have "live_smooth (Resumes a) s =
      smooth_arrival (m # desk_inbound (lv_wires s)) (w_desk (lv_wires s))"
    using m(1) by (simp add: live_smooth_def smooth_arrival_head [of m "[]" _ "desk_inbound (lv_wires s)"])
  ultimately show ?thesis using p(2) \<open>pl_phase p = Playing\<close> by (auto simp: accounts_for_def settle_Some)
qed

lemma acts_accounted:
  assumes acc: "accounts_for bc s t" and live: "lv_phase s' \<noteq> Over" and i: "\<And>m. i \<noteq> PeerMessage m"
    and p: "player_step api hapi (Turn a i) (player_of s) = Some (effs, p)" "settle s (effs, p) = Some s'"
  shows "\<exists>t'. follows_in bc js (live_smooth (Acts a i) s) t t' \<and> accounts_for bc s' t'"
proof -
  from turn_cases [OF p(1)] live p(2) i obtain a' where turn: "lv_phase s = Playing" "branch_enabled i (w_desk (lv_wires s))"
      "now a' = now a" "actor_step a' i (w_desk (lv_wires s)) = (effs, Continue (pl_actor p))" "pl_phase p = Playing"
    by (auto simp: turned_def settle_Some)
  then have "smooth_tick a' (w_desk (lv_wires s)) = smooth_tick a (w_desk (lv_wires s))"
    by (simp add: smooth_tick_def split: option.split)
  then have "live_smooth (Acts a i) s \<longleftrightarrow> (i = Tick \<longrightarrow> smooth_tick a' (w_desk (lv_wires s)))"
    by (cases i) (simp_all add: live_smooth_def)
  with acc turn p i acted_accounted [of bc "lv_wires s" t "lv_accepted s" i a' effs "pl_actor p" js] show ?thesis
    by (simp add: accounts_for_def settle_Some del: player_step.simps)
qed

lemma live_step_session:
  assumes ok: "bincode_ok bc" and inv: "player_inv api hapi (lv_accepted s) (player_of s)"
    and acc: "accounts_for bc s t" and move: "live_step bc js api hapi ev s = Some s'"
  shows "\<exists>t'. follows_in bc js (live_smooth ev s) t t' \<and> accounts_for bc s' t'"
proof (cases "lv_phase s' = Over")
  case False
  show ?thesis
  proof (cases ev)
    case (Link e)
    with move obtain w where w: "on_the_link e" "wired_step bc js e (lv_wires s) = Some w" "s' = s\<lparr>lv_wires := w\<rparr>"
      by (auto split: if_splits)
    with acc False link_accounted [OF ok w(1,2)] Link show ?thesis by (auto simp: accounts_for_def live_smooth_def)
  next
    case (Acts a i)
    with move obtain effs p where p: "\<And>m. i \<noteq> PeerMessage m"
        "player_step api hapi (Turn a i) (player_of s) = Some (effs, p)" "settle s (effs, p) = Some s'"
      by (cases i) (auto split: bind_splits simp del: player_step.simps)
    show ?thesis using acts_accounted [OF acc False p] Acts by simp
  next
    case (Consumes a)
    with move obtain m ms effs p where m: "desk_inbound (lv_wires s) = m # ms"
      and p: "player_step api hapi (Turn a (PeerMessage (Some m))) (player_of s) = Some (effs, p)"
        "settle (s\<lparr>lv_wires := (lv_wires s)\<lparr>desk_inbound := ms\<rparr>\<rparr>) (effs, p) = Some s'"
      by (auto split: bind_splits list.splits simp del: player_step.simps)
    show ?thesis using consumes_accounted [OF acc m False p] Consumes by simp
  next
    case Decodes
    with move have "lv_phase s' = lv_phase s" "lv_wires s' = lv_wires s" "lv_accepted s' = lv_accepted s"
      by (auto simp: settle_Some sent_by_def split: bind_splits option.splits)
    with acc show ?thesis by (auto simp: accounts_for_def intro: follows_in_step)
  next
    case (Resumes a)
    with move obtain effs p where p: "player_step api hapi (ResetReturns a) (player_of s) = Some (effs, p)"
        "settle s (effs, p) = Some s'"
      by (auto split: bind_splits simp del: player_step.simps)
    show ?thesis using resumes_accounted [OF acc inv False p] Resumes by simp
  qed
qed (auto simp: accounts_for_def intro: follows_in_step)

lemma live_begins_session:
  assumes "live_starts bc api hapi s"
  shows "\<exists>t. session_begins t \<and> accounts_for bc s t"
  using assms [unfolded live_starts_def, THEN conjunct2]
proof cases
  case (1 p v h d0 a dev effs d w0 w)
  let ?t = "\<lparr>phone = p, desk = d, to_desk = [], to_phone = sent_by effs\<rparr>"
  have t: "session_begins ?t" by (rule session_begins.intros [OF 1(2,3,5)])
  with wired_of_represents [OF t, of bc] 1(1,2) have "accounts_for bc s ?t"
    by (simp add: accounts_for_def sent_by_phone_def)
  with t show ?thesis by blast
qed

lemma live_moves_session:
  assumes "bincode_ok bc \<and> live_reachable bc js api hapi s" "accounts_for bc s t" "live_moves bc js api hapi s s'"
  shows "\<exists>t'. (\<lambda>t t'. \<exists>ev. session_step bc js ev t = Some t')\<^sup>=\<^sup>= t t' \<and> accounts_for bc s' t'"
proof -
  from assms(3) obtain ev where "live_step bc js api hapi ev s = Some s'" by (auto simp: live_moves_def)
  from live_step_session [OF _ live_reachable_player assms(2) this] assms(1) obtain t' where
      "follows_in bc js (live_smooth ev s) t t'" "accounts_for bc s' t'" by blast
  then show ?thesis by (auto simp: follows_in_def)
qed

interpretation live_sessions: simulates
  "live_starts bc api hapi" "live_moves bc js api hapi" "\<lambda>s. bincode_ok bc \<and> live_reachable bc js api hapi s"
  session_begins "\<lambda>t t'. \<exists>ev. session_step bc js ev t = Some t'" "session_reachable bc js"
  "accounts_for bc" for bc js api hapi
  by unfold_locales (rule live_begins_session, assumption, rule live_moves_session)

section \<open>Smooth runs\<close>

definition live_smooth_moves ::
  "bincode \<Rightarrow> serde_json \<Rightarrow> 'd openh264 \<Rightarrow> ('h, 'n) rust_h265 \<Rightarrow>
   ('l, 'm, 'w, 'd, 'h) live \<Rightarrow> ('l, 'm, 'w, 'd, 'h) live \<Rightarrow> bool" where
  "live_smooth_moves bc js api hapi s s' \<longleftrightarrow>
     (\<exists>ev. live_smooth ev s \<and> live_step bc js api hapi ev s = Some s') \<and> \<not> compensating (w_desk (lv_wires s'))"

lemma live_smooth_reaches:
  "bincode_ok bc \<and> live_smooth_reachable bc js api hapi s \<longleftrightarrow>
     reaches (live_starts bc api hapi) (live_smooth_moves bc js api hapi) s"
proof
  assume ok: "bincode_ok bc \<and> live_smooth_reachable bc js api hapi s"
  then have "live_smooth_reachable bc js api hapi s" ..
  then show "reaches (live_starts bc api hapi) (live_smooth_moves bc js api hapi) s"
    by (induction rule: live_smooth_reachable.induct)
      (use ok in \<open>auto simp: live_starts_def live_smooth_moves_def intro: reaches.intros\<close>)
next
  show "reaches (live_starts bc api hapi) (live_smooth_moves bc js api hapi) s \<Longrightarrow>
      bincode_ok bc \<and> live_smooth_reachable bc js api hapi s"
    by (induction rule: reaches.induct)
      (auto simp: live_starts_def live_smooth_moves_def intro: live_smooth_reachable.intros)
qed

interpretation smooth_lives: refinement_map
  "live_starts bc api hapi" "live_smooth_moves bc js api hapi" "\<lambda>s. bincode_ok bc \<and> live_smooth_reachable bc js api hapi s"
  "live_starts bc api hapi" "live_moves bc js api hapi" "\<lambda>s. bincode_ok bc \<and> live_reachable bc js api hapi s" "\<lambda>s. s"
  for bc js api hapi
  by unfold_locales (auto simp: live_smooth_reaches [symmetric] live_smooth_moves_def live_moves_def)

lemma live_smooth_moves_session:
  assumes "bincode_ok bc \<and> live_smooth_reachable bc js api hapi s" "accounts_for bc s t"
    and "live_smooth_moves bc js api hapi s s'"
  shows "\<exists>t'. (smooth_moves bc js)\<^sup>=\<^sup>= t t' \<and> accounts_for bc s' t'"
proof -
  from assms(3) obtain ev where ev: "live_smooth ev s" "live_step bc js api hapi ev s = Some s'"
      "\<not> compensating (w_desk (lv_wires s'))"
    by (auto simp: live_smooth_moves_def)
  have "player_inv api hapi (lv_accepted s) (player_of s)"
    using smooth_lives.mapped [OF assms(1)] live_reachable_player by blast
  from live_step_session [OF _ this assms(2) ev(2)] assms(1) obtain t' where
      t': "follows_in bc js True t t'" "accounts_for bc s' t'" using ev(1) by auto
  show ?thesis
  proof (cases "lv_phase s' = Over")
    case True
    then show ?thesis by (auto simp: accounts_for_def)
  next
    case False
    with t'(2) ev(3) have "\<not> compensating (desk t')" by (simp add: accounts_for_def represents_def with_held_def)
    with t' show ?thesis by (auto simp: follows_in_def smooth_moves_def)
  qed
qed

interpretation smooth_live_sessions: simulates
  "live_starts bc api hapi" "live_smooth_moves bc js api hapi" "\<lambda>s. bincode_ok bc \<and> live_smooth_reachable bc js api hapi s"
  session_begins "smooth_moves bc js" "smooth_reachable bc js"
  "accounts_for bc" for bc js api hapi
  by unfold_locales
    (simp add: live_smooth_reaches, rule live_begins_session, assumption, rule live_smooth_moves_session)

end
