(* ===== verification/Playback_Claims.thy ===== *)
theory Playback_Claims
  imports Playback Stream_Claims
begin

text \<open>
  What the connection actor and its decode worker guarantee together: the pictures shown are
  those of the active profile and the end of the connection ends the decoder's thread, but a
  jammed decoder holds up the whole connection.
\<close>

section \<open>A sample run\<close>

definition player_at :: "(v4l2_world, unit, unit) stream_actor \<Rightarrow> (unit, unit) worker \<Rightarrow> player_phase \<Rightarrow>
    (v4l2_world, unit, unit, unit, unit) player" where
  "player_at s w ph = \<lparr>pl_actor = s, pl_worker = w, pl_phase = ph\<rparr>"

definition decoder_made :: "nat \<Rightarrow> (unit, unit) decoder_state" where
  "decoder_made n = sample_decoder\<lparr>constructed := n\<rparr>"

definition sample_worker ::
  "nat \<Rightarrow> video_frame list \<Rightarrow> decode_event list \<Rightarrow> worker_phase \<Rightarrow> (unit, unit) worker" where
  "sample_worker n frames events ph =
     \<lparr>decoder = decoder_made n, frame_q = frames, control_q = [], event_q = events, phase = ph,
      client = Idle, ack = None\<rparr>"

definition frame_720p :: "u8 list \<Rightarrow> u64 \<Rightarrow> bool \<Rightarrow> video_frame" where
  "frame_720p bytes pts key = (sample_video bytes pts key)\<lparr>vf_width := 1280, vf_height := 720\<rparr>"

abbreviation sample_player_step where
  "sample_player_step \<equiv> player_step sample_h264 sample_h265"

abbreviation sample_player_reachable ::
  "video_frame list \<Rightarrow> (v4l2_world, unit, unit, unit, unit) player \<Rightarrow> bool" where
  "sample_player_reachable \<equiv> player_reachable sample_h264 sample_h265"

lemma sample_player_starts:
  "sample_player_reachable [] (player_at sample_state (sample_worker 2 [] [] Polling) Playing)"
proof -
  have start: "decoder_start sample_h264 sample_h265 = Ok sample_decoder"
    by (simp add: decoder_start_def h264_backend_new_def sample_h264_def sample_decoder_def)
  have fresh: "worker_new (sample_decoder\<lparr>constructed := 2\<rparr>) = sample_worker 2 [] [] Polling"
    by (simp add: worker_new_def sample_worker_def decoder_made_def)
  have "codec (active sample_state) = H264" by (simp add: sample_state_def H264_720P30_def)
  with player_reachable.starts [OF start sample_actor_start _ sample_after_reset] sample_runs(1) fresh
  show ?thesis by (simp add: player_at_def)
qed

lemma frame_720p_valid: "bytes \<noteq> [] \<Longrightarrow> is_ok (frame_validate_against (frame_720p bytes pts key) H264_720P30)"
  by (simp add: frame_720p_def sample_video_def H264_720P30_def)

lemma actor_takes_frame:
  assumes "bytes \<noteq> []" "active s = H264_720P30" "\<not> keyframe_request_in_flight s"
  shows "actor_step (good\<lparr>queue_has_room := True\<rparr>)
      (PeerMessage (Some (Msg_VideoFrame (frame_720p bytes pts key)))) s =
    ([SubmitFrame (frame_720p bytes pts key) True], Continue s)"
proof -
  have "s\<lparr>keyframe_request_in_flight := False\<rparr> = s" using assms(3) by (cases s) simp
  then show ?thesis
    using frame_720p_valid [OF assms(1), of pts key] assms(2)
    by (simp add: actor_step_def on_message_def on_video_frame_def Let_def del: is_ok_frame_validate)
qed

lemma player_takes_frame_of:
  assumes "bytes \<noteq> []" "length frames < 2" "ph \<noteq> Finished" "active s = H264_720P30" "\<not> keyframe_request_in_flight s"
  shows "sample_player_step (Turn good (PeerMessage (Some (Msg_VideoFrame (frame_720p bytes pts key)))))
      (player_at s (sample_worker n frames events ph) Playing) =
    Some ([SubmitFrame (frame_720p bytes pts key) True],
      player_at s (sample_worker n (frames @ [frame_720p bytes pts key]) events ph) Playing)"
proof -
  let ?f = "frame_720p bytes pts key" and ?w = "sample_worker n frames events ph"
  have "try_send ?f ?w = (sample_worker n (frames @ [?f]) events ph, Ok ())"
    using assms(2,3) by (simp add: try_send_def sample_worker_def FRAME_QUEUE_CAPACITY_def)
  with actor_takes_frame [OF assms(1,4,5), of pts key] show ?thesis
    by (simp add: player_at_def branch_enabled_def worker_after_input_def answers_of_def take_turn_def finish_turn_def)
qed

lemma player_takes_frame:
  assumes "bytes \<noteq> []" "length frames < 2" "ph \<noteq> Finished"
  shows "sample_player_step (Turn good (PeerMessage (Some (Msg_VideoFrame (frame_720p bytes pts key)))))
      (player_at sample_state (sample_worker n frames events ph) Playing) =
    Some ([SubmitFrame (frame_720p bytes pts key) True],
      player_at sample_state (sample_worker n (frames @ [frame_720p bytes pts key]) events ph) Playing)"
  by (rule player_takes_frame_of [OF assms]) (simp_all add: sample_state_def)

lemma player_runs_thread:
  "thread_step sample_h264 sample_h265 w = Some w' \<Longrightarrow>
   sample_player_step ThreadRuns (player_at s w ph) = Some ([], player_at s w' ph)"
  by (simp add: player_at_def)

lemma thread_takes:
  "handle_frame sample_h264 sample_h265 (decoder_made n) f = Some (es, decoder_made m) \<Longrightarrow>
   thread_step sample_h264 sample_h265 (sample_worker n (f # fs) events Polling) =
     Some (sample_worker m fs events (sending es))"
  by (simp add: thread_step_def sample_worker_def take_frame_def)

lemma thread_sends:
  "length events < 2 \<Longrightarrow> es \<noteq> [] \<Longrightarrow>
   thread_step sample_h264 sample_h265 (sample_worker n fs events (Sending es)) =
     Some (sample_worker n fs (events @ [hd es]) (sending (tl es)))"
  by (cases es) (simp_all add: thread_step_def sample_worker_def send_event_def EVENT_QUEUE_CAPACITY_def)

definition corrupt :: decode_event where
  "corrupt = ErrorEvent (Some (DecodeFailed (DecoderMessage (lit ''corrupt''))))"

lemma bad_frames:
  "handle_frame sample_h264 sample_h265 (decoder_made 2) (frame_720p [0x41] 1 True) =
     Some ([corrupt, RecoveryRequired], decoder_made 3)"
  "handle_frame sample_h264 sample_h265 (decoder_made 3) (frame_720p [0x41] 2 False) =
     Some ([RecoveryRequired], decoder_made 3)"
  by code_simp+

text \<open>Two undecodable frames, and the thread stands before a full event queue.\<close>

lemma player_jams:
  "\<exists>fs. sample_player_reachable fs (player_at sample_state
     (sample_worker 3 [] [corrupt, RecoveryRequired] (Sending [RecoveryRequired])) Playing)"
proof -
  let ?f = "frame_720p [0x41] 1 True" and ?g = "frame_720p [0x41] 2 False"
  note step = player_reachable.steps [of sample_h264 sample_h265]
  from step [OF sample_player_starts player_takes_frame [of "[0x41]" "[]" Polling 1 True 2 "[]"]]
  have "sample_player_reachable [?f] (player_at sample_state (sample_worker 2 [?f] [] Polling) Playing)" by simp
  from step [OF this player_runs_thread [OF thread_takes [OF bad_frames(1)]]]
  have "sample_player_reachable [?f] (player_at sample_state
      (sample_worker 3 [] [] (Sending [corrupt, RecoveryRequired])) Playing)"
    by (simp add: sending_def)
  from step [OF this player_runs_thread [OF thread_sends]]
  have "sample_player_reachable [?f] (player_at sample_state
      (sample_worker 3 [] [corrupt] (Sending [RecoveryRequired])) Playing)"
    by (simp add: sending_def)
  from step [OF this player_runs_thread [OF thread_sends]]
  have "sample_player_reachable [?f] (player_at sample_state
      (sample_worker 3 [] [corrupt, RecoveryRequired] Polling) Playing)"
    by (simp add: sending_def)
  from step [OF this player_takes_frame [of "[0x41]" "[]" Polling 2 False 3 "[corrupt, RecoveryRequired]"]]
  have "sample_player_reachable [?f, ?g] (player_at sample_state
      (sample_worker 3 [?g] [corrupt, RecoveryRequired] Polling) Playing)" by simp
  from step [OF this player_runs_thread [OF thread_takes [OF bad_frames(2)]]] show ?thesis
    by (auto simp: sending_def)
qed

text \<open>A switch to HEVC, commanded and applied by the phone, then waits inside \<open>reset\<close>.\<close>

definition hevc_applied :: actor_input where
  "hevc_applied = configuration_result 1 (Applied HEVC_720P30)"

lemma player_switches:
  "sample_player_step (Turn good (Command (Some (command_for HEVC_720P30 PreferAuto 7))))
     (player_at sample_state (sample_worker n fs es ph) Playing) =
   Some ([Send (configure_message 1 HEVC_720P30)],
     player_at (waiting_for 1 HEVC_720P30 7) (sample_worker n fs es ph) Playing)"
  using sample_command(1)
  by (simp add: player_at_def branch_enabled_def worker_after_input_def answers_of_def take_turn_def
      finish_turn_def) (simp add: sample_state_def)

lemma player_enters_reset:
  "ph \<noteq> Finished \<Longrightarrow> sample_player_step (Turn good hevc_applied)
     (player_at (waiting_for 1 HEVC_720P30 7) (sample_worker n fs es ph) Playing) =
   Some ([], player_at (waiting_for 1 HEVC_720P30 7)
     ((sample_worker n fs es ph)\<lparr>control_q := [Reset Hevc], client := Awaiting Hevc\<rparr>) (InReset hevc_applied))"
  using sample_applied
  by (simp add: player_at_def branch_enabled_def worker_after_input_def answers_of_def take_turn_def
      hevc_applied_def configuration_result_def reset_begin_def sample_worker_def CONTROL_QUEUE_CAPACITY_def)

text \<open>A keyframe that decodes: the thread takes it, and then queues its picture.\<close>

definition shown_worker :: "decode_event list \<Rightarrow> worker_phase \<Rightarrow> (unit, unit) worker" where
  "shown_worker events ph =
     (sample_worker 2 [] events ph)\<lparr>decoder := (decoder_made 2)\<lparr>waiting_for_idr := False\<rparr>\<rparr>"

lemma picture_decoded:
  "thread_step sample_h264 sample_h265 (sample_worker 2 [frame_720p [0x65] 7 True] [] Polling) =
     Some (shown_worker [] (Sending [FrameEvent sample_nv12]))"
proof -
  have "handle_frame sample_h264 sample_h265 (decoder_made 2) (frame_720p [0x65] 7 True) =
      Some ([FrameEvent sample_nv12], (decoder_made 2)\<lparr>waiting_for_idr := False\<rparr>)"
    by (simp add: handle_frame_def decode_with_def h264_decode_def sample_normalized sample_picture_decoded
        sample_decoder_def sample_video_def sample_h264_def frame_720p_def decoder_made_def)
  then show ?thesis by (simp add: thread_step_def sample_worker_def shown_worker_def take_frame_def sending_def)
qed

lemma picture_queued:
  "thread_step sample_h264 sample_h265 (shown_worker [] (Sending [FrameEvent sample_nv12])) =
     Some (shown_worker [FrameEvent sample_nv12] Polling)"
  by (simp add: thread_step_def shown_worker_def sample_worker_def send_event_def sending_def EVENT_QUEUE_CAPACITY_def)

section \<open>Properties\<close>

text \<open>
  The pictures that can be shown are those of the active profile: while the loop runs, every
  picture waiting to be received was decoded after the last change of profile, has tight
  planes, and carries the timestamp of a frame accepted since then, whose codec and size are
  those of the profile now active; and a keyframe of that codec came before it.
\<close>

theorem shown_pictures_belong_to_the_active_profile:
  assumes "player_reachable api hapi fs p" "pl_phase p = Playing" "FrameEvent n \<in> set (event_q (pl_worker p))"
  shows "tight_frame n \<and>
    (\<exists>f \<in> set fs. pts_us f = nv_pts_us n \<and> vf_codec f = codec (active (pl_actor p)) \<and>
       vf_width f = width (active (pl_actor p)) \<and> vf_height f = height (active (pl_actor p))) \<and>
    (\<exists>f \<in> set fs. is_keyframe f \<and> vf_codec f = codec (active (pl_actor p)))"
proof -
  have inv: "worker_reachable api hapi (pl_worker p)" "pictures_current fs p"
    using player_reachable_inv [OF assms(1)] assms(2) by (simp_all add: player_inv_def)
  have "tight_frame n"
    using reachable_invariants(3) [OF inv(1)] assms(3)
    by (auto simp: frames_tight_def list_all_iff set_event_frames)
  moreover have "n \<in> set (event_frames (event_q (pl_worker p) @ pending_events (phase (pl_worker p))))"
    using assms(3) by (simp add: set_event_frames)
  ultimately show ?thesis
    using inv(2) by (force simp: pictures_current_def pictures_from_def list_all_iff)
qed

theorem shown_pictures_belong_to_the_active_profile_witness:
  "\<exists>f \<in> set [frame_720p [0x65] 7 True]. pts_us f = nv_pts_us sample_nv12 \<and> vf_codec f = H264 \<and>
     vf_width f = 1280 \<and> vf_height f = 720"
proof -
  let ?f = "frame_720p [0x65] 7 True"
  note step = player_reachable.steps [of sample_h264 sample_h265]
  from step [OF sample_player_starts player_takes_frame [of "[0x65]" "[]" Polling 7 True 2 "[]"]]
  have "sample_player_reachable [?f] (player_at sample_state (sample_worker 2 [?f] [] Polling) Playing)" by simp
  from step [OF step [OF this player_runs_thread [OF picture_decoded]] player_runs_thread [OF picture_queued]]
  have "sample_player_reachable [?f] (player_at sample_state (shown_worker [FrameEvent sample_nv12] Polling) Playing)"
    by simp
  from shown_pictures_belong_to_the_active_profile [OF this, of sample_nv12] show ?thesis
    by (simp add: player_at_def shown_worker_def sample_worker_def sample_state_def H264_720P30_def)
qed

text \<open>
  C21. When the loop has ended, in whatever way, one more step at most of the decoder's thread ends
  it, so that joining it returns.
\<close>

theorem end_of_connection_ends_the_decoder:
  assumes "player_reachable api hapi fs p" "pl_phase p = Over"
  shows "phase (pl_worker p) = Finished \<or>
    (\<exists>p'. player_step api hapi ThreadRuns p = Some ([], p') \<and> phase (pl_worker p') = Finished)"
proof -
  from player_reachable_inv [OF assms(1)] assms(2) have inv: "worker_reachable api hapi (pl_worker p)"
      "client (pl_worker p) = Dropped" "phase (pl_worker p) = Finished \<or> control_q (pl_worker p) = [Shutdown]"
    by (simp_all add: player_inv_def)
  with reachable_invariants(2) [OF inv(1)] show ?thesis
    by (cases "phase (pl_worker p)")
      (auto simp: thread_step_def apply_control_def send_event_def queues_bounded_def split: list.splits)
qed

theorem end_of_connection_ends_the_decoder_witness:
  "\<exists>p p'. pl_phase p = Over \<and> phase (pl_worker p) = Polling \<and>
     sample_player_step ThreadRuns p = Some ([], p' :: (v4l2_world, unit, unit, unit, unit) player) \<and>
     phase (pl_worker p') = Finished"
proof -
  let ?w = "sample_worker 2 [] [] Polling"
  have "sample_player_step (Turn good ShutdownChanged) (player_at sample_state ?w Playing) =
      Some ([], player_at sample_state (worker_drop ?w) Over)"
    by (simp add: player_at_def branch_enabled_def worker_after_input_def answers_of_def take_turn_def
        finish_turn_def actor_step_def)
  from player_reachable.steps [OF sample_player_starts this]
  have "sample_player_reachable [] (player_at sample_state (worker_drop ?w) Over)" by simp
  from end_of_connection_ends_the_decoder [OF this]
  have "\<exists>p'. sample_player_step ThreadRuns (player_at sample_state (worker_drop ?w) Over) = Some ([], p') \<and>
      phase (pl_worker p') = Finished"
    by (simp add: player_at_def sample_worker_def worker_drop_def)
  moreover have "pl_phase (player_at sample_state (worker_drop ?w) Over) = Over \<and>
      phase (pl_worker (player_at sample_state (worker_drop ?w) Over)) = Polling"
    by (simp add: player_at_def sample_worker_def worker_drop_def)
  ultimately show ?thesis by blast
qed

text \<open>
  C24. A decoder whose events do not fit holds up the whole connection: after two undecodable frames
  a change of codec puts the loop inside \<open>reset\<close>, the thread inside \<open>blocking_send\<close>, and no
  step of either side is possible any more; a shutdown request is not looked at.
\<close>

theorem jammed_decoder_hangs_the_connection:
  "\<exists>fs p. sample_player_reachable fs p \<and> pl_phase p = InReset hevc_applied \<and>
     (\<forall>ev. sample_player_step ev p = None)"
proof -
  let ?w = "(sample_worker 3 [] [corrupt, RecoveryRequired] (Sending [RecoveryRequired]))
      \<lparr>control_q := [Reset Hevc], client := Awaiting Hevc\<rparr>"
  let ?p = "player_at (waiting_for 1 HEVC_720P30 7) ?w (InReset hevc_applied)"
  obtain fs where "sample_player_reachable fs (player_at sample_state
      (sample_worker 3 [] [corrupt, RecoveryRequired] (Sending [RecoveryRequired])) Playing)"
    using player_jams by blast
  from player_reachable.steps [OF player_reachable.steps [OF this player_switches] player_enters_reset]
  have "sample_player_reachable fs ?p" by simp
  moreover have "sample_player_step ev ?p = None" for ev
    by (cases ev)
      (simp_all add: player_at_def thread_step_def send_event_def reset_end_def sample_worker_def EVENT_QUEUE_CAPACITY_def)
  ultimately show ?thesis by (intro exI conjI allI) (auto simp: player_at_def)
qed

end
