(* ===== verification/Live_Claims.thy ===== *)
theory Live_Claims
  imports Phone_To_Screen Wired_Claims Playback_Claims
begin

text \<open>
  What holds from the phone's camera to the desktop's screen: the pictures come from frames the
  phone has sent, and a frame is shown in a sample run over bytes.
\<close>

section \<open>A sample run\<close>

abbreviation key_frame :: video_frame where
  "key_frame \<equiv> frame_720p [0x65] 7 True"

definition live_codec :: bincode where
  "live_codec = link_codec\<lparr>bc_video_frame := table_serde [(key_frame, [9])]\<rparr>"

lemma live_codec_ok: "bincode_ok live_codec"
  using link_codec_ok by (simp add: live_codec_def bincode_ok_def table_serde_ok)

lemma key_frame_encoded: "encode_frame live_codec (Msg_VideoFrame key_frame) = Ok [0, 0, 0, 2, 2, 9]"
  by (simp add: encode_frame_def live_codec_def table_serde_def encode_payload_def u32_try_from_usize_def
      frame_constants checked_add_usize_def to_be_bytes_def to_le_bytes_def upt_rec
      frame_720p_def sample_video_def)

lemma key_frame_received: "received live_codec [0, 0, 0, 2, 2, 9] = Some (Some (Msg_VideoFrame key_frame), [])"
  using reader_step_message [OF live_codec_ok key_frame_encoded,
      of "\<lparr>timed_out = False, inbound_open = True\<rparr>" "[]" UnexpectedEof]
  by (simp add: received_def forwarded_def is_handshake_def ping_message_def)

lemma key_frame_written:
  "written live_codec (Outbound (Some (Msg_VideoFrame key_frame))) [] = Some [0, 0, 0, 2, 2, 9]"
  by (simp add: written_def write_message_def key_frame_encoded)

text \<open>The phone after it sent the frame, with the messages its transport has taken and has not.\<close>

definition phone_sent :: "message list \<Rightarrow> message list \<Rightarrow> mobile_core" where
  "phone_sent sent txq = (phone_at sent txq [] [] H264_720P30 None)\<lparr>last_frame := Some
     \<lparr>fm_len = 1, fm_pts = 7, fm_codec = H264, fm_width = 1280, fm_height = 720, fm_is_keyframe = True\<rparr>\<rparr>"

definition send_key_frame :: mobile_event where
  "send_key_frame = SendFrame (Some [0x65]) 7 (video_codec_as_u8 H264) 1280 720 True"

lemma phone_sends_key_frame:
  "snd (mobile_step live_codec sample_json send_key_frame sample_connected) =
     phone_sent [] [Msg_VideoFrame key_frame]"
  by (simp add: send_key_frame_def video_codec_try_from_def phonecam_send_video_frame_def phone_sent_def phone_at_simps
      frame_720p_def sample_video_def try_enqueue_def OUTBOUND_CHANNEL_CAPACITY_def protocol_checks
      H264_720P30_def Let_def)

lemma phone_gives_key_frame:
  "snd (mobile_step live_codec sample_json LinkTakes (phone_sent [] [m])) = phone_sent [m] []"
  by (simp add: on_link_def link_takes_def phone_sent_def phone_at_simps)

lemma phone_sent_client:
  "\<exists>c. transport_client (phone_sent sent txq) = Some c \<and> tx_queue (tc_connection c) = txq \<and>
     tx_open (tc_connection c) \<and> tx_taken (tc_connection c) = Msg_Handshake (mobile_handshake sample_config) # sent"
  by (simp add: phone_sent_def phone_at_simps)

abbreviation live_at ::
  "mobile_core \<Rightarrow> u8 list \<Rightarrow> message list \<Rightarrow> (unit, unit) worker \<Rightarrow> video_frame list \<Rightarrow>
   (v4l2_world, unit, unit, unit, unit) live" where
  "live_at p up din w fs \<equiv> \<lparr>lv_wires = \<lparr>w_phone = p, w_desk = sample_desk, up_wire = up, desk_inbound = din,
     desk_outbound = [], down_wire = []\<rparr>, lv_worker = w, lv_phase = Playing, lv_accepted = fs\<rparr>"

abbreviation sample_live_step where
  "sample_live_step \<equiv> live_step live_codec sample_json sample_h264 sample_h265"

abbreviation sample_live :: "(v4l2_world, unit, unit, unit, unit) live \<Rightarrow> bool" where
  "sample_live \<equiv> live_smooth_reachable live_codec sample_json sample_h264 sample_h265"

lemma live_at_player: "player_of (live_at p up din w fs) = player_at sample_desk w Playing"
  by (simp add: player_of_def player_at_def)

lemma sample_goes_live: "sample_live (live_at sample_connected [] [] (sample_worker 2 [] [] Polling) [])"
proof -
  have start: "decoder_start sample_h264 sample_h265 = Ok sample_decoder"
    by (simp add: decoder_start_def h264_backend_new_def sample_h264_def sample_decoder_def)
  have fresh: "worker_new (sample_decoder\<lparr>constructed := 2\<rparr>) = sample_worker 2 [] [] Polling"
    by (simp add: worker_new_def sample_worker_def decoder_made_def)
  have "codec (active sample_desk) = H264" by (simp add: sample_desk_def sample_state_def H264_720P30_def)
  with live_begins.intros [OF sample_phone_connected sample_handshakes(1) start sample_desk_starts _ sample_after_reset]
    sample_runs(1) fresh
  show ?thesis by (intro goes_live_smoothly) (simp add: wired_of_def sent_by_def publish_def)
qed

lemma live_calls:
  "sample_live_step (Link (Calls send_key_frame)) (live_at sample_connected [] [] w []) =
     Some (live_at (phone_sent [] [Msg_VideoFrame key_frame]) [] [] w [])"
  using phone_sends_key_frame
  by (simp add: on_the_link_def within_connection_def send_key_frame_def del: mobile_step.simps)

lemma live_writes:
  "sample_live_step (Link PhoneWrites) (live_at (phone_sent [] [Msg_VideoFrame key_frame]) [] [] w []) =
     Some (live_at (phone_sent [Msg_VideoFrame key_frame] []) [0, 0, 0, 2, 2, 9] [] w [])"
  using phone_sent_client [of "[]" "[Msg_VideoFrame key_frame]"] phone_gives_key_frame key_frame_written
  by (auto simp: on_the_link_def simp del: mobile_step.simps)

lemma live_reads:
  "sample_live_step (Link DeskReads) (live_at p [0, 0, 0, 2, 2, 9] [] w []) =
     Some (live_at p [] [Msg_VideoFrame key_frame] w [])"
  by (simp add: on_the_link_def key_frame_received INBOUND_CHANNEL_CAPACITY_def)

lemma live_consumes:
  "sample_live_step (Consumes good) (live_at p [] [Msg_VideoFrame key_frame] (sample_worker 2 [] [] Polling) []) =
     Some (live_at p [] [] (sample_worker 2 [key_frame] [] Polling) [key_frame])"
proof -
  have "active sample_desk = H264_720P30" "\<not> keyframe_request_in_flight sample_desk"
    by (simp_all add: sample_desk_def sample_state_def)
  from player_takes_frame_of [OF _ _ _ this, of "[0x65]" "[]" Polling 7 True 2 "[]"] show ?thesis
    by (simp add: live_at_player settle_def sent_by_def del: player_step.simps) (simp add: player_at_def)
qed

lemma live_decodes:
  "thread_step sample_h264 sample_h265 w = Some w' \<Longrightarrow>
   sample_live_step Decodes (live_at p up din w fs) = Some (live_at p up din w' fs)"
  by (simp add: player_of_def settle_def sent_by_def)

lemma sample_lives:
  assumes "sample_live s" "sample_live_step ev s = Some s'" "live_smooth ev s" "w_desk (lv_wires s') = sample_desk"
  shows "sample_live s'"
proof -
  have "\<not> compensating sample_desk" by (simp add: compensating_def sample_desk_def sample_state_def)
  with assms show ?thesis by (auto intro: lives_smoothly)
qed

lemma sample_picture_shown:
  "sample_live (live_at (phone_sent [Msg_VideoFrame key_frame] []) [] []
     (shown_worker [FrameEvent sample_nv12] Polling) [key_frame])"
proof -
  note smooth = live_smooth_def wired_smooth_def smooth_report_def send_key_frame_def smooth_arrival_def
  have "sample_live (live_at (phone_sent [] [Msg_VideoFrame key_frame]) [] [] (sample_worker 2 [] [] Polling) [])"
    by (rule sample_lives [OF sample_goes_live live_calls]) (simp_all add: smooth)
  then have "sample_live (live_at (phone_sent [Msg_VideoFrame key_frame] []) [0, 0, 0, 2, 2, 9] []
      (sample_worker 2 [] [] Polling) [])"
    by (rule sample_lives [OF _ live_writes]) (simp_all add: smooth)
  then have "sample_live (live_at (phone_sent [Msg_VideoFrame key_frame] []) [] [Msg_VideoFrame key_frame]
      (sample_worker 2 [] [] Polling) [])"
    by (rule sample_lives [OF _ live_reads]) (simp_all add: smooth)
  then have "sample_live (live_at (phone_sent [Msg_VideoFrame key_frame] []) [] []
      (sample_worker 2 [key_frame] [] Polling) [key_frame])"
    by (rule sample_lives [OF _ live_consumes]) (simp_all add: smooth)
  then have "sample_live (live_at (phone_sent [Msg_VideoFrame key_frame] []) [] []
      (shown_worker [] (Sending [FrameEvent sample_nv12])) [key_frame])"
    by (rule sample_lives [OF _ live_decodes [OF picture_decoded]]) (simp_all add: smooth)
  then show ?thesis
    by (rule sample_lives [OF _ live_decodes [OF picture_queued]]) (simp_all add: smooth)
qed

lemma sample_picture_reached:
  "live_reachable live_codec sample_json sample_h264 sample_h265
     (live_at (phone_sent [Msg_VideoFrame key_frame] []) [] [] (shown_worker [FrameEvent sample_nv12] Polling) [key_frame])"
  using smooth_lives.mapped [OF conjI [OF live_codec_ok sample_picture_shown]] ..

section \<open>Properties\<close>

text \<open>
  C5. The pictures that can be shown are the phone's. In every run of phone, transport, connection
  actor and decoder, the frames the decoder has accepted since the last change of profile are
  frames that the phone's core has accepted and given to its transport, in the same order; and
  while the loop runs, every picture waiting to be shown has tight planes and the timestamp of
  one of these frames, whose codec and size are those of the active profile, and a keyframe of
  that codec is among them.
\<close>

theorem shown_pictures_were_sent_by_the_phone:
  assumes "bincode_ok bc" "live_reachable bc js api hapi s" "lv_phase s = Playing"
    and "transport_client (w_phone (lv_wires s)) = Some c"
  shows "subseq (map Msg_VideoFrame (lv_accepted s)) (tx_taken (tc_connection c)) \<and>
    (FrameEvent n \<in> set (event_q (lv_worker s)) \<longrightarrow>
      tight_frame n \<and>
      (\<exists>f \<in> set (lv_accepted s). pts_us f = nv_pts_us n \<and> vf_codec f = codec (active (w_desk (lv_wires s))) \<and>
         vf_width f = width (active (w_desk (lv_wires s))) \<and> vf_height f = height (active (w_desk (lv_wires s)))) \<and>
      (\<exists>f \<in> set (lv_accepted s). is_keyframe f \<and> vf_codec f = codec (active (w_desk (lv_wires s)))))"
proof
  from live_sessions.represented [OF conjI [OF assms(1,2)]] obtain t where
      "represents bc (lv_wires s) t" "sent_by_phone (lv_accepted s) t"
    using assms(3) by (auto simp: accounts_for_def)
  with assms(4) show "subseq (map Msg_VideoFrame (lv_accepted s)) (tx_taken (tc_connection c))"
    by (auto simp: sent_by_phone_def represents_def intro: subseq_rev_drop_many)
  have "player_reachable api hapi (lv_accepted s) (player_of s)"
    using live_players.mapped [OF conjI [OF assms(1,2)]] by simp
  from shown_pictures_belong_to_the_active_profile [OF this, of n] assms(3)
  show "FrameEvent n \<in> set (event_q (lv_worker s)) \<longrightarrow> tight_frame n \<and>
      (\<exists>f \<in> set (lv_accepted s). pts_us f = nv_pts_us n \<and> vf_codec f = codec (active (w_desk (lv_wires s))) \<and>
         vf_width f = width (active (w_desk (lv_wires s))) \<and> vf_height f = height (active (w_desk (lv_wires s)))) \<and>
      (\<exists>f \<in> set (lv_accepted s). is_keyframe f \<and> vf_codec f = codec (active (w_desk (lv_wires s))))"
    by simp
qed

theorem shown_pictures_were_sent_by_the_phone_witness:
  "\<exists>c. transport_client (phone_sent [Msg_VideoFrame key_frame] []) = Some c \<and>
     subseq [Msg_VideoFrame key_frame] (tx_taken (tc_connection c)) \<and>
     (\<exists>f \<in> set [key_frame]. pts_us f = nv_pts_us sample_nv12 \<and> vf_width f = 1280)"
proof -
  obtain c where "transport_client (phone_sent [Msg_VideoFrame key_frame] []) = Some c"
    using phone_sent_client by blast
  with shown_pictures_were_sent_by_the_phone [OF live_codec_ok sample_picture_reached, of c sample_nv12] show ?thesis
    by (simp add: shown_worker_def sample_worker_def sample_desk_def sample_state_def H264_720P30_def)
qed

text \<open>
  C2. A quiet system shows what the phone is sending. When nothing is on its way to the desktop,
  neither queued, nor on the wire, nor inside a turn, then in every smooth run the phone, the
  connection actor, the decoder and the output device all stand at one profile: the phone's
  active profile is the desktop's, the decoder has its codec, and the output device its size,
  rate and pixel format; both ends hold the same profiles of the phone; and when nothing is on
  its way back and the application has no request open, the desktop waits for none.
\<close>

theorem quiet_system_stands_at_one_profile:
  assumes "bincode_ok bc" "live_smooth_reachable bc js api hapi s" "lv_phase s = Playing"
    and "lv_wires s = w" "transport_client (w_phone w) = Some c"
    and "up_wire w = []" "desk_inbound w = []" "tx_queue (tc_connection c) = []"
  shows "tc_active c = active (w_desk w) \<and> tc_supported c = peer_profiles (w_desk w) \<and>
    dec_codec (decoder (lv_worker s)) = codec (tc_active c) \<and>
    output_format (out_dev (w_desk w)) =
      Some (native_format_of (output_pixel_format (out_dev (w_desk w))) (tc_active c)) \<and>
    (down_wire w = [] \<and> desk_outbound w = [] \<and> rx_queue (tc_connection c) = [] \<and> tc_pending c = None \<longrightarrow>
      pending (w_desk w) = None)"
proof -
  from smooth_live_sessions.represented [OF conjI [OF assms(1,2)]] obtain t where
      t: "smooth_reachable bc js t" "represents bc w t"
    using assms(3,4) by (auto simp: accounts_for_def)
  note agree = quiet_session_agrees [OF assms(1) t assms(5-8)]
  have "bincode_ok bc \<and> live_reachable bc js api hapi s" by (rule smooth_lives.mapped [OF conjI [OF assms(1,2)]])
  then have "player_inv api hapi (lv_accepted s) (player_of s)" using live_reachable_player by blast
  with assms(3,4) have inv: "dec_codec (decoder (lv_worker s)) = codec (active (w_desk w))" "actor_inv (w_desk w)"
    by (auto simp: player_inv_def pictures_current_def pictures_from_def)
  have "\<not> compensating (w_desk w)"
    using smooth_reachable_inv [OF t(1)] t(2) by (simp add: session_inv_def represents_def)
  with inv(2) have "in_format (w_desk w) (active (w_desk w))"
    by (auto simp: actor_inv_def compensating_def split: option.splits pending_kind.splits)
  with agree inv(1) show ?thesis by (simp add: in_format_def)
qed

theorem quiet_system_stands_at_one_profile_witness:
  "\<exists>c. transport_client (phone_sent [Msg_VideoFrame key_frame] []) = Some c \<and> tc_active c = active sample_desk \<and>
     dec_codec (decoder (shown_worker [FrameEvent sample_nv12] Polling)) = codec (tc_active c) \<and>
     output_format (out_dev sample_desk) = Some (native_format_of Yuyv (tc_active c))"
proof -
  obtain c where "transport_client (phone_sent [Msg_VideoFrame key_frame] []) = Some c" "tx_queue (tc_connection c) = []"
    using phone_sent_client by blast
  with quiet_system_stands_at_one_profile [OF live_codec_ok sample_picture_shown _ refl, of c] show ?thesis
    by (auto simp: sample_desk_def sample_state_def)
qed

end
