(* ===== verification/Frame_Limits.thy ===== *)
theory Frame_Limits
  imports Mobile_Claims
begin

text \<open>
  A frame that is too large for the wire format: the phone's core
  (\<open>rust/phonecam-mobile-core/src/lib.rs\<close>) and the transport's writer
  (\<open>rust/phonecam-transport/src/client.rs\<close>) put together. The core checks a frame against the
  active profile only, so that such a frame is accepted; the writer then fails to encode it.
\<close>

section \<open>The writer and a frame that cannot be encoded\<close>

lemma oversized_not_encoded:
  "MAX_FRAME_BYTES \<le> length (vf_data f) \<Longrightarrow>
   encode_frame bc (Msg_VideoFrame f) = Err (FrameTooLarge (length (vf_data f)))"
  by (simp add: encode_frame_def)

lemma oversized_not_written:
  "MAX_FRAME_BYTES \<le> length (vf_data f) \<Longrightarrow>
   write_message bc fault (Msg_VideoFrame f) = Err (Frame (FrameTooLarge (length (vf_data f))))"
  by (simp add: write_message_def oversized_not_encoded)

lemma writer_loop_append:
  "writer_loop bc evs = (bs, None) \<Longrightarrow>
   writer_loop bc (evs @ evs') = (bs @ fst (writer_loop bc evs'), snd (writer_loop bc evs'))"
  by (induction evs arbitrary: bs) (auto split: sum.splits prod.splits)

section \<open>Properties\<close>

text \<open>
  C40. A frame whose data does not fit a message is not refused to the application but ends the
  connection. On every connection whose queue is open and has room,
  \<open>phonecam_send_video_frame\<close> accepts it (it only asks for the active profile's codec and
  size), enqueues it behind what is queued and records it as the last frame sent; when the
  writer gets to it, everything before it has been written and nothing of it or after it ever
  is, the loop ends with \<open>FrameTooLarge\<close>, and the connection is reported as disconnected.
\<close>

theorem oversized_frame_ends_the_connection:
  assumes client: "transport_client s = Some c" "tx_open (tc_connection c)"
      "length (tx_queue (tc_connection c)) < OUTBOUND_CHANNEL_CAPACITY"
    and frame: "MAX_FRAME_BYTES \<le> length data" "cd = video_codec_as_u8 (codec (tc_active c))"
      "w = width (tc_active c)" "h = height (tc_active c)"
    and writer: "map event_message evs = map Some ms" "[m \<leftarrow> ms. m \<noteq> ping_message] = tx_queue (tc_connection c)"
      "send_all (encode_frame bc) ms = Ok bs"
  shows "\<exists>s' c' f. phonecam_send_video_frame (Some data) pts cd w h key s = (True, s') \<and>
    transport_client s' = Some c' \<and>
    tx_queue (tc_connection c') = tx_queue (tc_connection c) @ [Msg_VideoFrame f] \<and> vf_data f = data \<and>
    map_option fm_len (last_frame s') = Some (length data) \<and>
    writer_loop bc (map (\<lambda>ev. (ev, None)) (evs @ Outbound (Some (Msg_VideoFrame f)) # later)) =
      (bs, Some (Err (Frame (FrameTooLarge (length data))))) \<and>
    run_connection bc (map (\<lambda>ev. (ev, None)) (evs @ Outbound (Some (Msg_VideoFrame f)) # later)) ticks stream =
      (bs, fst (reader_loop bc ticks stream), [Streaming, Disconnected])"
proof -
  let ?f = "\<lparr>vf_data = data, pts_us = pts, vf_codec = codec (tc_active c), vf_width = w, vf_height = h, is_keyframe = key\<rparr>"
  let ?c = "c\<lparr>tc_connection := (tc_connection c)\<lparr>tx_queue := tx_queue (tc_connection c) @ [Msg_VideoFrame ?f]\<rparr>\<rparr>"
  let ?s = "s\<lparr>transport_client := Some ?c, last_frame := Some \<lparr>fm_len = length data, fm_pts = pts,
      fm_codec = codec (tc_active c), fm_width = w, fm_height = h, fm_is_keyframe = key\<rparr>\<rparr>"
  have "data \<noteq> []" using frame(1) by (auto simp: MAX_FRAME_BYTES_def)
  with client frame(2-4) have accepted: "phonecam_send_video_frame (Some data) pts cd w h key s = (True, ?s)"
    by (simp add: phonecam_send_video_frame_def Let_def try_enqueue_def)
  have "writer_loop bc (map (\<lambda>ev. (ev, None)) (Outbound (Some (Msg_VideoFrame ?f)) # later)) =
      ([], Some (Err (Frame (FrameTooLarge (length data)))))"
    using frame(1) by (simp add: oversized_not_written)
  with writer_loop_append [OF writer_loop_sends [OF writer(1,3)]] have loop:
      "writer_loop bc (map (\<lambda>ev. (ev, None)) (evs @ Outbound (Some (Msg_VideoFrame ?f)) # later)) =
        (bs, Some (Err (Frame (FrameTooLarge (length data)))))"
    by simp
  then have "run_connection bc (map (\<lambda>ev. (ev, None)) (evs @ Outbound (Some (Msg_VideoFrame ?f)) # later)) ticks stream =
      (bs, fst (reader_loop bc ticks stream), [Streaming, Disconnected])"
    unfolding run_connection_def by (simp add: split_beta)
  with loop accepted show ?thesis by (intro exI [of _ ?s] exI [of _ ?c] exI [of _ ?f]) simp
qed

theorem oversized_frame_ends_the_connection_witness:
  "\<exists>data f. length data = MAX_FRAME_BYTES \<and> vf_data f = data \<and>
     fst (phonecam_send_video_frame (Some data) 0 0 1280 720 True sample_connected) \<and>
     writer_loop sample_codec [(Outbound (Some (Msg_VideoFrame f)), None)] =
       ([], Some (Err (Frame (FrameTooLarge MAX_FRAME_BYTES))))"
proof -
  obtain data :: "u8 list" where data: "length data = MAX_FRAME_BYTES" using Ex_list_of_length by blast
  have client: "transport_client sample_connected = Some sample_client" "tx_open (tc_connection sample_client)"
      "tx_queue (tc_connection sample_client) = []"
      "0 = video_codec_as_u8 (codec (tc_active sample_client))" "1280 = width (tc_active sample_client)"
      "720 = height (tc_active sample_client)"
    by (simp_all add: sample_connected_def sample_clients H264_720P30_def)
  from oversized_frame_ends_the_connection [OF client(1,2) _ _ client(4-6), of data "[]" "[]" sample_codec "[]" 0 True "[]" "[]"
      "([], UnexpectedEof)"] data client(3)
  obtain s' f where "phonecam_send_video_frame (Some data) 0 0 1280 720 True sample_connected = (True, s')"
      "vf_data f = data" "writer_loop sample_codec [(Outbound (Some (Msg_VideoFrame f)), None)] =
        ([], Some (Err (Frame (FrameTooLarge MAX_FRAME_BYTES))))"
    by (auto simp: OUTBOUND_CHANNEL_CAPACITY_def simp del: writer_loop.simps writer_step.simps)
  with data show ?thesis by (intro exI [of _ data] exI [of _ f]) simp
qed

end
