(* ===== verification/Stream_Keyframes.thy ===== *)
theory Stream_Keyframes
  imports Playback_Claims
begin

text \<open>
  The keyframes the connection actor asks for (\<open>keyframe_request_in_flight\<close> in \<open>pipeline.rs\<close>):
  a request is never repeated before a keyframe has come.
\<close>

section \<open>Requests and keyframes of a run\<close>

definition keyframe_requests :: "effect list \<Rightarrow> nat" where
  "keyframe_requests effs = length (filter (\<lambda>e. e = Send (Msg_CameraControl RequestKeyframe)) effs)"

definition is_keyframe_input :: "actor_input \<Rightarrow> bool" where
  "is_keyframe_input i \<longleftrightarrow> (case i of PeerMessage (Some (Msg_VideoFrame f)) \<Rightarrow> is_keyframe f | _ \<Rightarrow> False)"

definition keyframes_received :: "actor_input list \<Rightarrow> nat" where
  "keyframes_received ins = length (filter is_keyframe_input ins)"

lemma keyframe_requests_simps [simp]:
  "keyframe_requests [] = 0"
  "keyframe_requests (e # effs) =
     (if e = Send (Msg_CameraControl RequestKeyframe) then Suc (keyframe_requests effs) else keyframe_requests effs)"
  "keyframe_requests (effs @ effs') = keyframe_requests effs + keyframe_requests effs'"
  "keyframe_requests (reply_to rep r) = 0"
  by (simp_all add: keyframe_requests_def) (cases rep; simp)

definition in_flight :: "('l, 'm, 'w) stream_actor \<Rightarrow> nat" where
  "in_flight s = (if keyframe_request_in_flight s then 1 else 0)"

definition unconcerned :: "effect list \<Rightarrow> ('l, 'm, 'w) stream_actor \<Rightarrow> ('l, 'm, 'w) stream_actor \<Rightarrow> bool" where
  "unconcerned effs s s' \<longleftrightarrow> keyframe_requests effs = 0 \<and> keyframe_request_in_flight s' = keyframe_request_in_flight s"

lemma commit_unconcerned: "commit_and_reset a p d = (effs, oc, d') \<Longrightarrow> keyframe_requests effs = 0"
  by (auto simp: commit_and_reset_def split: prod.splits result.splits option.splits)

lemma request_unconcerned:
  "request_configuration a p kind s = (effs, Continue s') \<Longrightarrow> unconcerned effs s s'"
  by (auto simp: request_configuration_def unconcerned_def configure_message_def Let_def split: if_splits)

lemma publish_unconcerned [simp]: "publish s \<noteq> Send m"
  by (simp add: publish_def)

lemma arms_unconcerned:
  "on_tick a s = (effs, Continue s') \<Longrightarrow> unconcerned effs s s'"
  "on_state_changed st s = (effs, Continue s') \<Longrightarrow> unconcerned effs s s'"
  "on_capabilities u s = (effs, Continue s') \<Longrightarrow> unconcerned effs s s'"
  by (auto simp: on_tick_def on_state_changed_def on_capabilities_def unconcerned_def Let_def
      split: option.splits if_splits pending_kind.splits)

lemma command_unconcerned:
  assumes "on_command a c s = (effs, Continue s')"
  shows "unconcerned effs s s'"
  using assms
proof (cases rule: on_command_Continue)
  case (requested c p)
  then show ?thesis by (blast intro: request_unconcerned)
qed (simp add: unconcerned_def)

lemma undoing_unconcerned:
  assumes "request_configuration a p kind (s\<lparr>out_dev := d\<rparr>) = (effs, Continue s')"
  shows "unconcerned effs s s'"
  using request_unconcerned [OF assms] by (simp add: unconcerned_def)

lemma results_unconcerned:
  "on_unsolicited_result a out s = (effs, Continue s') \<Longrightarrow> unconcerned effs s s'"
  "on_configure_result a cur prior rep out s = (effs, Continue s') \<Longrightarrow> unconcerned effs s s'"
  "on_compensation_result a prior e rep out s = (effs, Continue s') \<Longrightarrow> unconcerned effs s s'"
  by (auto simp: on_unsolicited_result_def on_configure_result_def on_compensation_result_def adopt_def Let_def
      unconcerned_def dest!: commit_unconcerned undoing_unconcerned
      split: stream_configuration_outcome.splits prod.splits commit_outcome.splits if_splits reconfigure_failure.splits)

lemma nothing_unconcerned [simp]: "unconcerned [] s s"
  by (simp add: unconcerned_def)

lemma configuration_result_unconcerned:
  "on_configuration_result a r s = (effs, Continue s') \<Longrightarrow> unconcerned effs s s'"
  by (auto simp: on_configuration_result_def dest: results_unconcerned
      split: option.splits if_splits pending_kind.splits)

lemma decoder_event_keyframes:
  "on_decoder_event a ev s = (effs, Continue s') \<Longrightarrow> keyframe_requests effs + in_flight s = in_flight s'"
  by (auto simp: on_decoder_event_def in_flight_def
      split: option.splits decode_event.splits prod.splits result.splits if_splits)

lemma video_frame_keyframes:
  "on_video_frame a f s = (effs, Continue s') \<Longrightarrow>
   keyframe_requests effs + in_flight s \<le> (if is_keyframe f then 1 else 0) + in_flight s'"
  by (auto simp: on_video_frame_def Let_def in_flight_def split: if_splits)

lemma actor_step_keyframes:
  assumes "actor_step a i s = (effs, Continue s')"
  shows "keyframe_requests effs + in_flight s \<le> (if is_keyframe_input i then 1 else 0) + in_flight s'"
proof -
  have quiet: ?thesis if "unconcerned effs s s'" using that by (simp add: unconcerned_def in_flight_def)
  show ?thesis
  proof (cases i)
    case (PeerMessage m)
    show ?thesis
    proof (cases "\<exists>f. m = Some (Msg_VideoFrame f)")
      case True
      then obtain f where "m = Some (Msg_VideoFrame f)" by blast
      with assms PeerMessage video_frame_keyframes [of a f s effs s'] show ?thesis
        by (simp add: actor_step_def on_message_def is_keyframe_input_def)
    next
      case False
      have "unconcerned effs s s'"
        using assms PeerMessage False
        by (auto simp: actor_step_def on_message_def dest: configuration_result_unconcerned arms_unconcerned(3)
            split: option.splits message.splits)
      then show ?thesis by (rule quiet)
    qed
  next
    case (DecoderEvent ev)
    with assms decoder_event_keyframes [of a ev s effs s'] show ?thesis by (simp add: actor_step_def)
  next
    case (StateChanged st)
    with assms show ?thesis by (intro quiet arms_unconcerned(2) [of st]) (simp add: actor_step_def)
  next
    case Tick
    with assms show ?thesis by (intro quiet arms_unconcerned(1) [of a]) (simp add: actor_step_def)
  next
    case (Command c)
    with assms show ?thesis by (intro quiet command_unconcerned [of a c]) (simp add: actor_step_def)
  qed (use assms in \<open>simp add: actor_step_def\<close>)
qed

lemma reachable_keyframes:
  "actor_reachable ins effs s \<Longrightarrow> keyframe_requests effs \<le> keyframes_received ins + in_flight s"
proof (induction rule: actor_reachable.induct)
  case (start worker a h d local effs s)
  then show ?case
    by (auto simp: actor_start_def Let_def split: option.splits if_splits prod.splits result.splits)
next
  case (step ins effs s i a effs' s')
  with actor_step_keyframes [OF step(3)] show ?case by (simp add: keyframes_received_def split: if_splits)
qed

section \<open>A run with one request\<close>

text \<open>While the answer to a change is awaited the decoder asks to recover twice, and one request is sent.\<close>

definition recovery :: actor_input where
  "recovery = DecoderEvent (Some RecoveryRequired)"

definition recovering :: "(v4l2_world, unit, unit) stream_actor" where
  "recovering = (waiting_for 1 HEVC_720P30 7)\<lparr>keyframe_request_in_flight := True\<rparr>"

lemma recovering_asks:
  "actor_step good recovery (waiting_for 1 HEVC_720P30 7) =
     ([Send (Msg_CameraControl RequestKeyframe)], Continue recovering)"
  by (simp add: recovery_def recovering_def actor_step_def on_decoder_event_def waiting_for_def sample_state_def good_def)

lemma recovering_ignores: "actor_step good recovery recovering = ([], Continue recovering)"
  by (simp add: recovery_def recovering_def actor_step_def on_decoder_event_def waiting_for_def sample_state_def good_def)

lemma recovering_reachable:
  "actor_reachable [Command (Some (command_for HEVC_720P30 PreferAuto 7)), recovery, recovery]
     [ResetDecoder H264 True, publish sample_state, Send (configure_message 1 HEVC_720P30),
      Send (Msg_CameraControl RequestKeyframe)] recovering"
proof -
  note step = actor_reachable.step
  from step [OF step [OF waiting_reachable(1) _ recovering_asks] _ recovering_ignores]
  show ?thesis by (simp add: branch_enabled_def recovery_def)
qed

section \<open>Properties\<close>

text \<open>
  C26. The desktop never repeats a request for a keyframe before one has come: over every run of the
  actor's loop it sends at most one request more than keyframes have arrived, however often the
  decoder asks to recover and frames do not fit.
\<close>

theorem keyframe_requests_are_not_repeated:
  fixes s :: "('l, 'm, 'w) stream_actor"
  assumes "actor_reachable ins effs s"
  shows "keyframe_requests effs \<le> Suc (keyframes_received ins)"
  using reachable_keyframes [OF assms] by (simp add: in_flight_def split: if_splits)

theorem keyframe_requests_are_not_repeated_witness:
  "keyframe_requests [ResetDecoder H264 True, publish sample_state, Send (configure_message 1 HEVC_720P30),
     Send (Msg_CameraControl RequestKeyframe)] \<le> Suc 0"
  using keyframe_requests_are_not_repeated [OF recovering_reachable]
  by (simp add: keyframes_received_def is_keyframe_input_def recovery_def)

end
