(* ===== verification/Net_Text.thy ===== *)
theory Net_Text
  imports Text_Utils
begin

text \<open>
  Internet addresses and their text, as Rust's standard library prints and parses them:
  \<open>Display\<close> for \<open>Ipv4Addr\<close> and \<open>Ipv6Addr\<close>, and the recursive-descent parser behind
  \<open>SocketAddr::from_str\<close>. A parser takes a string and returns its value with what is left;
  the main lemmas are that it undoes the printer whatever follows, and that no two addresses
  have the same text.
\<close>

section \<open>Addresses\<close>

datatype ip_addr =
    IpV4 u8 u8 u8 u8
  | IpV6 u16 u16 u16 u16 u16 u16 u16 u16

fun hex_digit :: "nat \<Rightarrow> nat" where
  "hex_digit d = (if d < 10 then 48 + d else 87 + d)"

fun show_hex :: "nat \<Rightarrow> ustr" where
  "show_hex n = (if n < 16 then [hex_digit n] else show_hex (n div 16) @ [hex_digit (n mod 16)])"

declare show_hex.simps [simp del]

definition show_ipv4 :: "u8 \<Rightarrow> u8 \<Rightarrow> u8 \<Rightarrow> u8 \<Rightarrow> ustr" where
  "show_ipv4 a b c d =
     show_dec (unat a) @ [46] @ show_dec (unat b) @ [46] @ show_dec (unat c) @ [46] @ show_dec (unat d)"

text \<open>Hexadecimal groups from position \<open>i\<close> on: every one but the first after a colon.\<close>

fun show_groups :: "nat \<Rightarrow> u16 list \<Rightarrow> ustr" where
  "show_groups i [] = []"
| "show_groups i (g # gs) = (if i = 0 then [] else [58]) @ show_hex (unat g) @ show_groups (Suc i) gs"

text \<open>The first longest run of zero groups, as its start and its length.\<close>

type_synonym span = "nat \<times> nat"

definition zero_step :: "u16 list \<Rightarrow> span \<times> span \<Rightarrow> nat \<Rightarrow> span \<times> span" where
  "zero_step gs = (\<lambda>(longest, current) i.
     if gs ! i = 0 then
       let start = (if snd current = 0 then i else fst current);
           now = (start, snd current + 1)
       in (if snd longest < snd now then now else longest, now)
     else (longest, (0, 0)))"

definition longest_zeroes :: "u16 list \<Rightarrow> span" where
  "longest_zeroes gs = fst (foldl (zero_step gs) ((0, 0), (0, 0)) [0..<length gs])"

definition show_ipv6 :: "u16 list \<Rightarrow> ustr" where
  "show_ipv6 gs =
     (if take 6 gs = [0, 0, 0, 0, 0, 0xffff] then
        lit ''::ffff:'' @
        show_ipv4 (ucast (drop_bit 8 (gs ! 6))) (ucast (gs ! 6)) (ucast (drop_bit 8 (gs ! 7))) (ucast (gs ! 7))
      else
        let (start, len) = longest_zeroes gs
        in if 1 < len
           then show_groups 0 (take start gs) @ [58, 58] @ show_groups 0 (drop (start + len) gs)
           else show_groups 0 gs)"

primrec show_ip :: "ip_addr \<Rightarrow> ustr" where
  "show_ip (IpV4 a b c d) = show_ipv4 a b c d"
| "show_ip (IpV6 a b c d e f g h) = show_ipv6 [a, b, c, d, e, f, g, h]"

section \<open>Parsing\<close>

definition read_given_char :: "nat \<Rightarrow> ustr \<Rightarrow> ustr option" where
  "read_given_char c s = (case s of x # r \<Rightarrow> if x = c then Some r else None | [] \<Rightarrow> None)"

definition digit_value :: "nat \<Rightarrow> nat \<Rightarrow> nat option" where
  "digit_value radix c =
     (let v = (if 48 \<le> c \<and> c \<le> 57 then c - 48 else if 97 \<le> c \<and> c \<le> 122 then c - 87
               else if 65 \<le> c \<and> c \<le> 90 then c - 55 else radix)
      in if v < radix then Some v else None)"

definition is_digit_of :: "nat \<Rightarrow> nat \<Rightarrow> bool" where
  "is_digit_of radix c \<longleftrightarrow> digit_value radix c \<noteq> None"

definition digits_value :: "nat \<Rightarrow> ustr \<Rightarrow> nat" where
  "digits_value radix ds = foldl (\<lambda>v d. v * radix + the (digit_value radix d)) 0 ds"

definition read_number ::
  "nat \<Rightarrow> nat option \<Rightarrow> bool \<Rightarrow> nat \<Rightarrow> ustr \<Rightarrow> (nat \<times> ustr) option" where
  "read_number radix max_digits allow_zero_prefix limit s =
     (let ds = takeWhile (is_digit_of radix) s
      in if ds = [] \<or> (\<exists>n \<in> set_option max_digits. n < length ds) \<or>
            \<not> allow_zero_prefix \<and> hd ds = 48 \<and> 1 < length ds \<or> limit < digits_value radix ds
         then None else Some (digits_value radix ds, dropWhile (is_digit_of radix) s))"

definition read_octet :: "ustr \<Rightarrow> (u8 \<times> ustr) option" where
  "read_octet s = map_option (apfst of_nat) (read_number 10 (Some 3) False 255 s)"

definition read_ipv4 :: "ustr \<Rightarrow> ((u8 \<times> u8 \<times> u8 \<times> u8) \<times> ustr) option" where
  "read_ipv4 s =
     Option.bind (read_octet s) (\<lambda>(a, s). Option.bind (read_given_char 46 s) (\<lambda>s.
     Option.bind (read_octet s) (\<lambda>(b, s). Option.bind (read_given_char 46 s) (\<lambda>s.
     Option.bind (read_octet s) (\<lambda>(c, s). Option.bind (read_given_char 46 s) (\<lambda>s.
     map_option (\<lambda>(d, s). ((a, b, c, d), s)) (read_octet s)))))))"

definition read_separator :: "nat \<Rightarrow> (ustr \<Rightarrow> ('a \<times> ustr) option) \<Rightarrow> ustr \<Rightarrow> ('a \<times> ustr) option" where
  "read_separator i inner s = (if 0 < i then Option.bind (read_given_char 58 s) inner else inner s)"

definition group_of_bytes :: "u8 \<Rightarrow> u8 \<Rightarrow> u16" where
  "group_of_bytes hi lo = push_bit 8 (ucast hi) OR ucast lo"

function read_groups :: "nat \<Rightarrow> nat \<Rightarrow> ustr \<Rightarrow> u16 list \<times> bool \<times> ustr" where
  "read_groups limit i s =
     (if limit \<le> i then ([], False, s)
      else
        (case (if i + 1 < limit then read_separator i read_ipv4 s else None) of
           Some ((a, b, c, d), r) \<Rightarrow> ([group_of_bytes a b, group_of_bytes c d], True, r)
         | None \<Rightarrow>
             (case read_separator i (read_number 16 (Some 4) True 65535) s of
                Some (g, r) \<Rightarrow>
                  (case read_groups limit (Suc i) r of (gs, v4, r') \<Rightarrow> (of_nat g # gs, v4, r'))
              | None \<Rightarrow> ([], False, s))))"
  by pat_completeness auto
termination by (relation "measure (\<lambda>(limit, i, s). limit - i)") auto

declare read_groups.simps [simp del]

definition read_ipv6 :: "ustr \<Rightarrow> (u16 list \<times> ustr) option" where
  "read_ipv6 s =
     (case read_groups 8 0 s of
        (front, v4, r) \<Rightarrow>
          if length front = 8 then Some (front, r)
          else if v4 then None
          else Option.bind (read_given_char 58 r) (\<lambda>r. Option.bind (read_given_char 58 r) (\<lambda>r.
            (case read_groups (8 - (length front + 1)) 0 r of
               (back, _, r') \<Rightarrow>
                 Some (front @ replicate (8 - length front - length back) 0 @ back, r')))))"

definition ipv6_of_groups :: "u16 list \<Rightarrow> ip_addr" where
  "ipv6_of_groups gs = IpV6 (gs ! 0) (gs ! 1) (gs ! 2) (gs ! 3) (gs ! 4) (gs ! 5) (gs ! 6) (gs ! 7)"

definition read_port :: "ustr \<Rightarrow> (u16 \<times> ustr) option" where
  "read_port s = Option.bind (read_given_char 58 s)
     (\<lambda>s. map_option (apfst of_nat) (read_number 10 None True 65535 s))"

definition read_scope_id :: "ustr \<Rightarrow> (nat \<times> ustr) option" where
  "read_scope_id s = Option.bind (read_given_char 37 s) (read_number 10 None True (2 ^ 32 - 1))"

definition read_socket_v4 :: "ustr \<Rightarrow> ((ip_addr \<times> u16) \<times> ustr) option" where
  "read_socket_v4 s = Option.bind (read_ipv4 s) (\<lambda>((a, b, c, d), s).
     map_option (\<lambda>(port, s). ((IpV4 a b c d, port), s)) (read_port s))"

definition read_socket_v6 :: "ustr \<Rightarrow> ((ip_addr \<times> u16) \<times> ustr) option" where
  "read_socket_v6 s =
     Option.bind (read_given_char 91 s) (\<lambda>s. Option.bind (read_ipv6 s) (\<lambda>(gs, s).
     Option.bind (read_given_char 93 (case read_scope_id s of Some (_, r) \<Rightarrow> r | None \<Rightarrow> s)) (\<lambda>s.
     map_option (\<lambda>(port, s). ((ipv6_of_groups gs, port), s)) (read_port s))))"

text \<open>\<open>SocketAddr::from_str\<close>: the address and the port, with nothing left over.\<close>

definition parse_socket_addr :: "ustr \<Rightarrow> (ip_addr \<times> u16) option" where
  "parse_socket_addr s =
     (case (case read_socket_v4 s of Some r \<Rightarrow> Some r | None \<Rightarrow> read_socket_v6 s) of
        Some (addr, []) \<Rightarrow> Some addr
      | _ \<Rightarrow> None)"

section \<open>Digits\<close>

lemma is_digit_10 [simp]: "is_digit_of 10 c \<longleftrightarrow> is_ascii_digit c"
  by (auto simp: is_digit_of_def digit_value_def is_ascii_digit_def Let_def)

lemma is_digit_10_16: "is_ascii_digit c \<Longrightarrow> is_digit_of 16 c"
  by (auto simp: is_digit_of_def digit_value_def is_ascii_digit_def Let_def)

lemma not_digit_16 [simp]:
  "\<not> is_digit_of 16 46" "\<not> is_digit_of 16 58" "\<not> is_digit_of 16 93" "\<not> is_digit_of 16 37" "\<not> is_digit_of 16 91"
  by (auto simp: is_digit_of_def digit_value_def Let_def)

lemma not_ascii_digit [simp]:
  "\<not> is_ascii_digit 46" "\<not> is_ascii_digit 58" "\<not> is_ascii_digit 93" "\<not> is_ascii_digit 37" "\<not> is_ascii_digit 91"
  by (auto simp: is_ascii_digit_def)

lemma digits_value_snoc: "digits_value radix (ds @ [d]) = digits_value radix ds * radix + the (digit_value radix d)"
  by (simp add: digits_value_def)

lemma digits_value_show_dec [simp]: "digits_value 10 (show_dec n) = n"
proof (induction n rule: show_dec.induct)
  case (1 n)
  have digit: "the (digit_value 10 (48 + k)) = k" if "k < 10" for k
    using that by (simp add: digit_value_def)
  show ?case
  proof (cases "n < 10")
    case True
    then show ?thesis by (simp add: show_dec.simps [of n] digits_value_def digit)
  next
    case False
    with 1 show ?thesis by (simp add: show_dec.simps [of n] digits_value_snoc digit)
  qed
qed

lemma hex_digit_value: "k < 16 \<Longrightarrow> digit_value 16 (hex_digit k) = Some k"
  by (auto simp: digit_value_def)

lemma show_hex_nonempty [simp]: "show_hex n \<noteq> []"
  by (subst show_hex.simps) simp

lemma show_hex_digits: "c \<in> set (show_hex n) \<Longrightarrow> is_digit_of 16 c"
proof (induction n rule: show_hex.induct)
  case (1 n)
  from 1(2) have "c \<in> set (if n < 16 then [hex_digit n] else show_hex (n div 16) @ [hex_digit (n mod 16)])"
    by (simp only: show_hex.simps [of n])
  then consider "n < 16" "c = hex_digit n" | "\<not> n < 16" "c \<in> set (show_hex (n div 16))"
    | "c = hex_digit (n mod 16)" by (auto split: if_splits simp del: hex_digit.simps)
  then show ?case
  proof cases
    case 2
    with 1(1) show ?thesis by simp
  qed (simp_all add: is_digit_of_def hex_digit_value del: hex_digit.simps)
qed

lemma digits_value_show_hex [simp]: "digits_value 16 (show_hex n) = n"
proof (induction n rule: show_hex.induct)
  case (1 n)
  show ?case
  proof (cases "n < 16")
    case True
    then show ?thesis
      by (simp add: show_hex.simps [of n] digits_value_def hex_digit_value del: hex_digit.simps)
  next
    case False
    with 1 show ?thesis
      by (simp add: show_hex.simps [of n] digits_value_snoc hex_digit_value del: hex_digit.simps)
  qed
qed

lemma length_show_dec: "0 < k \<Longrightarrow> n < 10 ^ k \<Longrightarrow> length (show_dec n) \<le> k"
proof (induction k arbitrary: n)
  case (Suc k)
  show ?case
  proof (cases "n < 10")
    case False
    with Suc.prems have "0 < k" "n div 10 < 10 ^ k" by (cases k; simp add: div_less_iff_less_mult mult.commute)+
    with Suc.IH False show ?thesis by (simp add: show_dec.simps [of n])
  qed (simp add: show_dec.simps [of n])
qed simp

lemma length_show_hex: "0 < k \<Longrightarrow> n < 16 ^ k \<Longrightarrow> length (show_hex n) \<le> k"
proof (induction k arbitrary: n)
  case (Suc k)
  show ?case
  proof (cases "n < 16")
    case False
    with Suc.prems have "0 < k" "n div 16 < 16 ^ k" by (cases k; simp add: div_less_iff_less_mult mult.commute)+
    with Suc.IH False show ?thesis by (simp add: show_hex.simps [of n])
  qed (simp add: show_hex.simps [of n])
qed simp

lemma hd_show_dec: "0 < n \<Longrightarrow> hd (show_dec n) \<noteq> 48"
proof (induction n rule: show_dec.induct)
  case (1 n)
  then show ?case by (cases "n < 10") (simp_all add: show_dec.simps [of n])
qed

section \<open>Reading back what was printed\<close>

definition stops :: "(nat \<Rightarrow> bool) \<Rightarrow> ustr \<Rightarrow> bool" where
  "stops P r \<longleftrightarrow> (case r of [] \<Rightarrow> True | c # _ \<Rightarrow> \<not> P c)"

lemma stops_simps [simp]: "stops P []" "stops P (c # r) \<longleftrightarrow> \<not> P c"
  by (simp_all add: stops_def)

lemma while_append:
  assumes "list_all P ds" "stops P r"
  shows "takeWhile P (ds @ r) = ds" "dropWhile P (ds @ r) = r"
  using assms by (induction ds) (auto simp: stops_def split: list.splits)

lemma read_number_append:
  assumes "list_all (is_digit_of radix) ds" "ds \<noteq> []" "\<forall>n \<in> set_option m. length ds \<le> n"
    and "z \<or> hd ds \<noteq> 48 \<or> length ds = 1" "digits_value radix ds \<le> limit" "stops (is_digit_of radix) r"
  shows "read_number radix m z limit (ds @ r) = Some (digits_value radix ds, r)"
  using assms while_append [OF assms(1,6)] by (auto simp: read_number_def Let_def)

lemma list_all_show_dec: "list_all is_ascii_digit (show_dec n)"
  by (auto simp: list_all_iff show_dec_digits)

lemma is_digit_10_fun: "is_digit_of 10 = is_ascii_digit"
  by (simp add: fun_eq_iff)

lemma show_dec_zero_prefix: "hd (show_dec n) \<noteq> 48 \<or> length (show_dec n) = 1"
  by (cases "n = 0") (simp_all add: hd_show_dec show_dec.simps [of 0])

lemma unat_u8_less: "unat (a :: u8) < 256"
  by (rule order.strict_trans2 [OF unsigned_less]) simp

lemma unat_u16_less: "unat (a :: u16) < 65536"
  by (rule order.strict_trans2 [OF unsigned_less]) simp

lemma read_octet_append: "stops is_ascii_digit r \<Longrightarrow> read_octet (show_dec (unat a) @ r) = Some (a, r)"
proof -
  assume "stops is_ascii_digit r"
  moreover have "length (show_dec (unat a)) \<le> 3"
    using unat_u8_less [of a] by (intro length_show_dec) auto
  moreover have "unat a \<le> 255" using unat_u8_less [of a] by simp
  ultimately have "read_number 10 (Some 3) False 255 (show_dec (unat a) @ r) = Some (unat a, r)"
    using read_number_append [of 10 "show_dec (unat a)" "Some 3" False 255 r] show_dec_zero_prefix [of "unat a"]
    by (simp add: is_digit_10_fun list_all_show_dec)
  then show ?thesis by (simp add: read_octet_def)
qed

lemma read_ipv4_append:
  "stops is_ascii_digit r \<Longrightarrow> read_ipv4 (show_ipv4 a b c d @ r) = Some ((a, b, c, d), r)"
  by (simp add: read_ipv4_def show_ipv4_def read_octet_append read_given_char_def)

lemma read_group_append:
  assumes "stops (is_digit_of 16) r"
  shows "read_number 16 (Some 4) True 65535 (show_hex (unat (g :: u16)) @ r) = Some (unat g, r)"
proof -
  have "length (show_hex (unat g)) \<le> 4"
    using unat_u16_less [of g] by (intro length_show_hex) auto
  moreover have "unat g \<le> 65535" using unat_u16_less [of g] by simp
  moreover have "list_all (is_digit_of 16) (show_hex (unat g))" by (auto simp: list_all_iff show_hex_digits)
  ultimately show ?thesis
    using read_number_append [of 16 "show_hex (unat g)" "Some 4" True 65535 r] assms by simp
qed

lemma read_port_append:
  assumes "stops is_ascii_digit r"
  shows "read_port (58 # show_dec (unat p) @ r) = Some (p, r)"
proof -
  have "unat p \<le> 65535" using unat_u16_less [of p] by simp
  then have "read_number 10 None True 65535 (show_dec (unat p) @ r) = Some (unat p, r)"
    using read_number_append [of 10 "show_dec (unat p)" None True 65535 r] assms
    by (simp add: is_digit_10_fun list_all_show_dec)
  then show ?thesis by (simp add: read_port_def read_given_char_def)
qed

section \<open>IPv6 text\<close>

text \<open>What may follow the groups of an address: no digit, no dot, no colon before a digit.\<close>

definition ends_groups :: "ustr \<Rightarrow> bool" where
  "ends_groups r \<longleftrightarrow>
     (case r of [] \<Rightarrow> True
      | c # r' \<Rightarrow> \<not> is_digit_of 16 c \<and> c \<noteq> 46 \<and> (c = 58 \<longrightarrow> stops (is_digit_of 16) r'))"

lemma ends_groups_stops: "ends_groups r \<Longrightarrow> stops (is_digit_of 16) r"
  by (auto simp: ends_groups_def stops_def split: list.splits)

lemma stops_10_16: "stops (is_digit_of 16) r \<Longrightarrow> stops is_ascii_digit r"
  by (auto simp: stops_def is_digit_10_16 split: list.splits)

lemma read_number_stops: "stops (is_digit_of radix) r \<Longrightarrow> read_number radix m z limit r = None"
  by (cases r) (auto simp: read_number_def)

lemma read_octet_stops: "stops is_ascii_digit r \<Longrightarrow> read_octet r = None"
  using read_number_stops [of 10 r] by (simp add: read_octet_def is_digit_10_fun)

lemma read_number_rest: "read_number radix m z limit s = Some (v, r) \<Longrightarrow> r = dropWhile (is_digit_of radix) s"
  by (auto simp: read_number_def Let_def split: if_splits)

lemma read_ipv4_needs_dot:
  "read_ipv4 s = Some x \<Longrightarrow> \<exists>r. dropWhile is_ascii_digit s = 46 # r"
  by (auto simp: read_ipv4_def read_octet_def read_given_char_def is_digit_10_fun
      dest!: read_number_rest split: bind_splits list.splits if_splits)

lemma hex_then_no_dot:
  assumes "list_all (is_digit_of 16) ds" "stops (is_digit_of 16) r" "r = [] \<or> hd r \<noteq> 46"
  shows "dropWhile is_ascii_digit (ds @ r) \<noteq> 46 # q"
  using assms
proof (induction ds)
  case Nil
  then show ?case using stops_10_16 [OF Nil(2)] by (cases r) auto
next
  case (Cons d ds)
  then show ?case by auto
qed

lemma read_ipv4_hex:
  assumes "stops (is_digit_of 16) r" "r = [] \<or> hd r \<noteq> 46"
  shows "read_ipv4 (show_hex n @ r) = None"
proof -
  have "list_all (is_digit_of 16) (show_hex n)" by (auto simp: list_all_iff show_hex_digits)
  with hex_then_no_dot [OF _ assms] read_ipv4_needs_dot show ?thesis by (metis not_Some_eq)
qed

lemma read_ipv4_stops: "stops is_ascii_digit r \<Longrightarrow> read_ipv4 r = None"
  by (simp add: read_ipv4_def read_octet_stops)

lemma read_separator_ends:
  assumes "ends_groups r" "\<And>s. stops (is_digit_of 16) s \<Longrightarrow> inner s = None"
  shows "read_separator i inner r = None"
  using assms
  by (auto simp: read_separator_def read_given_char_def ends_groups_stops ends_groups_def
      split: list.splits if_splits)

lemma show_groups_then_ends:
  assumes "ends_groups r"
  shows "stops (is_digit_of 16) (show_groups (Suc i) gs @ r)"
    and "show_groups (Suc i) gs @ r = [] \<or> hd (show_groups (Suc i) gs @ r) \<noteq> 46"
  using assms by (cases gs; auto simp: ends_groups_def stops_def split: list.splits)+

lemma read_groups_append:
  assumes "i + length gs \<le> limit" "ends_groups r"
  shows "read_groups limit i (show_groups i gs @ r) = (gs, False, r)"
  using assms
proof (induction gs arbitrary: i)
  case Nil
  have "read_separator i read_ipv4 r = None"
    by (rule read_separator_ends [OF Nil(2)]) (simp add: read_ipv4_stops stops_10_16)
  moreover have "read_separator i (read_number 16 (Some 4) True 65535) r = None"
    by (rule read_separator_ends [OF Nil(2)]) (simp add: read_number_stops)
  ultimately show ?case by (subst read_groups.simps) simp
next
  case (Cons g gs)
  let ?t = "show_groups (Suc i) gs @ r"
  note t = show_groups_then_ends [OF Cons.prems(2), of i gs]
  have "read_separator i read_ipv4 (show_groups i (g # gs) @ r) = None"
    using read_ipv4_hex [OF t] by (cases "i = 0") (simp_all add: read_separator_def read_given_char_def)
  moreover have "read_separator i (read_number 16 (Some 4) True 65535) (show_groups i (g # gs) @ r) =
      Some (unat g, ?t)"
    using read_group_append [OF t(1)]
    by (cases "i = 0") (simp_all add: read_separator_def read_given_char_def)
  moreover have "read_groups limit (Suc i) ?t = (gs, False, r)"
    using Cons.prems by (intro Cons.IH) auto
  ultimately show ?case
    using Cons.prems(1) by (subst read_groups.simps) (simp del: show_groups.simps)
qed

lemma zero_run:
  assumes "foldl (zero_step gs) ((0, 0), (0, 0)) [0..<n] = (longest, current)" "n \<le> length gs"
  shows "(\<forall>k < snd longest. gs ! (fst longest + k) = 0) \<and> fst longest + snd longest \<le> n \<and>
    (\<forall>k < snd current. gs ! (fst current + k) = 0) \<and>
    (0 < snd current \<longrightarrow> fst current + snd current = n)"
  using assms
proof (induction n arbitrary: longest current)
  case (Suc n)
  obtain l c where prev: "foldl (zero_step gs) ((0, 0), (0, 0)) [0..<n] = (l, c)"
    by (cases "foldl (zero_step gs) ((0, 0), (0, 0)) [0..<n]") simp
  with Suc.IH Suc.prems(2)
  have ih: "\<forall>k < snd l. gs ! (fst l + k) = 0" "fst l + snd l \<le> n"
      "\<forall>k < snd c. gs ! (fst c + k) = 0" "0 < snd c \<longrightarrow> fst c + snd c = n"
    by auto
  from prev Suc.prems(1) have step: "zero_step gs (l, c) n = (longest, current)" by simp
  show ?case
  proof (cases "gs ! n = 0")
    case True
    define start where "start = (if snd c = 0 then n else fst c)"
    from step True have cur: "current = (start, snd c + 1)"
      and lon: "longest = l \<or> longest = (start, snd c + 1)"
      by (auto simp: zero_step_def start_def Let_def split: if_splits)
    have run: "\<forall>k < snd c + 1. gs ! (start + k) = 0" "start + (snd c + 1) = Suc n"
      using ih(3,4) True by (auto simp: start_def less_Suc_eq)
    with cur lon ih show ?thesis by auto
  next
    case False
    with step ih show ?thesis by (auto simp: zero_step_def)
  qed
qed simp

lemma longest_zeroes_run:
  assumes "longest_zeroes gs = (start, len)"
  shows "start + len \<le> length gs" "take len (drop start gs) = replicate len 0"
proof -
  obtain c where "foldl (zero_step gs) ((0, 0), (0, 0)) [0..<length gs] = ((start, len), c)"
    using assms by (metis longest_zeroes_def prod.collapse)
  from zero_run [OF this] have run: "\<forall>k < len. gs ! (start + k) = 0" "start + len \<le> length gs" by auto
  then show "start + len \<le> length gs" by simp
  show "take len (drop start gs) = replicate len 0"
    using run by (intro nth_equalityI) auto
qed

lemma group_of_bytes_split: "group_of_bytes (ucast (drop_bit 8 g)) (ucast g) = g"
  by (rule bit_word_eqI) (auto simp: group_of_bytes_def bit_simps)

lemma ends_groups_colons [simp]: "ends_groups (58 # 58 # r)"
  by (simp add: ends_groups_def)

lemma show_hex_ffff: "show_hex 65535 = [102, 102, 102, 102]"
  by (simp add: show_hex.simps)

lemma read_mapped:
  assumes "ends_groups r"
  shows "read_groups 7 0 ([102, 102, 102, 102] @ 58 # show_ipv4 a b c d @ r) =
    ([0xffff, group_of_bytes a b, group_of_bytes c d], True, r)"
proof -
  let ?t = "58 # show_ipv4 a b c d @ r"
  have "read_ipv4 ([102, 102, 102, 102] @ ?t) = None"
    using read_ipv4_hex [of ?t 65535] by (simp add: show_hex_ffff)
  moreover have "read_number 16 (Some 4) True 65535 ([102, 102, 102, 102] @ ?t) = Some (65535, ?t)"
    using read_group_append [of ?t "0xffff"] by (simp add: show_hex_ffff)
  moreover have "read_groups 7 1 ?t = ([group_of_bytes a b, group_of_bytes c d], True, r)"
    using read_ipv4_append [OF stops_10_16 [OF ends_groups_stops [OF assms]]]
    by (subst read_groups.simps) (simp add: read_separator_def read_given_char_def)
  ultimately show ?thesis
    by (subst read_groups.simps) (simp add: read_separator_def)
qed

lemma read_compressed:
  assumes "length front + length back < 8" "ends_groups r"
  shows "read_ipv6 (show_groups 0 front @ [58, 58] @ show_groups 0 back @ r) =
    Some (front @ replicate (8 - length front - length back) 0 @ back, r)"
proof -
  have "read_groups 8 0 (show_groups 0 front @ 58 # 58 # show_groups 0 back @ r) =
      (front, False, 58 # 58 # show_groups 0 back @ r)"
    using assms(1) by (intro read_groups_append) auto
  moreover have "read_groups (8 - (length front + 1)) 0 (show_groups 0 back @ r) = (back, False, r)"
    using assms by (intro read_groups_append) auto
  ultimately show ?thesis using assms(1) by (simp add: read_ipv6_def read_given_char_def)
qed

lemma read_ipv6_append:
  assumes "length gs = 8" "ends_groups r"
  shows "read_ipv6 (show_ipv6 gs @ r) = Some (gs, r)"
proof (cases "take 6 gs = [0, 0, 0, 0, 0, 0xffff]")
  case True
  have split: "gs = take 6 gs @ [gs ! 6, gs ! 7]"
    using assms(1) id_take_nth_drop [of 6 gs] id_take_nth_drop [of 7 gs]
    by (intro nth_equalityI) (auto simp: nth_append less_Suc_eq numeral_eq_Suc)
  let ?v4 = "show_ipv4 (ucast (drop_bit 8 (gs ! 6))) (ucast (gs ! 6)) (ucast (drop_bit 8 (gs ! 7))) (ucast (gs ! 7))"
  have "read_groups 8 0 (58 # 58 # [102, 102, 102, 102] @ 58 # ?v4 @ r) =
      ([], False, 58 # 58 # [102, 102, 102, 102] @ 58 # ?v4 @ r)"
    using read_groups_append [of 0 "[]" 8 "58 # 58 # [102, 102, 102, 102] @ 58 # ?v4 @ r"] by simp
  then have "read_ipv6 (58 # 58 # [102, 102, 102, 102] @ 58 # ?v4 @ r) =
      Some (replicate 5 0 @ [0xffff, gs ! 6, gs ! 7], r)"
    using read_mapped [OF assms(2)] by (simp add: read_ipv6_def read_given_char_def group_of_bytes_split)
  moreover have "show_ipv6 gs @ r = 58 # 58 # [102, 102, 102, 102] @ 58 # ?v4 @ r"
    using True by (simp add: show_ipv6_def)
  moreover have "replicate 5 0 @ [0xffff, gs ! 6, gs ! 7] = gs"
    using True by (subst (3) split) (simp add: numeral_eq_Suc)
  ultimately show ?thesis by simp
next
  case unmapped: False
  obtain start len where span: "longest_zeroes gs = (start, len)" by fastforce
  note run = longest_zeroes_run [OF span]
  show ?thesis
  proof (cases "1 < len")
    case True
    have "gs = take start gs @ take len (drop start gs) @ drop (start + len) gs"
      by (metis append_take_drop_id drop_drop add.commute)
    then have "gs = take start gs @ replicate len 0 @ drop (start + len) gs" using run(2) by simp
    moreover have "8 - length (take start gs) - length (drop (start + len) gs) = len"
      using run(1) assms(1) by simp
    moreover have "show_ipv6 gs @ r =
        show_groups 0 (take start gs) @ [58, 58] @ show_groups 0 (drop (start + len) gs) @ r"
      using unmapped True by (simp add: show_ipv6_def span)
    ultimately show ?thesis
      using read_compressed [of "take start gs" "drop (start + len) gs" r] assms run(1) True
      by (simp del: length_take length_drop)
  next
    case False
    have "read_groups 8 0 (show_groups 0 gs @ r) = (gs, False, r)"
      using assms by (intro read_groups_append) auto
    with unmapped False span assms(1) show ?thesis by (simp add: read_ipv6_def show_ipv6_def)
  qed
qed

section \<open>Socket addresses\<close>

lemma show_ipv4_chars: "x \<in> set (show_ipv4 a b c d) \<Longrightarrow> is_ascii_digit x \<or> x = 46"
  by (auto simp: show_ipv4_def dest: show_dec_digits)

lemma show_groups_chars: "x \<in> set (show_groups i gs) \<Longrightarrow> is_digit_of 16 x \<or> x = 58"
  by (induction i gs rule: show_groups.induct) (auto dest: show_hex_digits split: if_splits)

lemma show_ipv6_chars:
  assumes "x \<in> set (show_ipv6 gs)"
  shows "is_digit_of 16 x \<or> x = 46 \<or> x = 58"
proof -
  have "is_digit_of 16 102" by (simp add: is_digit_of_def digit_value_def)
  with assms show ?thesis
    by (auto simp: show_ipv6_def is_digit_10_16 dest!: show_groups_chars show_ipv4_chars
        split: prod.splits if_splits)
qed

lemma show_ip_chars: "x \<in> set (show_ip ip) \<Longrightarrow> is_digit_of 16 x \<or> x = 46 \<or> x = 58"
  by (cases ip) (auto simp: is_digit_10_16 dest: show_ipv4_chars show_ipv6_chars)

lemma show_ipv6_has_colon: "58 \<in> set (show_ipv6 [a, b, c, d, e, f, g, h])"
  by (cases "longest_zeroes [a, b, c, d, e, f, g, h]") (auto simp: show_ipv6_def Let_def)

lemma show_ip_inject [simp]: "show_ip a = show_ip b \<longleftrightarrow> a = b"
proof
  assume same: "show_ip a = show_ip b"
  have neq: "show_ipv4 p q r s \<noteq> show_ipv6 [a, b, c, d, e, f, g, h]" for p q r s a b c d e f g h
    using show_ipv6_has_colon [of a b c d e f g h] show_ipv4_chars [of 58 p q r s] by auto
  show "a = b"
  proof (cases a)
    case (IpV4 p q r s)
    with same neq obtain p' q' r' s' where b: "b = IpV4 p' q' r' s'" by (cases b) auto
    with same IpV4 read_ipv4_append [of "[]" p q r s] read_ipv4_append [of "[]" p' q' r' s']
    show ?thesis by simp
  next
    case (IpV6 a1 a2 a3 a4 a5 a6 a7 a8)
    with same neq [symmetric] obtain b1 b2 b3 b4 b5 b6 b7 b8 where b: "b = IpV6 b1 b2 b3 b4 b5 b6 b7 b8"
      by (cases b) auto
    with same IpV6 read_ipv6_append [of "[a1, a2, a3, a4, a5, a6, a7, a8]" "[]"]
      read_ipv6_append [of "[b1, b2, b3, b4, b5, b6, b7, b8]" "[]"]
    show ?thesis by (simp add: ends_groups_def)
  qed
qed simp

lemma parse_socket_v4:
  "parse_socket_addr (show_ipv4 a b c d @ 58 # show_dec (unat p)) = Some (IpV4 a b c d, p)"
  using read_ipv4_append [of "58 # show_dec (unat p)" a b c d] read_port_append [of "[]" p]
  by (simp add: parse_socket_addr_def read_socket_v4_def)

lemma parse_socket_v6:
  "parse_socket_addr (91 # show_ip (IpV6 a b c d e f g h) @ 93 # 58 # show_dec (unat p)) =
     Some (IpV6 a b c d e f g h, p)"
proof -
  let ?r = "93 # 58 # show_dec (unat p)"
  have "read_socket_v4 (91 # show_ip (IpV6 a b c d e f g h) @ ?r) = None"
    by (simp add: read_socket_v4_def read_ipv4_stops)
  moreover have "read_ipv6 (show_ipv6 [a, b, c, d, e, f, g, h] @ ?r) = Some ([a, b, c, d, e, f, g, h], ?r)"
    by (rule read_ipv6_append) (simp_all add: ends_groups_def)
  ultimately show ?thesis
    using read_port_append [of "[]" p]
    by (simp add: parse_socket_addr_def read_socket_v6_def read_given_char_def read_scope_id_def
        ipv6_of_groups_def)
qed

end
