(* ===== verification/Discovery.thy ===== *)
theory Discovery
  imports Net_Text "HOL-Library.List_Lexorder" "HOL-Library.Product_Lexorder"
begin

text \<open>
  Finding a desktop (\<open>rust/phonecam-discovery/src/lib.rs\<close>): the QR code URI and its parser,
  the publisher and the browser of the mDNS service, and the text forms they use. The mDNS
  daemon (\<open>mdns_sd\<close>) is a parameter: a record of its calls for the publisher, and for the
  browser the clock readings and events that its loop sees.
\<close>

section \<open>Data\<close>

definition SERVICE_TYPE :: ustr where
  "SERVICE_TYPE = lit ''_phonecam._tcp.local.''"

definition DEFAULT_MDNS_PORT :: u16 where
  "DEFAULT_MDNS_PORT = 5353"

definition VERSION_PROPERTY_KEY :: ustr where
  "VERSION_PROPERTY_KEY = lit ''version''"

definition QR_SCHEME_PREFIX :: ustr where
  "QR_SCHEME_PREFIX = lit ''phonecam://''"

record discovered_service =
  ds_name :: ustr
  ds_ip :: ip_addr
  ds_port :: u16
  ds_version :: ustr

record qr_code_connection_info =
  qr_name :: ustr
  qr_ip :: ip_addr
  qr_port :: u16

datatype discovery_error = Mdns string | BrowseChannelClosed | InvalidQrCodeUri ustr

section \<open>QR codes\<close>

primrec qr_host :: "ip_addr \<Rightarrow> ustr" where
  "qr_host (IpV4 a b c d) = show_ip (IpV4 a b c d)"
| "qr_host (IpV6 a b c d e f g h) = lit ''['' @ show_ip (IpV6 a b c d e f g h) @ lit '']''"

definition format_qr_code_uri :: "ip_addr \<Rightarrow> u16 \<Rightarrow> ustr \<Rightarrow> ustr" where
  "format_qr_code_uri ip port name =
     QR_SCHEME_PREFIX @ qr_host ip @ lit '':'' @ show_dec (unat port) @ lit ''?name='' @ name"

text \<open>\<open>find_map\<close> over the pieces of the query.\<close>

fun first_name :: "ustr list \<Rightarrow> ustr option" where
  "first_name [] = None"
| "first_name (pair # rest) =
     (case strip_prefix (lit ''name='') pair of Some n \<Rightarrow> Some n | None \<Rightarrow> first_name rest)"

definition parse_name_from_query :: "ustr \<Rightarrow> ustr option" where
  "parse_name_from_query query = first_name (split_by (\<lambda>c. c = of_char CHR ''&'') query)"

definition parse_qr_code_uri :: "ustr \<Rightarrow> (qr_code_connection_info, discovery_error) result" where
  "parse_qr_code_uri uri =
     and_then (ok_or (InvalidQrCodeUri (lit ''missing phonecam:// scheme'')) (strip_prefix QR_SCHEME_PREFIX uri))
       (\<lambda>payload.
     and_then (ok_or (InvalidQrCodeUri (lit ''missing ?name=DEVICE_NAME query parameter''))
         (split_once (of_char CHR ''?'') payload)) (\<lambda>(authority, query).
     and_then (ok_or (InvalidQrCodeUri (lit ''expected host:port authority'')) (parse_socket_addr authority))
       (\<lambda>(ip, port).
     and_then (ok_or (InvalidQrCodeUri (lit ''missing required name query parameter''))
         (parse_name_from_query query)) (\<lambda>name.
       Ok \<lparr>qr_name = name, qr_ip = ip, qr_port = port\<rparr>))))"

section \<open>Publishing\<close>

text \<open>The loop of \<open>sanitize_dns_label\<close>: \<open>out\<close> and \<open>last_was_dash\<close> are its variables.\<close>

primrec sanitize_loop :: "ustr \<Rightarrow> ustr \<Rightarrow> bool \<Rightarrow> ustr" where
  "sanitize_loop [] out dash = out"
| "sanitize_loop (ch # chs) out dash =
     (if is_ascii_alphanumeric ch then
        (let out' = out @ [to_ascii_lowercase ch]
         in if 48 \<le> length out' then out' else sanitize_loop chs out' False)
      else if \<not> dash then
        (let out' = out @ [of_char CHR ''-'']
         in if 48 \<le> length out' then out' else sanitize_loop chs out' True)
      else sanitize_loop chs out dash)"

definition sanitize_dns_label :: "ustr \<Rightarrow> ustr" where
  "sanitize_dns_label label =
     (let trimmed = trim_matches (\<lambda>c. c = of_char CHR ''-'') (sanitize_loop label [] False)
      in if trimmed = [] then lit ''phonecam'' else trimmed)"

text \<open>The clock's microseconds since the epoch, or \<open>None\<close> when it stands before it.\<close>

definition build_host_name :: "nat option \<Rightarrow> ustr \<Rightarrow> ustr" where
  "build_host_name micros device_name =
     sanitize_dns_label device_name @ lit ''-'' @
     show_dec (case micros of Some t \<Rightarrow> t | None \<Rightarrow> 0) @ lit ''.local.''"

record ('d, 'i) mdns_api =
  new_with_port :: "u16 \<Rightarrow> string + 'd"
  service_info_new :: "ustr \<Rightarrow> ustr \<Rightarrow> ustr \<Rightarrow> ustr \<Rightarrow> u16 \<Rightarrow> (ustr \<times> ustr) list \<Rightarrow> string + 'i"
  enable_addr_auto :: "'i \<Rightarrow> 'i"
  get_fullname :: "'i \<Rightarrow> ustr"
  register_service :: "'d \<Rightarrow> 'i \<Rightarrow> string + unit"

record 'd service_publisher =
  sp_daemon :: 'd
  sp_fullname :: ustr

definition publish_with_mdns_port ::
  "('d, 'i) mdns_api \<Rightarrow> nat option \<Rightarrow> ustr \<Rightarrow> u16 \<Rightarrow> ustr \<Rightarrow> u16 \<Rightarrow>
   ('d service_publisher, discovery_error) result" where
  "publish_with_mdns_port api micros device_name port version mdns_port =
     and_then (map_err Mdns (from_sum (new_with_port api mdns_port))) (\<lambda>daemon.
     and_then (map_err Mdns (from_sum (service_info_new api SERVICE_TYPE device_name
         (build_host_name micros device_name) [] port [(VERSION_PROPERTY_KEY, version)]))) (\<lambda>info.
     let service_info = enable_addr_auto api info; fullname = get_fullname api service_info
     in and_then (map_err Mdns (from_sum (register_service api daemon service_info))) (\<lambda>_.
          Ok \<lparr>sp_daemon = daemon, sp_fullname = fullname\<rparr>)))"

definition publish_service ::
  "('d, 'i) mdns_api \<Rightarrow> nat option \<Rightarrow> ustr \<Rightarrow> u16 \<Rightarrow> ustr \<Rightarrow>
   ('d service_publisher, discovery_error) result" where
  "publish_service api micros device_name port version =
     publish_with_mdns_port api micros device_name port version DEFAULT_MDNS_PORT"

section \<open>Browsing\<close>

definition instance_name_from_fullname :: "ustr \<Rightarrow> ustr" where
  "instance_name_from_fullname fullname =
     trim_end_matches (of_char CHR ''.'')
       (case strip_suffix SERVICE_TYPE fullname of Some s \<Rightarrow> s | None \<Rightarrow> fullname)"

record resolved_service =
  rs_fullname :: ustr
  rs_version :: "ustr option"
  rs_addresses :: "ip_addr list"
  rs_port :: u16

datatype browse_event = ServiceResolved resolved_service | OtherEvent

text \<open>How \<open>timeout(remaining, receiver.recv_async())\<close> ended.\<close>

datatype browse_poll = Received browse_event | ChannelClosed | PollElapsed

definition services_of :: "resolved_service \<Rightarrow> discovered_service list" where
  "services_of s =
     map (\<lambda>ip. \<lparr>ds_name = instance_name_from_fullname (rs_fullname s), ds_ip = ip, ds_port = rs_port s,
                ds_version = (case rs_version s of Some v \<Rightarrow> v | None \<Rightarrow> [])\<rparr>)
       (rs_addresses s)"

text \<open>
  The loop: each entry is the clock at the top of the loop and what the poll then gave. The
  set of services is a list without duplicates. \<open>None\<close> while the loop is still running.
\<close>

fun discover_loop ::
  "nat \<Rightarrow> (nat \<times> browse_poll) list \<Rightarrow> discovered_service list \<Rightarrow>
   (discovered_service list, discovery_error) result option" where
  "discover_loop deadline [] found = None"
| "discover_loop deadline ((now, polled) # polls) found =
     (if deadline < now \<or> deadline - now = 0 then Some (Ok found)
      else
        (case polled of
           Received (ServiceResolved s) \<Rightarrow>
             discover_loop deadline polls (fold List.insert (services_of s) found)
         | Received OtherEvent \<Rightarrow> discover_loop deadline polls found
         | ChannelClosed \<Rightarrow> Some (Err BrowseChannelClosed)
         | PollElapsed \<Rightarrow> Some (Ok found)))"

text \<open>The order \<open>sort_unstable_by\<close> is given: name, printed address, port, version.\<close>

definition service_key :: "'a discovered_service_scheme \<Rightarrow> ustr \<times> ustr \<times> u16 \<times> ustr \<times> 'a" where
  "service_key s = (ds_name s, show_ip (ds_ip s), ds_port s, ds_version s, discovered_service.more s)"

lemma service_key_inject [simp]: "service_key s = service_key t \<longleftrightarrow> s = t"
  by (cases s; cases t) (auto simp: service_key_def)

instantiation discovered_service_ext :: (linorder) linorder
begin

definition less_eq_discovered_service_ext ::
  "'a discovered_service_scheme \<Rightarrow> 'a discovered_service_scheme \<Rightarrow> bool" where
  "less_eq_discovered_service_ext s t \<longleftrightarrow> service_key s \<le> service_key t"

definition less_discovered_service_ext ::
  "'a discovered_service_scheme \<Rightarrow> 'a discovered_service_scheme \<Rightarrow> bool" where
  "less_discovered_service_ext s t \<longleftrightarrow> service_key s < service_key t"

instance
proof
  fix s t u :: "'a discovered_service_scheme"
  show "s < t \<longleftrightarrow> s \<le> t \<and> \<not> t \<le> s"
    by (simp add: less_eq_discovered_service_ext_def less_discovered_service_ext_def less_le_not_le)
  show "s \<le> s" by (simp add: less_eq_discovered_service_ext_def)
  show "s \<le> t \<or> t \<le> s" by (simp add: less_eq_discovered_service_ext_def linear)
  show "s \<le> t \<Longrightarrow> t \<le> u \<Longrightarrow> s \<le> u" by (simp add: less_eq_discovered_service_ext_def)
  assume "s \<le> t" "t \<le> s"
  then have "service_key s = service_key t" by (simp add: less_eq_discovered_service_ext_def)
  then show "s = t" by simp
qed

end

definition discover ::
  "string + unit \<Rightarrow> nat \<Rightarrow> nat \<Rightarrow> (nat \<times> browse_poll) list \<Rightarrow>
   (discovered_service list, discovery_error) result option" where
  "discover browse start timeout polls =
     (case browse of
        Inl e \<Rightarrow> Some (Err (Mdns e))
      | Inr _ \<Rightarrow>
          map_option (\<lambda>r. and_then r (\<lambda>found. Ok (sort found)))
            (discover_loop (start + timeout) polls []))"

section \<open>Lemmas\<close>

lemma first_name_split:
  "parse_name_from_query (lit ''name='' @ name) = Some (takeWhile (\<lambda>c. c \<noteq> of_char CHR ''&'') name)"
proof -
  let ?amp = "of_char CHR ''&'' :: nat"
  let ?t = "takeWhile (\<lambda>c. c \<noteq> ?amp) name" and ?d = "dropWhile (\<lambda>c. c \<noteq> ?amp) name"
  have plain: "\<not> list_ex (\<lambda>c. c = ?amp) (lit ''name='' @ ?t)"
    by (auto simp: list_ex_iff dest: set_takeWhileD)
  have "hd (split_by (\<lambda>c. c = ?amp) (lit ''name='' @ ?t @ ?d)) = lit ''name='' @ ?t"
  proof (cases ?d)
    case Nil
    then have t: "?t = name" by (metis append_Nil2 takeWhile_dropWhile_id)
    from split_by_plain [OF plain] show ?thesis unfolding Nil t by (simp only: append_Nil2 list.sel)
  next
    case (Cons c r)
    then have "c = ?amp" using hd_dropWhile [of "\<lambda>c. c \<noteq> ?amp" name] by simp
    with split_by_append [OF plain, of c r] Cons show ?thesis by simp
  qed
  then obtain rest where "split_by (\<lambda>c. c = ?amp) (lit ''name='' @ name) = (lit ''name='' @ ?t) # rest"
    by (metis append_assoc hd_Cons_tl split_by_nonempty takeWhile_dropWhile_id)
  then show ?thesis by (simp add: parse_name_from_query_def del: lit_simps)
qed

definition is_label_char :: "nat \<Rightarrow> bool" where
  "is_label_char c \<longleftrightarrow> is_ascii_lowercase c \<or> is_ascii_digit c \<or> c = 45"

lemma is_label_char_dash [simp]: "is_label_char 45"
  by (simp add: is_label_char_def)

text \<open>No two dashes in a row.\<close>

fun single_dashes :: "ustr \<Rightarrow> bool" where
  "single_dashes (a # b # s) \<longleftrightarrow> \<not> (a = 45 \<and> b = 45) \<and> single_dashes (b # s)"
| "single_dashes s \<longleftrightarrow> True"

lemma single_dashes_snoc:
  "single_dashes (s @ [c]) \<longleftrightarrow> single_dashes s \<and> (s = [] \<or> last s \<noteq> 45 \<or> c \<noteq> 45)"
  by (induction s rule: single_dashes.induct) auto

lemma single_dashes_append: "single_dashes (s @ t) \<Longrightarrow> single_dashes s \<and> single_dashes t"
  by (induction s rule: single_dashes.induct; cases t) auto

lemma lowercase_label: "is_ascii_alphanumeric ch \<Longrightarrow> is_label_char (to_ascii_lowercase ch) \<and> to_ascii_lowercase ch \<noteq> 45"
  by (auto simp: is_label_char_def to_ascii_lowercase_def is_ascii_alphanumeric_def
      is_ascii_lowercase_def is_ascii_uppercase_def is_ascii_digit_def)

lemma sanitize_loop_inv:
  assumes "list_all is_label_char out" "single_dashes out" "length out < 48"
    and "out \<noteq> [] \<Longrightarrow> last out = 45 \<longleftrightarrow> dash" "out = [] \<Longrightarrow> \<not> dash"
  shows "list_all is_label_char (sanitize_loop chs out dash) \<and> single_dashes (sanitize_loop chs out dash) \<and>
    length (sanitize_loop chs out dash) \<le> 48"
  using assms
proof (induction chs arbitrary: out dash)
  case (Cons ch chs)
  show ?case
  proof (cases "is_ascii_alphanumeric ch")
    case True
    note low = lowercase_label [OF True]
    let ?out = "out @ [to_ascii_lowercase ch]"
    have inv: "list_all is_label_char ?out" "single_dashes ?out" "length ?out \<le> 48"
      using Cons.prems low by (auto simp: single_dashes_snoc)
    show ?thesis
    proof (cases "48 \<le> length ?out")
      case False
      with Cons.IH [of ?out False] inv low True show ?thesis by simp
    qed (use inv True in simp)
  next
    case False
    show ?thesis
    proof (cases dash)
      case True
      with Cons.prems(5) have "out \<noteq> []" by auto
      with Cons.IH [of out True] Cons.prems True False show ?thesis by simp
    next
      case no_dash: False
      let ?out = "out @ [45]"
      have inv: "list_all is_label_char ?out" "single_dashes ?out" "length ?out \<le> 48"
        using Cons.prems no_dash by (auto simp: single_dashes_snoc)
      show ?thesis
      proof (cases "48 \<le> length ?out")
        case room: False
        with Cons.IH [of ?out True] inv no_dash \<open>\<not> is_ascii_alphanumeric ch\<close> show ?thesis by simp
      qed (use inv no_dash \<open>\<not> is_ascii_alphanumeric ch\<close> in simp)
    qed
  qed
qed auto

lemma trim_matches_infix: "\<exists>a b. s = a @ trim_matches P s @ b"
proof -
  have "dropWhile P s = trim_matches P s @ rev (takeWhile P (rev (dropWhile P s)))"
    by (metis rev_append rev_rev_ident takeWhile_dropWhile_id trim_matches_def)
  then have "s = takeWhile P s @ trim_matches P s @ rev (takeWhile P (rev (dropWhile P s)))"
    by (metis takeWhile_dropWhile_id)
  then show ?thesis by blast
qed

text \<open>A DNS label as the mDNS host name needs it.\<close>

definition dns_label :: "ustr \<Rightarrow> bool" where
  "dns_label s \<longleftrightarrow>
     s \<noteq> [] \<and> length s \<le> 48 \<and> list_all is_label_char s \<and> single_dashes s \<and> hd s \<noteq> 45 \<and> last s \<noteq> 45"

lemma sanitize_dns_label_ok: "dns_label (sanitize_dns_label label)"
proof -
  let ?s = "sanitize_loop label [] False" and ?t = "trim_matches (\<lambda>c. c = of_char CHR ''-'') (sanitize_loop label [] False)"
  have inv: "list_all is_label_char ?s" "single_dashes ?s" "length ?s \<le> 48"
    using sanitize_loop_inv [of "[]" False label] by simp_all
  show ?thesis
  proof (cases "?t = []")
    case True
    then show ?thesis
      by (simp add: sanitize_dns_label_def dns_label_def is_label_char_def is_ascii_lowercase_def)
  next
    case False
    obtain a b where ab: "?s = a @ ?t @ b" using trim_matches_infix by blast
    have "single_dashes ?t" using inv(2) ab single_dashes_append by metis
    moreover have "list_all is_label_char ?t" using inv(1) ab by (metis list_all_append)
    moreover have "length ?t \<le> 48" using inv(3) arg_cong [OF ab, of length] by simp
    moreover have "hd ?t \<noteq> 45" "last ?t \<noteq> 45"
      using hd_trim_matches [OF False] last_trim_matches [OF False] by simp_all
    ultimately show ?thesis using False by (simp add: sanitize_dns_label_def dns_label_def)
  qed
qed

lemma sanitize_loop_label:
  assumes "list_all is_label_char s" "single_dashes (out @ s)" "length (out @ s) \<le> 48"
    and "out \<noteq> [] \<Longrightarrow> last out = 45 \<longleftrightarrow> dash" "out = [] \<Longrightarrow> \<not> dash"
  shows "sanitize_loop s out dash = out @ s"
  using assms
proof (induction s arbitrary: out dash)
  case (Cons c s)
  have full: "s = []" if "48 \<le> length (out @ [c])" using Cons.prems(3) that by (cases s) auto
  have "single_dashes (out @ [c])" using Cons.prems(2) single_dashes_append [of "out @ [c]" s] by simp
  then have dash: "c = 45 \<Longrightarrow> \<not> dash"
    using Cons.prems(4,5) by (cases "out = []") (auto simp: single_dashes_snoc)
  have low: "is_ascii_alphanumeric c \<and> to_ascii_lowercase c = c" if "c \<noteq> 45"
    using Cons.prems(1) that
    by (auto simp: is_label_char_def is_ascii_alphanumeric_def to_ascii_lowercase_def
        is_ascii_lowercase_def is_ascii_uppercase_def is_ascii_digit_def)
  have step: "sanitize_loop s (out @ [c]) (c = 45) = out @ c # s"
    if "length (out @ [c]) < 48"
    using Cons.IH [of "out @ [c]" "c = 45"] Cons.prems by simp
  show ?case
  proof (cases "c = 45")
    case True
    moreover have "\<not> is_ascii_alphanumeric (45 :: nat)"
      by (simp add: is_ascii_alphanumeric_def is_ascii_lowercase_def is_ascii_uppercase_def is_ascii_digit_def)
    ultimately show ?thesis using dash full step by (auto simp: Let_def not_le)
  next
    case False
    with low full step show ?thesis by (auto simp: Let_def not_le)
  qed
qed simp

lemma sanitize_dns_label_id: "dns_label s \<Longrightarrow> sanitize_dns_label s = s"
  using sanitize_loop_label [of s "[]" False] trim_matches_id [of s "\<lambda>c. c = 45"]
  by (simp add: sanitize_dns_label_def dns_label_def)

lemma trim_end_matches_dot: "s = [] \<or> last s \<noteq> c \<Longrightarrow> trim_end_matches c (s @ [c]) = s"
  by (cases s rule: rev_cases) (auto simp: trim_end_matches_def)

text \<open>The name a service was published under is the name the browser shows.\<close>

lemma instance_name_of_published:
  assumes "name = [] \<or> last name \<noteq> 46"
  shows "instance_name_from_fullname (name @ lit ''.'' @ SERVICE_TYPE) = name"
proof -
  have "strip_suffix SERVICE_TYPE (name @ 46 # SERVICE_TYPE) = Some (name @ [46])"
    by (subst strip_suffix_Some) simp
  then show ?thesis
    by (simp add: instance_name_from_fullname_def trim_end_matches_dot [OF assms] del: strip_suffix_Some)
qed

lemma set_fold_insert: "set (fold List.insert xs acc) = set xs \<union> set acc"
  by (induction xs arbitrary: acc) auto

lemma distinct_fold_insert: "distinct acc \<Longrightarrow> distinct (fold List.insert xs acc)"
  by (induction xs arbitrary: acc) auto

definition services_in :: "(nat \<times> browse_poll) list \<Rightarrow> discovered_service set" where
  "services_in polls = (\<Union>s \<in> {s. \<exists>t. (t, Received (ServiceResolved s)) \<in> set polls}. set (services_of s))"

lemma services_in_Cons:
  "services_in ((t, p) # polls) =
     (case p of Received (ServiceResolved s) \<Rightarrow> set (services_of s) | _ \<Rightarrow> {}) \<union> services_in polls"
  by (auto simp: services_in_def split: browse_poll.splits browse_event.splits)

lemma discover_loop_Ok:
  assumes "discover_loop deadline polls found = Some (Ok ss)" "distinct found"
  shows "distinct ss \<and> (\<exists>seen now polled rest. polls = seen @ (now, polled) # rest \<and>
      (deadline \<le> now \<or> polled = PollElapsed) \<and> list_all (\<lambda>(t, p). t < deadline) seen \<and>
      set ss = set found \<union> services_in seen)"
  using assms
proof (induction deadline polls found rule: discover_loop.induct)
  case (2 deadline now polled polls found)
  show ?case
  proof (cases "deadline \<le> now")
    case True
    with 2(3,4) show ?thesis
      by (intro conjI exI [of _ "[]"]) (auto simp: services_in_def)
  next
    case before: False
    have extend: ?thesis if "distinct ss" "polls = seen @ (t, p) # rest" "deadline \<le> t \<or> p = PollElapsed"
      "list_all (\<lambda>(t, p). t < deadline) seen" "set ss = set found \<union> services_in ((now, polled) # seen)"
      for seen t p rest
      using that before by (intro conjI exI [of _ "(now, polled) # seen"] exI [of _ t]) auto
    show ?thesis
    proof (cases polled)
      case (Received ev)
      show ?thesis
      proof (cases ev)
        case (ServiceResolved s)
        with 2 before Received distinct_fold_insert [OF 2(4), of "services_of s"]
        obtain seen t p rest where seen: "distinct ss" "polls = seen @ (t, p) # rest"
          "deadline \<le> t \<or> p = PollElapsed" "list_all (\<lambda>(t, p). t < deadline) seen"
          "set ss = set (fold List.insert (services_of s) found) \<union> services_in seen"
          by auto
        show ?thesis
          by (rule extend [OF seen(1-4)])
            (use seen(5) Received ServiceResolved in \<open>auto simp: services_in_Cons set_fold_insert\<close>)
      next
        case OtherEvent
        with 2 before Received obtain seen t p rest where seen: "distinct ss" "polls = seen @ (t, p) # rest"
          "deadline \<le> t \<or> p = PollElapsed" "list_all (\<lambda>(t, p). t < deadline) seen"
          "set ss = set found \<union> services_in seen"
          by auto
        show ?thesis
          by (rule extend [OF seen(1-4)]) (use seen(5) Received OtherEvent in \<open>simp add: services_in_Cons\<close>)
      qed
    next
      case ChannelClosed
      with 2(3) before show ?thesis by simp
    next
      case PollElapsed
      with 2(3,4) before show ?thesis
        by (intro conjI exI [of _ "[]"]) (auto simp: services_in_def)
    qed
  qed
qed simp

lemma qr_code_reads_back:
  "parse_qr_code_uri (format_qr_code_uri ip port name) =
     Ok \<lparr>qr_name = takeWhile (\<lambda>c. c \<noteq> of_char CHR ''&'') name, qr_ip = ip, qr_port = port\<rparr>"
proof -
  let ?auth = "qr_host ip @ 58 # show_dec (unat port)"
  have "63 \<notin> set (qr_host ip)"
  proof
    have no: "\<not> is_digit_of 16 63" by (simp add: is_digit_of_def digit_value_def)
    assume "63 \<in> set (qr_host ip)"
    then have "63 \<in> set (show_ip ip)" by (cases ip) auto
    with show_ip_chars no show False by fastforce
  qed
  moreover have "63 \<notin> set (show_dec (unat port))"
    using show_dec_digits [of 63] by (auto simp: is_ascii_digit_def)
  ultimately have split: "split_once 63 (?auth @ 63 # (lit ''name='' @ name)) = Some (?auth, lit ''name='' @ name)"
    by (intro split_once_append) auto
  have "parse_socket_addr ?auth = Some (ip, port)"
    using parse_socket_v4 parse_socket_v6 by (cases ip) auto
  moreover have "strip_prefix QR_SCHEME_PREFIX (format_qr_code_uri ip port name) =
      Some (?auth @ 63 # (lit ''name='' @ name))"
    by (simp add: format_qr_code_uri_def)
  ultimately show ?thesis
    using split first_name_split [of name] by (simp add: parse_qr_code_uri_def)
qed

section \<open>Properties\<close>

text \<open>
  A QR code read back gives the address and the port it was made for, whatever the address
  family, and the name up to its first ampersand.
\<close>

theorem qr_code_round_trip:
  "parse_qr_code_uri (format_qr_code_uri ip port name) =
     Ok \<lparr>qr_name = takeWhile (\<lambda>c. c \<noteq> of_char CHR ''&'') name, qr_ip = ip, qr_port = port\<rparr>"
  by (rule qr_code_reads_back)

text \<open>
  The label in the host name is always one that DNS takes: one to 48 lower-case letters,
  digits and single dashes, with no dash at either end. Every such label is kept as it is, so
  sanitizing twice changes nothing.
\<close>

theorem sanitize_dns_label_canonical:
  "range sanitize_dns_label = {s. dns_label s} \<and>
   sanitize_dns_label (sanitize_dns_label name) = sanitize_dns_label name"
proof
  show "range sanitize_dns_label = {s. dns_label s}"
  proof (intro set_eqI iffI)
    fix s
    assume "s \<in> {s. dns_label s}"
    then have "s = sanitize_dns_label s" by (simp add: sanitize_dns_label_id)
    then show "s \<in> range sanitize_dns_label" by (rule range_eqI)
  qed (auto intro: sanitize_dns_label_ok)
  show "sanitize_dns_label (sanitize_dns_label name) = sanitize_dns_label name"
    by (rule sanitize_dns_label_id [OF sanitize_dns_label_ok])
qed

text \<open>
  C36. What a search returns is in strictly increasing order, so without duplicates, and holds
  exactly the services resolved before the deadline: it ends with the first poll that elapsed
  or that began at the deadline or later.
\<close>

theorem discover_returns_what_it_saw:
  assumes "discover (Inr u) start timeout polls = Some (Ok ss)"
  shows "sorted_wrt (<) ss \<and>
    (\<exists>seen now polled rest. polls = seen @ (now, polled) # rest \<and>
      (start + timeout \<le> now \<or> polled = PollElapsed) \<and>
      list_all (\<lambda>(t, p). t < start + timeout) seen \<and> set ss = services_in seen)"
proof -
  from assms obtain found where found: "discover_loop (start + timeout) polls [] = Some (Ok found)"
      "ss = sort found"
    by (auto simp: discover_def result_eqs)
  from discover_loop_Ok [OF found(1)] found(2) show ?thesis
    by (simp add: strict_sorted_iff)
qed

definition sample_desktop_service :: resolved_service where
  "sample_desktop_service =
     \<lparr>rs_fullname = lit ''Desk.'' @ SERVICE_TYPE, rs_version = None,
      rs_addresses = [IpV4 10 0 0 2, IpV4 10 0 0 2], rs_port = 7878\<rparr>"

theorem discover_returns_what_it_saw_witness:
  "\<exists>ss seen. discover (Inr ()) 0 100 [(0, Received (ServiceResolved sample_desktop_service)), (5, PollElapsed)] =
     Some (Ok ss) \<and> sorted_wrt (<) ss \<and> set ss = services_in seen"
proof -
  obtain ss where "discover (Inr ()) 0 100
      [(0, Received (ServiceResolved sample_desktop_service)), (5, PollElapsed)] = Some (Ok ss)"
    by (simp add: discover_def)
  with discover_returns_what_it_saw [OF this] show ?thesis by blast
qed

end
