(* ===== verification/Mobile_Ffi.thy ===== *)
theory Mobile_Ffi
  imports MobileCore Discovery
begin

text \<open>
  The discovery half of the phone's C interface (\<open>rust/phonecam-mobile-core/src/lib.rs\<close>):
  reading a QR code, and the list of desktops found on the network as newline-delimited
  records. The lemmas show that no name found on the network can break the record format.
\<close>

section \<open>The C functions\<close>

definition ffi_test_message :: ustr where
  "ffi_test_message = lit ''phonecam-mobile-core ffi ok''"

definition phonecam_ffi_test_message :: "(ustr, unit) result" where
  "phonecam_ffi_test_message =
     (case cstring_new ffi_test_message of Some s \<Rightarrow> Ok s | None \<Rightarrow> Panic)"

definition phonecam_parse_qr_code_uri :: "c_str \<Rightarrow> ustr option" where
  "phonecam_parse_qr_code_uri uri =
     (case uri of
        CStr u \<Rightarrow>
          (case parse_qr_code_uri u of
             Ok parsed \<Rightarrow> cstring_new
               (show_ip (qr_ip parsed) @ lit ''|'' @ show_dec (unat (qr_port parsed)) @ lit ''|'' @ qr_name parsed)
           | _ \<Rightarrow> None)
      | _ \<Rightarrow> None)"

text \<open>\<open>str::replace\<close> of the three characters by a space.\<close>

definition is_delimiter :: "nat \<Rightarrow> bool" where
  "is_delimiter c \<longleftrightarrow> c = of_char CHR ''|'' \<or> c = 10 \<or> c = 13"

definition replace_delimiters :: "ustr \<Rightarrow> ustr" where
  "replace_delimiters s = map (\<lambda>c. if is_delimiter c then of_char CHR '' '' else c) s"

definition service_record :: "discovered_service \<Rightarrow> ustr" where
  "service_record s =
     replace_delimiters (ds_name s) @ lit ''|'' @ show_ip (ds_ip s) @ lit ''|'' @
     show_dec (unat (ds_port s)) @ lit ''|'' @ replace_delimiters (ds_version s)"

definition format_discovered_services :: "discovered_service list \<Rightarrow> ustr" where
  "format_discovered_services services = join [10] (map service_record services)"

definition clamp :: "nat \<Rightarrow> nat \<Rightarrow> nat \<Rightarrow> nat" where
  "clamp lo hi x = (if x < lo then lo else if hi < x then hi else x)"

text \<open>
  The outer option is \<open>None\<close> while the search still runs, the inner one for a null pointer.
  \<open>browser\<close> and \<open>browse\<close> are the daemon's answers, in milliseconds the clock's.
\<close>

definition phonecam_discover_desktops ::
  "bool \<Rightarrow> string + unit \<Rightarrow> string + unit \<Rightarrow> nat \<Rightarrow> (nat \<times> browse_poll) list \<Rightarrow> u32 \<Rightarrow> ustr option option" where
  "phonecam_discover_desktops built browser browse start polls timeout_ms =
     (if \<not> built then Some None
      else
        (case browser of
           Inl e \<Rightarrow> Some None
         | Inr _ \<Rightarrow>
             map_option
               (\<lambda>r. case r of Ok services \<Rightarrow> cstring_new (format_discovered_services services) | _ \<Rightarrow> None)
               (discover browse start (clamp 100 5000 (unat timeout_ms)) polls)))"

section \<open>Strings handed out\<close>

text \<open>
  A \<open>*mut c_char\<close> is the address of a string that \<open>CString::into_raw\<close> has given away, or null.
  \<open>phonecam_string_free\<close> takes one back; \<open>None\<close> is the undefined behaviour of an address that
  was not given away, or was taken back before.
\<close>

record c_memory =
  given_away :: "nat \<Rightarrow> ustr option"
  fresh_address :: nat

definition into_raw :: "ustr option \<Rightarrow> c_memory \<Rightarrow> nat option \<times> c_memory" where
  "into_raw result mem =
     (case result of
        None \<Rightarrow> (None, mem)
      | Some s \<Rightarrow> (Some (fresh_address mem),
          \<lparr>given_away = (given_away mem)(fresh_address mem \<mapsto> s), fresh_address = Suc (fresh_address mem)\<rparr>))"

definition phonecam_string_free :: "nat option \<Rightarrow> c_memory \<Rightarrow> c_memory option" where
  "phonecam_string_free ptr mem =
     (case ptr of
        None \<Rightarrow> Some mem
      | Some a \<Rightarrow>
          (case given_away mem a of
             None \<Rightarrow> None
           | Some s \<Rightarrow> Some (mem\<lparr>given_away := (given_away mem)(a := None)\<rparr>)))"

definition c_memory_ok :: "c_memory \<Rightarrow> bool" where
  "c_memory_ok mem \<longleftrightarrow> (\<forall>a. fresh_address mem \<le> a \<longrightarrow> given_away mem a = None)"

section \<open>Lemmas\<close>

lemma c_memory_kept:
  "c_memory_ok mem \<Longrightarrow> into_raw result mem = (ptr, mem') \<Longrightarrow> c_memory_ok mem'"
  "c_memory_ok mem \<Longrightarrow> phonecam_string_free ptr mem = Some mem' \<Longrightarrow> c_memory_ok mem'"
  by (auto simp: c_memory_ok_def into_raw_def phonecam_string_free_def split: option.splits if_splits)

text \<open>
  A string handed out and freed, whatever else was handed out, leaves what was there before, and
  freeing it again is undefined.
\<close>

lemma handed_out_and_freed:
  assumes "c_memory_ok mem" "into_raw (Some s) mem = (ptr, mem1)" "into_raw other mem1 = (ptr', mem2)"
  shows "\<exists>mem3 mem4. phonecam_string_free ptr mem2 = Some mem3 \<and> phonecam_string_free ptr' mem3 = Some mem4 \<and>
    given_away mem4 = given_away mem \<and> phonecam_string_free ptr mem4 = None"
proof -
  have free: "given_away mem (fresh_address mem) = None" "given_away mem (Suc (fresh_address mem)) = None"
    using assms(1) by (simp_all add: c_memory_ok_def)
  then have "(given_away mem)(fresh_address mem := None) = given_away mem"
    "(given_away mem)(fresh_address mem := None, Suc (fresh_address mem) := None) = given_away mem"
    by auto
  with free assms(2,3) show ?thesis
    by (cases other) (auto simp: into_raw_def phonecam_string_free_def fun_upd_twist)
qed

lemma ffi_test_message_no_panic: "phonecam_ffi_test_message = Ok ffi_test_message"
  by (simp add: phonecam_ffi_test_message_def cstring_new_def ffi_test_message_def)

lemma replaced_no_delimiter: "c \<in> set (replace_delimiters s) \<Longrightarrow> \<not> is_delimiter c"
  by (auto simp: replace_delimiters_def is_delimiter_def split: if_splits)

lemma show_ip_no_delimiter: "c \<in> set (show_ip ip) \<Longrightarrow> \<not> is_delimiter c"
  by (auto simp: is_delimiter_def is_digit_of_def digit_value_def dest: show_ip_chars)

lemma show_dec_no_delimiter: "c \<in> set (show_dec n) \<Longrightarrow> \<not> is_delimiter c"
  by (auto simp: is_delimiter_def is_ascii_digit_def dest: show_dec_digits)

lemma split_join:
  assumes "\<And>w. w \<in> set (v # ws) \<Longrightarrow> \<not> list_ex P w" "P c"
  shows "split_by P (join [c] (v # ws)) = v # ws"
  using assms
proof (induction ws arbitrary: v)
  case Nil
  then show ?case by (simp add: split_by_plain)
next
  case (Cons w ws)
  then have "split_by P (join [c] (w # ws)) = w # ws" by simp
  with split_by_append [of P v c "join [c] (w # ws)"] Cons.prems show ?case by simp
qed

definition record_fields :: "discovered_service \<Rightarrow> ustr list" where
  "record_fields s =
     [replace_delimiters (ds_name s), show_ip (ds_ip s), show_dec (unat (ds_port s)),
      replace_delimiters (ds_version s)]"

lemma record_fields_clean: "f \<in> set (record_fields s) \<Longrightarrow> c \<in> set f \<Longrightarrow> \<not> is_delimiter c"
  by (auto simp: record_fields_def
      dest: replaced_no_delimiter show_ip_no_delimiter show_dec_no_delimiter)

lemma service_record_join: "service_record s = join (lit ''|'') (record_fields s)"
  by (simp add: service_record_def record_fields_def)

section \<open>Properties\<close>

text \<open>
  The list handed to the phone's user interface parses back to what was found: split at line
  feeds it has one line for each service, and each line split at bars has exactly the four
  fields name, address, port and version, whatever the names on the network contain.
\<close>

theorem service_records_split_back:
  "map (split_by (\<lambda>c. c = of_char CHR ''|''))
     (split_by (\<lambda>c. c = 10) (format_discovered_services (s # services))) =
   map record_fields (s # services)"
proof -
  have fields: "split_by (\<lambda>c. c = of_char CHR ''|'') (service_record t) = record_fields t" for t
  proof -
    obtain f fs where f: "record_fields t = f # fs" by (simp add: record_fields_def)
    have "split_by (\<lambda>c. c = of_char CHR ''|'') (join [of_char CHR ''|''] (f # fs)) = f # fs"
      using record_fields_clean [of _ t, unfolded f]
      by (intro split_join) (auto simp: list_ex_iff is_delimiter_def)
    then show ?thesis by (simp add: service_record_join f)
  qed
  have "\<not> list_ex (\<lambda>c. c = 10) (service_record t)" for t
    using record_fields_clean [of _ t]
    by (auto simp: service_record_join record_fields_def list_ex_iff is_delimiter_def)
  then have "split_by (\<lambda>c. c = 10) (format_discovered_services (s # services)) =
      map service_record (s # services)"
    unfolding format_discovered_services_def list.map by (intro split_join) auto
  with fields show ?thesis by simp
qed

text \<open>
  A phone that scans the QR code of a desktop gets the desktop's address, its port and its
  name up to the first ampersand, as one string that splits at the first two bars.
\<close>

theorem scanned_code_names_the_desktop:
  "phonecam_parse_qr_code_uri (CStr (format_qr_code_uri ip port name)) =
     cstring_new (show_ip ip @ lit ''|'' @ show_dec (unat port) @ lit ''|'' @
       takeWhile (\<lambda>c. c \<noteq> of_char CHR ''&'') name) \<and>
   split_once (of_char CHR ''|'') (show_ip ip @ lit ''|'' @ rest) = Some (show_ip ip, rest) \<and>
   split_once (of_char CHR ''|'') (show_dec (unat port) @ lit ''|'' @ rest) = Some (show_dec (unat port), rest)"
proof -
  have "124 \<notin> set (show_ip ip)" "124 \<notin> set (show_dec (unat port))"
    using show_ip_no_delimiter [of 124 ip] show_dec_no_delimiter [of 124 "unat port"]
    by (auto simp: is_delimiter_def)
  then show ?thesis by (simp add: phonecam_parse_qr_code_uri_def qr_code_reads_back)
qed

end
