(* ===== verification/Rust_BTree.thy ===== *)
theory Rust_BTree
  imports Main
begin

text \<open>
  \<open>BTreeMap\<close> as the association list that iterating over it yields: strictly increasing keys.
  Lookup is \<open>map_of\<close>; the lemmas say what an insertion does to lookup, order and keys.
\<close>

fun btree_insert :: "'k::linorder \<Rightarrow> 'v \<Rightarrow> ('k \<times> 'v) list \<Rightarrow> ('k \<times> 'v) list" where
  "btree_insert k v [] = [(k, v)]"
| "btree_insert k v ((k', v') # m) =
     (if k < k' then (k, v) # (k', v') # m
      else if k = k' then (k, v) # m
      else (k', v') # btree_insert k v m)"

definition btree_ok :: "('k::linorder \<times> 'v) list \<Rightarrow> bool" where
  "btree_ok m \<longleftrightarrow> sorted_wrt (<) (map fst m)"

lemma btree_ok_simps [simp]:
  "btree_ok []"
  "btree_ok ((k, v) # m) \<longleftrightarrow> (\<forall>k' \<in> fst ` set m. k < k') \<and> btree_ok m"
  by (auto simp: btree_ok_def)

lemma fst_set_btree_insert: "fst ` set (btree_insert k v m) = insert k (fst ` set m)"
  by (induction m rule: btree_insert.induct) auto

lemma btree_insert_ok [simp]: "btree_ok m \<Longrightarrow> btree_ok (btree_insert k v m)"
proof (induction k v m rule: btree_insert.induct)
  case (2 k v k' v' m)
  then show ?case by (auto simp: fst_set_btree_insert)
qed simp

lemma map_of_btree_insert [simp]: "btree_ok m \<Longrightarrow> map_of (btree_insert k v m) = (map_of m)(k \<mapsto> v)"
proof (induction k v m rule: btree_insert.induct)
  case (2 k v k' v' m)
  then show ?case by (auto simp: fun_eq_iff)
qed simp

lemma btree_distinct: "btree_ok m \<Longrightarrow> distinct (map fst m)"
  by (induction m) (auto simp: btree_ok_def)

lemma btree_entry_iff: "btree_ok m \<Longrightarrow> (k, v) \<in> set m \<longleftrightarrow> map_of m k = Some v"
  using map_of_is_SomeI map_of_SomeD btree_distinct by metis

definition btree_collect :: "('k::linorder \<times> 'v) list \<Rightarrow> ('k \<times> 'v) list" where
  "btree_collect xs = fold (\<lambda>(k, v). btree_insert k v) xs []"

lemma fold_insert:
  "btree_ok m \<Longrightarrow> btree_ok (fold (\<lambda>(k, v). btree_insert k v) xs m) \<and>
   map_of (fold (\<lambda>(k, v). btree_insert k v) xs m) = map_of m ++ map_of (rev xs)"
proof (induction xs arbitrary: m)
  case (Cons x xs)
  obtain k v where "x = (k, v)" by fastforce
  with Cons show ?case by (auto simp: map_add_def fun_eq_iff split: option.splits)
qed simp

lemma btree_collect_ok [simp]: "btree_ok (btree_collect xs)"
  using fold_insert [of "[]" xs] by (simp add: btree_collect_def)

lemma map_of_btree_collect [simp]: "map_of (btree_collect xs) = map_of (rev xs)"
  using fold_insert [of "[]" xs] by (simp add: btree_collect_def)

lemma btree_insert_last:
  assumes "\<forall>k' \<in> fst ` set m. k' < k"
  shows "btree_insert k v m = m @ [(k, v)]"
  using assms by (induction k v m rule: btree_insert.induct) auto

lemma btree_collect_id: "btree_ok m \<Longrightarrow> btree_collect m = m"
proof (induction m rule: rev_induct)
  case (snoc x m)
  obtain k v where x: "x = (k, v)" by fastforce
  with snoc.prems have "btree_ok m" "\<forall>k' \<in> fst ` set m. k' < k"
    by (auto simp: btree_ok_def sorted_wrt_append)
  with snoc.IH x show ?case by (simp add: btree_collect_def btree_insert_last)
qed (simp add: btree_collect_def)

end
