(* ===== verification/Adb.thy ===== *)
theory Adb
  imports Text_Utils Rust_BTree "HOL-Library.List_Lexorder"
begin

text \<open>
  The desktop's use of the Android debug bridge (\<open>rust/phonecam-desktop/src-tauri/src/adb.rs\<close>):
  finding the \<open>adb\<close> binary, parsing \<open>adb devices -l\<close>, choosing a device, the reverse tunnel,
  and the monitor that turns polled listings into events.

  Running a program is a parameter that may change the world; the manager's cached path and the
  world are one state. A path is the list of its components with a mark for a leading root; an
  environment variable that holds one is read as such.
\<close>

section \<open>Devices\<close>

datatype adb_device_state =
  Device | Unauthorized | Offline | Recovery | Bootloader | Sideload | UnknownState ustr

definition lowercase :: "ustr \<Rightarrow> ustr" where
  "lowercase s = map to_ascii_lowercase s"

definition from_token :: "ustr \<Rightarrow> adb_device_state" where
  "from_token token =
     (let normalized = lowercase (trim token)
      in if normalized = lit ''device'' then Device
         else if normalized = lit ''unauthorized'' then Unauthorized
         else if normalized = lit ''offline'' then Offline
         else if normalized = lit ''recovery'' then Recovery
         else if normalized = lit ''bootloader'' then Bootloader
         else if normalized = lit ''sideload'' then Sideload
         else UnknownState (trim token))"

primrec show_device_state :: "adb_device_state \<Rightarrow> ustr" where
  "show_device_state Device = lit ''device''"
| "show_device_state Unauthorized = lit ''unauthorized''"
| "show_device_state Offline = lit ''offline''"
| "show_device_state Recovery = lit ''recovery''"
| "show_device_state Bootloader = lit ''bootloader''"
| "show_device_state Sideload = lit ''sideload''"
| "show_device_state (UnknownState v) = v"

record adb_device =
  ad_serial :: ustr
  ad_state :: adb_device_state
  ad_product :: "ustr option"
  ad_model :: "ustr option"
  ad_device :: "ustr option"
  ad_transport_id :: "nat option"
  ad_properties :: "(ustr \<times> ustr) list"

definition is_ready :: "adb_device \<Rightarrow> bool" where
  "is_ready d \<longleftrightarrow> ad_state d = Device"

datatype adb_device_event_kind = DeviceConnected | DeviceDisconnected | DeviceStateChanged

record adb_device_event =
  ev_serial :: ustr
  ev_kind :: adb_device_event_kind
  ev_previous :: "adb_device_state option"
  ev_current :: "adb_device_state option"
  ev_device :: "adb_device option"

datatype path = Path (is_absolute: bool) (components: "ustr list")

definition path_join :: "path \<Rightarrow> ustr list \<Rightarrow> path" where
  "path_join p names = Path (is_absolute p) (components p @ names)"

datatype adb_error =
    AdbNotFound "path list"
  | AdbIo ustr
  | AdbUtf8 ustr
  | AdbParse ustr
  | AdbInvalidPort u16
  | AdbNoDevices
  | AdbUnauthorizedDevices "ustr list"
  | AdbMultipleDevices "ustr list"
  | AdbDeviceNotFound ustr
  | AdbDeviceUnavailable ustr adb_device_state
  | AdbCommandFailed ustr "int option" ustr ustr

section \<open>Parsing the device list\<close>

text \<open>The loop over the remaining words of a line, into the map of properties.\<close>

definition add_property :: "ustr \<Rightarrow> (ustr \<times> ustr) list \<Rightarrow> (ustr \<times> ustr) list" where
  "add_property part props =
     (case split_once (of_char CHR '':'') part of
        Some (key, val) \<Rightarrow>
          if trim key \<noteq> [] \<and> trim val \<noteq> [] then btree_insert (trim key) (trim val) props else props
      | None \<Rightarrow> props)"

definition parse_device_line :: "ustr \<Rightarrow> adb_device option" where
  "parse_device_line line =
     (let trimmed = trim line in
      if trimmed = [] \<or> starts_with (lit ''List of devices attached'') trimmed \<or>
         starts_with (lit ''*'') trimmed
      then None
      else
        (case split_whitespace trimmed of
           w1 # w2 # parts \<Rightarrow>
             let serial = trim w1; state_token = trim w2 in
             if serial = [] \<or> state_token = [] then None
             else
               let props = fold add_property parts []
               in Some \<lparr>ad_serial = serial, ad_state = from_token state_token,
                        ad_product = map_of props (lit ''product''),
                        ad_model = map_of props (lit ''model''),
                        ad_device = map_of props (lit ''device''),
                        ad_transport_id =
                          Option.bind (map_of props (lit ''transport_id'')) (parse_unsigned (2 ^ 32 - 1)),
                        ad_properties = props\<rparr>
         | _ \<Rightarrow> None))"

definition parse_devices_output :: "ustr \<Rightarrow> adb_device list" where
  "parse_devices_output text_out = List.map_filter parse_device_line (lines text_out)"

section \<open>Choosing a device\<close>

text \<open>The part of \<open>resolve_target_serial\<close> after the listing.\<close>

definition blank_to_none :: "ustr option \<Rightarrow> ustr option" where
  "blank_to_none serial = (case serial of Some s \<Rightarrow> if trim s = [] then None else Some (trim s) | None \<Rightarrow> None)"

definition select_target :: "ustr option \<Rightarrow> adb_device list \<Rightarrow> (ustr, adb_error) result" where
  "select_target serial devices =
     (if devices = [] then Err AdbNoDevices
      else
        (case blank_to_none serial of
           Some requested \<Rightarrow>
             (case List.find (\<lambda>d. ad_serial d = requested) devices of
                None \<Rightarrow> Err (AdbDeviceNotFound requested)
              | Some d \<Rightarrow>
                  if is_ready d then Ok requested
                  else if ad_state d = Unauthorized then Err (AdbUnauthorizedDevices [requested])
                  else Err (AdbDeviceUnavailable requested (ad_state d)))
         | None \<Rightarrow>
             (case filter is_ready devices of
                [] \<Rightarrow>
                  (let unauthorized = map ad_serial (filter (\<lambda>d. ad_state d = Unauthorized) devices)
                   in if unauthorized = [] then Err AdbNoDevices
                      else Err (AdbUnauthorizedDevices unauthorized))
              | [d] \<Rightarrow> Ok (ad_serial d)
              | ready \<Rightarrow> Err (AdbMultipleDevices (map ad_serial ready)))))"

section \<open>Running adb\<close>

record program_output =
  out_success :: bool
  out_code :: "int option"
  out_stdout :: "u8 list"
  out_stderr :: "u8 list"

text \<open>
  The operating system: environment, file system, and the programs it runs; and two texts of
  the standard library, that of a path and that of the error for bytes that are not UTF-8.
\<close>

record 'w adb_host =
  on_windows :: bool
  env_path :: "ustr \<Rightarrow> path option"
  current_exe :: "path option"
  path_exists :: "path \<Rightarrow> bool"
  run_program :: "path \<Rightarrow> ustr list \<Rightarrow> 'w \<Rightarrow> (ustr + program_output) \<times> 'w"
  path_text :: "path \<Rightarrow> ustr"
  utf8_error_text :: "u8 list \<Rightarrow> ustr"

record 'w adb_manager =
  resolved_adb_path :: "path option"
  adb_world :: 'w

definition adb_manager_new :: "'w \<Rightarrow> 'w adb_manager" where
  "adb_manager_new w = \<lparr>resolved_adb_path = None, adb_world = w\<rparr>"

definition adb_binary_name :: "'w adb_host \<Rightarrow> ustr" where
  "adb_binary_name h = (if on_windows h then lit ''adb.exe'' else lit ''adb'')"

definition home_dir :: "'w adb_host \<Rightarrow> path option" where
  "home_dir h = (case env_path h (lit ''HOME'') of Some p \<Rightarrow> Some p | None \<Rightarrow> env_path h (lit ''USERPROFILE''))"

definition parent :: "path \<Rightarrow> path option" where
  "parent p =
     (if components p = [] then None else Some (Path (is_absolute p) (butlast (components p))))"

definition push_candidate :: "path list \<Rightarrow> path \<Rightarrow> path list" where
  "push_candidate candidates p = (if p \<in> set candidates then candidates else candidates @ [p])"

definition adb_candidates :: "'w adb_host \<Rightarrow> path list" where
  "adb_candidates h =
     (let bin = adb_binary_name h; tools = lit ''platform-tools'' in
      foldl push_candidate []
        ([Path False [lit ''adb'']] @
         (case env_path h (lit ''ADB_PATH'') of Some p \<Rightarrow> [p, path_join p [bin]] | None \<Rightarrow> []) @
         (case env_path h (lit ''ANDROID_HOME'') of Some p \<Rightarrow> [path_join p [tools, bin]] | None \<Rightarrow> []) @
         (case env_path h (lit ''ANDROID_SDK_ROOT'') of Some p \<Rightarrow> [path_join p [tools, bin]] | None \<Rightarrow> []) @
         (case home_dir h of Some p \<Rightarrow> [path_join p [lit ''Android'', lit ''Sdk'', tools, bin]] | None \<Rightarrow> []) @
         (if on_windows h then
            (case env_path h (lit ''LOCALAPPDATA'') of
               Some p \<Rightarrow> [path_join p [lit ''Android'', lit ''Sdk'', tools, bin]] | None \<Rightarrow> [])
          else []) @
         (case Option.bind (current_exe h) parent of
            Some dir \<Rightarrow>
              [path_join dir [bin], path_join dir [tools, bin], path_join dir [lit ''resources'', tools, bin]] @
              (case parent dir of
                 Some up \<Rightarrow> [path_join up [lit ''Resources'', tools, bin]] | None \<Rightarrow> [])
          | None \<Rightarrow> [])))"

text \<open>Lossy decoding keeps every ASCII byte, so the search is one for bytes.\<close>

definition has_infix :: "'a list \<Rightarrow> 'a list \<Rightarrow> bool" where
  "has_infix needle s \<longleftrightarrow> list_ex (\<lambda>i. starts_with needle (drop i s)) [0..<Suc (length s)]"

definition probe_adb_binary :: "'w adb_host \<Rightarrow> path \<Rightarrow> 'w \<Rightarrow> bool \<times> 'w" where
  "probe_adb_binary h candidate w =
     (case run_program h candidate [lit ''version''] w of
        (Inl e, w') \<Rightarrow> (False, w')
      | (Inr out, w') \<Rightarrow>
          (out_success out \<and>
           (let banner = map of_nat (lit ''Android Debug Bridge'')
            in has_infix banner (out_stdout out) \<or> has_infix banner (out_stderr out)), w'))"

fun probe_candidates ::
  "'w adb_host \<Rightarrow> path list \<Rightarrow> path list \<Rightarrow> 'w \<Rightarrow> (path, adb_error) result \<times> 'w" where
  "probe_candidates h [] searched w = (Err (AdbNotFound searched), w)"
| "probe_candidates h (c # cs) searched w =
     (if c \<in> set searched then probe_candidates h cs searched w
      else if c \<noteq> Path False [lit ''adb''] \<and> \<not> path_exists h c then probe_candidates h cs (searched @ [c]) w
      else
        (case probe_adb_binary h c w of
           (found, w') \<Rightarrow>
             if found then (Ok c, w') else probe_candidates h cs (searched @ [c]) w'))"

definition discover_adb_binary :: "'w adb_host \<Rightarrow> 'w \<Rightarrow> (path, adb_error) result \<times> 'w" where
  "discover_adb_binary h w = probe_candidates h (adb_candidates h) [] w"

definition resolve_adb_path ::
  "'w adb_host \<Rightarrow> 'w adb_manager \<Rightarrow> (path, adb_error) result \<times> 'w adb_manager" where
  "resolve_adb_path h s =
     (case resolved_adb_path s of
        Some p \<Rightarrow> (Ok p, s)
      | None \<Rightarrow>
          (case discover_adb_binary h (adb_world s) of
             (Ok p, w) \<Rightarrow> (Ok p, s\<lparr>resolved_adb_path := Some p, adb_world := w\<rparr>)
           | (r, w) \<Rightarrow> (r, s\<lparr>adb_world := w\<rparr>)))"

definition find_adb :: "'w adb_host \<Rightarrow> 'w adb_manager \<Rightarrow> (path, adb_error) result \<times> 'w adb_manager" where
  "find_adb h s = resolve_adb_path h s"

text \<open>Sequencing with \<open>?\<close>: an error ends the caller with the state reached.\<close>

definition and_next ::
  "('a, 'e) result \<times> 's \<Rightarrow> ('a \<Rightarrow> 's \<Rightarrow> ('b, 'e) result \<times> 's) \<Rightarrow> ('b, 'e) result \<times> 's" where
  "and_next m f =
     (case m of (Ok x, s) \<Rightarrow> f x s | (Err e, s) \<Rightarrow> (Err e, s) | (Panic, s) \<Rightarrow> (Panic, s))"

definition utf8_text :: "'w adb_host \<Rightarrow> ustr \<Rightarrow> u8 list \<Rightarrow> (ustr, adb_error) result" where
  "utf8_text h stream bytes =
     ok_or (AdbUtf8 (lit ''invalid UTF-8 in adb '' @ stream @ lit '': '' @ utf8_error_text h bytes)) (utf8_decode bytes)"

definition command_line :: "'w adb_host \<Rightarrow> path \<Rightarrow> ustr list \<Rightarrow> ustr" where
  "command_line h adb args = path_text h adb @ lit '' '' @ join (lit '' '') args"

definition run_success ::
  "'w adb_host \<Rightarrow> ustr list \<Rightarrow> 'w adb_manager \<Rightarrow> (ustr, adb_error) result \<times> 'w adb_manager" where
  "run_success h args s =
     and_next (resolve_adb_path h s) (\<lambda>adb s.
       case run_program h adb args (adb_world s) of
         (Inl e, w) \<Rightarrow>
           (Err (AdbIo (lit ''failed to execute '' @ path_text h adb @ lit '': '' @ e)), s\<lparr>adb_world := w\<rparr>)
       | (Inr out, w) \<Rightarrow>
           (and_then (utf8_text h (lit ''stdout'') (out_stdout out)) (\<lambda>stdout.
            and_then (utf8_text h (lit ''stderr'') (out_stderr out)) (\<lambda>stderr.
              if out_success out then Ok stdout
              else Err (AdbCommandFailed (command_line h adb args) (out_code out) stdout stderr))),
            s\<lparr>adb_world := w\<rparr>))"

definition ensure_server_started ::
  "'w adb_host \<Rightarrow> 'w adb_manager \<Rightarrow> (unit, adb_error) result \<times> 'w adb_manager" where
  "ensure_server_started h s =
     and_next (run_success h [lit ''start-server''] s) (\<lambda>_ s. (Ok (), s))"

definition list_devices_raw ::
  "'w adb_host \<Rightarrow> 'w adb_manager \<Rightarrow> (adb_device list, adb_error) result \<times> 'w adb_manager" where
  "list_devices_raw h s =
     and_next (ensure_server_started h s) (\<lambda>_ s.
     and_next (run_success h [lit ''devices'', lit ''-l''] s) (\<lambda>stdout s.
       (Ok (parse_devices_output stdout), s)))"

definition adb_devices ::
  "'w adb_host \<Rightarrow> 'w adb_manager \<Rightarrow> (adb_device list, adb_error) result \<times> 'w adb_manager" where
  "adb_devices h s =
     and_next (list_devices_raw h s) (\<lambda>devices s.
       if devices = [] then (Err AdbNoDevices, s) else (Ok devices, s))"

definition resolve_target_serial ::
  "'w adb_host \<Rightarrow> ustr option \<Rightarrow> 'w adb_manager \<Rightarrow> (ustr, adb_error) result \<times> 'w adb_manager" where
  "resolve_target_serial h serial s =
     and_next (list_devices_raw h s) (\<lambda>devices s. (select_target serial devices, s))"

definition tcp_arg :: "u16 \<Rightarrow> ustr" where
  "tcp_arg port = lit ''tcp:'' @ show_dec (unat port)"

definition adb_reverse ::
  "'w adb_host \<Rightarrow> u16 \<Rightarrow> u16 \<Rightarrow> ustr option \<Rightarrow> 'w adb_manager \<Rightarrow>
   (ustr, adb_error) result \<times> 'w adb_manager" where
  "adb_reverse h device_port host_port serial s =
     (if device_port = 0 then (Err (AdbInvalidPort device_port), s)
      else if host_port = 0 then (Err (AdbInvalidPort host_port), s)
      else
        and_next (ensure_server_started h s) (\<lambda>_ s.
        and_next (resolve_target_serial h serial s) (\<lambda>target s.
        and_next (run_success h
            [lit ''-s'', target, lit ''reverse'', tcp_arg device_port, tcp_arg host_port] s) (\<lambda>_ s.
          (Ok target, s)))))"

definition kill_reverse ::
  "'w adb_host \<Rightarrow> u16 \<Rightarrow> ustr option \<Rightarrow> 'w adb_manager \<Rightarrow>
   (ustr, adb_error) result \<times> 'w adb_manager" where
  "kill_reverse h device_port serial s =
     (if device_port = 0 then (Err (AdbInvalidPort device_port), s)
      else
        and_next (ensure_server_started h s) (\<lambda>_ s.
        and_next
          (case blank_to_none serial of
             Some t \<Rightarrow> (Ok t, s)
           | None \<Rightarrow> resolve_target_serial h None s) (\<lambda>target s.
        and_next (run_success h
            [lit ''-s'', target, lit ''reverse'', lit ''--remove'', tcp_arg device_port] s) (\<lambda>_ s.
          (Ok target, s)))))"

section \<open>The monitor\<close>

definition device_map :: "adb_device list \<Rightarrow> (ustr \<times> adb_device) list" where
  "device_map devices = btree_collect (map (\<lambda>d. (ad_serial d, d)) devices)"

text \<open>The two loops over the maps, as the events they send.\<close>

definition current_event ::
  "(ustr \<times> adb_device) list \<Rightarrow> ustr \<times> adb_device \<Rightarrow> adb_device_event list" where
  "current_event previous = (\<lambda>(serial, d).
     case map_of previous serial of
       None \<Rightarrow>
         [\<lparr>ev_serial = serial, ev_kind = DeviceConnected, ev_previous = None,
           ev_current = Some (ad_state d), ev_device = Some d\<rparr>]
     | Some p \<Rightarrow>
         if ad_state p = ad_state d then []
         else [\<lparr>ev_serial = serial, ev_kind = DeviceStateChanged, ev_previous = Some (ad_state p),
                ev_current = Some (ad_state d), ev_device = Some d\<rparr>])"

definition vanished_event ::
  "(ustr \<times> adb_device) list \<Rightarrow> ustr \<times> adb_device \<Rightarrow> adb_device_event list" where
  "vanished_event current = (\<lambda>(serial, p).
     if map_of current serial \<noteq> None then []
     else [\<lparr>ev_serial = serial, ev_kind = DeviceDisconnected, ev_previous = Some (ad_state p),
            ev_current = None, ev_device = Some p\<rparr>])"

definition poll_events ::
  "(ustr \<times> adb_device) list \<Rightarrow> (ustr \<times> adb_device) list \<Rightarrow> adb_device_event list" where
  "poll_events previous current =
     concat (map (current_event previous) current) @ concat (map (vanished_event current) previous)"

text \<open>
  The task: one listing per tick, and the number of events the receiver still takes before it is
  dropped. It gives the events received and the last map, or \<open>None\<close> once the task has returned.
\<close>

fun monitor_loop ::
  "(adb_device list, adb_error) result list \<Rightarrow> nat \<Rightarrow> (ustr \<times> adb_device) list \<Rightarrow>
   adb_device_event list \<times> (ustr \<times> adb_device) list option" where
  "monitor_loop [] room previous = ([], Some previous)"
| "monitor_loop (poll # polls) room previous =
     (case (case poll of Ok ds \<Rightarrow> Some ds | Err AdbNoDevices \<Rightarrow> Some [] | _ \<Rightarrow> None) of
        None \<Rightarrow> monitor_loop polls room previous
      | Some ds \<Rightarrow>
          let current = device_map ds; evs = poll_events previous current
          in if length evs \<le> room then
               (let (more, end) = monitor_loop polls (room - length evs) current in (evs @ more, end))
             else (take room evs, None))"

definition DEFAULT_MONITOR_INTERVAL :: nat where
  "DEFAULT_MONITOR_INTERVAL = 1000"

definition monitor_interval :: "nat \<Rightarrow> nat" where
  "monitor_interval poll_interval = (if poll_interval = 0 then DEFAULT_MONITOR_INTERVAL else poll_interval)"

end
