(* ===== verification/Adb_Claims.thy ===== *)
theory Adb_Claims
  imports Adb
begin

text \<open>
  What the use of the debug bridge guarantees: a device list is read back whatever white space
  and banner lines it is laid out with, a tunnel is only opened to a ready device of the
  listing, and the monitor's events, replayed by an observer, are the devices' states.
\<close>

section \<open>Device lists\<close>

text \<open>
  A device as a listing gives it: its serial, its state and its properties in order. A line lays
  the device out when its words stand there in that order, with any white space between them
  and around them.
\<close>

type_synonym listed_device = "ustr \<times> adb_device_state \<times> (ustr \<times> ustr) list"

definition property_word :: "ustr \<times> ustr \<Rightarrow> ustr" where
  "property_word = (\<lambda>(k, v). k @ lit '':'' @ v)"

definition words_after_serial :: "listed_device \<Rightarrow> ustr list" where
  "words_after_serial = (\<lambda>(serial, st, props). show_device_state st # map property_word props)"

definition lays_line :: "listed_device \<Rightarrow> ustr \<Rightarrow> bool" where
  "lays_line d l \<longleftrightarrow>
     (\<exists>pre gs post. list_all blank pre \<and> list_all blank post \<and> list_all gap gs \<and>
        length gs = length (words_after_serial d) \<and>
        l = pre @ (fst d @ concat (map2 (@) gs (words_after_serial d))) @ post)"

text \<open>The lines of a listing that are no devices: blank ones, the header, and the daemon's.\<close>

definition banner_line :: "ustr \<Rightarrow> bool" where
  "banner_line l \<longleftrightarrow>
     list_all is_whitespace l \<or>
     (\<exists>pre rest. list_all is_whitespace pre \<and>
        (l = pre @ lit ''List of devices attached'' @ rest \<or> l = pre @ lit ''*'' @ rest))"

text \<open>
  A text that lays a list of devices out, line by line; the last line may end without a line
  feed. (A carriage return before a line feed is white space around the words.)
\<close>

inductive lays_out :: "listed_device list \<Rightarrow> ustr \<Rightarrow> bool" where
  nothing: "lays_out [] []"
| last_banner: "banner_line l \<Longrightarrow> 10 \<notin> set l \<Longrightarrow> lays_out [] l"
| last_device: "lays_line d l \<Longrightarrow> lays_out [d] l"
| banner: "banner_line l \<Longrightarrow> 10 \<notin> set l \<Longrightarrow> lays_out ds s \<Longrightarrow> lays_out ds (l @ 10 # s)"
| device: "lays_line d l \<Longrightarrow> lays_out ds s \<Longrightarrow> lays_out (d # ds) (l @ 10 # s)"

definition listable :: "listed_device \<Rightarrow> bool" where
  "listable = (\<lambda>(serial, st, props).
     word serial \<and> hd serial \<noteq> of_char CHR ''*'' \<and> serial \<noteq> lit ''List'' \<and>
     word (show_device_state st) \<and> from_token (show_device_state st) = st \<and>
     list_all (\<lambda>(k, v). word k \<and> word v \<and> of_char CHR '':'' \<notin> set k) props)"

definition device_of :: "listed_device \<Rightarrow> adb_device" where
  "device_of = (\<lambda>(serial, st, props).
     \<lparr>ad_serial = serial, ad_state = st, ad_product = map_of (rev props) (lit ''product''),
      ad_model = map_of (rev props) (lit ''model''), ad_device = map_of (rev props) (lit ''device''),
      ad_transport_id =
        Option.bind (map_of (rev props) (lit ''transport_id'')) (parse_unsigned (2 ^ 32 - 1)),
      ad_properties = btree_collect props\<rparr>)"

lemma word_property: "word k \<Longrightarrow> word v \<Longrightarrow> word (property_word (k, v))"
  by (auto simp: property_word_def word_def is_whitespace_def)

lemma add_property_word:
  "word k \<Longrightarrow> word v \<Longrightarrow> of_char CHR '':'' \<notin> set k \<Longrightarrow> add_property (property_word (k, v)) m = btree_insert k v m"
  by (simp add: add_property_def property_word_def trim_word) (simp add: word_def)

lemma fold_add_property:
  "list_all (\<lambda>(k, v). word k \<and> word v \<and> of_char CHR '':'' \<notin> set k) props \<Longrightarrow>
   fold add_property (map property_word props) m = fold (\<lambda>(k, v). btree_insert k v) props m"
  by (induction props arbitrary: m) (auto simp: add_property_word)

lemma first_word_unique:
  assumes "word a" "word b" "a @ c # s = b @ d # t" "is_whitespace c" "is_whitespace d"
  shows "a = b"
proof -
  have "takeWhile (\<lambda>x. \<not> is_whitespace x) (u @ e # r) = u" if "word u" "is_whitespace e" for u e r
    using that by (simp add: word_def list_ex_iff takeWhile_append)
  with assms show ?thesis by metis
qed

lemma last_spaced_words:
  "length gs = length ws \<Longrightarrow> word w \<Longrightarrow> list_all word ws \<Longrightarrow>
   last (w @ concat (map2 (@) gs ws)) \<in> set (last (w # ws))"
proof (induction gs ws arbitrary: w rule: list_induct2)
  case Nil
  then show ?case by (simp add: word_def)
next
  case (Cons g gs v ws)
  from Cons.IH [of v] Cons.prems show ?case by (auto simp: word_def)
qed

lemma spaced_words_chars:
  "length gs = length ws \<Longrightarrow> list_all word ws \<Longrightarrow> list_all gap gs \<Longrightarrow>
   x \<in> set (concat (map2 (@) gs ws)) \<Longrightarrow> x \<noteq> 10"
proof (induction gs ws rule: list_induct2)
  case (Cons g gs v ws)
  then show ?case by (auto simp: gap_def blank_def list_all_iff word_def list_ex_iff is_whitespace_def)
qed simp

text \<open>The words of a device between the blanks around them.\<close>

lemma parse_device_words:
  assumes "listable d" "list_all gap gs" "length gs = length (words_after_serial d)"
    and "list_all blank pre" "list_all blank post"
  defines "core \<equiv> fst d @ concat (map2 (@) gs (words_after_serial d))"
  shows "parse_device_line (pre @ core @ post) = Some (device_of d)" "10 \<notin> set core"
    and "core \<noteq> []" "\<not> is_whitespace (last core)"
proof -
  obtain serial st props where d: "d = (serial, st, props)" by (cases d)
  define ws where "ws = words_after_serial d"
  have ok: "word serial" "hd serial \<noteq> 42" "serial \<noteq> lit ''List''" "word (show_device_state st)"
      "from_token (show_device_state st) = st"
      "list_all (\<lambda>(k, v). word k \<and> word v \<and> of_char CHR '':'' \<notin> set k) props"
    using assms(1) by (auto simp: listable_def d)
  have ws: "list_all word ws" "length gs = length ws"
    using ok(4,6) word_property assms(3) by (auto simp: list_all_iff ws_def words_after_serial_def d)
  have core: "core = serial @ concat (map2 (@) gs ws)" by (simp add: core_def d ws_def)
  have "last core \<in> set (last (serial # ws))"
    unfolding core by (rule last_spaced_words [OF ws(2) ok(1) ws(1)])
  moreover have "\<forall>w \<in> set (serial # ws). word w" using ok(1) ws by (simp add: list_all_iff)
  then have "word (last (serial # ws))" by (rule bspec) (rule last_in_set, simp)
  ultimately show last: "\<not> is_whitespace (last core)" by (auto simp: word_def list_ex_iff)
  have hd: "\<not> is_whitespace (hd core)" "hd core \<noteq> 42" and nonempty: "core \<noteq> []"
    using ok(1,2) by (auto simp: core word_def list_ex_iff hd_append)
  show "core \<noteq> []" by (rule nonempty)
  have trim: "trim (pre @ core @ post) = core"
    using trim_between [OF blanks_white [OF assms(4)] blanks_white [OF assms(5)] nonempty hd(1) last] .
  have words: "split_whitespace core = serial # ws"
    unfolding core using split_whitespace_words [OF ok(1) ws(1) assms(2) ws(2)] .
  have "\<not> starts_with (lit ''List of devices attached'') core"
  proof
    assume "starts_with (lit ''List of devices attached'') core"
    then obtain r where header: "core = lit ''List'' @ 32 # lit ''of devices attached'' @ r"
      by (auto simp: starts_with_iff)
    obtain g gs' where "gs = g # gs'" "gap g"
      using assms(2,3) by (cases gs) (auto simp: words_after_serial_def d)
    then obtain c t where "core = serial @ c # t" "is_whitespace c"
      by (cases g) (auto simp: core ws_def words_after_serial_def d gap_def blank_def)
    with header have same: "serial @ c # t = lit ''List'' @ 32 # lit ''of devices attached'' @ r" by simp
    have "word (lit ''List'')" by (simp add: word_def is_whitespace_def)
    from first_word_unique [OF ok(1) this same \<open>is_whitespace c\<close>] have "serial = lit ''List''"
      by (simp add: is_whitespace_def)
    with ok(3) show False by simp
  qed
  moreover have "\<not> starts_with (lit ''*'') core"
    using hd(2) nonempty by (cases core) (auto simp: starts_with_def)
  ultimately show "parse_device_line (pre @ core @ post) = Some (device_of d)"
    using trim nonempty words ok(1,4,5) trim_word fold_add_property [OF ok(6), of "[]"]
    by (simp add: parse_device_line_def Let_def device_of_def d ws_def words_after_serial_def
        btree_collect_def [symmetric] word_def [of serial] word_def [of "show_device_state st"])
  show "10 \<notin> set core"
    using spaced_words_chars [OF ws(2,1) assms(2), of 10] ok(1)
    by (auto simp: core word_def list_ex_iff is_whitespace_def)
qed

lemma strip_cr_append: "s \<noteq> [] \<Longrightarrow> strip_cr (t @ s) = t @ strip_cr s"
  by (simp add: strip_cr_def butlast_append)

lemma strip_cr_cases: "strip_cr l = l \<or> l = strip_cr l @ [13]"
  by (simp add: strip_cr_def) (metis append_butlast_last_id)

text \<open>A device's line is read as the device, with or without the carriage return at its end.\<close>

lemma parse_laid_line:
  assumes "listable d" "lays_line d l"
  shows "parse_device_line l = Some (device_of d)" "10 \<notin> set l" "lays_line d (strip_cr l)"
proof -
  from assms(2) obtain pre gs post where blanks: "list_all blank pre" "list_all blank post" "list_all gap gs"
      and len: "length gs = length (words_after_serial d)"
      and l: "l = pre @ (fst d @ concat (map2 (@) gs (words_after_serial d))) @ post"
    unfolding lays_line_def by blast
  note core = parse_device_words [OF assms(1) blanks(3) len blanks(1,2)]
  show "parse_device_line l = Some (device_of d)" using core(1) by (simp only: l)
  show "10 \<notin> set l" using core(2) blanks(1,2) by (auto simp: l list_all_iff blank_def)
  have "list_all blank (strip_cr post)" using blanks(2) by (auto simp: strip_cr_def list_all_iff dest: in_set_butlastD)
  moreover have "strip_cr l = pre @ (fst d @ concat (map2 (@) gs (words_after_serial d))) @ strip_cr post"
  proof (cases "post = []")
    case True
    with core(3,4) show ?thesis by (auto simp: l strip_cr_def is_whitespace_def)
  qed (simp add: l strip_cr_append)
  ultimately show "lays_line d (strip_cr l)" unfolding lays_line_def using blanks(1,3) len by blast
qed

text \<open>A banner line is skipped, and stays one without the carriage return at its end.\<close>

lemma trim_prefix:
  assumes "list_all is_whitespace pre" "h \<noteq> []" "\<not> is_whitespace (hd h)" "\<not> is_whitespace (last h)"
  obtains rest' where "trim (pre @ h @ rest) = h @ rest'"
proof -
  from assms(2,3) have start: "dropWhile is_whitespace (pre @ h @ rest) = h @ rest"
    using assms(1) by (cases h) (auto simp: dropWhile_append list_all_iff)
  from assms(2,4) have "rev h \<noteq> []" "\<not> is_whitespace (hd (rev h))" by (simp_all add: hd_rev)
  then have "\<exists>r. dropWhile is_whitespace (rev rest @ rev h) = r @ rev h"
    by (cases "rev h") (auto simp: dropWhile_append)
  then obtain r where "dropWhile is_whitespace (rev rest @ rev h) = r @ rev h" by blast
  with start show thesis by (intro that [of "rev r"]) (simp add: trim_def trim_start_def)
qed

lemma parse_banner:
  assumes "banner_line l"
  shows "parse_device_line l = None"
proof -
  consider "list_all is_whitespace l"
    | pre rest where "list_all is_whitespace pre" "l = pre @ lit ''List of devices attached'' @ rest"
    | pre rest where "list_all is_whitespace pre" "l = pre @ lit ''*'' @ rest"
    using assms unfolding banner_line_def by blast
  then show ?thesis
  proof cases
    case 1
    then have "trim l = []" by (auto simp: list_all_iff trim_def trim_start_def dest: set_dropWhileD)
    then show ?thesis by (simp add: parse_device_line_def)
  next
    case (2 pre rest)
    obtain r where "trim l = lit ''List of devices attached'' @ r"
      unfolding 2(2) by (rule trim_prefix [OF 2(1), of "lit ''List of devices attached''" rest]) (simp_all add: is_whitespace_def)
    then have "starts_with (lit ''List of devices attached'') (trim l)" unfolding starts_with_iff by blast
    then show ?thesis by (simp add: parse_device_line_def Let_def del: lit_simps)
  next
    case (3 pre rest)
    obtain r where "trim l = lit ''*'' @ r"
      unfolding 3(2) by (rule trim_prefix [OF 3(1), of "lit ''*''" rest]) (simp_all add: is_whitespace_def)
    then have "starts_with (lit ''*'') (trim l)" unfolding starts_with_iff by blast
    then show ?thesis by (simp add: parse_device_line_def Let_def del: lit_simps)
  qed
qed

lemma banner_strip_cr:
  assumes "banner_line l"
  shows "banner_line (strip_cr l)"
proof -
  have keep: "\<exists>rest'. strip_cr (pre @ h @ rest) = pre @ h @ rest'" if "h \<noteq> []" "last h \<noteq> 13" for pre h rest :: ustr
  proof (cases "rest = []")
    case True
    with that show ?thesis by (intro exI [of _ "[]"]) (simp add: strip_cr_def)
  next
    case False
    then show ?thesis using strip_cr_append [of rest "pre @ h"] by (intro exI [of _ "strip_cr rest"]) simp
  qed
  consider "list_all is_whitespace l"
    | pre rest where "list_all is_whitespace pre" "l = pre @ lit ''List of devices attached'' @ rest"
    | pre rest where "list_all is_whitespace pre" "l = pre @ lit ''*'' @ rest"
    using assms unfolding banner_line_def by blast
  then show ?thesis
  proof cases
    case 1
    then show ?thesis by (auto simp: banner_line_def strip_cr_def list_all_iff dest: in_set_butlastD)
  next
    case (2 pre rest)
    have "lit ''List of devices attached'' \<noteq> []" "last (lit ''List of devices attached'') \<noteq> 13" by simp_all
    from keep [OF this, of pre rest] show ?thesis unfolding banner_line_def 2(2) using 2(1) by blast
  next
    case (3 pre rest)
    have "lit ''*'' \<noteq> []" "last (lit ''*'') \<noteq> 13" by simp_all
    from keep [OF this, of pre rest] show ?thesis unfolding banner_line_def 3(2) using 3(1) by blast
  qed
qed

lemma lines_last: "10 \<notin> set l \<Longrightarrow> lines l = (if l = [] then [] else [l])"
  by (simp add: lines_def split_by_plain list_ex_iff Let_def)

lemma laid_out_parsed:
  assumes "lays_out ds s" "list_all listable ds"
  shows "parse_devices_output s = map device_of ds"
  using assms
proof (induction rule: lays_out.induct)
  case nothing
  then show ?case by (simp add: parse_devices_output_def map_filter_simps)
next
  case (last_banner l)
  then show ?case by (simp add: parse_devices_output_def lines_last parse_banner map_filter_simps)
next
  case (last_device d l)
  then show ?case
    using parse_laid_line(1,2) [of d l]
    by (auto simp: parse_devices_output_def lines_last map_filter_simps parse_device_line_def trim_def trim_start_def)
next
  case (banner l ds s)
  then show ?case
    using parse_banner [OF banner_strip_cr [of l]]
    by (simp add: parse_devices_output_def lines_line map_filter_simps)
next
  case (device d l ds s)
  then have d: "listable d" "list_all listable ds" by simp_all
  note line = parse_laid_line [OF d(1) device(1)]
  from device(3) [OF d(2)] line(2) parse_laid_line(1) [OF d(1) line(3)] show ?case
    by (simp add: parse_devices_output_def lines_line map_filter_simps)
qed

section \<open>Tunnels\<close>

lemma and_next_Ok:
  "and_next m f = (Ok y, s') \<longleftrightarrow> (\<exists>x s. m = (Ok x, s) \<and> f x s = (Ok y, s'))"
  by (auto simp: and_next_def split: prod.splits result.splits)

lemma find_append_split:
  "\<forall>e \<in> set pre. \<not> P e \<Longrightarrow> P d \<Longrightarrow> List.find P (pre @ d # post) = Some d"
  by (induction pre) auto

lemma select_target_Ok:
  "select_target serial devices = Ok target \<longleftrightarrow>
     (case blank_to_none serial of
        Some r \<Rightarrow> target = r \<and>
          (\<exists>pre d post. devices = pre @ d # post \<and> ad_serial d = r \<and> is_ready d \<and>
             (\<forall>e \<in> set pre. ad_serial e \<noteq> r))
      | None \<Rightarrow> \<exists>d. filter is_ready devices = [d] \<and> target = ad_serial d)"
proof (cases "blank_to_none serial")
  case None
  then show ?thesis
    by (auto simp: select_target_def Let_def split: list.splits if_splits)
next
  case (Some r)
  note requested = this
  show ?thesis
  proof (cases "List.find (\<lambda>d. ad_serial d = r) devices")
    case None
    then have none: "\<forall>d \<in> set devices. ad_serial d \<noteq> r" by (simp add: find_None_iff)
    have "select_target serial devices \<noteq> Ok target" by (simp add: select_target_def requested None)
    with none requested show ?thesis by auto
  next
    case (Some d)
    then obtain i where i: "i < length devices" "ad_serial (devices ! i) = r" "d = devices ! i"
        "\<forall>j < i. ad_serial (devices ! j) \<noteq> r"
      by (auto simp: find_Some_iff)
    have first: "d' = d" if "devices = pre @ d' # post" "ad_serial d' = r" "\<forall>e \<in> set pre. ad_serial e \<noteq> r"
      for pre d' post
      using Some that by (auto simp: find_append_split)
    have "devices = take i devices @ d # drop (Suc i) devices" using i by (simp add: id_take_nth_drop)
    moreover have "\<forall>e \<in> set (take i devices). ad_serial e \<noteq> r" using i by (auto simp: in_set_conv_nth)
    ultimately have split: "\<exists>pre post. devices = pre @ d # post \<and> (\<forall>e \<in> set pre. ad_serial e \<noteq> r)"
      by blast
    have "select_target serial devices = Ok target \<longleftrightarrow> is_ready d \<and> target = r"
      using i(1) by (auto simp: select_target_def requested Some)
    moreover have "(\<exists>pre d post. devices = pre @ d # post \<and> ad_serial d = r \<and> is_ready d \<and>
        (\<forall>e \<in> set pre. ad_serial e \<noteq> r)) \<longleftrightarrow> is_ready d"
      (is "?ex \<longleftrightarrow> _")
    proof
      assume ?ex
      with first show "is_ready d" by metis
    next
      assume "is_ready d"
      with split i(2,3) show ?ex by metis
    qed
    ultimately show ?thesis using requested by auto
  qed
qed

section \<open>Monitor events\<close>

type_synonym observer = "ustr \<Rightarrow> adb_device_state option"

definition states :: "(ustr \<times> adb_device) list \<Rightarrow> observer" where
  "states m = (\<lambda>k. map_option ad_state (map_of m k))"

definition observe :: "adb_device_event \<Rightarrow> observer \<Rightarrow> observer" where
  "observe e m = m(ev_serial e := ev_current e)"

definition kind_of_change :: "adb_device_state option \<Rightarrow> adb_device_state option \<Rightarrow> adb_device_event_kind" where
  "kind_of_change before after =
     (if before = None then DeviceConnected else if after = None then DeviceDisconnected
      else DeviceStateChanged)"

text \<open>Each event tells the state before it truly, and a change of it.\<close>

primrec explains :: "adb_device_event list \<Rightarrow> observer \<Rightarrow> bool" where
  "explains [] m \<longleftrightarrow> True"
| "explains (e # es) m \<longleftrightarrow>
     ev_previous e = m (ev_serial e) \<and> ev_current e \<noteq> ev_previous e \<and>
     ev_kind e = kind_of_change (ev_previous e) (ev_current e) \<and> explains es (observe e m)"

lemma explains_append: "explains (es @ fs) m \<longleftrightarrow> explains es m \<and> explains fs (fold observe es m)"
  by (induction es arbitrary: m) auto

lemma explains_take: "explains es m \<Longrightarrow> explains (take n es) m"
  by (metis append_take_drop_id explains_append)

lemma current_events_explain:
  assumes "distinct (map fst xs)" "\<And>k. k \<in> fst ` set xs \<Longrightarrow> m k = states previous k"
  shows "explains (concat (map (current_event previous) xs)) m \<and>
    fold observe (concat (map (current_event previous) xs)) m =
      (\<lambda>k. if k \<in> fst ` set xs then states xs k else m k)"
  using assms
proof (induction xs arbitrary: m)
  case (Cons x xs)
  obtain k d where x: "x = (k, d)" by fastforce
  let ?m = "fold observe (current_event previous (k, d)) m"
  have m': "?m = m(k := Some (ad_state d))" and ex: "explains (current_event previous (k, d)) m"
    using Cons.prems(2) [of k] x
    by (auto simp: current_event_def observe_def states_def kind_of_change_def fun_eq_iff split: option.splits)
  have "explains (concat (map (current_event previous) xs)) ?m \<and>
    fold observe (concat (map (current_event previous) xs)) ?m =
      (\<lambda>k. if k \<in> fst ` set xs then states xs k else ?m k)"
    using Cons.prems x by (intro Cons.IH) (auto simp: m')
  with ex m' x Cons.prems(1) show ?case
    by (auto simp: explains_append states_def fun_eq_iff)
qed simp

lemma vanished_events_explain:
  assumes "distinct (map fst xs)" "\<And>k. k \<in> fst ` set xs \<Longrightarrow> map_of current k = None \<Longrightarrow> m k = states xs k"
  shows "explains (concat (map (vanished_event current) xs)) m \<and>
    fold observe (concat (map (vanished_event current) xs)) m =
      (\<lambda>k. if k \<in> fst ` set xs \<and> map_of current k = None then None else m k)"
  using assms
proof (induction xs arbitrary: m)
  case (Cons x xs)
  obtain k p where x: "x = (k, p)" by fastforce
  let ?m = "fold observe (vanished_event current (k, p)) m"
  have m': "?m = (if map_of current k = None then m(k := None) else m)"
    and ex: "explains (vanished_event current (k, p)) m"
    using Cons.prems(2) [of k] x
    by (auto simp: vanished_event_def observe_def states_def kind_of_change_def)
  have "explains (concat (map (vanished_event current) xs)) ?m \<and>
    fold observe (concat (map (vanished_event current) xs)) ?m =
      (\<lambda>k. if k \<in> fst ` set xs \<and> map_of current k = None then None else ?m k)"
  proof (intro Cons.IH)
    fix j
    assume j: "j \<in> fst ` set xs" "map_of current j = None"
    with Cons.prems(1) x have "j \<noteq> k" by auto
    with Cons.prems(2) [of j] j x show "?m j = states xs j" by (auto simp: m' states_def)
  qed (use Cons.prems(1) in simp)
  with ex m' x show ?case by (auto simp: explains_append fun_eq_iff)
qed simp

lemma poll_events_explain:
  assumes "btree_ok previous" "btree_ok current"
  shows "explains (poll_events previous current) (states previous) \<and>
    fold observe (poll_events previous current) (states previous) = states current"
proof -
  note cur = current_events_explain [OF btree_distinct [OF assms(2)], of "states previous" previous]
  let ?m = "\<lambda>k. if k \<in> fst ` set current then states current k else states previous k"
  have "explains (concat (map (vanished_event current) previous)) ?m \<and>
    fold observe (concat (map (vanished_event current) previous)) ?m =
      (\<lambda>k. if k \<in> fst ` set previous \<and> map_of current k = None then None else ?m k)"
    by (rule vanished_events_explain [OF btree_distinct [OF assms(1)]]) (auto simp: map_of_eq_None_iff)
  moreover have "(\<lambda>k. if k \<in> fst ` set previous \<and> map_of current k = None then None else ?m k) = states current"
    by (auto simp: fun_eq_iff states_def map_of_eq_None_iff) (metis image_eqI map_of_SomeD fst_conv not_None_eq)
  ultimately show ?thesis using cur by (simp add: poll_events_def explains_append)
qed

lemma monitor_loop_explains:
  assumes "btree_ok previous" "monitor_loop polls room previous = (evs, result)"
  shows "explains evs (states previous) \<and> length evs \<le> room \<and>
    (case result of None \<Rightarrow> length evs = room | Some m \<Rightarrow> btree_ok m \<and> fold observe evs (states previous) = states m)"
  using assms
proof (induction polls room previous arbitrary: evs rule: monitor_loop.induct)
  case (2 poll polls room previous)
  let ?next = "case poll of Ok ds \<Rightarrow> Some ds | Err AdbNoDevices \<Rightarrow> Some [] | _ \<Rightarrow> None"
  show ?case
  proof (cases ?next)
    case None
    with 2 show ?thesis by (simp del: explains.simps)
  next
    case (Some ds)
    let ?es = "poll_events previous (device_map ds)"
    have ok: "btree_ok (device_map ds)" by (simp add: device_map_def)
    note es = poll_events_explain [OF 2(3) ok]
    show ?thesis
    proof (cases "length ?es \<le> room")
      case True
      obtain more fin where more: "monitor_loop polls (room - length ?es) (device_map ds) = (more, fin)"
        by (cases "monitor_loop polls (room - length ?es) (device_map ds)") auto
      with 2(4) Some True have out: "evs = ?es @ more" "result = fin" by (simp_all add: Let_def)
      from 2(2) [OF Some refl refl True ok] more out(2)
      have ih: "explains more (states (device_map ds)) \<and> length more \<le> room - length ?es \<and>
          (case result of None \<Rightarrow> length more = room - length ?es
           | Some m \<Rightarrow> btree_ok m \<and> fold observe more (states (device_map ds)) = states m)" by simp
      with es out(1) True show ?thesis by (auto simp: explains_append split: option.splits)
    next
      case False
      with 2(4) Some es explains_take show ?thesis by (auto simp: Let_def)
    qed
  qed
qed auto

section \<open>Properties\<close>

text \<open>
  C37. A device list is read back exactly however it is laid out: from every text whose lines are
  the devices' lines (the words of a device with any white space between and around them,
  spaces, tabs and carriage returns among it) and, anywhere between, before or after them,
  blank lines, headers and messages of the daemon, one device is read for each device's line,
  in order, with its serial, its state, all its properties, and the fields taken from them.
  The words are without white space, property names without a colon, a serial does not start
  with a star and is not the word \<open>List\<close>.
\<close>

theorem device_list_round_trip:
  assumes "list_all listable ds" "lays_out ds listing"
  shows "parse_devices_output listing = map device_of ds"
  using assms(2,1) by (rule laid_out_parsed)

definition sample_device :: listed_device where
  "sample_device =
     (lit ''ABC1'', Device, [(lit ''product'', lit ''p:1''), (lit ''transport_id'', lit ''3'')])"

definition other_device :: listed_device where
  "other_device = (lit ''XYZ2'', Unauthorized, [(lit ''usb'', lit ''1'')])"

lemma sample_listable: "list_all listable [sample_device, other_device]"
  by (simp add: listable_def sample_device_def other_device_def word_def is_whitespace_def from_token_def Let_def
      lowercase_def to_ascii_lowercase_def is_ascii_uppercase_def trim_def trim_start_def)

text \<open>A listing with the daemon's message, padding, a tab, carriage returns and a blank line at the end.\<close>

definition sample_line :: ustr where
  "sample_line = lit ''ABC1    device product:p:1 transport_id:3'' @ [13]"

definition other_line :: ustr where
  "other_line = lit ''XYZ2'' @ [9] @ lit ''unauthorized usb:1'' @ [13]"

definition sample_listing :: ustr where
  "sample_listing =
     lit ''* daemon started successfully'' @ 10 # lit ''List of devices attached'' @ 10 # sample_line @ 10 #
     other_line @ 10 # []"

lemma sample_lines: "lays_line sample_device sample_line" "lays_line other_device other_line"
proof -
  show "lays_line sample_device sample_line"
    unfolding lays_line_def
    by (rule exI [of _ "[]"], rule exI [of _ "[[32, 32, 32, 32], [32], [32]]"], rule exI [of _ "[13]"])
      (simp add: sample_device_def sample_line_def words_after_serial_def property_word_def gap_def blank_def
        is_whitespace_def)
  show "lays_line other_device other_line"
    unfolding lays_line_def
    by (rule exI [of _ "[]"], rule exI [of _ "[[9], [32]]"], rule exI [of _ "[13]"])
      (simp add: other_device_def other_line_def words_after_serial_def property_word_def gap_def blank_def
        is_whitespace_def)
qed

lemma sample_laid_out: "lays_out [sample_device, other_device] sample_listing"
proof -
  have banner: "banner_line (lit ''* daemon started successfully'')" "banner_line (lit ''List of devices attached'')"
    unfolding banner_line_def
    by (rule disjI2, rule exI [of _ "[]"], rule exI [of _ "lit '' daemon started successfully''"], simp)
      (rule disjI2, rule exI [of _ "[]"], rule exI [of _ "[]"], simp)
  show ?thesis
    unfolding sample_listing_def
    by (intro lays_out.intros banner sample_lines) simp_all
qed

theorem device_list_round_trip_witness:
  "\<exists>d e. parse_devices_output sample_listing = [d, e] \<and> ad_serial d = lit ''ABC1'' \<and>
     ad_product d = Some (lit ''p:1'') \<and> ad_transport_id d = Some 3 \<and> ad_state e = Unauthorized"
  using device_list_round_trip [OF sample_listable sample_laid_out]
  by (simp add: sample_device_def other_device_def device_of_def parse_unsigned_def is_ascii_digit_def dec_value_def)

text \<open>
  C38. A tunnel is only ever opened to a device that the listing showed ready: when \<open>reverse\<close> succeeds,
  both ports were valid, the target was chosen from a listing taken during the call, where it
  is ready, and the last program run was the reverse command for that target, which succeeded.
\<close>

theorem reverse_targets_a_ready_device:
  assumes "adb_reverse h device_port host_port serial s = (Ok target, s')"
  shows "device_port \<noteq> 0 \<and> host_port \<noteq> 0 \<and>
    (\<exists>s1 s2 devices stdout. list_devices_raw h s1 = (Ok devices, s2) \<and>
       (\<exists>d \<in> set devices. ad_serial d = target \<and> ad_state d = Device) \<and>
       (case blank_to_none serial of Some r \<Rightarrow> target = r
        | None \<Rightarrow> length (filter is_ready devices) = 1) \<and>
       run_success h [lit ''-s'', target, lit ''reverse'', tcp_arg device_port, tcp_arg host_port] s2 =
         (Ok stdout, s'))"
proof -
  from assms have ports: "device_port \<noteq> 0" "host_port \<noteq> 0"
    by (auto simp: adb_reverse_def split: if_splits)
  with assms obtain s1 s2 devices stdout where call: "list_devices_raw h s1 = (Ok devices, s2)"
      "select_target serial devices = Ok target"
      "run_success h [lit ''-s'', target, lit ''reverse'', tcp_arg device_port, tcp_arg host_port] s2 =
         (Ok stdout, s')"
    by (auto simp: adb_reverse_def resolve_target_serial_def and_next_Ok simp del: lit_simps)
  from call(2) have "(\<exists>d \<in> set devices. ad_serial d = target \<and> ad_state d = Device) \<and>
      (case blank_to_none serial of Some r \<Rightarrow> target = r
       | None \<Rightarrow> length (filter is_ready devices) = 1)"
  proof (cases "blank_to_none serial")
    case None
    with call(2) obtain d where d: "filter is_ready devices = [d]" "target = ad_serial d"
      by (auto simp: select_target_Ok)
    have "d \<in> set (filter is_ready devices)" unfolding d(1) by simp
    then have "d \<in> set devices" "is_ready d" by simp_all
    with None d show ?thesis by (auto simp: is_ready_def)
  next
    case (Some r)
    with call(2) show ?thesis by (auto simp: select_target_Ok is_ready_def)
  qed
  with ports call show ?thesis by blast
qed

definition sample_host :: "unit adb_host" where
  "sample_host = \<lparr>on_windows = False, env_path = (\<lambda>_. None), current_exe = None, path_exists = (\<lambda>_. False),
     run_program = (\<lambda>p args w. (Inr \<lparr>out_success = True, out_code = Some 0,
       out_stdout = (if args = [lit ''devices'', lit ''-l''] then map of_nat (sample_listing) else []),
       out_stderr = []\<rparr>, w)),
     path_text = (\<lambda>p. join (lit ''/'') (components p)), utf8_error_text = (\<lambda>_. [])\<rparr>"

definition sample_manager :: "unit adb_manager" where
  "sample_manager = \<lparr>resolved_adb_path = Some (Path False [lit ''adb'']), adb_world = ()\<rparr>"

lemma ascii_bytes:
  assumes "list_all (\<lambda>c. c < 128) s"
  shows "list_all (\<lambda>b. unat b < 0x80) (map of_nat s :: u8 list)" "map unat (map of_nat s :: u8 list) = s"
proof -
  have "unat (of_nat c :: u8) = c" if "c \<in> set s" for c
    using that assms by (fastforce simp: list_all_iff unat_of_nat take_bit_eq_mod)
  with assms show "list_all (\<lambda>b. unat b < 0x80) (map of_nat s :: u8 list)"
      "map unat (map of_nat s :: u8 list) = s"
    by (simp_all add: list_all_iff o_def map_idI)
qed

lemma sample_listing_ascii: "list_all (\<lambda>c. c < 128) (sample_listing)"
  by (simp add: sample_listing_def sample_line_def other_line_def)

lemma sample_run:
  "run_success sample_host args sample_manager =
     (Ok (if args = [lit ''devices'', lit ''-l''] then sample_listing else []), sample_manager)"
proof -
  have "utf8_decode (map of_nat (sample_listing)) = Some (sample_listing)"
    using utf8_decode_ascii [OF ascii_bytes(1) [OF sample_listing_ascii]]
      ascii_bytes(2) [OF sample_listing_ascii]
    by (simp only:)
  then show ?thesis
    by (simp add: run_success_def utf8_text_def resolve_adb_path_def sample_manager_def sample_host_def and_next_def
        del: lit_simps)
qed

lemma sample_devices:
  "list_devices_raw sample_host sample_manager = (Ok [device_of sample_device, device_of other_device], sample_manager)"
  using laid_out_parsed [OF sample_laid_out sample_listable]
  by (simp add: list_devices_raw_def ensure_server_started_def sample_run and_next_def del: lit_simps)

lemma sample_select: "select_target None [device_of sample_device, device_of other_device] = Ok (lit ''ABC1'')"
  by (simp add: select_target_def blank_to_none_def is_ready_def device_of_def sample_device_def other_device_def
      del: lit_simps)

lemma sample_reverse:
  "adb_reverse sample_host 7878 7878 None sample_manager = (Ok (lit ''ABC1''), sample_manager)"
  by (simp add: adb_reverse_def resolve_target_serial_def sample_devices sample_select
      ensure_server_started_def sample_run and_next_def del: lit_simps)

theorem reverse_targets_a_ready_device_witness:
  "\<exists>s1 s2 devices. list_devices_raw sample_host s1 = (Ok devices, s2) \<and>
     (\<exists>d \<in> set devices. ad_serial d = lit ''ABC1'' \<and> ad_state d = Device)"
  using reverse_targets_a_ready_device [OF sample_reverse] by blast

text \<open>
  C39. The monitor's events, replayed by an observer who starts with nothing, are at every moment a
  true account of the devices: each event names the state the observer holds and a change of
  it, and while the task runs the observer holds exactly the states of the last listing. If
  the receiver is dropped, the task ends at the first event that is no longer taken.
\<close>

theorem monitor_events_explain_the_devices:
  assumes "monitor_loop polls room [] = (evs, result)"
  shows "explains evs Map.empty \<and>
    (case result of Some m \<Rightarrow> fold observe evs Map.empty = states m | None \<Rightarrow> length evs = room)"
proof -
  have "states [] = Map.empty" by (simp add: states_def fun_eq_iff)
  with monitor_loop_explains [OF _ assms] show ?thesis by (auto split: option.splits)
qed

theorem monitor_events_explain_the_devices_witness:
  "explains (fst (monitor_loop [Ok [device_of sample_device], Err (AdbIo []), Err AdbNoDevices] 5 [])) Map.empty"
proof -
  obtain evs result where run:
      "monitor_loop [Ok [device_of sample_device], Err (AdbIo []), Err AdbNoDevices] 5 [] = (evs, result)"
    by (metis prod.collapse)
  from monitor_events_explain_the_devices [OF this] run show ?thesis by simp
qed

end
