(* ===== verification/Pipeline_Manager.thy ===== *)
theory Pipeline_Manager
  imports Stream_Actor Adb Discovery
begin

text \<open>
  The pipeline manager of \<open>rust/phonecam-desktop/src-tauri/src/pipeline.rs\<close>: \<open>PipelineManager\<close>,
  its runtime, and the task \<open>run_pipeline\<close> it spawns, whose streaming phase is the actor of
  \<open>Stream_Actor\<close>.

  The methods are called by concurrent commands of the user interface and tasks run beside
  them, so methods and tasks are cut at their waits, and a step is what runs between two of
  them. The runtime, the connection sender and the command sender are behind three locks of
  their own: \<open>stop\<close> takes the handles, waits for the worker, clears the one sender, then the
  other, removes the tunnel and publishes the status in separate steps, and the task clears
  and sets the two senders one after the other. \<open>configure_stream\<close> clones the command sender,
  submits its command and waits for the reply. A turn of the actor whose body waits (for room
  in the connection's queue, or for the decoder to be reset) is begun by one step and ended
  by another, which may never come; so is the opening of a connection. A spawned task is its
  position in the list of all tasks spawned so far; a sender or a join handle is the number
  of the task at the other end.
\<close>

section \<open>State\<close>

definition DEFAULT_LISTEN_PORT :: u16 where
  "DEFAULT_LISTEN_PORT = 7878"

definition DEFAULT_DEVICE_NAME :: ustr where
  "DEFAULT_DEVICE_NAME = lit ''PhoneCam Desktop''"

definition PIPELINE_COMMAND_CAPACITY :: nat where
  "PIPELINE_COMMAND_CAPACITY = 8"

text \<open>The messages of \<open>PipelineStatus::error\<close> are told apart by constructors.\<close>

datatype pipeline_error =
    OutputOpenFailed output_error
  | MandatoryProfileRejected
  | AdvertisementFailed discovery_error
  | BindFailed u16 transport_error
  | AcceptFailed transport_error
  | StreamFailed stream_error

record full_status = pipeline_status +
  ps_last_error :: "pipeline_error option"

definition status_disconnected :: full_status where
  "status_disconnected =
     \<lparr>ps_connected = False, ps_state = Disconnected_Status, ps_supported_profiles = [],
      ps_active_profile = None, ps_output_format = None, ps_last_error = None\<rparr>"

definition status_listening :: full_status where
  "status_listening = status_disconnected\<lparr>ps_state := Listening\<rparr>"

definition status_error :: "pipeline_error \<Rightarrow> full_status" where
  "status_error e =
     \<lparr>ps_connected = False, ps_state = ErrorStatus, ps_supported_profiles = [],
      ps_active_profile = None, ps_output_format = None, ps_last_error = Some e\<rparr>"

text \<open>The actor's statuses carry no error.\<close>

definition full_status_of :: "pipeline_status \<Rightarrow> full_status" where
  "full_status_of st = pipeline_status.extend st (full_status.fields None)"

record usb_forward_session =
  uf_serial :: ustr
  uf_local_port :: u16

datatype start_mode = WifiMode | UsbMode "ustr option"

text \<open>
  Where a task of \<open>run_pipeline\<close> stands: before it clears the connection sender, between that
  and clearing the command sender, before \<open>OutputDevice::open\<close>, in the \<open>select!\<close> with
  \<open>accept\<close>, with a connection and its channels, with the connection sender set, with both set
  and in the part of \<open>stream_connection\<close> before its loop, at the \<open>select!\<close> of that loop, in the
  body of the branch taken for an input, after \<open>stream_connection\<close> with both senders still to
  be cleared, with the command sender still to be cleared, returned, or panicked.
\<close>

datatype ('l, 'm, 'w) task_phase =
    Setup
  | ConnectionForgotten
  | SendersForgotten
  | Accepting "('l, 'm, 'w) output_device" "stream_profile list"
  | Accepted "('l, 'm, 'w) output_device" "stream_profile list" handshake
  | ConnectionOffered "('l, 'm, 'w) output_device" "stream_profile list" handshake
  | Opening "('l, 'm, 'w) output_device" "stream_profile list" handshake
  | Looping "('l, 'm, 'w) stream_actor"
  | Turning actor_input "('l, 'm, 'w) stream_actor"
  | Ending
  | ConnectionWithdrawn
  | Finished
  | Crashed

record ('l, 'm, 'w) task =
  t_port :: u16
  t_shutdown :: bool
  t_phase :: "('l, 'm, 'w) task_phase"
  t_commands :: "pipeline_command list"
  t_sent :: "message list"

definition spawned :: "u16 \<Rightarrow> ('l, 'm, 'w) task" where
  "spawned port =
     \<lparr>t_port = port, t_shutdown = False, t_phase = Setup, t_commands = [], t_sent = []\<rparr>"

datatype stop_error = JoinFailed

text \<open>
  A call of \<open>stop\<close>: waiting for the worker, with the worker joined, with the connection sender
  cleared, with the command sender cleared too, with the tunnel removed, returned.
\<close>

datatype stop_call =
    Joining "nat option" "usb_forward_session option"
  | Joined "usb_forward_session option"
  | ConnectionCleared "usb_forward_session option"
  | SendersCleared "usb_forward_session option"
  | Released
  | Stopped "(unit, stop_error) result"

text \<open>
  A call of \<open>configure_stream\<close> that holds the lock: with the command and the cloned sender of a
  task, or waiting for the reply of that task.
\<close>

datatype configure_call =
    Submitting pipeline_command nat
  | Awaiting reply_token nat

record ('a, 'l, 'm, 'w) manager =
  pm_status :: full_status
  pm_shutdown_tx :: "nat option"
  pm_worker :: "nat option"
  pm_connection_sender :: "nat option"
  pm_command_sender :: "nat option"
  pm_usb_forward :: "usb_forward_session option"
  pm_adb :: "'a adb_manager"
  pm_tasks :: "('l, 'm, 'w) task list"
  pm_stops :: "stop_call list"
  pm_configuring :: "configure_call option"
  pm_next_token :: reply_token
  pm_replies :: "(reply_token \<times> reply) list"

definition manager_new :: "'a adb_manager \<Rightarrow> ('a, 'l, 'm, 'w) manager" where
  "manager_new adb =
     \<lparr>pm_status = status_disconnected, pm_shutdown_tx = None, pm_worker = None,
      pm_connection_sender = None, pm_command_sender = None, pm_usb_forward = None, pm_adb = adb,
      pm_tasks = [], pm_stops = [], pm_configuring = None, pm_next_token = 0, pm_replies = []\<rparr>"

definition phase_of :: "('a, 'l, 'm, 'w) manager \<Rightarrow> nat \<Rightarrow> ('l, 'm, 'w) task_phase" where
  "phase_of m i = (if i < length (pm_tasks m) then t_phase (pm_tasks m ! i) else Finished)"

definition update_task ::
  "nat \<Rightarrow> (('l, 'm, 'w) task \<Rightarrow> ('l, 'm, 'w) task) \<Rightarrow> ('a, 'l, 'm, 'w) manager \<Rightarrow> ('a, 'l, 'm, 'w) manager" where
  "update_task i f m = m\<lparr>pm_tasks := (pm_tasks m)[i := f (pm_tasks m ! i)]\<rparr>"

definition set_phase ::
  "nat \<Rightarrow> ('l, 'm, 'w) task_phase \<Rightarrow> ('a, 'l, 'm, 'w) manager \<Rightarrow> ('a, 'l, 'm, 'w) manager" where
  "set_phase i ph m = update_task i (\<lambda>t. t\<lparr>t_phase := ph\<rparr>) m"

text \<open>
  \<open>JoinHandle::is_finished\<close>, whether the receiver of a task's commands is alive (until
  \<open>stream_connection\<close> returns), and whether its connection is (until \<open>run_pipeline\<close> returns).
\<close>

definition is_finished :: "('l, 'm, 'w) task_phase \<Rightarrow> bool" where
  "is_finished ph \<longleftrightarrow> (case ph of Finished \<Rightarrow> True | Crashed \<Rightarrow> True | _ \<Rightarrow> False)"

definition is_streaming :: "('l, 'm, 'w) task_phase \<Rightarrow> bool" where
  "is_streaming ph \<longleftrightarrow>
     (case ph of
        Accepted d ps h \<Rightarrow> True
      | ConnectionOffered d ps h \<Rightarrow> True
      | Opening d ps h \<Rightarrow> True
      | Looping s \<Rightarrow> True
      | Turning inp s \<Rightarrow> True
      | _ \<Rightarrow> False)"

definition is_connected :: "('l, 'm, 'w) task_phase \<Rightarrow> bool" where
  "is_connected ph \<longleftrightarrow>
     is_streaming ph \<or> (case ph of Ending \<Rightarrow> True | ConnectionWithdrawn \<Rightarrow> True | _ \<Rightarrow> False)"

section \<open>Starting\<close>

datatype start_error = ReverseFailed adb_error

definition open_tunnel ::
  "'a adb_host \<Rightarrow> u16 \<Rightarrow> start_mode \<Rightarrow> 'a adb_manager \<Rightarrow>
   (usb_forward_session option, start_error) result \<times> 'a adb_manager" where
  "open_tunnel h listen_port mode adb =
     (case mode of
        WifiMode \<Rightarrow> (Ok None, adb)
      | UsbMode serial \<Rightarrow>
          and_next (apfst (map_err ReverseFailed) (adb_reverse h listen_port listen_port serial adb))
            (\<lambda>selected adb. (Ok (Some \<lparr>uf_serial = selected, uf_local_port = listen_port\<rparr>), adb)))"

definition spawn_worker ::
  "'a adb_host \<Rightarrow> u16 \<Rightarrow> start_mode \<Rightarrow> ('a, 'l, 'm, 'w) manager \<Rightarrow>
   (unit, start_error) result \<times> ('a, 'l, 'm, 'w) manager" where
  "spawn_worker h listen_port mode m =
     (let n = length (pm_tasks m) in
      case open_tunnel h listen_port mode (pm_adb m) of
        (Ok forward, adb) \<Rightarrow>
          (Ok (), m\<lparr>pm_adb := adb, pm_usb_forward := forward, pm_shutdown_tx := Some n,
                    pm_worker := Some n, pm_tasks := pm_tasks m @ [spawned listen_port]\<rparr>)
      | (Err e, adb) \<Rightarrow> (Err e, m\<lparr>pm_adb := adb\<rparr>)
      | (Panic, adb) \<Rightarrow> (Panic, m\<lparr>pm_adb := adb\<rparr>))"

definition start_with_mode ::
  "'a adb_host \<Rightarrow> u16 \<Rightarrow> start_mode \<Rightarrow> ('a, 'l, 'm, 'w) manager \<Rightarrow>
   (unit, start_error) result \<times> ('a, 'l, 'm, 'w) manager" where
  "start_with_mode h port mode m =
     (let listen_port = (if port = 0 then DEFAULT_LISTEN_PORT else port) in
      case pm_worker m of
        Some i \<Rightarrow>
          if is_finished (phase_of m i)
          then spawn_worker h listen_port mode (m\<lparr>pm_worker := None, pm_shutdown_tx := None\<rparr>)
          else (Ok (), m)
      | None \<Rightarrow> spawn_worker h listen_port mode m)"

section \<open>Stopping\<close>

text \<open>Taking the handles under the lock and raising the shutdown flag.\<close>

definition stop_begin :: "('a, 'l, 'm, 'w) manager \<Rightarrow> ('a, 'l, 'm, 'w) manager" where
  "stop_begin m =
     (let m' = m\<lparr>pm_shutdown_tx := None, pm_worker := None, pm_usb_forward := None,
                 pm_stops := pm_stops m @ [Joining (pm_worker m) (pm_usb_forward m)]\<rparr>
      in case pm_shutdown_tx m of
           Some i \<Rightarrow> update_task i (\<lambda>t. t\<lparr>t_shutdown := True\<rparr>) m'
         | None \<Rightarrow> m')"

definition close_tunnel :: "'a adb_host \<Rightarrow> usb_forward_session option \<Rightarrow> 'a adb_manager \<Rightarrow> 'a adb_manager" where
  "close_tunnel h forward adb =
     (case forward of
        Some u \<Rightarrow> snd (kill_reverse h (uf_local_port u) (Some (uf_serial u)) adb)
      | None \<Rightarrow> adb)"

text \<open>The join: an error of the worker returns at once, without the cleanup.\<close>

definition stop_joined :: "nat \<Rightarrow> ('a, 'l, 'm, 'w) manager \<Rightarrow> ('a, 'l, 'm, 'w) manager option" where
  "stop_joined k m =
     (if k < length (pm_stops m) then
        (case pm_stops m ! k of
           Joining w forward \<Rightarrow>
             (case w of
                None \<Rightarrow> Some (m\<lparr>pm_stops := (pm_stops m)[k := Joined forward]\<rparr>)
              | Some i \<Rightarrow>
                  (case phase_of m i of
                     Finished \<Rightarrow> Some (m\<lparr>pm_stops := (pm_stops m)[k := Joined forward]\<rparr>)
                   | Crashed \<Rightarrow> Some (m\<lparr>pm_stops := (pm_stops m)[k := Stopped (Err JoinFailed)]\<rparr>)
                   | _ \<Rightarrow> None))
         | _ \<Rightarrow> None)
      else None)"

text \<open>The cleanup, one lock at a time.\<close>

definition stop_cleans ::
  "'a adb_host \<Rightarrow> nat \<Rightarrow> ('a, 'l, 'm, 'w) manager \<Rightarrow> ('a, 'l, 'm, 'w) manager option" where
  "stop_cleans h k m =
     (if k < length (pm_stops m) then
        (case pm_stops m ! k of
           Joined forward \<Rightarrow>
             Some (m\<lparr>pm_connection_sender := None, pm_stops := (pm_stops m)[k := ConnectionCleared forward]\<rparr>)
         | ConnectionCleared forward \<Rightarrow>
             Some (m\<lparr>pm_command_sender := None, pm_stops := (pm_stops m)[k := SendersCleared forward]\<rparr>)
         | SendersCleared forward \<Rightarrow>
             Some (m\<lparr>pm_adb := close_tunnel h forward (pm_adb m), pm_stops := (pm_stops m)[k := Released]\<rparr>)
         | _ \<Rightarrow> None)
      else None)"

definition stop_publish :: "nat \<Rightarrow> ('a, 'l, 'm, 'w) manager \<Rightarrow> ('a, 'l, 'm, 'w) manager option" where
  "stop_publish k m =
     (if k < length (pm_stops m) \<and> pm_stops m ! k = Released
      then Some (m\<lparr>pm_status := status_disconnected, pm_stops := (pm_stops m)[k := Stopped (Ok ())]\<rparr>)
      else None)"

section \<open>Commands for the phone\<close>

datatype camera_error = NoConnectionForCamera | CameraSendFailed

text \<open>
  \<open>taken\<close>: whether the connection's writer still takes messages. The clone of the sender and
  the send are one step, which comes when the message is taken or refused.
\<close>

definition switch_camera ::
  "bool \<Rightarrow> bool \<Rightarrow> ('a, 'l, 'm, 'w) manager \<Rightarrow> (unit, camera_error) result \<times> ('a, 'l, 'm, 'w) manager" where
  "switch_camera front taken m =
     (case pm_connection_sender m of
        None \<Rightarrow> (Err NoConnectionForCamera, m)
      | Some i \<Rightarrow>
          if taken \<and> is_connected (phase_of m i)
          then (Ok (), update_task i (\<lambda>t. t\<lparr>t_sent := t_sent t @ [Msg_CameraControl (SwitchCamera front)]\<rparr>) m)
          else (Err CameraSendFailed, m))"

datatype configure_error =
    NoConnectionForConfiguration
  | ActorStopped
  | ReplyDropped
  | ActorAnswered reply_error

text \<open>
  \<open>configure_stream\<close> up to the clone of the command sender. \<open>None\<close>: it waits for the lock of
  another call; \<open>Some (Some e, m)\<close>: it returns the error.
\<close>

definition configure_begin ::
  "u16 \<Rightarrow> u16 \<Rightarrow> u8 \<Rightarrow> codec_preference \<Rightarrow> ('a, 'l, 'm, 'w) manager \<Rightarrow>
   (configure_error option \<times> ('a, 'l, 'm, 'w) manager) option" where
  "configure_begin w h rate preference m =
     (if pm_configuring m \<noteq> None then None
      else
        (case pm_command_sender m of
           None \<Rightarrow> Some (Some NoConnectionForConfiguration, m)
         | Some i \<Rightarrow>
             (let t = pm_next_token m;
                  c = \<lparr>cmd_width = w, cmd_height = h, cmd_fps = rate, cmd_preference = preference,
                       cmd_reply = t\<rparr>
              in Some (None, m\<lparr>pm_configuring := Some (Submitting c i), pm_next_token := t + 1\<rparr>))))"

text \<open>\<open>command_sender.send\<close>: it fails when the receiver is gone, and waits for room.\<close>

definition configure_submit ::
  "('a, 'l, 'm, 'w) manager \<Rightarrow> (configure_error option \<times> ('a, 'l, 'm, 'w) manager) option" where
  "configure_submit m =
     (case pm_configuring m of
        Some (Submitting c i) \<Rightarrow>
          if \<not> is_streaming (phase_of m i) then Some (Some ActorStopped, m\<lparr>pm_configuring := None\<rparr>)
          else if length (t_commands (pm_tasks m ! i)) < PIPELINE_COMMAND_CAPACITY then
            Some (None, update_task i (\<lambda>t. t\<lparr>t_commands := t_commands t @ [c]\<rparr>)
              (m\<lparr>pm_configuring := Some (Awaiting (cmd_reply c) i)\<rparr>))
          else None
      | _ \<Rightarrow> None)"

definition configure_end ::
  "('a, 'l, 'm, 'w) manager \<Rightarrow>
   ((stream_profile, configure_error) result \<times> ('a, 'l, 'm, 'w) manager) option" where
  "configure_end m =
     (case pm_configuring m of
        Some (Awaiting t i) \<Rightarrow>
          (case map_of (pm_replies m) t of
             Some r \<Rightarrow> Some (map_err ActorAnswered r, m\<lparr>pm_configuring := None\<rparr>)
           | None \<Rightarrow>
               if is_streaming (phase_of m i) then None
               else Some (Err ReplyDropped, m\<lparr>pm_configuring := None\<rparr>))
      | _ \<Rightarrow> None)"

section \<open>The task\<close>

text \<open>What the task is given by its surroundings, apart from the events of its steps.\<close>

record ('a, 'd, 'i) desktop_env =
  de_adb :: "'a adb_host"
  de_mdns :: "('d, 'i) mdns_api"
  de_version :: ustr
  de_bincode :: bincode

definition desktop_handshake :: "stream_profile list \<Rightarrow> handshake" where
  "desktop_handshake profiles =
     \<lparr>version = PROTOCOL_VERSION, device_name = DEFAULT_DEVICE_NAME, supported_profiles = profiles,
      active_profile = None\<rparr>"

text \<open>A failed task has its error published and returns.\<close>

definition fail_task :: "nat \<Rightarrow> pipeline_error \<Rightarrow> ('a, 'l, 'm, 'w) manager \<Rightarrow> ('a, 'l, 'm, 'w) manager" where
  "fail_task i e m = set_phase i Finished (m\<lparr>pm_status := status_error e\<rparr>)"

text \<open>The task's first two waits: each clears one sender.\<close>

definition task_clears :: "nat \<Rightarrow> ('a, 'l, 'm, 'w) manager \<Rightarrow> ('a, 'l, 'm, 'w) manager option" where
  "task_clears i m =
     (case phase_of m i of
        Setup \<Rightarrow> Some (set_phase i ConnectionForgotten (m\<lparr>pm_connection_sender := None\<rparr>))
      | ConnectionForgotten \<Rightarrow> Some (set_phase i SendersForgotten (m\<lparr>pm_command_sender := None\<rparr>))
      | _ \<Rightarrow> None)"

definition task_setup ::
  "('a, 'd, 'i) desktop_env \<Rightarrow> (('l, 'm, 'w) output_device, output_error) result \<Rightarrow> nat option \<Rightarrow>
   'n socket_net \<Rightarrow> nat \<Rightarrow> ('a, 'l, 'm, 'w) manager \<Rightarrow> ('a, 'l, 'm, 'w) manager option" where
  "task_setup env opened micros sock i m =
     (case phase_of m i of
        SendersForgotten \<Rightarrow>
          (let port = t_port (pm_tasks m ! i) in
           Some
             (case opened of
                Err e \<Rightarrow> fail_task i (OutputOpenFailed e) m
              | Panic \<Rightarrow> set_phase i Crashed m
              | Ok d \<Rightarrow>
                  (let profiles = qualified_output_profiles (output_preflight d) in
                   if H264_720P30 \<notin> set profiles then fail_task i MandatoryProfileRejected m
                   else
                     (case publish_service (de_mdns env) micros DEFAULT_DEVICE_NAME port (de_version env) of
                        Err e \<Rightarrow> fail_task i (AdvertisementFailed e) m
                      | Panic \<Rightarrow> set_phase i Crashed m
                      | Ok publisher \<Rightarrow>
                          (case bind_server sock (desktop_handshake profiles) of
                             Err e \<Rightarrow> fail_task i (BindFailed port e) m
                           | Panic \<Rightarrow> set_phase i Crashed m
                           | Ok server \<Rightarrow>
                               set_phase i (Accepting d profiles) (m\<lparr>pm_status := status_listening\<rparr>))))))
      | _ \<Rightarrow> None)"

text \<open>The two branches of the \<open>select!\<close> around \<open>accept\<close>.\<close>

definition task_shutdown :: "nat \<Rightarrow> ('a, 'l, 'm, 'w) manager \<Rightarrow> ('a, 'l, 'm, 'w) manager option" where
  "task_shutdown i m =
     (case phase_of m i of
        Accepting d profiles \<Rightarrow>
          if t_shutdown (pm_tasks m ! i)
          then Some (set_phase i Finished (m\<lparr>pm_status := status_disconnected\<rparr>)) else None
      | _ \<Rightarrow> None)"

definition task_accept ::
  "('a, 'd, 'i) desktop_env \<Rightarrow> 'n socket_net \<Rightarrow> handshake_net \<Rightarrow> nat \<Rightarrow> ('a, 'l, 'm, 'w) manager \<Rightarrow>
   ('a, 'l, 'm, 'w) manager option" where
  "task_accept env sock net i m =
     (case phase_of m i of
        Accepting d profiles \<Rightarrow>
          Some
            (case fst (accept (de_bincode env) sock net (desktop_handshake profiles)) of
               Ok (peer, stream) \<Rightarrow>
                 set_phase i (Accepted d profiles peer) m
             | Err e \<Rightarrow> fail_task i (AcceptFailed e) m
             | Panic \<Rightarrow> set_phase i Crashed m)
      | _ \<Rightarrow> None)"

text \<open>The two senders are set one after the other.\<close>

definition task_connects :: "nat \<Rightarrow> ('a, 'l, 'm, 'w) manager \<Rightarrow> ('a, 'l, 'm, 'w) manager option" where
  "task_connects i m =
     (case phase_of m i of
        Accepted d profiles peer \<Rightarrow>
          Some (set_phase i (ConnectionOffered d profiles peer) (m\<lparr>pm_connection_sender := Some i\<rparr>))
      | ConnectionOffered d profiles peer \<Rightarrow>
          Some (set_phase i (Opening d profiles peer) (m\<lparr>pm_command_sender := Some i\<rparr>))
      | _ \<Rightarrow> None)"

text \<open>What an effect of the actor does outside it.\<close>

primrec apply_effect :: "nat \<Rightarrow> effect \<Rightarrow> ('a, 'l, 'm, 'w) manager \<Rightarrow> ('a, 'l, 'm, 'w) manager" where
  "apply_effect i (Send msg) m = update_task i (\<lambda>t. t\<lparr>t_sent := t_sent t @ [msg]\<rparr>) m"
| "apply_effect i (Reply t r) m = m\<lparr>pm_replies := pm_replies m @ [(t, r)]\<rparr>"
| "apply_effect i (Status st) m = m\<lparr>pm_status := full_status_of st\<rparr>"
| "apply_effect i (ResetDecoder c ok) m = m"
| "apply_effect i (SubmitFrame f ok) m = m"
| "apply_effect i (WriteFrame f ok) m = m"

text \<open>
  How \<open>stream_connection\<close> goes on: its locals (the command receiver among them) are dropped
  when it returns, and \<open>run_pipeline\<close> publishes the result.
\<close>

definition after_flow ::
  "nat \<Rightarrow> effect list \<times> ('l, 'm, 'w) output_device flow \<Rightarrow> ('a, 'l, 'm, 'w) manager \<Rightarrow>
   ('a, 'l, 'm, 'w) manager" where
  "after_flow i ef m =
     (let m' = fold (apply_effect i) (fst ef) m in
      case snd ef of
        Continue s \<Rightarrow> set_phase i (Looping s) m'
      | Exit e \<Rightarrow> set_phase i Ending (m'\<lparr>pm_status := status_disconnected\<rparr>)
      | Fail e \<Rightarrow> set_phase i Ending (m'\<lparr>pm_status := status_error (StreamFailed e)\<rparr>)
      | Panicked \<Rightarrow> set_phase i Crashed m')"

text \<open>
  \<open>stream_connection\<close> up to its loop, at the moment the wait for the first reset of the decoder
  is over (or one of the checks before it has failed).
\<close>

definition task_open ::
  "(unit, decode_error) result \<Rightarrow> answers \<Rightarrow> nat \<Rightarrow> ('a, 'l, 'm, 'w) manager \<Rightarrow>
   ('a, 'l, 'm, 'w) manager option" where
  "task_open worker a i m =
     (case phase_of m i of
        Opening d profiles peer \<Rightarrow> Some (after_flow i (actor_start worker a peer d profiles) m)
      | _ \<Rightarrow> None)"

primrec call_task :: "configure_call \<Rightarrow> nat" where
  "call_task (Submitting c i) = i"
| "call_task (Awaiting t i) = i"

text \<open>
  Which branches the surroundings make ready: the shutdown flag, the front of the command
  queue, or, once the queue is empty and every sender of it is gone (the clone of a call of
  \<open>configure_stream\<close> included), its closing. The
  transport, the timer and the decoder are free.
\<close>

definition input_ready :: "nat \<Rightarrow> actor_input \<Rightarrow> ('a, 'l, 'm, 'w) manager \<Rightarrow> bool" where
  "input_ready i inp m =
     (case inp of
        ShutdownChanged \<Rightarrow> t_shutdown (pm_tasks m ! i)
      | Command (Some c) \<Rightarrow>
          (case t_commands (pm_tasks m ! i) of [] \<Rightarrow> False | c' # cs \<Rightarrow> c = c')
      | Command None \<Rightarrow>
          t_commands (pm_tasks m ! i) = [] \<and> pm_command_sender m \<noteq> Some i \<and>
          map_option call_task (pm_configuring m) \<noteq> Some i
      | _ \<Rightarrow> True)"

definition take_input :: "nat \<Rightarrow> actor_input \<Rightarrow> ('a, 'l, 'm, 'w) manager \<Rightarrow> ('a, 'l, 'm, 'w) manager" where
  "take_input i inp m =
     (case inp of
        Command (Some c) \<Rightarrow> update_task i (\<lambda>t. t\<lparr>t_commands := tl (t_commands t)\<rparr>) m
      | _ \<Rightarrow> m)"

text \<open>
  The inputs whose branch may wait in its body: for the connection's queue to take a message,
  or for the decoder to be reset.
\<close>

definition turn_waits :: "actor_input \<Rightarrow> bool" where
  "turn_waits inp \<longleftrightarrow>
     (case inp of
        Command (Some c) \<Rightarrow> True
      | DecoderEvent (Some RecoveryRequired) \<Rightarrow> True
      | PeerMessage (Some (Msg_VideoFrame f)) \<Rightarrow> True
      | PeerMessage (Some (Msg_StreamConfigurationResult r)) \<Rightarrow> True
      | _ \<Rightarrow> False)"

text \<open>A turn without a wait, the begin of one that may wait, and its end once the waits are over.\<close>

definition task_turn ::
  "answers \<Rightarrow> actor_input \<Rightarrow> nat \<Rightarrow> ('a, 'l, 'm, 'w) manager \<Rightarrow> ('a, 'l, 'm, 'w) manager option" where
  "task_turn a inp i m =
     (case phase_of m i of
        Looping s \<Rightarrow>
          if branch_enabled inp s \<and> input_ready i inp m \<and> \<not> turn_waits inp
          then Some (after_flow i (actor_step a inp s) (take_input i inp m)) else None
      | _ \<Rightarrow> None)"

definition task_takes ::
  "actor_input \<Rightarrow> nat \<Rightarrow> ('a, 'l, 'm, 'w) manager \<Rightarrow> ('a, 'l, 'm, 'w) manager option" where
  "task_takes inp i m =
     (case phase_of m i of
        Looping s \<Rightarrow>
          if branch_enabled inp s \<and> input_ready i inp m \<and> turn_waits inp
          then Some (set_phase i (Turning inp s) (take_input i inp m)) else None
      | _ \<Rightarrow> None)"

definition task_turned ::
  "answers \<Rightarrow> nat \<Rightarrow> ('a, 'l, 'm, 'w) manager \<Rightarrow> ('a, 'l, 'm, 'w) manager option" where
  "task_turned a i m =
     (case phase_of m i of
        Turning inp s \<Rightarrow> Some (after_flow i (actor_step a inp s) m)
      | _ \<Rightarrow> None)"

definition task_end :: "nat \<Rightarrow> ('a, 'l, 'm, 'w) manager \<Rightarrow> ('a, 'l, 'm, 'w) manager option" where
  "task_end i m =
     (case phase_of m i of
        Ending \<Rightarrow> Some (set_phase i ConnectionWithdrawn (m\<lparr>pm_connection_sender := None\<rparr>))
      | ConnectionWithdrawn \<Rightarrow> Some (set_phase i Finished (m\<lparr>pm_command_sender := None\<rparr>))
      | _ \<Rightarrow> None)"

section \<open>Runs\<close>

datatype ('l, 'm, 'w) manager_event =
    StartCall u16 start_mode
  | StopCall
  | StopJoined nat
  | StopCleans nat
  | StopPublishes nat
  | CameraCall bool bool
  | ConfigureCall u16 u16 u8 codec_preference
  | ConfigureSubmits
  | ConfigureReturns
  | TaskClears nat
  | TaskSetsUp nat "(('l, 'm, 'w) output_device, output_error) result" "nat option" "unit socket_net"
  | TaskAccepts nat "unit socket_net" handshake_net
  | TaskShutsDown nat
  | TaskConnects nat
  | TaskOpens nat "(unit, decode_error) result" answers
  | TaskTurns nat answers actor_input
  | TaskTakes nat actor_input
  | TaskTurned nat answers
  | TaskEnds nat

fun manager_step ::
  "('a, 'd, 'i) desktop_env \<Rightarrow> ('l, 'm, 'w) manager_event \<Rightarrow> ('a, 'l, 'm, 'w) manager \<Rightarrow>
   ('a, 'l, 'm, 'w) manager option" where
  "manager_step env (StartCall port mode) m = Some (snd (start_with_mode (de_adb env) port mode m))"
| "manager_step env StopCall m = Some (stop_begin m)"
| "manager_step env (StopJoined k) m = stop_joined k m"
| "manager_step env (StopCleans k) m = stop_cleans (de_adb env) k m"
| "manager_step env (StopPublishes k) m = stop_publish k m"
| "manager_step env (CameraCall front taken) m = Some (snd (switch_camera front taken m))"
| "manager_step env (ConfigureCall w h rate pref) m = map_option snd (configure_begin w h rate pref m)"
| "manager_step env ConfigureSubmits m = map_option snd (configure_submit m)"
| "manager_step env ConfigureReturns m = map_option snd (configure_end m)"
| "manager_step env (TaskClears i) m = task_clears i m"
| "manager_step env (TaskSetsUp i opened micros sock) m = task_setup env opened micros sock i m"
| "manager_step env (TaskAccepts i sock net) m = task_accept env sock net i m"
| "manager_step env (TaskShutsDown i) m = task_shutdown i m"
| "manager_step env (TaskConnects i) m = task_connects i m"
| "manager_step env (TaskOpens i worker a) m = task_open worker a i m"
| "manager_step env (TaskTurns i a inp) m = task_turn a inp i m"
| "manager_step env (TaskTakes i inp) m = task_takes inp i m"
| "manager_step env (TaskTurned i a) m = task_turned a i m"
| "manager_step env (TaskEnds i) m = task_end i m"

text \<open>
  All interleavings, and those in which no call of \<open>start\<close> or \<open>stop\<close> begins while one of
  \<open>stop\<close> is under way: what a client sees that waits for each of its calls.
\<close>

inductive manager_reachable :: "('a, 'd, 'i) desktop_env \<Rightarrow> ('a, 'l, 'm, 'w) manager \<Rightarrow> bool" for env where
  new: "manager_reachable env (manager_new adb)"
| step: "manager_reachable env m \<Longrightarrow> manager_step env ev m = Some m' \<Longrightarrow> manager_reachable env m'"

definition is_stopped :: "stop_call \<Rightarrow> bool" where
  "is_stopped c \<longleftrightarrow> (case c of Stopped r \<Rightarrow> True | _ \<Rightarrow> False)"

definition calm :: "('l, 'm, 'w) manager_event \<Rightarrow> ('a, 'l, 'm, 'w) manager \<Rightarrow> bool" where
  "calm ev m \<longleftrightarrow> (case ev of
     StartCall port mode \<Rightarrow> list_all is_stopped (pm_stops m)
   | StopCall \<Rightarrow> list_all is_stopped (pm_stops m)
   | _ \<Rightarrow> True)"

inductive calm_reachable :: "('a, 'd, 'i) desktop_env \<Rightarrow> ('a, 'l, 'm, 'w) manager \<Rightarrow> bool" for env where
  calm_new: "calm_reachable env (manager_new adb)"
| calm_step: "calm_reachable env m \<Longrightarrow> calm ev m \<Longrightarrow> manager_step env ev m = Some m' \<Longrightarrow> calm_reachable env m'"

end
