(* ===== verification/Manager_Invariants.thy ===== *)
theory Manager_Invariants
  imports Step_Systems Pipeline_Manager Stream_Claims
begin

text \<open>
  What every interleaving of the pipeline manager keeps: the handles of tasks, the senders,
  the actors inside the tasks, and the account of the calls of \<open>configure_stream\<close>.
\<close>

named_theorems manager_simps \<open>fields of updated managers\<close>

section \<open>Fields of updated managers\<close>

lemma update_task_fields [manager_simps]:
  "pm_status (update_task i f m) = pm_status m"
  "pm_shutdown_tx (update_task i f m) = pm_shutdown_tx m"
  "pm_worker (update_task i f m) = pm_worker m"
  "pm_connection_sender (update_task i f m) = pm_connection_sender m"
  "pm_command_sender (update_task i f m) = pm_command_sender m"
  "pm_usb_forward (update_task i f m) = pm_usb_forward m"
  "pm_adb (update_task i f m) = pm_adb m"
  "pm_stops (update_task i f m) = pm_stops m"
  "pm_configuring (update_task i f m) = pm_configuring m"
  "pm_next_token (update_task i f m) = pm_next_token m"
  "pm_replies (update_task i f m) = pm_replies m"
  "length (pm_tasks (update_task i f m)) = length (pm_tasks m)"
  by (simp_all add: update_task_def)

lemma update_task_nth:
  "j < length (pm_tasks m) \<Longrightarrow>
   pm_tasks (update_task i f m) ! j = (if j = i then f (pm_tasks m ! j) else pm_tasks m ! j)"
  by (simp add: update_task_def)

lemmas set_phase_fields [manager_simps] = update_task_fields [of i "\<lambda>t. t\<lparr>t_phase := ph\<rparr>" for i ph, folded set_phase_def]

lemma set_phase_nth:
  "j < length (pm_tasks m) \<Longrightarrow>
   pm_tasks (set_phase i ph m) ! j = (if j = i then (pm_tasks m ! j)\<lparr>t_phase := ph\<rparr> else pm_tasks m ! j)"
  by (simp add: set_phase_def update_task_nth)

lemma phase_of_set_phase:
  "phase_of (set_phase i ph m) j = (if j = i \<and> i < length (pm_tasks m) then ph else phase_of m j)"
  by (simp add: phase_of_def set_phase_nth manager_simps)

lemma phase_of_update_task:
  "(\<And>t. t_phase (f t) = t_phase t) \<Longrightarrow> phase_of (update_task i f m) j = phase_of m j"
  by (simp add: phase_of_def update_task_nth manager_simps)

lemma phase_of_fields [simp]:
  "phase_of (m\<lparr>pm_status := x1\<rparr>) i = phase_of m i"
  "phase_of (m\<lparr>pm_connection_sender := x2\<rparr>) i = phase_of m i"
  "phase_of (m\<lparr>pm_command_sender := x2\<rparr>) i = phase_of m i"
  "phase_of (m\<lparr>pm_stops := x3\<rparr>) i = phase_of m i"
  "phase_of (m\<lparr>pm_configuring := x4\<rparr>) i = phase_of m i"
  "phase_of (m\<lparr>pm_next_token := x5\<rparr>) i = phase_of m i"
  by (simp_all add: phase_of_def)

lemma phase_of_cong: "pm_tasks m' = pm_tasks m \<Longrightarrow> phase_of m' i = phase_of m i"
  by (simp add: phase_of_def)

lemma phase_in_range: "\<not> is_finished (phase_of m i) \<Longrightarrow> i < length (pm_tasks m)"
  by (simp add: phase_of_def is_finished_def split: if_splits)

lemma is_finished_simps [simp]:
  "\<not> is_finished Setup" "\<not> is_finished ConnectionForgotten" "\<not> is_finished SendersForgotten"
  "\<not> is_finished (Accepting d ps)" "\<not> is_finished (Accepted d ps h)" "\<not> is_finished (ConnectionOffered d ps h)"
  "\<not> is_finished (Opening d ps h)" "\<not> is_finished (Looping s)" "\<not> is_finished (Turning inp s)"
  "\<not> is_finished Ending" "\<not> is_finished ConnectionWithdrawn" "is_finished Finished" "is_finished Crashed"
  by (simp_all add: is_finished_def)

lemma is_finished_iff: "is_finished ph \<longleftrightarrow> ph = Finished \<or> ph = Crashed"
  by (cases ph) simp_all

lemma is_streaming_simps [simp]:
  "\<not> is_streaming Setup" "\<not> is_streaming ConnectionForgotten" "\<not> is_streaming SendersForgotten"
  "\<not> is_streaming (Accepting d ps)" "is_streaming (Accepted d ps h)" "is_streaming (ConnectionOffered d ps h)"
  "is_streaming (Opening d ps h)" "is_streaming (Looping s)" "is_streaming (Turning inp s)"
  "\<not> is_streaming Ending" "\<not> is_streaming ConnectionWithdrawn" "\<not> is_streaming Finished"
  "\<not> is_streaming Crashed"
  by (simp_all add: is_streaming_def)

lemma streaming_live: "is_streaming ph \<Longrightarrow> \<not> is_finished ph"
  by (cases ph) auto

section \<open>Moves of a task\<close>

text \<open>What a step of task \<open>i\<close> leaves alone.\<close>

definition task_move :: "nat \<Rightarrow> ('a, 'l, 'm, 'w) manager \<Rightarrow> ('a, 'l, 'm, 'w) manager \<Rightarrow> bool" where
  "task_move i m m' \<longleftrightarrow>
     \<not> is_finished (phase_of m i) \<and> length (pm_tasks m') = length (pm_tasks m) \<and>
     (\<forall>j. j < length (pm_tasks m) \<and> j \<noteq> i \<longrightarrow> pm_tasks m' ! j = pm_tasks m ! j) \<and>
     t_shutdown (pm_tasks m' ! i) = t_shutdown (pm_tasks m ! i) \<and>
     pm_worker m' = pm_worker m \<and> pm_shutdown_tx m' = pm_shutdown_tx m \<and>
     pm_stops m' = pm_stops m \<and> pm_usb_forward m' = pm_usb_forward m \<and> pm_adb m' = pm_adb m \<and>
     pm_configuring m' = pm_configuring m \<and> pm_next_token m' = pm_next_token m"

lemma task_move_other: "task_move i m m' \<Longrightarrow> j \<noteq> i \<Longrightarrow> phase_of m' j = phase_of m j"
  by (simp add: task_move_def phase_of_def)

lemma apply_effects:
  "pm_tasks m = ts \<Longrightarrow> i < length ts \<Longrightarrow>
   (let m' = fold (apply_effect i) effs m in
      length (pm_tasks m') = length ts \<and>
      (\<forall>j < length ts. t_phase (pm_tasks m' ! j) = t_phase (ts ! j) \<and>
         t_shutdown (pm_tasks m' ! j) = t_shutdown (ts ! j) \<and>
         t_commands (pm_tasks m' ! j) = t_commands (ts ! j) \<and> (j \<noteq> i \<longrightarrow> pm_tasks m' ! j = ts ! j)) \<and>
      pm_worker m' = pm_worker m \<and> pm_shutdown_tx m' = pm_shutdown_tx m \<and>
      pm_stops m' = pm_stops m \<and> pm_usb_forward m' = pm_usb_forward m \<and> pm_adb m' = pm_adb m \<and>
      pm_configuring m' = pm_configuring m \<and> pm_next_token m' = pm_next_token m \<and>
      pm_connection_sender m' = pm_connection_sender m \<and> pm_command_sender m' = pm_command_sender m \<and>
      pm_replies m' = pm_replies m @ replies effs \<and>
      pm_status m' = (case last_status effs None of None \<Rightarrow> pm_status m | Some st \<Rightarrow> full_status_of st))"
proof (induction effs rule: rev_induct)
  case (snoc e effs)
  then show ?case
    by (cases e) (auto simp: Let_def manager_simps update_task_nth)
qed simp

lemmas apply_effects' = apply_effects [OF refl, unfolded Let_def]

lemma after_flow_move:
  assumes "i < length (pm_tasks m)"
    and def: "m' = after_flow i (effs, fl) m"
  shows "length (pm_tasks m') = length (pm_tasks m)"
    and "j < length (pm_tasks m) \<Longrightarrow> j \<noteq> i \<Longrightarrow> pm_tasks m' ! j = pm_tasks m ! j"
    and "t_shutdown (pm_tasks m' ! i) = t_shutdown (pm_tasks m ! i)"
    and "t_commands (pm_tasks m' ! i) = t_commands (pm_tasks m ! i)"
    and "pm_worker m' = pm_worker m" "pm_shutdown_tx m' = pm_shutdown_tx m" "pm_stops m' = pm_stops m"
    and "pm_usb_forward m' = pm_usb_forward m" "pm_adb m' = pm_adb m"
    and "pm_configuring m' = pm_configuring m" "pm_next_token m' = pm_next_token m"
    and "pm_connection_sender m' = pm_connection_sender m" "pm_command_sender m' = pm_command_sender m"
    and "pm_replies m' = pm_replies m @ replies effs"
    and "phase_of m' i = (case fl of Continue s \<Rightarrow> Looping s | Panicked \<Rightarrow> Crashed | _ \<Rightarrow> Ending)"
  using apply_effects' [OF assms(1), of effs] assms(1)
  by (auto simp: def after_flow_def Let_def manager_simps set_phase_nth phase_of_set_phase split: flow.splits)

lemma after_flow_status:
  assumes "i < length (pm_tasks m)"
  shows "pm_status (after_flow i (effs, fl) m) =
    (case fl of
       Exit e \<Rightarrow> status_disconnected
     | Fail e \<Rightarrow> status_error (StreamFailed e)
     | _ \<Rightarrow> (case last_status effs None of None \<Rightarrow> pm_status m | Some st \<Rightarrow> full_status_of st))"
  using apply_effects' [OF assms(1), of effs]
  by (auto simp: after_flow_def Let_def manager_simps split: flow.splits)

lemma after_flow_task_move:
  "\<not> is_finished (phase_of m i) \<Longrightarrow> task_move i m (after_flow i ef m)"
  using after_flow_move [OF phase_in_range refl, of m i] by (cases ef) (simp add: task_move_def)

lemma set_phase_task_move:
  "\<not> is_finished (phase_of m i) \<Longrightarrow> task_move i m (set_phase i ph m)"
  using phase_in_range [of m i] by (auto simp: task_move_def manager_simps set_phase_nth)

lemma take_input_fields [manager_simps]:
  "length (pm_tasks (take_input i inp m)) = length (pm_tasks m)"
  "phase_of (take_input i inp m) j = phase_of m j"
  "pm_replies (take_input i inp m) = pm_replies m"
  "pm_configuring (take_input i inp m) = pm_configuring m"
  "pm_status (take_input i inp m) = pm_status m"
  "pm_connection_sender (take_input i inp m) = pm_connection_sender m"
  "pm_command_sender (take_input i inp m) = pm_command_sender m"
  by (auto simp: take_input_def manager_simps phase_of_update_task split: actor_input.splits option.splits)

lemma take_input_task_move:
  "\<not> is_finished (phase_of m i) \<Longrightarrow> task_move i m (take_input i inp m)"
  using phase_in_range [of m i]
  by (auto simp: task_move_def take_input_def manager_simps update_task_nth split: actor_input.splits option.splits)

lemma task_move_trans:
  "task_move i m m1 \<Longrightarrow> task_move i m1 m2 \<Longrightarrow> task_move i m m2"
  by (simp add: task_move_def)

text \<open>The events of a task, and that they are moves of it.\<close>

primrec task_of :: "('l, 'm, 'w) manager_event \<Rightarrow> nat option" where
  "task_of (StartCall port mode) = None"
| "task_of StopCall = None"
| "task_of (StopJoined k) = None"
| "task_of (StopCleans k) = None"
| "task_of (StopPublishes k) = None"
| "task_of (CameraCall front taken) = None"
| "task_of (ConfigureCall w h rate pref) = None"
| "task_of ConfigureSubmits = None"
| "task_of ConfigureReturns = None"
| "task_of (TaskClears i) = Some i"
| "task_of (TaskSetsUp i opened micros sock) = Some i"
| "task_of (TaskAccepts i sock net) = Some i"
| "task_of (TaskShutsDown i) = Some i"
| "task_of (TaskConnects i) = Some i"
| "task_of (TaskOpens i worker a) = Some i"
| "task_of (TaskTurns i a inp) = Some i"
| "task_of (TaskTakes i inp) = Some i"
| "task_of (TaskTurned i a) = Some i"
| "task_of (TaskEnds i) = Some i"

lemma task_move_fields:
  assumes "task_move i m1 m'" "pm_tasks m1 = pm_tasks m" "pm_worker m1 = pm_worker m"
    "pm_shutdown_tx m1 = pm_shutdown_tx m" "pm_stops m1 = pm_stops m" "pm_usb_forward m1 = pm_usb_forward m"
    "pm_adb m1 = pm_adb m" "pm_configuring m1 = pm_configuring m" "pm_next_token m1 = pm_next_token m"
  shows "task_move i m m'"
  using assms by (simp add: task_move_def phase_of_cong [OF assms(2)])

text \<open>A task's step is a change of its own phase together with the fields tasks write.\<close>

lemma set_phase_after:
  assumes "\<not> is_finished (phase_of m i)" "pm_tasks m1 = pm_tasks m" "pm_worker m1 = pm_worker m"
    "pm_shutdown_tx m1 = pm_shutdown_tx m" "pm_stops m1 = pm_stops m" "pm_usb_forward m1 = pm_usb_forward m"
    "pm_adb m1 = pm_adb m" "pm_configuring m1 = pm_configuring m" "pm_next_token m1 = pm_next_token m"
  shows "task_move i m (set_phase i ph m1)"
proof (rule task_move_fields [OF set_phase_task_move])
  show "\<not> is_finished (phase_of m1 i)" using assms(1) by (simp add: phase_of_cong [OF assms(2)])
qed (use assms in simp_all)

lemma taken_task_move:
  assumes "\<not> is_finished (phase_of m i)" "task_move i (take_input i inp m) m'"
  shows "task_move i m m'"
  using take_input_task_move [OF assms(1)] assms(2) by (rule task_move_trans)

lemma task_step_moves:
  assumes "manager_step env ev m = Some m'" "task_of ev = Some i"
  shows "task_move i m m'"
proof (cases ev)
  case (TaskClears k)
  with assms show ?thesis
    by (auto simp: task_clears_def intro!: set_phase_after split: task_phase.splits)
next
  case (TaskConnects k)
  with assms show ?thesis
    by (auto simp: task_connects_def intro!: set_phase_after split: task_phase.splits)
next
  case (TaskSetsUp k opened micros sock)
  with assms show ?thesis
    by (auto simp: task_setup_def Let_def fail_task_def intro!: set_phase_after
        split: task_phase.splits result.splits if_splits)
next
  case (TaskAccepts k sock net)
  with assms show ?thesis
    by (auto simp: task_accept_def fail_task_def intro!: set_phase_after
        split: task_phase.splits result.splits prod.splits)
next
  case (TaskShutsDown k)
  with assms show ?thesis
    by (auto simp: task_shutdown_def intro!: set_phase_after split: task_phase.splits if_splits)
next
  case (TaskOpens k worker a)
  with assms obtain d ps h where "phase_of m i = Opening d ps h" "m' = after_flow i (actor_start worker a h d ps) m"
    by (auto simp: task_open_def split: task_phase.splits)
  then show ?thesis by (simp add: after_flow_task_move)
next
  case (TaskTurns k a inp)
  with assms obtain s where "phase_of m i = Looping s" "m' = after_flow i (actor_step a inp s) (take_input i inp m)"
    by (auto simp: task_turn_def split: task_phase.splits if_splits)
  then show ?thesis
    using taken_task_move [OF _ after_flow_task_move, of m i inp] by (simp add: manager_simps)
next
  case (TaskTakes k inp)
  with assms obtain s where "phase_of m i = Looping s" "m' = set_phase i (Turning inp s) (take_input i inp m)"
    by (auto simp: task_takes_def split: task_phase.splits if_splits)
  then show ?thesis
    using taken_task_move [OF _ set_phase_task_move, of m i inp] by (simp add: manager_simps)
next
  case (TaskTurned k a)
  with assms obtain inp s where "phase_of m i = Turning inp s" "m' = after_flow i (actor_step a inp s) m"
    by (auto simp: task_turned_def split: task_phase.splits)
  then show ?thesis by (simp add: after_flow_task_move)
next
  case (TaskEnds k)
  with assms show ?thesis
    by (auto simp: task_end_def intro!: set_phase_after split: task_phase.splits)
qed (use assms in auto)

section \<open>Handles\<close>

text \<open>
  The join handle and the shutdown sender of the runtime belong to one spawned task; a call
  of \<open>stop\<close> waits for a task whose flag it has raised; and no running task is orphaned.
\<close>

definition handles_ok :: "('a, 'l, 'm, 'w) manager \<Rightarrow> bool" where
  "handles_ok m \<longleftrightarrow>
     pm_shutdown_tx m = pm_worker m \<and>
     (\<forall>i. pm_worker m = Some i \<longrightarrow> i < length (pm_tasks m)) \<and>
     (\<forall>i forward. Joining (Some i) forward \<in> set (pm_stops m) \<longrightarrow>
        i < length (pm_tasks m) \<and> t_shutdown (pm_tasks m ! i)) \<and>
     (\<forall>i. \<not> is_finished (phase_of m i) \<longrightarrow>
        pm_worker m = Some i \<or> (\<exists>forward. Joining (Some i) forward \<in> set (pm_stops m)))"

lemma handles_ok_task:
  assumes "handles_ok m" "task_move i m m'"
  shows "handles_ok m'"
  unfolding handles_ok_def
proof (intro conjI allI impI)
  from assms show "pm_shutdown_tx m' = pm_worker m'" by (simp add: handles_ok_def task_move_def)
  show "j < length (pm_tasks m')" if "pm_worker m' = Some j" for j
    using that assms by (simp add: handles_ok_def task_move_def)
  fix j
  show "j < length (pm_tasks m')" if "Joining (Some j) forward \<in> set (pm_stops m')" for forward
    using that assms by (auto simp: handles_ok_def task_move_def)
  show "t_shutdown (pm_tasks m' ! j)" if "Joining (Some j) forward \<in> set (pm_stops m')" for forward
    using that assms by (cases "j = i") (auto simp: handles_ok_def task_move_def)
  show "pm_worker m' = Some j \<or> (\<exists>forward. Joining (Some j) forward \<in> set (pm_stops m'))"
    if "\<not> is_finished (phase_of m' j)"
  proof -
    have "\<not> is_finished (phase_of m j)"
      using that assms(2) task_move_other [OF assms(2), of j] by (cases "j = i") (auto simp: task_move_def)
    with assms show ?thesis by (auto simp: handles_ok_def task_move_def)
  qed
qed

text \<open>Steps that change neither a phase nor a flag, worker or stop.\<close>

definition same_handles :: "('a, 'l, 'm, 'w) manager \<Rightarrow> ('a, 'l, 'm, 'w) manager \<Rightarrow> bool" where
  "same_handles m m' \<longleftrightarrow>
     pm_shutdown_tx m' = pm_shutdown_tx m \<and> pm_worker m' = pm_worker m \<and> pm_stops m' = pm_stops m \<and>
     length (pm_tasks m') = length (pm_tasks m) \<and>
     (\<forall>j < length (pm_tasks m). t_shutdown (pm_tasks m' ! j) = t_shutdown (pm_tasks m ! j)) \<and>
     (\<forall>j. phase_of m' j = phase_of m j) \<and>
     pm_connection_sender m' = pm_connection_sender m \<and> pm_command_sender m' = pm_command_sender m \<and>
     pm_status m' = pm_status m"

lemma handles_ok_same: "handles_ok m \<Longrightarrow> same_handles m m' \<Longrightarrow> handles_ok m'"
  by (simp add: handles_ok_def same_handles_def)

lemma same_handles_update:
  "(\<And>t. t_phase (f t) = t_phase t) \<Longrightarrow> (\<And>t. t_shutdown (f t) = t_shutdown t) \<Longrightarrow>
   same_handles m (update_task i f m)"
  by (simp add: same_handles_def manager_simps phase_of_update_task update_task_nth)

lemma same_handles_trans: "same_handles m m1 \<Longrightarrow> same_handles m1 m2 \<Longrightarrow> same_handles m m2"
  by (simp add: same_handles_def)

lemma same_handles_refl: "same_handles m m"
  by (simp add: same_handles_def)

lemma same_handles_call:
  "same_handles m (m\<lparr>pm_configuring := c, pm_next_token := t\<rparr>)" "same_handles m (m\<lparr>pm_configuring := c\<rparr>)"
  by (simp_all add: same_handles_def phase_of_def)

lemma call_same_handles:
  "same_handles m (snd (switch_camera front taken m))"
  "configure_begin w h rate pref m = Some (r, m') \<Longrightarrow> same_handles m m'"
  "configure_submit m = Some (r, m') \<Longrightarrow> same_handles m m'"
  "configure_end m = Some (r', m') \<Longrightarrow> same_handles m m'"
proof -
  show "same_handles m (snd (switch_camera front taken m))"
    by (auto simp: switch_camera_def same_handles_refl intro!: same_handles_update split: option.splits)
  show "same_handles m m'" if "configure_begin w h rate pref m = Some (r, m')"
    using that
    by (auto simp: configure_begin_def same_handles_refl same_handles_call Let_def split: option.splits if_splits)
  show "same_handles m m'" if "configure_submit m = Some (r, m')"
    using that
    by (auto simp: configure_submit_def same_handles_call
        intro: same_handles_trans [OF same_handles_call(2) same_handles_update]
        split: option.splits configure_call.splits if_splits)
  show "same_handles m m'" if "configure_end m = Some (r', m')"
    using that by (auto simp: configure_end_def same_handles_call split: option.splits configure_call.splits if_splits)
qed

text \<open>Starting: either nothing but the adb world changes, or a task is appended.\<close>

lemma start_cases:
  assumes "start_with_mode h port mode m = (r, m')"
  obtains (running) i where "pm_worker m = Some i" "\<not> is_finished (phase_of m i)" "r = Ok ()" "m' = m"
  | (failed) adb where "\<not> is_ok r"
      "\<forall>i. pm_worker m = Some i \<longrightarrow> is_finished (phase_of m i)"
      "m' = m\<lparr>pm_worker := None, pm_shutdown_tx := None, pm_adb := adb\<rparr> \<or>
       pm_worker m = None \<and> m' = m\<lparr>pm_adb := adb\<rparr>"
  | (spawned) adb forward listen_port where "r = Ok ()"
      "\<forall>i. pm_worker m = Some i \<longrightarrow> is_finished (phase_of m i)"
      "listen_port = (if port = 0 then DEFAULT_LISTEN_PORT else port)"
      "open_tunnel h listen_port mode (pm_adb m) = (Ok forward, adb)"
      "m' = m\<lparr>pm_adb := adb, pm_usb_forward := forward, pm_shutdown_tx := Some (length (pm_tasks m)),
               pm_worker := Some (length (pm_tasks m)), pm_tasks := pm_tasks m @ [spawned listen_port]\<rparr>"
proof (cases "\<exists>i. pm_worker m = Some i \<and> \<not> is_finished (phase_of m i)")
  case True
  then obtain i where i: "pm_worker m = Some i" "\<not> is_finished (phase_of m i)" by blast
  with assms show thesis by (intro running [OF i]) (simp_all add: start_with_mode_def)
next
  case False
  define listen_port where "listen_port = (if port = 0 then DEFAULT_LISTEN_PORT else port)"
  define m1 where "m1 = (if pm_worker m = None then m else m\<lparr>pm_worker := None, pm_shutdown_tx := None\<rparr>)"
  have fields: "pm_tasks m1 = pm_tasks m" "pm_adb m1 = pm_adb m" by (simp_all add: m1_def)
  have spawn: "spawn_worker h listen_port mode m1 = (r, m')"
    using assms False
    by (auto simp: start_with_mode_def listen_port_def m1_def Let_def split: option.splits if_splits)
  obtain out adb where tunnel: "open_tunnel h listen_port mode (pm_adb m) = (out, adb)"
    by (cases "open_tunnel h listen_port mode (pm_adb m)")
  from False have idle: "\<forall>i. pm_worker m = Some i \<longrightarrow> is_finished (phase_of m i)" by blast
  show thesis
  proof (cases out)
    case (Ok forward)
    with spawn tunnel have "r = Ok ()"
      "m' = m1\<lparr>pm_adb := adb, pm_usb_forward := forward, pm_shutdown_tx := Some (length (pm_tasks m)),
               pm_worker := Some (length (pm_tasks m)), pm_tasks := pm_tasks m @ [Pipeline_Manager.spawned listen_port]\<rparr>"
      by (auto simp: spawn_worker_def fields Let_def)
    with tunnel Ok idle show thesis
      by (intro spawned [of listen_port forward adb]) (auto simp: m1_def listen_port_def)
  next
    case (Err e)
    with spawn tunnel idle show thesis
      by (intro failed [of adb]) (auto simp: spawn_worker_def fields Let_def m1_def split: if_splits)
  next
    case Panic
    with spawn tunnel idle show thesis
      by (intro failed [of adb]) (auto simp: spawn_worker_def fields Let_def m1_def split: if_splits)
  qed
qed

lemma phase_of_append:
  "phase_of (m\<lparr>pm_adb := adb, pm_usb_forward := u, pm_shutdown_tx := x, pm_worker := w,
              pm_tasks := pm_tasks m @ [t]\<rparr>) i =
   (if i = length (pm_tasks m) then t_phase t else phase_of m i)"
  by (auto simp: phase_of_def nth_append)

lemma handles_ok_start:
  assumes "handles_ok m" "start_with_mode h port mode m = (r, m')"
  shows "handles_ok m'"
  using assms(2)
proof (cases rule: start_cases)
  case running
  with assms(1) show ?thesis by simp
next
  case (failed adb)
  then have phases: "phase_of m' i = phase_of m i" for i by (auto intro: phase_of_cong)
  from failed assms(1) show ?thesis
    unfolding handles_ok_def phases by (elim disjE conjE) (auto simp: phases)
next
  case (spawned adb forward listen_port)
  have phases: "phase_of m' i = (if i = length (pm_tasks m) then Setup else phase_of m i)" for i
    using spawned(5) by (simp add: phase_of_append Pipeline_Manager.spawned_def)
  from assms(1) spawned(2) show ?thesis
    unfolding handles_ok_def phases by (auto simp: spawned(5) nth_append)
qed

lemma nth_update: "j < length xs \<Longrightarrow> (xs[i := y]) ! j = (if i = j then y else xs ! j)"
  by (cases "i = j") simp_all

lemma stop_begin_eq:
  assumes "handles_ok m"
  defines "m1 \<equiv> m\<lparr>pm_shutdown_tx := None, pm_worker := None, pm_usb_forward := None,
                     pm_stops := pm_stops m @ [Joining (pm_worker m) (pm_usb_forward m)]\<rparr>"
  shows "stop_begin m = m1\<lparr>pm_tasks := (case pm_worker m of None \<Rightarrow> pm_tasks m
           | Some i \<Rightarrow> (pm_tasks m)[i := (pm_tasks m ! i)\<lparr>t_shutdown := True\<rparr>])\<rparr>"
  using assms(1) by (simp add: stop_begin_def m1_def handles_ok_def update_task_def split: option.splits)

lemma stop_begin_fields:
  assumes "handles_ok m"
  shows "pm_worker (stop_begin m) = None" "pm_shutdown_tx (stop_begin m) = None"
    and "length (pm_tasks (stop_begin m)) = length (pm_tasks m)"
    and "pm_stops (stop_begin m) = pm_stops m @ [Joining (pm_worker m) (pm_usb_forward m)]"
    and "phase_of (stop_begin m) j = phase_of m j"
    and "pm_status (stop_begin m) = pm_status m" "pm_replies (stop_begin m) = pm_replies m"
    and "pm_connection_sender (stop_begin m) = pm_connection_sender m"
    and "pm_command_sender (stop_begin m) = pm_command_sender m"
    and "pm_configuring (stop_begin m) = pm_configuring m" "pm_next_token (stop_begin m) = pm_next_token m"
    and "j < length (pm_tasks m) \<Longrightarrow>
      pm_tasks (stop_begin m) ! j =
        (if pm_worker m = Some j then (pm_tasks m ! j)\<lparr>t_shutdown := True\<rparr> else pm_tasks m ! j)"
  unfolding stop_begin_eq [OF assms]
  by (simp_all add: phase_of_def nth_update split: option.splits)

lemma handles_ok_stop:
  assumes "handles_ok m"
  shows "handles_ok (stop_begin m)"
proof -
  have flags: "t_shutdown (pm_tasks (stop_begin m) ! j) = (pm_worker m = Some j \<or> t_shutdown (pm_tasks m ! j))"
    if "j < length (pm_tasks m)" for j
    using stop_begin_fields(12) [OF assms that] by simp
  show ?thesis
    unfolding handles_ok_def stop_begin_fields(1-5) [OF assms]
    using assms by (auto simp: handles_ok_def flags) metis
qed

lemma stop_joined_cases:
  assumes "stop_joined k m = Some m'"
  obtains (joined) w forward where "k < length (pm_stops m)" "pm_stops m ! k = Joining w forward"
      "\<forall>i. w = Some i \<longrightarrow> phase_of m i = Finished" "m' = m\<lparr>pm_stops := (pm_stops m)[k := Joined forward]\<rparr>"
  | (failed) i forward where "k < length (pm_stops m)" "pm_stops m ! k = Joining (Some i) forward"
      "phase_of m i = Crashed" "m' = m\<lparr>pm_stops := (pm_stops m)[k := Stopped (Err JoinFailed)]\<rparr>"
  using assms
  by (auto simp: stop_joined_def split: if_splits stop_call.splits option.splits task_phase.splits)

lemma stop_cleans_cases:
  assumes "stop_cleans h k m = Some m'"
  obtains (connection) forward where "k < length (pm_stops m)" "pm_stops m ! k = Joined forward"
      "m' = m\<lparr>pm_connection_sender := None, pm_stops := (pm_stops m)[k := ConnectionCleared forward]\<rparr>"
  | (command) forward where "k < length (pm_stops m)" "pm_stops m ! k = ConnectionCleared forward"
      "m' = m\<lparr>pm_command_sender := None, pm_stops := (pm_stops m)[k := SendersCleared forward]\<rparr>"
  | (tunnel) forward where "k < length (pm_stops m)" "pm_stops m ! k = SendersCleared forward"
      "m' = m\<lparr>pm_adb := close_tunnel h forward (pm_adb m), pm_stops := (pm_stops m)[k := Released]\<rparr>"
  using assms by (auto simp: stop_cleans_def split: if_splits stop_call.splits)

lemma handles_ok_stops:
  assumes "handles_ok m" "pm_tasks m' = pm_tasks m" "pm_worker m' = pm_worker m"
    and "pm_shutdown_tx m' = pm_shutdown_tx m" "pm_stops m' = (pm_stops m)[k := c]" "k < length (pm_stops m)"
    and "\<And>w f. c \<noteq> Joining w f" "\<And>i f. pm_stops m ! k = Joining (Some i) f \<Longrightarrow> is_finished (phase_of m i)"
  shows "handles_ok m'"
  unfolding handles_ok_def
proof (intro conjI allI impI)
  fix i
  have old: "Joining (Some i) f \<in> set (pm_stops m)" if "Joining (Some i) f \<in> set (pm_stops m')" for f
    using that assms(5,7) set_update_subset_insert [of "pm_stops m" k c] by auto
  show "i < length (pm_tasks m')" "t_shutdown (pm_tasks m' ! i)"
    if "Joining (Some i) f \<in> set (pm_stops m')" for f
    using old [OF that] assms(1,2) by (auto simp: handles_ok_def)
  assume live: "\<not> is_finished (phase_of m' i)"
  then have live': "\<not> is_finished (phase_of m i)" using phase_of_cong [OF assms(2)] by simp
  with assms(1) consider "pm_worker m = Some i" | f where "Joining (Some i) f \<in> set (pm_stops m)"
    by (auto simp: handles_ok_def)
  then show "pm_worker m' = Some i \<or> (\<exists>f. Joining (Some i) f \<in> set (pm_stops m'))"
  proof cases
    case (2 f)
    then obtain j where j: "j < length (pm_stops m)" "pm_stops m ! j = Joining (Some i) f"
      by (auto simp: in_set_conv_nth)
    with assms(8) live' have "j \<noteq> k" by auto
    with j assms(5) have "pm_stops m' ! j = Joining (Some i) f" "j < length (pm_stops m')" by simp_all
    then show ?thesis by (metis nth_mem)
  qed (simp add: assms(3))
qed (use assms in \<open>auto simp: handles_ok_def\<close>)

text \<open>The steps of callers by kind.\<close>

lemma call_step_cases:
  assumes "manager_step env ev m = Some m'" "task_of ev = None"
  obtains (starts) port mode r where "ev = StartCall port mode" "start_with_mode (de_adb env) port mode m = (r, m')"
  | (stops) "ev = StopCall" "m' = stop_begin m"
  | (joins) k where "stop_joined k m = Some m'"
  | (cleans) k where "stop_cleans (de_adb env) k m = Some m'"
  | (publishes) k where "k < length (pm_stops m)" "pm_stops m ! k = Released"
      "m' = m\<lparr>pm_status := status_disconnected, pm_stops := (pm_stops m)[k := Stopped (Ok ())]\<rparr>"
  | (camera) front taken where "m' = snd (switch_camera front taken m)" "same_handles m m'"
  | (begins) w h rate pref r where "configure_begin w h rate pref m = Some (r, m')" "same_handles m m'"
  | (submits) r where "configure_submit m = Some (r, m')" "same_handles m m'"
  | (ends) r where "configure_end m = Some (r, m')" "same_handles m m'"
proof (cases ev)
  case (StartCall port mode)
  with assms(1) starts show thesis by (cases "start_with_mode (de_adb env) port mode m") auto
next
  case (StopPublishes k)
  with assms(1) publishes show thesis by (auto simp: stop_publish_def split: if_splits)
next
  case (ConfigureCall w h rate pref)
  with assms(1) obtain r where c: "configure_begin w h rate pref m = Some (r, m')" by auto
  then show thesis by (rule begins [OF c call_same_handles(2)])
next
  case ConfigureSubmits
  with assms(1) obtain r where c: "configure_submit m = Some (r, m')" by auto
  then show thesis by (rule submits [OF c call_same_handles(3)])
next
  case ConfigureReturns
  with assms(1) obtain r where c: "configure_end m = Some (r, m')" by auto
  then show thesis by (rule ends [OF c call_same_handles(4)])
next
  case (CameraCall front taken)
  with assms(1) have c: "m' = snd (switch_camera front taken m)" by simp
  then show thesis by (rule camera) (simp add: c call_same_handles(1))
qed (use assms stops joins cleans in simp_all)

lemma handles_ok_step:
  assumes "manager_step env ev m = Some m'" "handles_ok m"
  shows "handles_ok m'"
proof (cases "task_of ev")
  case (Some i)
  from handles_ok_task [OF assms(2) task_step_moves [OF assms(1) Some]] show ?thesis .
next
  case None
  from assms(1) None show ?thesis
  proof (cases rule: call_step_cases)
    case (starts port mode r)
    from handles_ok_start [OF assms(2) starts(2)] show ?thesis .
  next
    case stops
    with assms(2) show ?thesis by (simp add: handles_ok_stop)
  next
    case (joins k)
    then show ?thesis by (cases rule: stop_joined_cases) (auto intro!: handles_ok_stops [OF assms(2)])
  next
    case (cleans k)
    then show ?thesis by (cases rule: stop_cleans_cases) (auto intro!: handles_ok_stops [OF assms(2)])
  next
    case (publishes k)
    then show ?thesis by (auto intro!: handles_ok_stops [OF assms(2)])
  qed (rule handles_ok_same [OF assms(2)], assumption)+
qed

text \<open>The manager as a machine.\<close>

definition manager_begins :: "('a, 'l, 'm, 'w) manager \<Rightarrow> bool" where
  "manager_begins m \<longleftrightarrow> (\<exists>adb. m = manager_new adb)"

definition manager_moves ::
  "('a, 'd, 'i) desktop_env \<Rightarrow> ('a, 'l, 'm, 'w) manager \<Rightarrow> ('a, 'l, 'm, 'w) manager \<Rightarrow> bool" where
  "manager_moves env m m' \<longleftrightarrow> (\<exists>ev. manager_step env ev m = Some m')"

lemma manager_reachable_reaches: "manager_reachable env m \<longleftrightarrow> reaches manager_begins (manager_moves env) m"
proof
  show "manager_reachable env m \<Longrightarrow> reaches manager_begins (manager_moves env) m"
    by (induction rule: manager_reachable.induct)
      (auto simp: manager_begins_def manager_moves_def intro: reaches.intros)
  show "reaches manager_begins (manager_moves env) m \<Longrightarrow> manager_reachable env m"
    by (induction rule: reaches.induct)
      (auto simp: manager_begins_def manager_moves_def intro: manager_reachable.intros)
qed

interpretation managers: step_system manager_begins "manager_moves env" "manager_reachable env" for env
  by unfold_locales (rule manager_reachable_reaches)

lemma reachable_handles_ok:
  assumes "manager_reachable env m"
  shows "handles_ok m"
  using assms
proof (rule managers.invariant)
  show "handles_ok m" if "manager_begins m" for m
    using that by (auto simp: manager_begins_def handles_ok_def manager_new_def phase_of_def)
qed (auto simp: manager_moves_def intro: handles_ok_step)

section \<open>The steps of a task by kind\<close>

lemma after_flow_fields:
  assumes "m' = after_flow i (effs, fl) m" "i < length (pm_tasks m)"
  shows "pm_replies m' = pm_replies m @ replies effs"
    and "pm_connection_sender m' = pm_connection_sender m" "pm_command_sender m' = pm_command_sender m"
    and "t_commands (pm_tasks m' ! i) = t_commands (pm_tasks m ! i)"
    and "phase_of m' i = (case fl of Continue s \<Rightarrow> Looping s | Panicked \<Rightarrow> Crashed | _ \<Rightarrow> Ending)"
    and "pm_status m' = (case fl of
       Exit e \<Rightarrow> status_disconnected
     | Fail e \<Rightarrow> status_error (StreamFailed e)
     | _ \<Rightarrow> (case last_status effs None of None \<Rightarrow> pm_status m | Some st \<Rightarrow> full_status_of st))"
  using after_flow_move [OF assms(2,1)] after_flow_status [OF assms(2)] assms(1) by simp_all

text \<open>
  One rule for each kind: the task clears a sender before it starts, returns before it has a
  connection, listens, accepts a connection, sets a sender, opens the output, takes a turn of
  the actor's loop, begins and ends one that may wait, and withdraws a sender at its end.
\<close>

abbreviation quietly :: "('a, 'l, 'm, 'w) manager \<Rightarrow> ('a, 'l, 'm, 'w) manager \<Rightarrow> nat \<Rightarrow> bool" where
  "quietly m m' i \<equiv> pm_replies m' = pm_replies m \<and> t_commands (pm_tasks m' ! i) = t_commands (pm_tasks m ! i)"

abbreviation same_senders :: "('a, 'l, 'm, 'w) manager \<Rightarrow> ('a, 'l, 'm, 'w) manager \<Rightarrow> bool" where
  "same_senders m m' \<equiv>
     pm_connection_sender m' = pm_connection_sender m \<and> pm_command_sender m' = pm_command_sender m"

inductive task_moves ::
  "nat \<Rightarrow> ('a, 'l, 'm, 'w) manager \<Rightarrow> ('a, 'l, 'm, 'w) manager \<Rightarrow> bool" for i m m' where
  forgets: "phase_of m i = Setup \<and> phase_of m' i = ConnectionForgotten \<and>
      pm_connection_sender m' = None \<and> pm_command_sender m' = pm_command_sender m \<or>
    phase_of m i = ConnectionForgotten \<and> phase_of m' i = SendersForgotten \<and>
      pm_connection_sender m' = pm_connection_sender m \<and> pm_command_sender m' = None \<Longrightarrow>
    quietly m m' i \<Longrightarrow> pm_status m' = pm_status m \<Longrightarrow> task_moves i m m'"
| returns: "phase_of m i = SendersForgotten \<or> phase_of m i = Accepting d ps \<Longrightarrow>
    is_finished (phase_of m' i) \<Longrightarrow> quietly m m' i \<Longrightarrow> same_senders m m' \<Longrightarrow>
    \<not> ps_connected (pm_status m') \<or> phase_of m' i = Crashed \<and> pm_status m' = pm_status m \<Longrightarrow> task_moves i m m'"
| listens: "phase_of m i = SendersForgotten \<Longrightarrow> phase_of m' i = Accepting d ps \<Longrightarrow> quietly m m' i \<Longrightarrow>
    same_senders m m' \<Longrightarrow> pm_status m' = status_listening \<Longrightarrow> task_moves i m m'"
| accepts: "phase_of m i = Accepting d ps \<Longrightarrow> phase_of m' i = Accepted d ps h \<Longrightarrow> quietly m m' i \<Longrightarrow>
    same_senders m m' \<Longrightarrow> pm_status m' = pm_status m \<Longrightarrow> task_moves i m m'"
| connects: "phase_of m i = Accepted d ps h \<and> phase_of m' i = ConnectionOffered d ps h \<and>
      pm_connection_sender m' = Some i \<and> pm_command_sender m' = pm_command_sender m \<or>
    phase_of m i = ConnectionOffered d ps h \<and> phase_of m' i = Opening d ps h \<and>
      pm_connection_sender m' = pm_connection_sender m \<and> pm_command_sender m' = Some i \<Longrightarrow>
    quietly m m' i \<Longrightarrow> pm_status m' = pm_status m \<Longrightarrow> task_moves i m m'"
| opens: "phase_of m i = Opening d ps h \<Longrightarrow> actor_start worker a h d ps = (effs, fl) \<Longrightarrow>
    m' = after_flow i (effs, fl) m \<Longrightarrow> task_moves i m m'"
| turns: "phase_of m i = Looping s \<Longrightarrow> branch_enabled inp s \<Longrightarrow> input_ready i inp m \<Longrightarrow> \<not> turn_waits inp \<Longrightarrow>
    actor_step a inp s = (effs, fl) \<Longrightarrow> m' = after_flow i (effs, fl) (take_input i inp m) \<Longrightarrow> task_moves i m m'"
| takes: "phase_of m i = Looping s \<Longrightarrow> branch_enabled inp s \<Longrightarrow> input_ready i inp m \<Longrightarrow> turn_waits inp \<Longrightarrow>
    m' = set_phase i (Turning inp s) (take_input i inp m) \<Longrightarrow> task_moves i m m'"
| turned: "phase_of m i = Turning inp s \<Longrightarrow> actor_step a inp s = (effs, fl) \<Longrightarrow>
    m' = after_flow i (effs, fl) m \<Longrightarrow> task_moves i m m'"
| ends: "phase_of m i = Ending \<and> phase_of m' i = ConnectionWithdrawn \<and>
      pm_connection_sender m' = None \<and> pm_command_sender m' = pm_command_sender m \<or>
    phase_of m i = ConnectionWithdrawn \<and> phase_of m' i = Finished \<and>
      pm_connection_sender m' = pm_connection_sender m \<and> pm_command_sender m' = None \<Longrightarrow>
    quietly m m' i \<Longrightarrow> pm_status m' = pm_status m \<Longrightarrow> task_moves i m m'"

lemma returned_moves:
  assumes "m' = set_phase i ph m1" "pm_tasks m1 = pm_tasks m" "is_finished ph" "pm_replies m1 = pm_replies m"
    and "phase_of m i = SendersForgotten \<or> phase_of m i = Accepting d ps" "i < length (pm_tasks m)"
    and "same_senders m m1"
    and "\<not> ps_connected (pm_status m1) \<or> ph = Crashed \<and> pm_status m1 = pm_status m"
  shows "task_moves i m m'"
  using assms by (intro task_moves.returns) (auto simp: manager_simps phase_of_set_phase set_phase_nth)

lemma clears_moves:
  assumes "task_clears i m = Some m'" "i < length (pm_tasks m)"
  shows "task_moves i m m'"
  using assms
  by (intro task_moves.forgets)
    (auto simp: task_clears_def manager_simps phase_of_set_phase set_phase_nth split: task_phase.splits)

lemma setup_moves:
  assumes "task_setup env opened micros sock i m = Some m'" "i < length (pm_tasks m)"
  shows "task_moves i m m'"
proof -
  from assms(1) have phase: "phase_of m i = SendersForgotten" by (auto simp: task_setup_def split: task_phase.splits)
  with assms(1) consider e where "m' = fail_task i e m" | "m' = set_phase i Crashed m"
    | d ps where "m' = set_phase i (Accepting d ps) (m\<lparr>pm_status := status_listening\<rparr>)"
    by (auto simp: task_setup_def Let_def split: result.splits if_splits)
  then show ?thesis
  proof cases
    case (1 e)
    from returned_moves [OF this [unfolded fail_task_def]] phase assms(2) show ?thesis by (simp add: status_error_def)
  next
    case 2
    from returned_moves [OF this] phase assms(2) show ?thesis by simp
  next
    case (3 d ps)
    then show ?thesis using phase assms(2)
      by (intro task_moves.listens) (simp_all add: manager_simps phase_of_set_phase set_phase_nth)
  qed
qed

lemma accept_moves:
  assumes "task_accept env sock net i m = Some m'" "i < length (pm_tasks m)"
  shows "task_moves i m m'"
proof -
  from assms(1) obtain d ps where phase: "phase_of m i = Accepting d ps"
    by (auto simp: task_accept_def split: task_phase.splits)
  with assms(1) consider e where "m' = fail_task i e m" | "m' = set_phase i Crashed m"
    | h where "m' = set_phase i (Accepted d ps h) m"
    by (auto simp: task_accept_def split: result.splits prod.splits)
  then show ?thesis
  proof cases
    case (1 e)
    from returned_moves [OF this [unfolded fail_task_def]] phase assms(2) show ?thesis by (simp add: status_error_def)
  next
    case 2
    from returned_moves [OF this] phase assms(2) show ?thesis by simp
  next
    case (3 h)
    then show ?thesis using phase assms(2)
      by (intro task_moves.accepts) (simp_all add: manager_simps phase_of_set_phase set_phase_nth)
  qed
qed

lemma shutdown_moves:
  assumes "task_shutdown i m = Some m'" "i < length (pm_tasks m)"
  shows "task_moves i m m'"
proof -
  from assms(1) obtain d ps where "phase_of m i = Accepting d ps"
      "m' = set_phase i Finished (m\<lparr>pm_status := status_disconnected\<rparr>)"
    by (auto simp: task_shutdown_def split: task_phase.splits if_splits)
  with returned_moves [OF this(2)] assms(2) show ?thesis by (simp add: status_disconnected_def)
qed

lemma connects_moves:
  assumes "task_connects i m = Some m'" "i < length (pm_tasks m)"
  shows "task_moves i m m'"
proof -
  from assms(1) obtain d ps h where "phase_of m i = Accepted d ps h \<or> phase_of m i = ConnectionOffered d ps h"
    by (auto simp: task_connects_def split: task_phase.splits)
  with assms show ?thesis
    by (intro task_moves.connects [of m i d ps h])
      (auto simp: task_connects_def manager_simps phase_of_set_phase set_phase_nth)
qed

lemma open_moves:
  assumes "task_open worker a i m = Some m'"
  shows "task_moves i m m'"
proof -
  from assms obtain d ps h where "phase_of m i = Opening d ps h" "m' = after_flow i (actor_start worker a h d ps) m"
    by (auto simp: task_open_def split: task_phase.splits)
  then show ?thesis by (cases "actor_start worker a h d ps") (auto intro: task_moves.opens)
qed

lemma turn_moves:
  assumes "task_turn a inp i m = Some m'"
  shows "task_moves i m m'"
proof -
  from assms obtain s where "phase_of m i = Looping s" "branch_enabled inp s" "input_ready i inp m" "\<not> turn_waits inp"
      "m' = after_flow i (actor_step a inp s) (take_input i inp m)"
    by (auto simp: task_turn_def split: task_phase.splits if_splits)
  then show ?thesis by (cases "actor_step a inp s") (auto intro: task_moves.turns)
qed

lemma takes_moves:
  assumes "task_takes inp i m = Some m'"
  shows "task_moves i m m'"
  using assms by (auto simp: task_takes_def intro: task_moves.takes split: task_phase.splits if_splits)

lemma turned_moves:
  assumes "task_turned a i m = Some m'"
  shows "task_moves i m m'"
proof -
  from assms obtain inp s where "phase_of m i = Turning inp s" "m' = after_flow i (actor_step a inp s) m"
    by (auto simp: task_turned_def split: task_phase.splits)
  then show ?thesis by (cases "actor_step a inp s") (auto intro: task_moves.turned)
qed

lemma end_moves:
  assumes "task_end i m = Some m'" "i < length (pm_tasks m)"
  shows "task_moves i m m'"
  using assms
  by (intro task_moves.ends)
    (auto simp: task_end_def manager_simps phase_of_set_phase set_phase_nth split: task_phase.splits)

lemma task_step_kinds:
  assumes "manager_step env ev m = Some m'" "task_of ev = Some i"
  shows "task_moves i m m'"
proof -
  have "i < length (pm_tasks m)"
    using task_step_moves [OF assms] phase_in_range [of m i] by (simp add: task_move_def)
  with assms show ?thesis
    by (cases ev) (auto intro: clears_moves setup_moves accept_moves shutdown_moves connects_moves open_moves
        turn_moves takes_moves turned_moves end_moves)
qed

lemmas task_step_cases = task_step_kinds [THEN task_moves.cases, consumes 2,
  case_names forgets returns listens accepts connects opens turns takes turned ends]

section \<open>Senders and actors\<close>

text \<open>
  Between which points of its life a task's channels are behind the locks of the runtime, each
  by itself: from the task's setting the sender to its clearing it.
\<close>

definition offers_connection :: "('l, 'm, 'w) task_phase \<Rightarrow> bool" where
  "offers_connection ph \<longleftrightarrow>
     (case ph of
        ConnectionOffered d ps h \<Rightarrow> True
      | Opening d ps h \<Rightarrow> True
      | Looping s \<Rightarrow> True
      | Turning inp s \<Rightarrow> True
      | Ending \<Rightarrow> True
      | _ \<Rightarrow> False)"

definition offers_commands :: "('l, 'm, 'w) task_phase \<Rightarrow> bool" where
  "offers_commands ph \<longleftrightarrow>
     (case ph of
        Opening d ps h \<Rightarrow> True
      | Looping s \<Rightarrow> True
      | Turning inp s \<Rightarrow> True
      | Ending \<Rightarrow> True
      | ConnectionWithdrawn \<Rightarrow> True
      | _ \<Rightarrow> False)"

lemma offers_connection_simps [simp]:
  "\<not> offers_connection Setup" "\<not> offers_connection ConnectionForgotten" "\<not> offers_connection SendersForgotten"
  "\<not> offers_connection (Accepting d ps)" "\<not> offers_connection (Accepted d ps h)"
  "offers_connection (ConnectionOffered d ps h)" "offers_connection (Opening d ps h)"
  "offers_connection (Looping s)" "offers_connection (Turning inp s)" "offers_connection Ending"
  "\<not> offers_connection ConnectionWithdrawn" "\<not> offers_connection Finished" "\<not> offers_connection Crashed"
  by (simp_all add: offers_connection_def)

lemma offers_commands_simps [simp]:
  "\<not> offers_commands Setup" "\<not> offers_commands ConnectionForgotten" "\<not> offers_commands SendersForgotten"
  "\<not> offers_commands (Accepting d ps)" "\<not> offers_commands (Accepted d ps h)"
  "\<not> offers_commands (ConnectionOffered d ps h)" "offers_commands (Opening d ps h)"
  "offers_commands (Looping s)" "offers_commands (Turning inp s)" "offers_commands Ending"
  "offers_commands ConnectionWithdrawn" "\<not> offers_commands Finished" "\<not> offers_commands Crashed"
  by (simp_all add: offers_commands_def)

lemma offers_live: "offers_connection ph \<or> offers_commands ph \<Longrightarrow> \<not> is_finished ph"
  by (cases ph) auto

text \<open>The actor inside a task, at the \<open>select!\<close> or in a turn, is a reachable one.\<close>

definition actor_ok :: "('l, 'm, 'w) task_phase \<Rightarrow> bool" where
  "actor_ok ph \<longleftrightarrow>
     (case ph of
        Looping s \<Rightarrow> \<exists>ins effs. actor_reachable ins effs s
      | Turning inp s \<Rightarrow> branch_enabled inp s \<and> (\<exists>ins effs. actor_reachable ins effs s)
      | _ \<Rightarrow> True)"

definition senders_ok :: "('a, 'l, 'm, 'w) manager \<Rightarrow> bool" where
  "senders_ok m \<longleftrightarrow>
     (\<forall>i. pm_connection_sender m = Some i \<longrightarrow> offers_connection (phase_of m i) \<or> phase_of m i = Crashed) \<and>
     (\<forall>i. pm_command_sender m = Some i \<longrightarrow> offers_commands (phase_of m i) \<or> phase_of m i = Crashed) \<and>
     (\<forall>i. actor_ok (phase_of m i))"

lemma senders_okD:
  assumes "senders_ok m"
  shows "pm_connection_sender m = Some i \<Longrightarrow> offers_connection (phase_of m i) \<or> phase_of m i = Crashed"
    and "pm_command_sender m = Some i \<Longrightarrow> offers_commands (phase_of m i) \<or> phase_of m i = Crashed"
    and "actor_ok (phase_of m i)"
  using assms unfolding senders_ok_def by blast+

lemma senders_ok_cong:
  assumes "senders_ok m" "\<And>i. phase_of m' i = phase_of m i"
    and "pm_connection_sender m' = None \<or> pm_connection_sender m' = pm_connection_sender m"
    and "pm_command_sender m' = None \<or> pm_command_sender m' = pm_command_sender m"
  shows "senders_ok m'"
  using assms(1,3,4) by (elim disjE) (simp_all add: senders_ok_def assms(2))

lemma senders_ok_moved:
  assumes "task_move i m m'" "senders_ok m"
    and "pm_connection_sender m' \<in> {None, Some i, pm_connection_sender m}"
    and "pm_command_sender m' \<in> {None, Some i, pm_command_sender m}"
    and "pm_connection_sender m' = Some i \<Longrightarrow> offers_connection (phase_of m' i) \<or> phase_of m' i = Crashed"
    and "pm_command_sender m' = Some i \<Longrightarrow> offers_commands (phase_of m' i) \<or> phase_of m' i = Crashed"
    and "actor_ok (phase_of m' i)"
  shows "senders_ok m'"
  unfolding senders_ok_def
proof (intro conjI allI impI)
  fix j
  note other = task_move_other [OF assms(1), of j]
  show "offers_connection (phase_of m' j) \<or> phase_of m' j = Crashed" if j: "pm_connection_sender m' = Some j"
    using j assms(2,3,5) other by (cases "j = i") (auto simp: senders_ok_def)
  show "offers_commands (phase_of m' j) \<or> phase_of m' j = Crashed" if j: "pm_command_sender m' = Some j"
    using j assms(2,4,6) other by (cases "j = i") (auto simp: senders_ok_def)
  show "actor_ok (phase_of m' j)" using assms(2,7) other by (cases "j = i") (auto simp: senders_ok_def)
qed

lemma after_turn_simps [simp]:
  "offers_connection (case fl of Continue s \<Rightarrow> Looping s | Panicked \<Rightarrow> Crashed | _ \<Rightarrow> Ending) \<or>
   (case fl of Continue s \<Rightarrow> Looping s | Panicked \<Rightarrow> Crashed | _ \<Rightarrow> Ending) = Crashed"
  "offers_commands (case fl of Continue s \<Rightarrow> Looping s | Panicked \<Rightarrow> Crashed | _ \<Rightarrow> Ending) \<or>
   (case fl of Continue s \<Rightarrow> Looping s | Panicked \<Rightarrow> Crashed | _ \<Rightarrow> Ending) = Crashed"
  by (simp_all split: flow.splits)

lemma actor_ok_start:
  "actor_start worker a h d ps = (effs, fl) \<Longrightarrow>
   actor_ok (case fl of Continue s \<Rightarrow> Looping s | Panicked \<Rightarrow> Crashed | _ \<Rightarrow> Ending)"
  by (auto simp: actor_ok_def split: flow.splits intro: actor_reachable.start)

lemma actor_ok_turn:
  assumes "actor_reachable ins effs0 s" "branch_enabled inp s" "actor_step a inp s = (effs, fl)"
  shows "actor_ok (case fl of Continue s \<Rightarrow> Looping s | Panicked \<Rightarrow> Crashed | _ \<Rightarrow> Ending)"
  using assms by (auto simp: actor_ok_def split: flow.splits intro: actor_reachable.step)

lemma senders_ok_task:
  assumes "manager_step env ev m = Some m'" "task_of ev = Some i" "senders_ok m"
  shows "senders_ok m'"
proof -
  note move = task_step_moves [OF assms(1,2)]
  note moved = senders_ok_moved [OF move assms(3)]
  have range: "i < length (pm_tasks m)" using move phase_in_range [of m i] by (simp add: task_move_def)
  note own = senders_okD [OF assms(3), of i]
  from assms(1,2) show ?thesis
  proof (cases rule: task_step_cases)
    case forgets
    then show ?thesis using own by (intro moved) (auto simp: actor_ok_def)
  next
    case (returns d ps)
    then have "pm_connection_sender m \<noteq> Some i" "pm_command_sender m \<noteq> Some i" using own by auto
    with returns show ?thesis by (intro moved) (auto simp: actor_ok_def is_finished_iff)
  next
    case (listens d ps)
    then show ?thesis using own by (intro moved) (auto simp: actor_ok_def)
  next
    case (accepts d ps h)
    then show ?thesis using own by (intro moved) (auto simp: actor_ok_def)
  next
    case (connects d ps h)
    then show ?thesis using own by (intro moved) (auto simp: actor_ok_def)
  next
    case (opens d ps h worker a effs fl)
    note f = after_flow_fields [OF opens(3) range]
    show ?thesis by (rule moved) (simp_all add: f actor_ok_start [OF opens(2)])
  next
    case (turns s inp a effs fl)
    have "i < length (pm_tasks (take_input i inp m))" using range by (simp add: manager_simps)
    note f = after_flow_fields [OF turns(6) this]
    from own(3) turns(1) obtain ins effs0 where "actor_reachable ins effs0 s" by (auto simp: actor_ok_def)
    from actor_ok_turn [OF this turns(2,5)] show ?thesis by (intro moved) (simp_all add: f manager_simps)
  next
    case (takes s inp)
    have "phase_of m' i = Turning inp s" using takes(5) range by (simp add: phase_of_set_phase manager_simps)
    then show ?thesis using own(3) takes by (intro moved) (simp_all add: manager_simps actor_ok_def)
  next
    case (turned inp s a effs fl)
    note f = after_flow_fields [OF turned(3) range]
    from own(3) turned(1) obtain ins effs0 where "actor_reachable ins effs0 s" "branch_enabled inp s"
      by (auto simp: actor_ok_def)
    from actor_ok_turn [OF this turned(2)] show ?thesis by (intro moved) (simp_all add: f)
  next
    case ends
    then show ?thesis using own by (intro moved) (auto simp: actor_ok_def)
  qed
qed

lemma senders_ok_start:
  assumes "start_with_mode h port mode m = (r, m')" "senders_ok m"
  shows "senders_ok m'"
  using assms(1)
proof (cases rule: start_cases)
  case (failed adb)
  then show ?thesis by (intro senders_ok_cong [OF assms(2)]) (auto intro: phase_of_cong)
next
  case (spawned adb forward listen_port)
  have phases: "phase_of m' i = (if i = length (pm_tasks m) then Setup else phase_of m i)" for i
    using spawned(5) by (simp add: phase_of_append Pipeline_Manager.spawned_def)
  have new: "phase_of m (length (pm_tasks m)) = Finished" by (simp add: phase_of_def)
  with assms(2) have "pm_connection_sender m \<noteq> Some (length (pm_tasks m))"
      "pm_command_sender m \<noteq> Some (length (pm_tasks m))"
    by (auto simp: senders_ok_def)
  with assms(2) show ?thesis
    unfolding senders_ok_def phases by (auto simp: spawned(5) actor_ok_def)
qed (use assms(2) in simp)

lemma senders_ok_same: "senders_ok m \<Longrightarrow> same_handles m m' \<Longrightarrow> senders_ok m'"
  by (simp add: senders_ok_def same_handles_def)

lemma senders_ok_step:
  assumes "manager_step env ev m = Some m'" "senders_ok m" "handles_ok m"
  shows "senders_ok m'"
proof (cases "task_of ev")
  case (Some i)
  from senders_ok_task [OF assms(1) Some assms(2)] show ?thesis .
next
  case None
  from assms(1) None show ?thesis
  proof (cases rule: call_step_cases)
    case (starts port mode r)
    from senders_ok_start [OF starts(2) assms(2)] show ?thesis .
  next
    case stops
    then show ?thesis using stop_begin_fields [OF assms(3)] by (intro senders_ok_cong [OF assms(2)]) auto
  next
    case (joins k)
    then show ?thesis
      by (cases rule: stop_joined_cases) (auto intro!: senders_ok_cong [OF assms(2)] phase_of_cong)
  next
    case (cleans k)
    then show ?thesis
      by (cases rule: stop_cleans_cases) (auto intro!: senders_ok_cong [OF assms(2)] phase_of_cong)
  next
    case (publishes k)
    then show ?thesis by (auto intro!: senders_ok_cong [OF assms(2)] phase_of_cong)
  qed (rule senders_ok_same [OF assms(2)], assumption)+
qed

lemma reachable_senders_ok:
  assumes "manager_reachable env m"
  shows "senders_ok m"
  using assms
proof (rule managers.invariant)
  show "senders_ok m" if "manager_begins m" for m
    using that by (auto simp: manager_begins_def senders_ok_def manager_new_def phase_of_def actor_ok_def)
qed (auto simp: manager_moves_def intro: senders_ok_step reachable_handles_ok)

end
