(* ===== verification/Manager_Calls.thy ===== *)
theory Manager_Calls
  imports Manager_Invariants
begin

text \<open>
  The calls of \<open>configure_stream\<close>: every token handed out is in exactly one place (a call that
  submits it, a command queue, the turn of an actor, the actor's pending request, or the
  delivered replies) until its call returns.
\<close>

section \<open>The tokens an actor step answers\<close>

lemma commit_tokens: "commit_and_reset a p d = (effs, r, d') \<Longrightarrow> tokens_replied effs = {#}"
  by (auto simp: commit_and_reset_def split: prod.splits result.splits option.splits)

lemma request_tokens: "request_configuration a p kind s = (effs, fl) \<Longrightarrow> tokens_replied effs = {#}"
  by (auto simp: request_configuration_def Let_def split: if_splits)

lemma plain_tokens: "list_all plain_effect effs \<Longrightarrow> tokens_replied effs = {#}"
  by (simp add: tokens_replied_def plain_effects)

lemma unsolicited_stops_silently:
  assumes "on_unsolicited_result a out s = (effs, fl)" "stops fl"
  shows "tokens_replied effs = {#}"
  using assms
  by (auto simp: on_unsolicited_result_def Let_def dest: commit_tokens request_tokens
      split: stream_configuration_outcome.splits if_splits prod.splits commit_outcome.splits)

lemma configure_stops_silently:
  assumes "on_configure_result a cur prior rep out s = (effs, fl)" "stops fl"
  shows "tokens_replied effs = {#}"
  using assms
  by (auto simp: on_configure_result_def Let_def dest: commit_tokens request_tokens
      split: stream_configuration_outcome.splits if_splits prod.splits commit_outcome.splits)

lemma compensation_stops:
  assumes "on_compensation_result a prior e rep out s = (effs, fl)" "stops fl"
  shows "tokens_replied effs \<subseteq># outstanding rep"
  using assms
  by (auto simp: on_compensation_result_def Let_def dest: commit_tokens
      split: if_splits prod.splits commit_outcome.splits reconfigure_failure.splits)

lemma result_stops:
  assumes "on_configuration_result a r s = (effs, fl)" "stops fl"
  shows "tokens_replied effs \<subseteq># outstanding (pending_reply s)"
proof (cases "pending s")
  case None
  with assms have "tokens_replied effs = {#}"
    by (auto simp: on_configuration_result_def dest: unsolicited_stops_silently split: if_splits)
  then show ?thesis by simp
next
  case (Some cur)
  show ?thesis
  proof (cases "pc_kind cur")
    case (Configure prior rep)
    with assms Some have "tokens_replied effs = {#}"
      by (auto simp: on_configuration_result_def dest: configure_stops_silently split: if_splits)
    then show ?thesis by simp
  next
    case (Compensation prior e rep)
    with assms Some show ?thesis
      by (auto simp: on_configuration_result_def pending_reply_def dest: compensation_stops split: if_splits)
  qed
qed

lemma actor_step_stop_tokens:
  assumes "actor_step a i s = (effs, fl)" "stops fl"
  shows "tokens_replied effs \<subseteq># outstanding (pending_reply s)"
proof (cases i)
  case Tick
  with assms show ?thesis
    by (auto simp: actor_step_def on_tick_def pending_reply_def
        split: option.splits if_splits pending_kind.splits)
next
  case (Command c)
  with assms have "tokens_replied effs = {#}"
    by (auto simp: actor_step_def on_command_def dest: request_tokens
        split: option.splits if_splits result.splits)
  then show ?thesis by simp
next
  case (DecoderEvent ev)
  with assms(1) have "list_all plain_effect effs"
    using on_decoder_event_effects [of a ev s effs fl "active s"] by (simp add: actor_step_def)
  then show ?thesis by (simp add: plain_tokens)
next
  case (PeerMessage m)
  have "tokens_replied effs = {#}" if "on_video_frame a f s = (effs, fl)" for f
    using on_video_frame_effects [OF that] by (simp add: plain_tokens)
  moreover have "tokens_replied effs = {#}" if "on_capabilities u s = (effs, fl)" for u
    using that assms(2) by (auto simp: on_capabilities_def Let_def split: if_splits)
  moreover note result_stops [of a _ s effs fl]
  ultimately show ?thesis
    using assms PeerMessage
    by (auto simp: actor_step_def on_message_def split: option.splits message.splits)
qed (use assms in \<open>auto simp: actor_step_def on_state_changed_def split: if_splits\<close>)

text \<open>What a streaming task holds: the commands in its queue, the one it works on, and the pending request.\<close>

definition held :: "('a, 'l, 'm, 'w) manager \<Rightarrow> nat \<Rightarrow> reply_token multiset" where
  "held m i =
     mset (map cmd_reply (t_commands (pm_tasks m ! i))) +
     (case phase_of m i of
        Looping s \<Rightarrow> outstanding (pending_reply s)
      | Turning inp s \<Rightarrow> step_tokens inp + outstanding (pending_reply s)
      | _ \<Rightarrow> {#})"

text \<open>What the caller in \<open>configure_stream\<close> is still waiting for from the task.\<close>

definition awaited :: "('a, 'l, 'm, 'w) manager \<Rightarrow> nat \<Rightarrow> reply_token multiset" where
  "awaited m i =
     (case pm_configuring m of
        Some (Awaiting t j) \<Rightarrow> if j = i \<and> t \<notin> fst ` set (pm_replies m) then {#t#} else {#}
      | _ \<Rightarrow> {#})"

definition is_young :: "('l, 'm, 'w) task_phase \<Rightarrow> bool" where
  "is_young ph \<longleftrightarrow>
     (case ph of
        Setup \<Rightarrow> True
      | ConnectionForgotten \<Rightarrow> True
      | SendersForgotten \<Rightarrow> True
      | Accepting d ps \<Rightarrow> True
      | _ \<Rightarrow> False)"

lemma is_young_simps [simp]:
  "is_young Setup" "is_young ConnectionForgotten" "is_young SendersForgotten" "is_young (Accepting d ps)"
  "\<not> is_young (Accepted d ps h)" "\<not> is_young (ConnectionOffered d ps h)" "\<not> is_young (Opening d ps h)"
  "\<not> is_young (Looping s)" "\<not> is_young (Turning inp s)" "\<not> is_young Ending"
  "\<not> is_young ConnectionWithdrawn" "\<not> is_young Finished" "\<not> is_young Crashed"
  by (simp_all add: is_young_def)

lemma streaming_not_young: "is_streaming ph \<Longrightarrow> \<not> is_young ph"
  by (cases ph) auto

lemma offers_not_young: "offers_commands ph \<or> ph = Crashed \<Longrightarrow> \<not> is_young ph"
  by (cases ph) auto

definition calls_ok :: "('a, 'l, 'm, 'w) manager \<Rightarrow> bool" where
  "calls_ok m \<longleftrightarrow>
     (\<forall>t i. pm_configuring m = Some (Awaiting t i) \<longrightarrow>
        t < pm_next_token m \<and> i < length (pm_tasks m) \<and> \<not> is_young (phase_of m i)) \<and>
     (\<forall>c i. pm_configuring m = Some (Submitting c i) \<longrightarrow>
        cmd_reply c < pm_next_token m \<and> i < length (pm_tasks m) \<and> \<not> is_young (phase_of m i) \<and>
        cmd_reply c \<notin> fst ` set (pm_replies m)) \<and>
     distinct (map fst (pm_replies m)) \<and> (\<forall>t r. (t, r) \<in> set (pm_replies m) \<longrightarrow> t < pm_next_token m) \<and>
     (\<forall>i. is_streaming (phase_of m i) \<longrightarrow> held m i = awaited m i) \<and>
     (\<forall>i. is_young (phase_of m i) \<longrightarrow> t_commands (pm_tasks m ! i) = [])"

lemma calls_okD:
  assumes "calls_ok m"
  shows "pm_configuring m = Some (Awaiting t i) \<Longrightarrow>
      t < pm_next_token m \<and> i < length (pm_tasks m) \<and> \<not> is_young (phase_of m i)"
    and "pm_configuring m = Some (Submitting c i) \<Longrightarrow>
      cmd_reply c < pm_next_token m \<and> i < length (pm_tasks m) \<and> \<not> is_young (phase_of m i) \<and>
      cmd_reply c \<notin> fst ` set (pm_replies m)"
    and "distinct (map fst (pm_replies m))"
    and "(t, r) \<in> set (pm_replies m) \<Longrightarrow> t < pm_next_token m"
    and "is_streaming (phase_of m i) \<Longrightarrow> held m i = awaited m i"
    and "is_young (phase_of m i) \<Longrightarrow> t_commands (pm_tasks m ! i) = []"
  using assms unfolding calls_ok_def by blast+

lemma active_in_range:
  "is_streaming (phase_of m i) \<or> is_young (phase_of m i) \<Longrightarrow> i < length (pm_tasks m)"
  by (auto simp: phase_of_def split: if_splits)

lemma awaited_cong:
  "pm_configuring m' = pm_configuring m \<Longrightarrow> pm_replies m' = pm_replies m \<Longrightarrow> awaited m' i = awaited m i"
  by (simp add: awaited_def split: option.split configure_call.split)

lemma held_move: "task_move i m m' \<Longrightarrow> j \<noteq> i \<Longrightarrow> j < length (pm_tasks m) \<Longrightarrow> held m' j = held m j"
  by (simp add: held_def task_move_other) (simp add: task_move_def)

text \<open>The calls of a manager whose tasks, calls and replies are the same.\<close>

lemma calls_ok_cong:
  assumes "calls_ok m" "length (pm_tasks m') = length (pm_tasks m)" "\<And>j. phase_of m' j = phase_of m j"
    and "\<And>j. j < length (pm_tasks m) \<Longrightarrow> t_commands (pm_tasks m' ! j) = t_commands (pm_tasks m ! j)"
    and "pm_configuring m' = pm_configuring m" "pm_replies m' = pm_replies m" "pm_next_token m' = pm_next_token m"
  shows "calls_ok m'"
proof -
  note range = active_in_range [of m]
  have "held m' j = held m j" if "is_streaming (phase_of m j)" for j
    using assms(3,4) range that by (simp add: held_def)
  moreover have "awaited m' j = awaited m j" for j using assms by (intro awaited_cong)
  ultimately show ?thesis using assms range by (auto simp: calls_ok_def)
qed

lemma mset_subset_single: "mset xs \<subseteq># {#t#} \<Longrightarrow> xs = [] \<or> xs = [t]"
proof (cases xs)
  case (Cons x ys)
  assume sub: "mset xs \<subseteq># {#t#}"
  from size_mset_mono [OF sub] Cons have "ys = []" by simp
  with mset_subset_eqD [OF sub, of x] Cons show ?thesis by simp
qed simp

text \<open>A task's step that has answered \<open>rs\<close>, of what the task held.\<close>

lemma calls_ok_answers:
  assumes "calls_ok m" "task_move i m m'" "pm_replies m' = pm_replies m @ rs"
    and "is_young (phase_of m' i) \<Longrightarrow> is_young (phase_of m i) \<and> t_commands (pm_tasks m' ! i) = t_commands (pm_tasks m ! i)"
    and "mset (map fst rs) \<subseteq># awaited m i"
    and "is_streaming (phase_of m' i) \<Longrightarrow> held m' i + mset (map fst rs) = awaited m i"
  shows "calls_ok m'"
proof -
  note other = task_move_other [OF assms(2)]
  have same: "pm_configuring m' = pm_configuring m" "pm_next_token m' = pm_next_token m"
      "length (pm_tasks m') = length (pm_tasks m)" and range: "i < length (pm_tasks m)"
    using assms(2) phase_in_range [of m i] by (auto simp: task_move_def)
  have rs: "rs = [] \<or>
      (\<exists>t r. rs = [(t, r)] \<and> pm_configuring m = Some (Awaiting t i) \<and> t \<notin> fst ` set (pm_replies m))"
  proof (cases "awaited m i = {#}")
    case False
    then obtain t where t: "pm_configuring m = Some (Awaiting t i)" "t \<notin> fst ` set (pm_replies m)" "awaited m i = {#t#}"
      by (auto simp: awaited_def split: option.splits configure_call.splits if_splits)
    with assms(5) mset_subset_single [of "map fst rs" t] have "map fst rs = [] \<or> map fst rs = [t]" by simp
    then show ?thesis using t(1,2) by auto
  qed (use assms(5) in simp)
  have awaited: "awaited m' j = (if rs = [] \<or> j \<noteq> i then awaited m j else {#})" for j
    using rs assms(3) same by (auto simp: awaited_def split: option.splits configure_call.splits)
  have old: "\<not> is_young (phase_of m' j)" if "\<not> is_young (phase_of m j)" for j
    using that assms(4) other [of j] by (cases "j = i") auto
  show ?thesis
    unfolding calls_ok_def
  proof (intro conjI allI impI)
    fix j
    assume "is_streaming (phase_of m' j)"
    then show "held m' j = awaited m' j"
      using assms(6) calls_okD(5) [OF assms(1), of j] rs awaited other [of j] held_move [OF assms(2), of j]
        active_in_range [of m j]
      by (cases "j = i") (auto simp: awaited_def split: if_splits)
  next
    fix j
    assume young: "is_young (phase_of m' j)"
    then have "is_young (phase_of m j)" using old by blast
    with young show "t_commands (pm_tasks m' ! j) = []"
      using calls_okD(6) [OF assms(1), of j] assms(2,4) active_in_range [of m j]
      by (cases "j = i") (auto simp: task_move_def)
  next
    show "distinct (map fst (pm_replies m'))"
      using calls_okD(3) [OF assms(1)] assms(3) rs by (auto simp: image_iff)
    show "t < pm_next_token m'" if "(t, r) \<in> set (pm_replies m')" for t r
      using that calls_okD(1,4) [OF assms(1)] assms(3) rs same by auto
  next
    fix t j
    assume call: "pm_configuring m' = Some (Awaiting t j)"
    then show "t < pm_next_token m'" "j < length (pm_tasks m')" "\<not> is_young (phase_of m' j)"
      using calls_okD(1) [OF assms(1), of t j] same old by simp_all
  next
    fix c j
    assume call: "pm_configuring m' = Some (Submitting c j)"
    then have "rs = []" using rs same by auto
    with call show "cmd_reply c < pm_next_token m'" "j < length (pm_tasks m')" "\<not> is_young (phase_of m' j)"
        "cmd_reply c \<notin> fst ` set (pm_replies m')"
      using calls_okD(2) [OF assms(1), of c j] same old assms(3) by simp_all
  qed
qed

text \<open>The step of a task.\<close>

lemma start_answers_nothing: "actor_start worker a h d ps = (effs, fl) \<Longrightarrow> replies effs = []"
  by (auto simp: actor_start_def Let_def publish_def split: option.splits if_splits prod.splits result.splits)

lemma start_pending: "actor_start worker a h d ps = (effs, Continue s) \<Longrightarrow> pending_reply s = None"
  by (auto simp: actor_start_def Let_def pending_reply_def split: option.splits if_splits prod.splits result.splits)

lemma take_input_commands:
  assumes "input_ready i inp m" "i < length (pm_tasks m)"
  shows "mset (map cmd_reply (t_commands (pm_tasks (take_input i inp m) ! i))) + step_tokens inp =
    mset (map cmd_reply (t_commands (pm_tasks m ! i)))"
  using assms
  by (auto simp: input_ready_def take_input_def step_tokens_def update_task_nth
      split: actor_input.splits option.splits list.splits)

lemma tokens_moved:
  fixes rs :: "'t multiset"
  assumes "rs + after = before + taken" "queue' + taken = queue" "queue + before = allt"
  shows "queue' + after + rs = allt"
proof -
  have "queue' + after + rs = queue' + (rs + after)" by (simp add: ac_simps)
  also have "\<dots> = queue' + (before + taken)" by (simp only: assms(1))
  also have "\<dots> = (queue' + taken) + before" by (simp add: ac_simps)
  finally show ?thesis by (simp add: assms(2,3))
qed

text \<open>The answers of a turn are to commands held by the task.\<close>

lemma turn_answers_held:
  assumes "actor_step a inp s = (effs, fl)" "branch_enabled inp s" "actor_inv s"
    and "step_tokens inp \<subseteq># queue"
  shows "tokens_replied effs \<subseteq># queue + outstanding (pending_reply s)"
proof (cases "\<exists>s'. fl = Continue s'")
  case True
  then obtain s' where "fl = Continue s'" by blast
  with actor_step_replies [OF _ assms(2,3)] assms(1)
  have "tokens_replied effs \<subseteq># outstanding (pending_reply s) + step_tokens inp"
    by (metis mset_subset_eq_add_left)
  also have "\<dots> \<subseteq># queue + outstanding (pending_reply s)" using assms(4) by simp
  finally show ?thesis .
next
  case False
  then have "tokens_replied effs \<subseteq># outstanding (pending_reply s)"
    using actor_step_stop_tokens [OF assms(1)] by (simp add: stops_def)
  also have "\<dots> \<subseteq># queue + outstanding (pending_reply s)" by simp
  finally show ?thesis .
qed

lemma calls_ok_turn:
  assumes "task_move i m m'" "calls_ok m" "phase_of m i = Looping s" "actor_inv s" "branch_enabled inp s"
    and "actor_step a inp s = (effs, fl)" "input_ready i inp m" "m' = after_flow i (effs, fl) (take_input i inp m)"
  shows "calls_ok m'"
proof -
  have range: "i < length (pm_tasks m)" using assms(1) phase_in_range [of m i] by (simp add: task_move_def)
  then have "i < length (pm_tasks (take_input i inp m))" by (simp add: manager_simps)
  note f = after_flow_fields [OF assms(8) this]
  have held: "held m i = awaited m i" using assms(2,3) by (simp add: calls_ok_def)
  have queue: "mset (map cmd_reply (t_commands (pm_tasks m' ! i))) + step_tokens inp =
      mset (map cmd_reply (t_commands (pm_tasks m ! i)))"
    using take_input_commands [OF assms(7) range] by (simp add: f)
  show ?thesis
  proof (rule calls_ok_answers [OF assms(2,1)])
    show "pm_replies m' = pm_replies m @ replies effs" by (simp add: f manager_simps)
    show "held m' i + mset (map fst (replies effs)) = awaited m i" if streaming: "is_streaming (phase_of m' i)"
    proof -
      obtain s' where fl: "fl = Continue s'" using streaming by (auto simp: f split: flow.splits)
      have total: "mset (map cmd_reply (t_commands (pm_tasks m ! i))) + outstanding (pending_reply s) = awaited m i"
        using held assms(3) by (simp add: held_def)
      from tokens_moved [OF actor_step_replies [OF assms(6) [unfolded fl] assms(5,4)] queue total]
      show ?thesis unfolding held_def by (simp add: f(5) fl tokens_replied_def)
    qed
    from queue have "step_tokens inp \<subseteq># mset (map cmd_reply (t_commands (pm_tasks m ! i)))"
      by (metis mset_subset_eq_add_right)
    from turn_answers_held [OF assms(6,5,4) this]
    show "mset (map fst (replies effs)) \<subseteq># awaited m i"
      using held assms(3) by (simp add: held_def tokens_replied_def)
  qed (auto simp: f split: flow.splits)
qed

text \<open>The end of a turn that waited, and its begin.\<close>

lemma calls_ok_turned:
  assumes "task_move i m m'" "calls_ok m" "phase_of m i = Turning inp s" "actor_inv s" "branch_enabled inp s"
    and "actor_step a inp s = (effs, fl)" "m' = after_flow i (effs, fl) m"
  shows "calls_ok m'"
proof -
  have range: "i < length (pm_tasks m)" using assms(1) phase_in_range [of m i] by (simp add: task_move_def)
  note f = after_flow_fields [OF assms(7) range]
  let ?queue = "mset (map cmd_reply (t_commands (pm_tasks m ! i)))"
  have held: "?queue + (step_tokens inp + outstanding (pending_reply s)) = awaited m i"
    using calls_okD(5) [OF assms(2), of i] assms(3) by (simp add: held_def)
  show ?thesis
  proof (rule calls_ok_answers [OF assms(2,1) f(1)])
    show "held m' i + mset (map fst (replies effs)) = awaited m i" if streaming: "is_streaming (phase_of m' i)"
    proof -
      obtain s' where fl: "fl = Continue s'" using streaming by (auto simp: f split: flow.splits)
      have total: "(?queue + step_tokens inp) + outstanding (pending_reply s) = awaited m i"
        using held by (simp add: ac_simps)
      from tokens_moved [OF actor_step_replies [OF assms(6) [unfolded fl] assms(5,4)] refl total]
      show ?thesis unfolding held_def by (simp add: f fl tokens_replied_def)
    qed
    have "step_tokens inp \<subseteq># ?queue + step_tokens inp" by simp
    from turn_answers_held [OF assms(6,5,4) this]
    show "mset (map fst (replies effs)) \<subseteq># awaited m i"
      using held by (simp add: tokens_replied_def ac_simps)
  qed (auto simp: f split: flow.splits)
qed

lemma calls_ok_takes:
  assumes "task_move i m m'" "calls_ok m" "phase_of m i = Looping s" "input_ready i inp m"
    and "m' = set_phase i (Turning inp s) (take_input i inp m)"
  shows "calls_ok m'"
proof -
  have range: "i < length (pm_tasks m)" using assms(1) phase_in_range [of m i] by (simp add: task_move_def)
  have phase: "phase_of m' i = Turning inp s" using assms(5) range by (simp add: phase_of_set_phase manager_simps)
  have "t_commands (pm_tasks m' ! i) = t_commands (pm_tasks (take_input i inp m) ! i)"
    using range by (simp add: assms(5) set_phase_nth manager_simps)
  then have "held m' i = held m i"
    using take_input_commands [OF assms(4) range] by (simp add: held_def phase assms(3) add.assoc [symmetric])
  then show ?thesis
    using calls_okD(5) [OF assms(2), of i] assms(3)
    by (intro calls_ok_answers [OF assms(2,1), of "[]"]) (simp_all add: assms(5) manager_simps phase [unfolded assms(5)])
qed

lemma calls_ok_task:
  assumes "manager_step env ev m = Some m'" "task_of ev = Some i" "calls_ok m" "senders_ok m"
  shows "calls_ok m'"
proof -
  note move = task_step_moves [OF assms(1,2)]
  note unanswered = calls_ok_answers [OF assms(3) move, of "[]"]
  have range: "i < length (pm_tasks m)" using move phase_in_range [of m i] by (simp add: task_move_def)
  from assms(1,2) show ?thesis
  proof (cases rule: task_step_cases)
    case forgets
    then show ?thesis by (intro unanswered) auto
  next
    case (returns d ps)
    then show ?thesis by (intro unanswered) (auto simp: is_finished_iff)
  next
    case (accepts d ps h)
    have "t_commands (pm_tasks m ! i) = []" "pm_configuring m \<noteq> Some (Awaiting t i)" for t
      using calls_okD(1,6) [OF assms(3)] accepts(1) by auto
    then have "held m' i = {#}" "awaited m i = {#}"
      using accepts by (auto simp: held_def awaited_def split: option.splits configure_call.splits)
    then show ?thesis using accepts by (intro unanswered) auto
  next
    case (connects d ps h)
    then have "held m' i = awaited m i" using calls_okD(5) [OF assms(3), of i] by (auto simp: held_def)
    then show ?thesis using connects by (intro unanswered) auto
  next
    case (opens d ps h worker a effs fl)
    note f = after_flow_fields [OF opens(3) range]
    have held: "held m i = awaited m i" using calls_okD(5) [OF assms(3), of i] opens(1) by simp
    show ?thesis
    proof (rule calls_ok_answers [OF assms(3) move f(1)])
      show "held m' i + mset (map fst (replies effs)) = awaited m i" if "is_streaming (phase_of m' i)"
        using that opens(1,2) held start_answers_nothing [OF opens(2)]
        by (auto simp: f held_def start_pending split: flow.splits)
      show "mset (map fst (replies effs)) \<subseteq># awaited m i"
        by (simp add: start_answers_nothing [OF opens(2)])
    qed (auto simp: f split: flow.splits)
  next
    case (turns s inp a effs fl)
    from assms(4) turns(1) have "actor_ok (Looping s)" unfolding senders_ok_def by metis
    then have "actor_inv s" by (auto simp: actor_ok_def reachable_inv)
    from calls_ok_turn [OF move assms(3) turns(1) this turns(2,5,3,6)] show ?thesis .
  next
    case (takes s inp)
    from calls_ok_takes [OF move assms(3) takes(1,3,5)] show ?thesis .
  next
    case (turned inp s a effs fl)
    from assms(4) turned(1) have "actor_ok (Turning inp s)" unfolding senders_ok_def by metis
    then have "actor_inv s" "branch_enabled inp s" by (auto simp: actor_ok_def reachable_inv)
    from calls_ok_turned [OF move assms(3) turned(1) this turned(2,3)] show ?thesis .
  qed (auto intro: unanswered)
qed

section \<open>The calls\<close>

lemma configure_begin_cases:
  assumes "configure_begin w h rate pref m = Some (r, m')"
  obtains (refused) e where "r = Some e" "m' = m"
  | (cloned) i c where "r = None" "pm_configuring m = None" "pm_command_sender m = Some i"
      "cmd_reply c = pm_next_token m"
      "m' = m\<lparr>pm_configuring := Some (Submitting c i), pm_next_token := pm_next_token m + 1\<rparr>"
proof (cases "pm_command_sender m")
  case None
  with assms show thesis by (intro refused) (auto simp: configure_begin_def split: if_splits)
next
  case (Some i)
  with assms show thesis
    by (intro cloned [of i "\<lparr>cmd_width = w, cmd_height = h, cmd_fps = rate, cmd_preference = pref,
        cmd_reply = pm_next_token m\<rparr>"])
      (auto simp: configure_begin_def Let_def split: if_splits)
qed

lemma calls_ok_begin:
  assumes "configure_begin w h rate pref m = Some (r, m')" "calls_ok m" "senders_ok m"
  shows "calls_ok m'"
  using assms(1)
proof (cases rule: configure_begin_cases)
  case (cloned i c)
  note free = cloned(2) and sender = cloned(3) and c = cloned(4) and m' = cloned(5)
  have phases: "phase_of m' j = phase_of m j" for j by (simp add: m')
  from sender assms(3) have old: "\<not> is_young (phase_of m i)" "i < length (pm_tasks m)"
    using offers_not_young by (auto simp: senders_ok_def phase_of_def split: if_splits)
  have fresh: "pm_next_token m \<notin> fst ` set (pm_replies m)" using calls_okD(4) [OF assms(2)] by fastforce
  have "held m' j = held m j" "awaited m' j = awaited m j" for j
    using free by (simp_all add: held_def phases awaited_def) (simp_all add: m')
  then show ?thesis
    using assms(2) old fresh c free unfolding calls_ok_def phases by (auto simp: m' dest: less_SucI)
qed (use assms(2) in simp)

lemma configure_submit_cases:
  assumes "configure_submit m = Some (r, m')"
  obtains (refused) c i where "pm_configuring m = Some (Submitting c i)" "\<not> is_streaming (phase_of m i)"
      "r = Some ActorStopped" "m' = m\<lparr>pm_configuring := None\<rparr>"
  | (queued) c i where "pm_configuring m = Some (Submitting c i)" "is_streaming (phase_of m i)" "r = None"
      "length (t_commands (pm_tasks m ! i)) < PIPELINE_COMMAND_CAPACITY"
      "m' = update_task i (\<lambda>t. t\<lparr>t_commands := t_commands t @ [c]\<rparr>)
        (m\<lparr>pm_configuring := Some (Awaiting (cmd_reply c) i)\<rparr>)"
  using assms by (auto simp: configure_submit_def split: option.splits configure_call.splits if_splits)

lemma calls_ok_submit:
  assumes "configure_submit m = Some (r, m')" "calls_ok m"
  shows "calls_ok m'"
  using assms(1)
proof (cases rule: configure_submit_cases)
  case (refused c i)
  have phases: "phase_of m' j = phase_of m j" for j by (simp add: refused)
  have "held m' j = held m j" "awaited m' j = awaited m j" for j
    by (simp_all add: held_def phases awaited_def refused(1)) (simp_all add: refused(4))
  then show ?thesis using assms(2) unfolding calls_ok_def phases by (simp add: refused(4))
next
  case (queued c i)
  note call = calls_okD(2) [OF assms(2) queued(1)]
  have phases: "phase_of m' j = phase_of m j" for j
    using call_same_handles(3) [OF assms(1)] by (simp add: same_handles_def)
  have fields: "pm_configuring m' = Some (Awaiting (cmd_reply c) i)" "pm_next_token m' = pm_next_token m"
      "pm_replies m' = pm_replies m" "length (pm_tasks m') = length (pm_tasks m)"
    by (simp_all add: queued manager_simps)
  have commands: "t_commands (pm_tasks m' ! j) = t_commands (pm_tasks m ! j) @ (if j = i then [c] else [])"
    if "j < length (pm_tasks m)" for j
    using that by (simp add: queued update_task_nth)
  have none: "awaited m j = {#}" for j using queued(1) by (simp add: awaited_def)
  have "held m' j = awaited m' j" if "is_streaming (phase_of m j)" for j
  proof -
    have "held m j = {#}" using calls_okD(5) [OF assms(2) that] none by simp
    moreover have "held m' j = held m j + (if j = i then {#cmd_reply c#} else {#})"
      using active_in_range [of m j] that by (simp add: held_def phases commands)
    ultimately show ?thesis using call by (simp add: awaited_def fields)
  qed
  moreover have "t_commands (pm_tasks m' ! j) = []" if "is_young (phase_of m j)" for j
  proof -
    have "j \<noteq> i" using that call by auto
    then show ?thesis using that calls_okD(6) [OF assms(2) that] active_in_range [of m j] by (simp add: commands)
  qed
  ultimately show ?thesis using assms(2) call unfolding calls_ok_def phases fields by auto
qed

lemma configure_end_cases:
  assumes "configure_end m = Some (r, m')"
  obtains (answered) t i rep where "pm_configuring m = Some (Awaiting t i)" "map_of (pm_replies m) t = Some rep"
      "r = map_err ActorAnswered rep" "m' = m\<lparr>pm_configuring := None\<rparr>"
  | (dropped) t i where "pm_configuring m = Some (Awaiting t i)" "t \<notin> fst ` set (pm_replies m)"
      "\<not> is_streaming (phase_of m i)" "r = Err ReplyDropped" "m' = m\<lparr>pm_configuring := None\<rparr>"
  using assms
  by (auto simp: configure_end_def map_of_eq_None_iff split: option.splits configure_call.splits if_splits)

lemma calls_ok_end:
  assumes "configure_end m = Some (r, m')" "calls_ok m"
  shows "calls_ok m'"
proof -
  obtain t i where call: "pm_configuring m = Some (Awaiting t i)" and m': "m' = m\<lparr>pm_configuring := None\<rparr>"
    and over: "t \<in> fst ` set (pm_replies m) \<or> \<not> is_streaming (phase_of m i)"
    using assms(1)
  proof (cases rule: configure_end_cases)
    case (answered t i rep)
    then have "t \<in> fst ` set (pm_replies m)" by (force dest: map_of_SomeD)
    with answered that show ?thesis by blast
  qed (use that in blast)
  have phases: "phase_of m' j = phase_of m j" for j by (simp add: m')
  have "awaited m' j = awaited m j" if "is_streaming (phase_of m j)" for j
    using that call over by (auto simp: awaited_def m')
  moreover have "held m' j = held m j" for j unfolding held_def phases by (simp add: m')
  moreover have "pm_configuring m' = None" "pm_replies m' = pm_replies m" "pm_next_token m' = pm_next_token m"
      "pm_tasks m' = pm_tasks m" by (simp_all add: m')
  ultimately show ?thesis using assms(2) by (auto simp: calls_ok_def phases)
qed

lemma calls_ok_start:
  assumes "start_with_mode h port mode m = (r, m')" "calls_ok m"
  shows "calls_ok m'"
  using assms(1)
proof (cases rule: start_cases)
  case (failed adb)
  then show ?thesis by (intro calls_ok_cong [OF assms(2)]) (auto intro: phase_of_cong)
next
  case (spawned adb forward listen_port)
  have phases: "phase_of m' i = (if i = length (pm_tasks m) then Setup else phase_of m i)" for i
    using spawned(5) by (simp add: phase_of_append Pipeline_Manager.spawned_def)
  have commands: "t_commands (pm_tasks m' ! length (pm_tasks m)) = []"
      "i < length (pm_tasks m) \<Longrightarrow> t_commands (pm_tasks m' ! i) = t_commands (pm_tasks m ! i)" for i
    by (simp_all add: spawned(5) nth_append Pipeline_Manager.spawned_def)
  have "awaited m' i = awaited m i" for i by (intro awaited_cong) (simp_all add: spawned(5))
  moreover note range = active_in_range [of m]
  moreover have "held m' i = held m i" if "is_streaming (phase_of m i)" for i
    using range [of i] that by (simp add: held_def phases commands)
  moreover have "pm_configuring m' = pm_configuring m" "pm_replies m' = pm_replies m"
      "pm_next_token m' = pm_next_token m" "length (pm_tasks m') = Suc (length (pm_tasks m))"
    by (simp_all add: spawned(5))
  ultimately show ?thesis using assms(2) by (auto simp: calls_ok_def phases commands)
qed (use assms(2) in simp)

lemma calls_ok_camera:
  assumes "calls_ok m"
  shows "calls_ok (snd (switch_camera front taken m))"
  using call_same_handles(1) [of m front taken]
  by (intro calls_ok_cong [OF assms])
    (auto simp: same_handles_def switch_camera_def manager_simps update_task_nth split: option.splits)

lemma calls_ok_step:
  assumes "manager_step env ev m = Some m'" "calls_ok m" "senders_ok m" "handles_ok m"
  shows "calls_ok m'"
proof (cases "task_of ev")
  case (Some i)
  from calls_ok_task [OF assms(1) Some assms(2,3)] show ?thesis .
next
  case None
  from assms(1) None show ?thesis
  proof (cases rule: call_step_cases)
    case (starts port mode r)
    from calls_ok_start [OF starts(2) assms(2)] show ?thesis .
  next
    case stops
    then show ?thesis using stop_begin_fields [OF assms(4)]
      by (intro calls_ok_cong [OF assms(2)]) auto
  next
    case (joins k)
    then show ?thesis
      by (cases rule: stop_joined_cases) (auto intro!: calls_ok_cong [OF assms(2)] phase_of_cong)
  next
    case (cleans k)
    then show ?thesis
      by (cases rule: stop_cleans_cases) (auto intro!: calls_ok_cong [OF assms(2)] phase_of_cong)
  next
    case (publishes k)
    then show ?thesis by (auto intro!: calls_ok_cong [OF assms(2)] phase_of_cong)
  next
    case (camera front taken)
    with calls_ok_camera [OF assms(2)] show ?thesis by simp
  next
    case (begins w h rate pref r)
    from calls_ok_begin [OF begins(1) assms(2,3)] show ?thesis .
  next
    case (submits r)
    from calls_ok_submit [OF submits(1) assms(2)] show ?thesis .
  next
    case (ends r)
    from calls_ok_end [OF ends(1) assms(2)] show ?thesis .
  qed
qed

lemma reachable_calls_ok:
  assumes "manager_reachable env m"
  shows "calls_ok m"
  using assms
proof (rule managers.invariant)
  show "calls_ok m" if "manager_begins m" for m
    using that by (auto simp: manager_begins_def calls_ok_def manager_new_def phase_of_def)
qed (auto simp: manager_moves_def intro: calls_ok_step reachable_senders_ok reachable_handles_ok)

end
