(* ===== verification/Manager_Calm.thy ===== *)
theory Manager_Calm
  imports Manager_Calls
begin

text \<open>
  What the pipeline manager keeps for a client that waits for each call of \<open>stop\<close>: at most one
  task runs, a sender it has set and not yet cleared leads to it, and the status is what its actor
  last published.
\<close>

section \<open>A client that waits\<close>

definition live :: "('a, 'l, 'm, 'w) manager \<Rightarrow> nat \<Rightarrow> bool" where
  "live m i \<longleftrightarrow> \<not> is_finished (phase_of m i)"

definition status_of_actor :: "('a, 'l, 'm, 'w) manager \<Rightarrow> ('l, 'm, 'w) stream_actor \<Rightarrow> bool" where
  "status_of_actor m s \<longleftrightarrow>
     (\<exists>ins effs st. actor_reachable ins effs s \<and> last_status effs None = Some st \<and>
        pm_status m = full_status_of st)"

definition connects :: "('l, 'm, 'w) task_phase \<Rightarrow> bool" where
  "connects ph \<longleftrightarrow> (case ph of Looping s \<Rightarrow> True | Turning inp s \<Rightarrow> True | Crashed \<Rightarrow> True | _ \<Rightarrow> False)"

lemma connects_simps [simp]:
  "\<not> connects Setup" "\<not> connects ConnectionForgotten" "\<not> connects SendersForgotten"
  "\<not> connects (Accepting d ps)" "\<not> connects (Accepted d ps h)" "\<not> connects (ConnectionOffered d ps h)"
  "\<not> connects (Opening d ps h)" "connects (Looping s)" "connects (Turning inp s)"
  "\<not> connects Ending" "\<not> connects ConnectionWithdrawn" "\<not> connects Finished" "connects Crashed"
  by (simp_all add: connects_def)

text \<open>The actor inside a task, between two turns or in one.\<close>

definition actor_of :: "('l, 'm, 'w) task_phase \<Rightarrow> ('l, 'm, 'w) stream_actor option" where
  "actor_of ph = (case ph of Looping s \<Rightarrow> Some s | Turning inp s \<Rightarrow> Some s | _ \<Rightarrow> None)"

lemma actor_of_simps [simp]:
  "actor_of Setup = None" "actor_of ConnectionForgotten = None" "actor_of SendersForgotten = None"
  "actor_of (Accepting d ps) = None" "actor_of (Accepted d ps h) = None" "actor_of (ConnectionOffered d ps h) = None"
  "actor_of (Opening d ps h) = None" "actor_of (Looping s) = Some s" "actor_of (Turning inp s) = Some s"
  "actor_of Ending = None" "actor_of ConnectionWithdrawn = None" "actor_of Finished = None" "actor_of Crashed = None"
  by (simp_all add: actor_of_def)

lemma actor_live: "actor_of ph = Some s \<Longrightarrow> \<not> is_finished ph"
  by (cases ph) auto

text \<open>A call of \<open>stop\<close> past the join.\<close>

definition is_cleaning :: "stop_call \<Rightarrow> bool" where
  "is_cleaning c \<longleftrightarrow> (case c of Joining w f \<Rightarrow> False | Stopped r \<Rightarrow> False | _ \<Rightarrow> True)"

lemma is_cleaning_simps [simp]:
  "\<not> is_cleaning (Joining w f)" "is_cleaning (Joined f)" "is_cleaning (ConnectionCleared f)"
  "is_cleaning (SendersCleared f)" "is_cleaning Released" "\<not> is_cleaning (Stopped r)"
  by (simp_all add: is_cleaning_def)

definition calm_inv :: "('a, 'l, 'm, 'w) manager \<Rightarrow> bool" where
  "calm_inv m \<longleftrightarrow>
     (\<forall>i j. live m i \<and> live m j \<longrightarrow> i = j) \<and>
     (\<forall>k k'. k < length (pm_stops m) \<and> k' < length (pm_stops m) \<and>
        \<not> is_stopped (pm_stops m ! k) \<and> \<not> is_stopped (pm_stops m ! k') \<longrightarrow> k = k' \<and> pm_worker m = None) \<and>
     (\<forall>c \<in> set (pm_stops m). is_cleaning c \<longrightarrow> (\<forall>i. \<not> live m i)) \<and>
     (\<forall>i. offers_connection (phase_of m i) \<longrightarrow> pm_connection_sender m = Some i) \<and>
     (\<forall>i. offers_commands (phase_of m i) \<longrightarrow> pm_command_sender m = Some i) \<and>
     (\<forall>i s. actor_of (phase_of m i) = Some s \<longrightarrow> status_of_actor m s) \<and>
     (ps_connected (pm_status m) \<longrightarrow> (\<exists>i. connects (phase_of m i)))"

lemma calm_invD:
  assumes "calm_inv m"
  shows "live m i \<Longrightarrow> live m j \<Longrightarrow> i = j"
    and "c \<in> set (pm_stops m) \<Longrightarrow> is_cleaning c \<Longrightarrow> \<not> live m i"
    and "offers_connection (phase_of m i) \<Longrightarrow> pm_connection_sender m = Some i"
    and "offers_commands (phase_of m i) \<Longrightarrow> pm_command_sender m = Some i"
    and "actor_of (phase_of m i) = Some s \<Longrightarrow> status_of_actor m s"
    and "ps_connected (pm_status m) \<Longrightarrow> \<exists>i. connects (phase_of m i)"
  using assms unfolding calm_inv_def by blast+

lemma is_stopped_simps [simp]:
  "is_stopped (Stopped r)" "\<not> is_stopped Released" "\<not> is_stopped (Joining w f)" "\<not> is_stopped (Joined f)"
  "\<not> is_stopped (ConnectionCleared f)" "\<not> is_stopped (SendersCleared f)"
  by (simp_all add: is_stopped_def)

lemma cleaning_unstopped: "is_cleaning c \<Longrightarrow> \<not> is_stopped c"
  by (cases c) simp_all

lemma calm_inv_cong:
  assumes "calm_inv m" "\<And>i. phase_of m' i = phase_of m i" "pm_stops m' = pm_stops m"
    and "pm_worker m' = pm_worker m \<or> pm_worker m' = None" "pm_connection_sender m' = pm_connection_sender m"
    and "pm_command_sender m' = pm_command_sender m" "pm_status m' = pm_status m"
  shows "calm_inv m'"
  using assms unfolding calm_inv_def live_def status_of_actor_def by auto

lemma status_never_connected [simp]:
  "\<not> ps_connected status_disconnected" "\<not> ps_connected status_listening" "\<not> ps_connected (status_error e)"
  by (simp_all add: status_disconnected_def status_listening_def status_error_def)

lemma connected_elsewhere:
  assumes "calm_inv m" "task_move i m m'" "ps_connected (pm_status m)" "\<not> connects (phase_of m i)"
  shows "\<exists>j. connects (phase_of m' j)"
proof -
  from assms(1,3) obtain j where j: "connects (phase_of m j)" by (auto simp: calm_inv_def)
  with assms(4) have "j \<noteq> i" by auto
  then have "phase_of m' j = phase_of m j" by (rule task_move_other [OF assms(2)])
  with j show ?thesis by metis
qed

lemma last_status_default:
  "last_status effs st = (case last_status effs None of None \<Rightarrow> st | Some st' \<Rightarrow> Some st')"
proof (induction effs arbitrary: st)
  case (Cons e effs)
  have cons: "last_status (e # effs) st = last_status effs (case e of Status st' \<Rightarrow> Some st' | _ \<Rightarrow> st)" for st
    by (cases e) simp_all
  show ?case
  proof (cases e)
    case (Status st')
    then show ?thesis using Cons.IH [of "Some st'"] by (simp add: cons) (simp split: option.splits)
  next
    case (Send m)
    then show ?thesis using Cons.IH [of st] by (simp add: cons)
  next
    case (Reply t r)
    then show ?thesis using Cons.IH [of st] by (simp add: cons)
  next
    case (ResetDecoder c ok)
    then show ?thesis using Cons.IH [of st] by (simp add: cons)
  next
    case (SubmitFrame fr ok)
    then show ?thesis using Cons.IH [of st] by (simp add: cons)
  next
    case (WriteFrame fr ok)
    then show ?thesis using Cons.IH [of st] by (simp add: cons)
  qed
qed simp

lemma calm_inv_moved:
  assumes "task_move i m m'" "calm_inv m"
    and sender: "offers_connection (phase_of m' i) \<Longrightarrow> pm_connection_sender m' = Some i"
    and commands: "offers_commands (phase_of m' i) \<Longrightarrow> pm_command_sender m' = Some i"
    and actor: "\<And>s. actor_of (phase_of m' i) = Some s \<Longrightarrow> status_of_actor m' s"
    and conn: "ps_connected (pm_status m') \<Longrightarrow> \<exists>j. connects (phase_of m' j)"
  shows "calm_inv m'"
proof -
  note other = task_move_other [OF assms(1)]
  have was_live: "live m i" using assms(1) by (simp add: task_move_def live_def)
  have same: "pm_stops m' = pm_stops m" "pm_worker m' = pm_worker m"
    using assms(1) by (simp_all add: task_move_def)
  have only: "j = i" if "\<not> is_finished (phase_of m' j)" for j
    using that other [of j] calm_invD(1) [OF assms(2) _ was_live, of j] by (cases "j = i") (auto simp: live_def)
  show ?thesis
    unfolding calm_inv_def
  proof (intro conjI allI impI ballI)
    show "a = b" if "live m' a \<and> live m' b" for a b using that only by (auto simp: live_def)
    show "\<not> live m' j" if "c \<in> set (pm_stops m')" "is_cleaning c" for c j
      using calm_invD(2) [OF assms(2)] that was_live same by auto
    show "pm_connection_sender m' = Some j" if "offers_connection (phase_of m' j)" for j
      using that only [of j] sender offers_live by blast
    show "pm_command_sender m' = Some j" if "offers_commands (phase_of m' j)" for j
      using that only [of j] commands offers_live by blast
    show "status_of_actor m' s" if "actor_of (phase_of m' j) = Some s" for j s
      using that only [OF actor_live, OF that] actor [of s] by simp
    show "\<exists>i. connects (phase_of m' i)" if "ps_connected (pm_status m')" using that by (rule conn)
    show "a = b" "pm_worker m' = None"
      if "a < length (pm_stops m') \<and> b < length (pm_stops m') \<and>
        \<not> is_stopped (pm_stops m' ! a) \<and> \<not> is_stopped (pm_stops m' ! b)" for a b
      using that assms(2) by (simp_all add: calm_inv_def same)
  qed
qed

text \<open>What the status says once an actor has started, and after each of its turns.\<close>

lemma status_after_start:
  assumes "actor_start worker a h d ps = (effs, Continue s)"
    and "pm_status m' = (case last_status effs None of None \<Rightarrow> pm_status m | Some st \<Rightarrow> full_status_of st)"
  shows "status_of_actor m' s"
  using assms actor_start_status [OF assms(1)] actor_reachable.start [OF assms(1)]
  unfolding status_of_actor_def by fastforce

lemma status_after_turn:
  assumes "status_of_actor m s" "branch_enabled inp s" "actor_step a inp s = (effs, Continue s')"
    and "pm_status m' = (case last_status effs None of None \<Rightarrow> pm_status m | Some st \<Rightarrow> full_status_of st)"
  shows "status_of_actor m' s'"
proof -
  from assms(1) obtain ins effs0 st where before: "actor_reachable ins effs0 s"
      "last_status effs0 None = Some st" "pm_status m = full_status_of st"
    unfolding status_of_actor_def by blast
  have after: "actor_reachable (ins @ [inp]) (effs0 @ effs) s'"
    using actor_reachable.step [OF before(1) assms(2,3)] .
  have "last_status (effs0 @ effs) None = (case last_status effs None of None \<Rightarrow> Some st | Some st' \<Rightarrow> Some st')"
    using last_status_default [of effs "Some st"] before(2) by simp
  then obtain st' where "last_status (effs0 @ effs) None = Some st'" "pm_status m' = full_status_of st'"
    using before(3) assms(4) by (cases "last_status effs None") auto
  with after show ?thesis unfolding status_of_actor_def by blast
qed

lemma status_of_actor_cong: "pm_status m' = pm_status m \<Longrightarrow> status_of_actor m' s = status_of_actor m s"
  by (simp add: status_of_actor_def)

lemma after_flow_phases [simp]:
  "connects (case fl of Continue s \<Rightarrow> Looping s | Panicked \<Rightarrow> Crashed | _ \<Rightarrow> Ending) \<longleftrightarrow> \<not> stops fl \<or> fl = Panicked"
  "actor_of (case fl of Continue s \<Rightarrow> Looping s | Panicked \<Rightarrow> Crashed | _ \<Rightarrow> Ending) = Some s \<longleftrightarrow> fl = Continue s"
  by (auto simp: stops_def split: flow.splits)

lemma calm_inv_after_flow:
  assumes "task_move i m m'" "calm_inv m" "i < length (pm_tasks m1)" "m' = after_flow i (effs, fl) m1"
    and "pm_connection_sender m1 = Some i" "pm_command_sender m1 = Some i"
    and "\<And>s. fl = Continue s \<Longrightarrow> status_of_actor m' s"
  shows "calm_inv m'"
proof -
  note f = after_flow_fields [OF assms(4,3)]
  show ?thesis
  proof (rule calm_inv_moved [OF assms(1,2)])
    show "\<exists>j. connects (phase_of m' j)" if "ps_connected (pm_status m')"
      using that by (intro exI [of _ i]) (auto simp: f stops_def split: flow.splits)
  qed (use assms(5-7) in \<open>simp_all add: f(2,3,5)\<close>)
qed

lemma calm_inv_turned:
  assumes "task_move i m m'" "calm_inv m" "i < length (pm_tasks m1)" "m' = after_flow i (effs, fl) m1"
    and "actor_of (phase_of m i) = Some s" "branch_enabled inp s" "actor_step a inp s = (effs, fl)"
    and "pm_status m1 = pm_status m" "pm_connection_sender m1 = pm_connection_sender m"
      "pm_command_sender m1 = pm_command_sender m"
  shows "calm_inv m'"
proof (rule calm_inv_after_flow [OF assms(1-4)])
  note inv = calm_invD [OF assms(2)] and f = after_flow_fields [OF assms(4,3)]
  show "pm_connection_sender m1 = Some i" "pm_command_sender m1 = Some i"
    using inv(3,4) [of i] assms(5) by (auto simp: assms(9,10) actor_of_def split: task_phase.splits)
  show "status_of_actor m' s'" if "fl = Continue s'" for s'
    by (rule status_after_turn [OF inv(5) [OF assms(5)] assms(6)])
      (use that assms(7,8) in \<open>auto simp: f cong: option.case_cong\<close>)
qed

lemma calm_inv_task:
  assumes "manager_step env ev m = Some m'" "task_of ev = Some i" "calm_inv m" "senders_ok m"
  shows "calm_inv m'"
proof -
  note move = task_step_moves [OF assms(1,2)]
  note moved = calm_inv_moved [OF move assms(3)] and elsewhere = connected_elsewhere [OF assms(3) move]
  have range: "i < length (pm_tasks m)" using move phase_in_range [of m i] by (simp add: task_move_def)
  note inv = calm_invD [OF assms(3)]
  from assms(1,2) show ?thesis
  proof (cases rule: task_step_cases)
    case forgets
    then show ?thesis using elsewhere by (intro moved) auto
  next
    case (returns d ps)
    have "\<exists>j. connects (phase_of m' j)" if "ps_connected (pm_status m')"
      using that returns by (intro exI [of _ i]) auto
    with returns show ?thesis by (intro moved) (auto simp: is_finished_iff)
  next
    case (listens d ps)
    then show ?thesis by (intro moved) simp_all
  next
    case (accepts d ps h)
    then show ?thesis using elsewhere by (intro moved) auto
  next
    case (connects d ps h)
    then have "pm_connection_sender m = Some i" if "offers_connection (phase_of m i)" using that inv(3) by blast
    then show ?thesis using connects elsewhere by (intro moved) auto
  next
    case (opens d ps h worker a effs fl)
    note f = after_flow_fields [OF opens(3) range]
    show ?thesis
    proof (rule calm_inv_after_flow [OF move assms(3) range opens(3)])
      show "status_of_actor m' s" if "fl = Continue s" for s
        by (rule status_after_start) (use that opens(2) in \<open>auto simp: f\<close>)
    qed (use inv(3,4) [of i] opens(1) in simp_all)
  next
    case (turns s inp a effs fl)
    show ?thesis
      by (rule calm_inv_turned [OF move assms(3) _ turns(6) _ turns(2,5)])
        (use turns(1) range in \<open>simp_all add: manager_simps\<close>)
  next
    case (takes s inp)
    have phase: "phase_of m' i = Turning inp s" using takes(5) range by (simp add: phase_of_set_phase manager_simps)
    have "pm_status m' = pm_status m" "pm_connection_sender m' = pm_connection_sender m"
        "pm_command_sender m' = pm_command_sender m"
      by (simp_all add: takes(5) manager_simps)
    then show ?thesis
      using inv(3,4,5) [of i] takes(1) phase status_of_actor_cong [of m' m]
      by (intro moved) (auto intro: exI [of _ i])
  next
    case (turned inp s a effs fl)
    have enabled: "branch_enabled inp s"
      using senders_okD(3) [OF assms(4), of i] turned(1) by (simp add: actor_ok_def)
    show ?thesis
      by (rule calm_inv_turned [OF move assms(3) range turned(3) _ enabled turned(2)]) (simp_all add: turned(1))
  next
    case ends
    then have "pm_command_sender m = Some i" using inv(4) [of i] by auto
    with ends show ?thesis using elsewhere by (intro moved) auto
  qed
qed

lemma calm_inv_released:
  assumes "calm_inv m" "handles_ok m" "k < length (pm_stops m)" "pm_stops m ! k = Joining w forward"
    and "\<forall>i. w = Some i \<longrightarrow> phase_of m i = Finished"
  shows "\<not> live m i"
proof
  assume live: "live m i"
  have one: "k' = k" "pm_worker m = None" if "k' < length (pm_stops m)" "\<not> is_stopped (pm_stops m ! k')" for k'
  proof -
    have "\<not> is_stopped (pm_stops m ! k)" using assms(4) by simp
    then show "k' = k" "pm_worker m = None" using that assms(1,3) unfolding calm_inv_def by blast+
  qed
  have "pm_worker m = None" using one(2) [OF assms(3)] assms(4) by simp
  with live assms(2) obtain f where "Joining (Some i) f \<in> set (pm_stops m)"
    by (auto simp: live_def handles_ok_def)
  then obtain k' where "k' < length (pm_stops m)" "pm_stops m ! k' = Joining (Some i) f"
    by (auto simp: in_set_conv_nth)
  with one(1) [of k'] assms(4) have "w = Some i" by auto
  with assms(5) live show False by (simp add: live_def)
qed

lemma unstopped_update:
  assumes "calm_inv m" "pm_stops m' = (pm_stops m)[k := c]" "k < length (pm_stops m)"
    and "\<not> is_stopped (pm_stops m ! k)" "pm_worker m' = pm_worker m"
    and "a < length (pm_stops m')" "b < length (pm_stops m')"
    and "\<not> is_stopped (pm_stops m' ! a)" "\<not> is_stopped (pm_stops m' ! b)"
  shows "a = b \<and> pm_worker m' = None"
proof -
  have "\<not> is_stopped (pm_stops m ! a)" "\<not> is_stopped (pm_stops m ! b)"
    using assms by (auto simp: nth_list_update split: if_splits)
  with assms(1,2,5,6,7) show ?thesis unfolding calm_inv_def by auto
qed

lemma calm_inv_start:
  assumes "start_with_mode h port mode m = (r, m')" "calm_inv m" "handles_ok m"
    and "list_all is_stopped (pm_stops m)"
  shows "calm_inv m'"
  using assms(1)
proof (cases rule: start_cases)
  case running
  with assms(2) show ?thesis by simp
next
  case (failed adb)
  then show ?thesis by (intro calm_inv_cong [OF assms(2)]) (auto intro: phase_of_cong)
next
  case (spawned adb forward listen_port)
  have phases: "phase_of m' i = (if i = length (pm_tasks m) then Setup else phase_of m i)" for i
    using spawned(5) by (simp add: phase_of_append Pipeline_Manager.spawned_def)
  have stopped: "Joining w f \<notin> set (pm_stops m)" for w f
    using assms(4) by (auto simp: list_all_iff)
  with spawned(2) assms(3) have dead: "is_finished (phase_of m i)" for i
    unfolding handles_ok_def by blast
  have settled: "\<not> is_cleaning c" if "c \<in> set (pm_stops m)" for c
    using that assms(4) cleaning_unstopped by (auto simp: list_all_iff)
  have fields: "pm_stops m' = pm_stops m" "pm_status m' = pm_status m" by (simp_all add: spawned(5))
  have conn: "\<exists>i. connects (phase_of m' i)" if "ps_connected (pm_status m')"
  proof -
    from that assms(2) obtain i where i: "connects (phase_of m i)" by (auto simp: calm_inv_def fields)
    then have "i \<noteq> length (pm_tasks m)" by (auto simp: phase_of_def)
    with i show ?thesis by (intro exI [of _ i]) (simp add: phases)
  qed
  have never: "\<not> offers_connection (phase_of m i)" "\<not> offers_commands (phase_of m i)"
      "actor_of (phase_of m i) \<noteq> Some s" for i s
    using dead [of i] offers_live [of "phase_of m i"] actor_live [of "phase_of m i" s] by auto
  show ?thesis
    unfolding calm_inv_def
  proof (intro conjI)
    show "\<forall>i j. live m' i \<and> live m' j \<longrightarrow> i = j" using dead by (auto simp: live_def phases)
    show "\<forall>k k'. k < length (pm_stops m') \<and> k' < length (pm_stops m') \<and>
        \<not> is_stopped (pm_stops m' ! k) \<and> \<not> is_stopped (pm_stops m' ! k') \<longrightarrow> k = k' \<and> pm_worker m' = None"
      using assms(4) by (auto simp: fields list_all_length)
  qed (use conn never settled in \<open>auto simp: phases fields\<close>)
qed

lemma calm_inv_stop:
  assumes "calm_inv m" "handles_ok m" "list_all is_stopped (pm_stops m)"
  shows "calm_inv (stop_begin m)"
proof -
  note f = stop_begin_fields [OF assms(2)]
  have "\<not> is_cleaning c" if "c \<in> set (pm_stops (stop_begin m))" for c
    using that assms(3) cleaning_unstopped by (auto simp: f(4) list_all_iff)
  moreover have "a = length (pm_stops m)"
    if "a < length (pm_stops (stop_begin m))" "\<not> is_stopped (pm_stops (stop_begin m) ! a)" for a
    using that assms(3) by (auto simp: f(4) list_all_length nth_append split: if_splits)
  ultimately show ?thesis
    using calm_invD [OF assms(1)] f(1) unfolding calm_inv_def live_def status_of_actor_def f(5-9) by blast
qed

lemma calm_inv_dead:
  assumes "calm_inv m" "\<And>i. \<not> live m i" "\<And>i. phase_of m' i = phase_of m i" "pm_worker m' = pm_worker m"
    and "pm_stops m' = (pm_stops m)[k := c]" "k < length (pm_stops m)" "\<not> is_stopped (pm_stops m ! k)"
    and "pm_status m' = pm_status m \<or> \<not> ps_connected (pm_status m')"
  shows "calm_inv m'"
  unfolding calm_inv_def
proof (intro conjI)
  have dead: "is_finished (phase_of m' i)" for i using assms(2) by (simp add: live_def assms(3))
  then show "\<forall>i. offers_connection (phase_of m' i) \<longrightarrow> pm_connection_sender m' = Some i"
    "\<forall>i. offers_commands (phase_of m' i) \<longrightarrow> pm_command_sender m' = Some i"
    "\<forall>i s. actor_of (phase_of m' i) = Some s \<longrightarrow> status_of_actor m' s"
    using offers_live actor_live by blast+
  from dead show "\<forall>i j. live m' i \<and> live m' j \<longrightarrow> i = j"
    "\<forall>c \<in> set (pm_stops m'). is_cleaning c \<longrightarrow> (\<forall>i. \<not> live m' i)"
    by (simp_all add: live_def)
  show "\<forall>a b. a < length (pm_stops m') \<and> b < length (pm_stops m') \<and>
      \<not> is_stopped (pm_stops m' ! a) \<and> \<not> is_stopped (pm_stops m' ! b) \<longrightarrow> a = b \<and> pm_worker m' = None"
    using unstopped_update [OF assms(1,5,6,7,4)] by blast
  show "ps_connected (pm_status m') \<longrightarrow> (\<exists>i. connects (phase_of m' i))"
    using assms(1,8) by (auto simp: calm_inv_def assms(3))
qed

lemma calm_inv_joined:
  assumes "stop_joined k m = Some m'" "calm_inv m" "handles_ok m"
  shows "calm_inv m'"
  using assms(1)
proof (cases rule: stop_joined_cases)
  case (joined w forward)
  show ?thesis
    by (rule calm_inv_dead [OF assms(2) calm_inv_released [OF assms(2,3) joined(1,2,3)]])
      (auto simp: joined intro: phase_of_cong)
next
  case (failed i forward)
  have phases: "phase_of m' i = phase_of m i" for i by (rule phase_of_cong) (simp add: failed(4))
  have stops: "pm_stops m' = (pm_stops m)[k := Stopped (Err JoinFailed)]" "pm_worker m' = pm_worker m"
      "pm_status m' = pm_status m" "pm_connection_sender m' = pm_connection_sender m"
      "pm_command_sender m' = pm_command_sender m"
    by (simp_all add: failed(4))
  have unstopped: "\<not> is_stopped (pm_stops m ! k)" by (simp add: failed(2))
  have "c \<in> set (pm_stops m)" if "c \<in> set (pm_stops m')" "is_cleaning c" for c
    using that(2) subsetD [OF set_update_subset_insert that(1) [unfolded stops(1)]] by auto
  moreover have "a = b \<and> pm_worker m' = None"
    if "a < length (pm_stops m')" "b < length (pm_stops m')"
      "\<not> is_stopped (pm_stops m' ! a)" "\<not> is_stopped (pm_stops m' ! b)" for a b
    using unstopped_update [OF assms(2) stops(1) failed(1) unstopped stops(2) that] .
  ultimately show ?thesis
    using calm_invD [OF assms(2)] unfolding calm_inv_def live_def status_of_actor_def phases stops(3-5) by blast
qed

lemma calm_inv_cleaned:
  assumes "stop_cleans h k m = Some m'" "calm_inv m"
  shows "calm_inv m'"
proof -
  have dead: "\<not> live m i" if "k < length (pm_stops m)" "is_cleaning (pm_stops m ! k)" for i
    using calm_invD(2) [OF assms(2) nth_mem [OF that(1)] that(2)] .
  from assms(1) show ?thesis
    by (cases rule: stop_cleans_cases)
      (rule calm_inv_dead [OF assms(2) dead], auto intro: phase_of_cong)+
qed

lemma calm_inv_published:
  assumes "calm_inv m" "k < length (pm_stops m)" "pm_stops m ! k = Released"
  shows "calm_inv (m\<lparr>pm_status := status_disconnected, pm_stops := (pm_stops m)[k := Stopped (Ok ())]\<rparr>)"
proof (rule calm_inv_dead [OF assms(1)])
  show "\<not> live m i" for i using calm_invD(2) [OF assms(1) nth_mem [OF assms(2)]] assms(3) by simp
qed (use assms(2,3) in \<open>auto intro: phase_of_cong\<close>)

lemma calm_inv_same: "calm_inv m \<Longrightarrow> same_handles m m' \<Longrightarrow> calm_inv m'"
  by (erule calm_inv_cong) (simp_all add: same_handles_def)

lemma calm_inv_step:
  assumes "manager_step env ev m = Some m'" "calm_inv m" "handles_ok m" "senders_ok m" "calm ev m"
  shows "calm_inv m'"
proof (cases "task_of ev")
  case (Some i)
  from calm_inv_task [OF assms(1) Some assms(2,4)] show ?thesis .
next
  case None
  from assms(1) None show ?thesis
  proof (cases rule: call_step_cases)
    case (starts port mode r)
    from calm_inv_start [OF starts(2) assms(2,3)] starts(1) assms(5) show ?thesis by (simp add: calm_def)
  next
    case stops
    with calm_inv_stop [OF assms(2,3)] assms(5) show ?thesis by (simp add: calm_def)
  next
    case (joins k)
    from calm_inv_joined [OF this assms(2,3)] show ?thesis .
  next
    case (cleans k)
    from calm_inv_cleaned [OF this assms(2)] show ?thesis .
  next
    case (publishes k)
    from calm_inv_published [OF assms(2) publishes(1,2)] publishes(3) show ?thesis by simp
  qed (rule calm_inv_same [OF assms(2)], assumption)+
qed

text \<open>The manager of such a client is a manager.\<close>

definition calm_moves ::
  "('a, 'd, 'i) desktop_env \<Rightarrow> ('a, 'l, 'm, 'w) manager \<Rightarrow> ('a, 'l, 'm, 'w) manager \<Rightarrow> bool" where
  "calm_moves env m m' \<longleftrightarrow> (\<exists>ev. calm ev m \<and> manager_step env ev m = Some m')"

lemma calm_reachable_reaches: "calm_reachable env m \<longleftrightarrow> reaches manager_begins (calm_moves env) m"
proof
  show "calm_reachable env m \<Longrightarrow> reaches manager_begins (calm_moves env) m"
    by (induction rule: calm_reachable.induct)
      (auto simp: manager_begins_def calm_moves_def intro: reaches.intros)
  show "reaches manager_begins (calm_moves env) m \<Longrightarrow> calm_reachable env m"
    by (induction rule: reaches.induct)
      (auto simp: manager_begins_def calm_moves_def intro: calm_reachable.intros)
qed

interpretation calm_managers: refinement_map manager_begins "calm_moves env" "calm_reachable env"
  manager_begins "manager_moves env" "manager_reachable env" "\<lambda>m. m" for env
  by unfold_locales (auto simp: calm_reachable_reaches calm_moves_def manager_moves_def)

lemma calm_reachable_inv:
  assumes "calm_reachable env m"
  shows "manager_reachable env m \<and> calm_inv m"
proof
  show "calm_inv m"
    using assms
  proof (rule calm_managers.detailed.invariant)
    show "calm_inv m" if "manager_begins m" for m :: "('a, 'l, 'm, 'w) manager"
      using that unfolding manager_begins_def
      by (elim exE) (simp add: calm_inv_def live_def manager_new_def phase_of_def)
  qed (unfold calm_moves_def, use calm_inv_step reachable_handles_ok [OF calm_managers.mapped] reachable_senders_ok [OF calm_managers.mapped] in blast)
qed (rule calm_managers.mapped [OF assms])

end
