(* ===== verification/Manager_Claims.thy ===== *)
theory Manager_Claims
  imports Manager_Calm
begin

text \<open>
  The properties of the pipeline manager: what holds in every interleaving of its callers and
  tasks, what a client sees that waits for each call of \<open>stop\<close>, and what one sees that does not.
\<close>

section \<open>A sample run\<close>

text \<open>The Linux output and the phone of the actor's sample run, reached through the manager.\<close>

definition offered :: "stream_profile list" where
  "offered = qualified_output_profiles (output_preflight sample_device)"

definition codec_of_hellos :: bincode where
  "codec_of_hellos = table_bincode [(desktop_handshake offered, [1]), (sample_peer, [2])] []"

definition sample_env :: "(unit, unit, unit) desktop_env" where
  "sample_env =
     \<lparr>de_adb = \<lparr>on_windows = False, env_path = (\<lambda>_. None), current_exe = None,
        path_exists = (\<lambda>_. False), run_program = (\<lambda>p args w. (Inl [], w)),
        path_text = (\<lambda>_. []), utf8_error_text = (\<lambda>_. [])\<rparr>,
      de_mdns = \<lparr>new_with_port = (\<lambda>_. Inr ()), service_info_new = (\<lambda>_ _ _ _ _ _. Inr ()),
        enable_addr_auto = id, get_fullname = (\<lambda>_. []), register_service = (\<lambda>_ _. Inr ())\<rparr>,
      de_version = lit ''1'', de_bincode = codec_of_hellos\<rparr>"

definition sample_sock :: "unit socket_net" where
  "sample_sock = \<lparr>resolved = Inr [()], tcp_fault = None, nodelay_fault = None\<rparr>"

lemma offered_720p: "H264_720P30 \<in> set offered"
proof -
  have "linux_preflight sample_v4l2 sample_linux_output H264_720P30 = Ok ()"
    by (simp add: sample_linux_simps)
  then show ?thesis
    unfolding offered_def qualified_profiles_iff
    by (simp add: sample_device_def flip: is_ok_validate) (simp add: sample_linux_simps)
qed

lemma offered_well_formed: "well_formed_handshake (desktop_handshake offered)"
proof -
  have "distinct offered" "list_all well_formed_profile offered"
    using distinct_candidate_profiles
    by (auto simp: offered_def qualified_output_profiles_def list_all_iff candidate_profiles_iff)
  moreover have "offered \<noteq> []" using offered_720p by auto
  ultimately show ?thesis
    by (simp add: well_formed_handshake_def desktop_handshake_def well_formed_profiles_def PROTOCOL_VERSION_def)
qed

lemma sample_peer_well_formed:
  "well_formed_handshake sample_peer" "common_active (desktop_handshake offered) sample_peer"
proof -
  have "list_all well_formed_profile sample_profiles"
    by (simp add: sample_profiles_def HEVC_720P30_def sample_linux_simps flip: is_ok_validate)
  then show "well_formed_handshake sample_peer"
    by (simp add: well_formed_handshake_def sample_peer_def well_formed_profiles_def PROTOCOL_VERSION_def)
      (simp add: sample_profiles_def HEVC_720P30_def H264_720P30_def H264_1080P60_def)
  show "common_active (desktop_handshake offered) sample_peer"
    using offered_720p by (simp add: common_active_def desktop_handshake_def sample_peer_def)
qed

lemma hello_frames:
  "encode_frame codec_of_hellos (Msg_Handshake (desktop_handshake offered)) = Ok [0, 0, 0, 2, 1, 1]"
  "encode_frame codec_of_hellos (Msg_Handshake sample_peer) = Ok [0, 0, 0, 2, 1, 2]"
proof -
  have "desktop_handshake offered \<noteq> sample_peer"
    by (simp add: desktop_handshake_def sample_peer_def)
  then show "encode_frame codec_of_hellos (Msg_Handshake (desktop_handshake offered)) = Ok [0, 0, 0, 2, 1, 1]"
    "encode_frame codec_of_hellos (Msg_Handshake sample_peer) = Ok [0, 0, 0, 2, 1, 2]"
    by (simp_all add: encode_frame_def codec_of_hellos_def table_bincode_def table_serde_def
        encode_payload_def u32_try_from_usize_def frame_constants checked_add_usize_def
        to_be_bytes_def to_le_bytes_def upt_rec)
qed

definition sample_call :: handshake_net where
  "sample_call = quiet_net [0, 0, 0, 2, 1, 2] UnexpectedEof"

lemma sample_accept:
  "fst (accept codec_of_hellos sample_sock sample_call (desktop_handshake offered)) =
     Ok (sample_peer, ([], UnexpectedEof))"
proof -
  have "bincode_ok codec_of_hellos"
    unfolding codec_of_hellos_def by (rule table_bincode_ok) simp_all
  from read_message_encoded [OF this hello_frames(2), of "[]" UnexpectedEof]
  have "build_connection codec_of_hellos sample_call (desktop_handshake offered) =
      Ok (sample_peer, ([], UnexpectedEof))"
    using hello_frames(1) offered_well_formed sample_peer_well_formed
    by (simp add: build_connection_Ok exchange_handshakes_Ok sample_call_def quiet_net_def)
  then show ?thesis by (simp add: accept_def sample_sock_def io_call_def Let_def)
qed

type_synonym sample_manager = "(unit, v4l2_world, unit, unit) manager"

lemma sample_setup:
  fixes m :: sample_manager
  assumes "phase_of m i = SendersForgotten"
  shows "manager_step sample_env (TaskSetsUp i (Ok sample_device) None sample_sock) m =
    Some (set_phase i (Accepting sample_device offered) (m\<lparr>pm_status := status_listening\<rparr>))"
proof -
  have "bind_server sample_sock (desktop_handshake offered) = Ok (desktop_handshake offered)"
    using offered_well_formed
    by (simp add: bind_server_def result_eqs protocol_checks first_address_def io_call_def sample_sock_def)
  then show ?thesis
    using assms offered_720p
    by (simp add: task_setup_def Let_def offered_def [symmetric] publish_service_def
        publish_with_mdns_port_def sample_env_def)
qed

lemma sample_accepts:
  fixes m :: sample_manager
  assumes "phase_of m i = Accepting sample_device offered"
  shows "manager_step sample_env (TaskAccepts i sample_sock sample_call) m =
    Some (set_phase i (Accepted sample_device offered sample_peer) m)"
  using assms sample_accept by (simp add: task_accept_def sample_env_def)

definition first_actor :: "(v4l2_world, unit, unit) stream_actor" where
  "first_actor = sample_state\<lparr>local_profiles := offered, common := common_profiles offered sample_profiles\<rparr>"

lemma sample_opens:
  fixes m :: sample_manager
  assumes "phase_of m i = Opening sample_device offered sample_peer"
  shows "manager_step sample_env (TaskOpens i (Ok ()) good) m =
    Some (after_flow i ([ResetDecoder H264 True, publish first_actor], Continue first_actor) m)"
proof -
  have "actor_start (Ok ()) good sample_peer sample_device offered =
      ([ResetDecoder H264 True, publish first_actor], Continue first_actor)"
    using sample_linux_commits(1) offered_720p
    by (simp add: actor_start_def sample_peer_def sample_device_def good_def first_actor_def
        sample_state_def Let_def) (simp add: sample_profiles_def H264_720P30_def)
  with assms show ?thesis by (simp add: task_open_def)
qed

section \<open>Runs as lists of events\<close>

fun manager_run ::
  "('a, 'd, 'i) desktop_env \<Rightarrow> ('l, 'm, 'w) manager_event list \<Rightarrow> ('a, 'l, 'm, 'w) manager \<Rightarrow>
   ('a, 'l, 'm, 'w) manager option" where
  "manager_run env [] m = Some m"
| "manager_run env (ev # evs) m =
     (case manager_step env ev m of None \<Rightarrow> None | Some m' \<Rightarrow> manager_run env evs m')"

lemma manager_run_reachable:
  "manager_run env evs m = Some m' \<Longrightarrow> manager_reachable env m \<Longrightarrow> manager_reachable env m'"
  by (induction evs arbitrary: m) (auto split: option.splits intro: manager_reachable.step)

lemma manager_run_append:
  "manager_run env (evs @ evs') m =
     (case manager_run env evs m of None \<Rightarrow> None | Some m' \<Rightarrow> manager_run env evs' m')"
  by (induction evs arbitrary: m) (auto split: option.splits)

text \<open>The sample task up to its listening, and from the phone's call to the opening.\<close>

lemma set_phase_twice: "i < length (pm_tasks m) \<Longrightarrow> set_phase i ph (set_phase i ph' m) = set_phase i ph m"
  by (simp add: set_phase_def update_task_def)

lemma set_phase_senders:
  "set_phase i ph (m\<lparr>pm_connection_sender := c\<rparr>) = (set_phase i ph m)\<lparr>pm_connection_sender := c\<rparr>"
  "set_phase i ph (m\<lparr>pm_command_sender := c\<rparr>) = (set_phase i ph m)\<lparr>pm_command_sender := c\<rparr>"
  "set_phase i ph (m\<lparr>pm_status := st\<rparr>) = (set_phase i ph m)\<lparr>pm_status := st\<rparr>"
  by (simp_all add: set_phase_def update_task_def)

lemma sample_listens:
  fixes m :: sample_manager
  assumes "phase_of m i = Setup" "i < length (pm_tasks m)"
  shows "manager_run sample_env [TaskClears i, TaskClears i, TaskSetsUp i (Ok sample_device) None sample_sock] m =
    Some (set_phase i (Accepting sample_device offered)
      (m\<lparr>pm_connection_sender := None, pm_command_sender := None, pm_status := status_listening\<rparr>))"
proof -
  define m1 where "m1 = set_phase i SendersForgotten (m\<lparr>pm_connection_sender := None, pm_command_sender := None\<rparr>)"
  have "manager_run sample_env [TaskClears i, TaskClears i] m = Some m1"
    using assms by (simp add: task_clears_def phase_of_set_phase m1_def set_phase_senders set_phase_twice)
  moreover have "phase_of m1 i = SendersForgotten" using assms(2) by (simp add: m1_def phase_of_set_phase)
  from sample_setup [OF this] have "manager_run sample_env [TaskSetsUp i (Ok sample_device) None sample_sock] m1 =
      Some (set_phase i (Accepting sample_device offered) (m1\<lparr>pm_status := status_listening\<rparr>))" by simp
  ultimately show ?thesis
    using assms(2) manager_run_append [of sample_env "[TaskClears i, TaskClears i]"
        "[TaskSetsUp i (Ok sample_device) None sample_sock]" m]
    by (simp add: m1_def set_phase_senders set_phase_twice del: manager_run.simps manager_step.simps)
qed

lemma sample_connects:
  fixes m :: sample_manager
  assumes "phase_of m i = Accepting sample_device offered" "i < length (pm_tasks m)"
  shows "manager_run sample_env [TaskAccepts i sample_sock sample_call, TaskConnects i, TaskConnects i] m =
    Some (set_phase i (Opening sample_device offered sample_peer)
      (m\<lparr>pm_connection_sender := Some i, pm_command_sender := Some i\<rparr>))"
  using assms(2) sample_accepts [OF assms(1)]
  by (simp add: task_connects_def phase_of_set_phase set_phase_senders set_phase_twice)

section \<open>Stopping\<close>


















section \<open>Properties\<close>

text \<open>
  C19. However the calls and the tasks interleave, no handle dangles: the runtime's join handle and
  shutdown sender belong to one spawned task, every call of \<open>stop\<close> waits for a task that has
  been told to shut down, every task still running is one of those. Each of the two senders by
  itself leads to a task that has set it and not yet cleared it (or has panicked in between),
  and the actor of a task, between its turns and in one, is at a state of the connection actor.
  The two senders need not lead to one task: they are behind two locks.
\<close>

theorem manager_handles_are_sound:
  assumes "manager_reachable env m"
  shows "pm_shutdown_tx m = pm_worker m \<and>
    (\<forall>i. pm_worker m = Some i \<longrightarrow> i < length (pm_tasks m)) \<and>
    (\<forall>i forward. Joining (Some i) forward \<in> set (pm_stops m) \<longrightarrow>
       i < length (pm_tasks m) \<and> t_shutdown (pm_tasks m ! i)) \<and>
    (\<forall>i. \<not> is_finished (phase_of m i) \<longrightarrow>
       pm_worker m = Some i \<or> (\<exists>forward. Joining (Some i) forward \<in> set (pm_stops m))) \<and>
    (\<forall>i. pm_connection_sender m = Some i \<longrightarrow> offers_connection (phase_of m i) \<or> phase_of m i = Crashed) \<and>
    (\<forall>i. pm_command_sender m = Some i \<longrightarrow> offers_commands (phase_of m i) \<or> phase_of m i = Crashed) \<and>
    (\<forall>i s. actor_of (phase_of m i) = Some s \<longrightarrow> (\<exists>ins effs. actor_reachable ins effs s))"
proof -
  have "\<exists>ins effs. actor_reachable ins effs s" if "actor_of (phase_of m i) = Some s" for i s
    using that senders_okD(3) [OF reachable_senders_ok [OF assms], of i]
    by (auto simp: actor_of_def actor_ok_def split: task_phase.splits)
  then show ?thesis
    using reachable_handles_ok [OF assms] reachable_senders_ok [OF assms]
    unfolding handles_ok_def senders_ok_def by blast
qed

text \<open>The sample run, up to a streaming connection, with a call of \<open>stop\<close> in its middle.\<close>

definition connecting :: "nat \<Rightarrow> (v4l2_world, unit, unit) manager_event list" where
  "connecting i =
     [StartCall 0 WifiMode] @
     [TaskClears i, TaskClears i, TaskSetsUp i (Ok sample_device) None sample_sock] @
     [TaskAccepts i sample_sock sample_call, TaskConnects i, TaskConnects i] @ [TaskOpens i (Ok ()) good]"

definition looping_at :: "nat \<Rightarrow> sample_manager \<Rightarrow> bool" where
  "looping_at i m \<longleftrightarrow> phase_of m i = Looping first_actor \<and> pm_worker m = Some i \<and>
     pm_connection_sender m = Some i \<and> pm_command_sender m = Some i \<and>
     pm_status m = full_status_of (truthful_status first_actor)"

lemma first_actor_status: "publish first_actor = Status (truthful_status first_actor)"
proof -
  have "output_format (out_dev first_actor) =
      Some (native_format_of (output_pixel_format (out_dev first_actor)) (active first_actor))"
    by (simp add: first_actor_def sample_state_def linux_output_format_def sample_linux_committed_def)
  then show ?thesis by (simp add: publish_def truthful_status_def)
qed

lemma connecting_run:
  fixes m :: sample_manager
  assumes "pm_worker m = None" "i = length (pm_tasks m)"
  obtains m' where "manager_run sample_env (connecting i) m = Some m'" "looping_at i m'"
    "pm_stops m' = pm_stops m" "pm_configuring m' = pm_configuring m" "\<And>j. j < i \<Longrightarrow> phase_of m' j = phase_of m j"
proof -
  define m1 where "m1 = snd (start_with_mode (de_adb sample_env) 0 WifiMode m)"
  have m1: "m1 = m\<lparr>pm_usb_forward := None, pm_shutdown_tx := Some i, pm_worker := Some i,
      pm_tasks := pm_tasks m @ [spawned DEFAULT_LISTEN_PORT]\<rparr>"
    by (simp add: m1_def start_with_mode_def spawn_worker_def open_tunnel_def assms Let_def)
  have p1: "phase_of m1 i = Setup" "i < length (pm_tasks m1)"
    by (simp_all add: m1 phase_of_def assms(2) nth_append spawned_def)
  define m2 where "m2 = set_phase i (Accepting sample_device offered)
      (m1\<lparr>pm_connection_sender := None, pm_command_sender := None, pm_status := status_listening\<rparr>)"
  have p2: "phase_of m2 i = Accepting sample_device offered" "i < length (pm_tasks m2)"
    using p1 by (simp_all add: m2_def phase_of_set_phase manager_simps)
  define m3 where "m3 = set_phase i (Opening sample_device offered sample_peer)
      (m2\<lparr>pm_connection_sender := Some i, pm_command_sender := Some i\<rparr>)"
  have p3: "phase_of m3 i = Opening sample_device offered sample_peer" "i < length (pm_tasks m3)"
    using p2 by (simp_all add: m3_def phase_of_set_phase manager_simps)
  define m4 where "m4 = after_flow i ([ResetDecoder H264 True, publish first_actor], Continue first_actor) m3"
  note f = after_flow_move [OF p3(2) m4_def] after_flow_fields [OF m4_def p3(2)]
  have fields: "pm_worker m3 = Some i" "pm_connection_sender m3 = Some i" "pm_command_sender m3 = Some i"
      "pm_stops m3 = pm_stops m" "pm_configuring m3 = pm_configuring m"
    by (simp_all add: m3_def m2_def m1 manager_simps)
  have "manager_run sample_env [StartCall 0 WifiMode] m = Some m1" by (simp add: m1_def)
  moreover have "manager_run sample_env [TaskOpens i (Ok ()) good] m3 = Some m4"
    using sample_opens [OF p3(1)] by (simp add: m4_def)
  ultimately have "manager_run sample_env (connecting i) m = Some m4"
    using sample_listens [OF p1] sample_connects [OF p2]
    by (simp add: connecting_def manager_run_append m2_def [symmetric] m3_def [symmetric] del: manager_run.simps append.simps)
  moreover have "looping_at i m4"
    unfolding looping_at_def using fields by (simp add: f first_actor_status)
  moreover have "phase_of m4 j = phase_of m j" if "j < i" for j
  proof -
    have "phase_of m4 j = phase_of m3 j"
      using that after_flow_task_move [of m3 i] p3 by (intro task_move_other [of i]) (simp_all add: m4_def)
    also have "\<dots> = phase_of m1 j" using that by (simp add: m3_def m2_def phase_of_set_phase)
    also have "\<dots> = phase_of m j" using that assms(2) by (simp add: m1 phase_of_def nth_append)
    finally show ?thesis .
  qed
  ultimately show thesis using that fields(4,5) by (simp add: f)
qed

lemma quiet_run:
  assumes "manager_run env evs m = Some m'" "calm_reachable env m" "pm_stops m = []" "StopCall \<notin> set evs"
  shows "calm_reachable env m'"
  using assms
proof (induction evs arbitrary: m)
  case (Cons ev evs)
  then obtain m1 where m1: "manager_step env ev m = Some m1" "manager_run env evs m1 = Some m'"
    by (auto split: option.splits)
  have "pm_stops m1 = []"
  proof (cases "task_of ev")
    case None
    then show ?thesis
    proof (cases ev)
      case (StartCall port mode)
      with m1(1) obtain r where "start_with_mode (de_adb env) port mode m = (r, m1)"
        by (cases "start_with_mode (de_adb env) port mode m") simp
      then show ?thesis by (cases rule: start_cases) (use Cons.prems(3) in auto)
    next
      case (CameraCall front taken)
      with m1(1) Cons.prems(3) call_same_handles(1) [of m front taken] show ?thesis
        by (simp add: same_handles_def)
    next
      case (ConfigureCall w h rate pref)
      with m1(1) Cons.prems(3) show ?thesis by (auto dest!: call_same_handles(2) simp: same_handles_def)
    next
      case ConfigureSubmits
      with m1(1) Cons.prems(3) show ?thesis by (auto dest!: call_same_handles(3) simp: same_handles_def)
    next
      case ConfigureReturns
      with m1(1) Cons.prems(3) show ?thesis by (auto dest!: call_same_handles(4) simp: same_handles_def)
    qed (use m1(1) Cons.prems(3,4) in \<open>auto simp: stop_joined_def stop_cleans_def stop_publish_def\<close>)
  next
    case (Some i)
    with task_step_moves [OF m1(1)] Cons.prems(3) show ?thesis by (auto simp: task_move_def)
  qed
  moreover have "calm ev m" using Cons.prems(3) by (simp add: calm_def split: manager_event.splits)
  ultimately show ?case
    using Cons.IH [OF m1(2)] Cons.prems(2,4) m1(1) by (auto intro: calm_reachable.calm_step)
qed simp

definition idle_adb :: "unit adb_manager" where
  "idle_adb = \<lparr>resolved_adb_path = None, adb_world = ()\<rparr>"

lemma sample_looping:
  obtains m :: sample_manager where "calm_reachable sample_env m" "looping_at 0 m" "pm_configuring m = None"
    "pm_stops m = []"
proof -
  have new: "pm_worker (manager_new idle_adb :: sample_manager) = None"
    "0 = length (pm_tasks (manager_new idle_adb :: sample_manager))"
    "pm_stops (manager_new idle_adb :: sample_manager) = []"
    "pm_configuring (manager_new idle_adb :: sample_manager) = None"
    by (simp_all add: manager_new_def)
  from connecting_run [OF new(1,2)] obtain m :: sample_manager where
      m: "manager_run sample_env (connecting 0) (manager_new idle_adb) = Some m" "looping_at 0 m"
      "pm_configuring m = None" "pm_stops m = []"
    using new(3,4) by metis
  from quiet_run [OF m(1) calm_reachable.calm_new new(3)] m(2-4) that show thesis by (simp add: connecting_def)
qed

theorem manager_handles_are_sound_witness:
  "\<exists>m :: sample_manager. looping_at 0 m \<and> pm_shutdown_tx m = Some 0"
proof -
  obtain m :: sample_manager where m: "calm_reachable sample_env m" "looping_at 0 m"
    by (rule sample_looping)
  from manager_handles_are_sound [of sample_env m] calm_reachable_inv [OF m(1)] m(2) show ?thesis
    by (auto simp: looping_at_def)
qed

text \<open>
  C7. A client that waits for each call of \<open>stop\<close> sees the truth: at most one pipeline runs; from
  the moment it has set a sender until it clears it that sender leads to it, so a connection
  is there to be used whenever one is being served; the status says connected only while a
  stream runs (or after its task has panicked); and whenever the actor is between two turns
  and no failed change is being undone, the status is the negotiated state and the output's
  true format.
\<close>

theorem calm_client_sees_the_truth:
  fixes m :: "('a, 'l, 'm, 'w) manager"
  assumes "calm_reachable env m"
  shows "(\<forall>i j. \<not> is_finished (phase_of m i) \<and> \<not> is_finished (phase_of m j) \<longrightarrow> i = j) \<and>
    (\<forall>i. offers_connection (phase_of m i) \<longrightarrow> pm_connection_sender m = Some i) \<and>
    (\<forall>i. offers_commands (phase_of m i) \<longrightarrow> pm_command_sender m = Some i) \<and>
    (ps_connected (pm_status m) \<longrightarrow>
       (\<exists>i. actor_of (phase_of m i) \<noteq> None \<or> phase_of m i = Crashed)) \<and>
    (\<forall>i s. phase_of m i = Looping s \<and> \<not> compensating s \<longrightarrow>
       pm_status m = full_status_of (truthful_status s))"
proof -
  have inv: "calm_inv m" using calm_reachable_inv [OF assms] by blast
  have "pm_status m = full_status_of (truthful_status s)" if "phase_of m i = Looping s" "\<not> compensating s" for i s
  proof -
    from calm_invD(5) [OF inv, of i s] that(1) obtain ins effs st where "actor_reachable ins effs s"
        "last_status effs None = Some st" "pm_status m = full_status_of st"
      unfolding status_of_actor_def by auto
    with reachable_status [of ins effs s] that(2) show ?thesis by simp
  qed
  then have "\<forall>i s. phase_of m i = Looping s \<and> \<not> compensating s \<longrightarrow>
      pm_status m = full_status_of (truthful_status s)" by blast
  moreover have "connects ph \<longleftrightarrow> actor_of ph \<noteq> None \<or> ph = Crashed" for ph :: "('l, 'm, 'w) task_phase"
    by (cases ph) simp_all
  ultimately show ?thesis
    using inv by (simp add: calm_inv_def live_def)
qed

theorem calm_client_sees_the_truth_witness:
  "\<exists>m :: sample_manager. phase_of m 0 = Looping first_actor \<and> ps_active_profile (pm_status m) = Some H264_720P30 \<and>
     (\<forall>i. \<not> is_finished (phase_of m i) \<longrightarrow> i = 0)"
proof -
  obtain m :: sample_manager where m: "calm_reachable sample_env m" "looping_at 0 m"
    by (rule sample_looping)
  have "\<not> compensating first_actor" by (simp add: compensating_def first_actor_def sample_state_def)
  with calm_client_sees_the_truth [OF m(1)] m(2) have "phase_of m 0 = Looping first_actor"
      "pm_status m = full_status_of (truthful_status first_actor)"
      "\<forall>i. \<not> is_finished (phase_of m i) \<longrightarrow> i = 0"
    by (auto simp: looping_at_def)
  then show ?thesis
    by (intro exI [of _ m])
      (simp add: full_status_of_def pipeline_status.extend_def truthful_status_def status_connected_def
        first_actor_def sample_state_def)
qed

text \<open>
  Starting again over a finished USB pipeline drops the record of its reverse tunnel without
  asking adb to remove it.
\<close>

lemma restart_forgets_the_tunnel:
  assumes "pm_worker m = Some i" "is_finished (phase_of m i)"
  shows "pm_usb_forward (snd (start_with_mode h port WifiMode m)) = None \<and>
    pm_adb (snd (start_with_mode h port WifiMode m)) = pm_adb m"
  using assms by (simp add: start_with_mode_def spawn_worker_def open_tunnel_def Let_def)

text \<open>
  C34. Without waiting this is lost. A pipeline started while an earlier call of \<open>stop\<close> is still
  at its end runs on without its senders: the late call clears them and reports
  \<open>disconnected\<close> while the new connection streams, commands are refused, and starting again
  does nothing.
\<close>

theorem overlapping_calls_hide_a_live_stream:
  "\<exists>(m :: sample_manager) s. manager_reachable sample_env m \<and> pm_worker m = Some 1 \<and>
     phase_of m 1 = Looping s \<and> pm_connection_sender m = None \<and> pm_command_sender m = None \<and>
     pm_status m = status_disconnected \<and>
     (\<forall>w h rate pref. configure_begin w h rate pref m = Some (Some NoConnectionForConfiguration, m)) \<and>
     (\<forall>h port mode. start_with_mode h port mode m = (Ok (), m))"
proof -
  define m0 :: sample_manager where "m0 = manager_new idle_adb"
  define a1 where "a1 = snd (start_with_mode (de_adb sample_env) 0 WifiMode m0)"
  define a2 where "a2 = stop_begin a1"
  define a3 where "a3 = set_phase 0 (Accepting sample_device offered)
      (a2\<lparr>pm_connection_sender := None, pm_command_sender := None, pm_status := status_listening\<rparr>)"
  define a4 where "a4 = set_phase 0 Finished (a3\<lparr>pm_status := status_disconnected\<rparr>)"
  have a2: "phase_of a2 0 = Setup" "length (pm_tasks a2) = 1" "t_shutdown (pm_tasks a2 ! 0)" "pm_worker a2 = None"
      "pm_stops a2 = [Joining (Some 0) None]" "pm_configuring a2 = None"
    by (simp_all add: a2_def a1_def m0_def manager_new_def start_with_mode_def spawn_worker_def
        open_tunnel_def stop_begin_def update_task_def phase_of_def spawned_def Let_def)
  have a3: "phase_of a3 0 = Accepting sample_device offered" "t_shutdown (pm_tasks a3 ! 0)"
    using a2 by (simp_all add: a3_def phase_of_set_phase set_phase_nth)
  have "manager_run sample_env [StartCall 0 WifiMode, StopCall] m0 = Some a2"
    by (simp add: a1_def [symmetric] a2_def [symmetric])
  moreover have "manager_run sample_env [TaskShutsDown 0] a3 = Some a4"
    by (simp add: task_shutdown_def a3 a4_def)
  ultimately have run: "manager_run sample_env ([StartCall 0 WifiMode, StopCall] @
      [TaskClears 0, TaskClears 0, TaskSetsUp 0 (Ok sample_device) None sample_sock] @ [TaskShutsDown 0]) m0 = Some a4"
    using sample_listens [OF a2(1)] a2(2)
    by (simp add: manager_run_append a3_def [symmetric] del: manager_run.simps append.simps)
  have a4: "pm_worker a4 = None" "length (pm_tasks a4) = 1" "phase_of a4 0 = Finished"
      "pm_stops a4 = [Joining (Some 0) None]" "pm_configuring a4 = None"
    using a2 by (simp_all add: a4_def a3_def manager_simps phase_of_set_phase)
  obtain m2 where m2: "manager_run sample_env (connecting 1) a4 = Some m2" "looping_at 1 m2"
      "pm_stops m2 = [Joining (Some 0) None]" "phase_of m2 0 = Finished"
      "pm_configuring m2 = None"
    using connecting_run [OF a4(1), of 1] a4(2-5) by auto
  define m3 where "m3 = m2\<lparr>pm_connection_sender := None, pm_command_sender := None, pm_stops := [Released]\<rparr>"
  define m4 where "m4 = m3\<lparr>pm_status := status_disconnected, pm_stops := [Stopped (Ok ())]\<rparr>"
  have ends: "manager_run sample_env [StopJoined 0, StopCleans 0, StopCleans 0, StopCleans 0, StopPublishes 0] m2 =
      Some m4"
    using m2(3,4) by (simp add: stop_joined_def stop_cleans_def close_tunnel_def stop_publish_def m3_def m4_def)
  have phase: "phase_of m4 1 = Looping first_actor"
    using m2(2) phase_of_cong [of m4 m2] by (simp add: looping_at_def m4_def m3_def)
  have "manager_reachable sample_env m4"
    using manager_run_reachable [OF ends] manager_run_reachable [OF m2(1)] manager_run_reachable [OF run]
    by (simp add: m0_def manager_reachable.new)
  moreover have "pm_worker m4 = Some 1" "pm_connection_sender m4 = None" "pm_command_sender m4 = None"
      "pm_status m4 = status_disconnected" "pm_configuring m4 = None"
    using m2(2,5) by (simp_all add: looping_at_def m4_def m3_def)
  ultimately show ?thesis
    using phase
    by (intro exI [of _ m4] exI [of _ first_actor]) (simp add: configure_begin_def start_with_mode_def)
qed

text \<open>Where the token of a call that waits for its reply is.\<close>

definition token_held :: "('a, 'l, 'm, 'w) manager \<Rightarrow> nat \<Rightarrow> reply_token \<Rightarrow> bool" where
  "token_held m i t \<longleftrightarrow>
     (\<exists>c. t_commands (pm_tasks m ! i) = [c] \<and> cmd_reply c = t) \<or>
     (\<exists>c s. phase_of m i = Turning (Command (Some c)) s \<and> cmd_reply c = t) \<or>
     (\<exists>s. actor_of (phase_of m i) = Some s \<and> pending_reply s = Some t)"

lemma step_token_is:
  assumes "step_tokens inp = {#t#}"
  obtains c where "inp = Command (Some c)" "cmd_reply c = t"
proof (cases inp)
  case (Command cmd)
  with assms that show thesis by (cases cmd) (auto simp: step_tokens_def)
qed (use assms in \<open>auto simp: step_tokens_def\<close>)

lemma token_is_somewhere:
  assumes "calls_ok m" "pm_configuring m = Some (Awaiting t i)" "is_streaming (phase_of m i)"
    and "t \<notin> fst ` set (pm_replies m)"
  shows "token_held m i t"
proof -
  from assms have held: "held m i = {#t#}" by (simp add: calls_ok_def awaited_def)
  have queue: "token_held m i t" if "mset (map cmd_reply (t_commands (pm_tasks m ! i))) = {#t#}"
  proof -
    from that have "map cmd_reply (t_commands (pm_tasks m ! i)) = [t]" by (metis mset_single_iff_right)
    then show ?thesis by (auto simp: token_held_def)
  qed
  show ?thesis
  proof (cases "phase_of m i")
    case (Looping s)
    with held queue show ?thesis
      by (auto simp: held_def union_is_single token_held_def outstanding_def split: option.splits)
  next
    case (Turning inp s)
    with held consider "mset (map cmd_reply (t_commands (pm_tasks m ! i))) = {#t#}" | "step_tokens inp = {#t#}"
      | "outstanding (pending_reply s) = {#t#}"
      by (auto simp: held_def union_is_single)
    then show ?thesis
    proof cases
      case 2
      then obtain c where "inp = Command (Some c)" "cmd_reply c = t" by (rule step_token_is)
      with Turning show ?thesis by (auto simp: token_held_def)
    qed (use Turning queue in \<open>auto simp: token_held_def outstanding_def split: option.splits\<close>)
  qed (use held queue in \<open>auto simp: held_def\<close>)
qed

text \<open>The command queue never fills: at most one command waits in it.\<close>

lemma command_queue_never_fills:
  assumes "calls_ok m" "is_streaming (phase_of m i)"
  shows "length (t_commands (pm_tasks m ! i)) \<le> 1"
    and "pm_configuring m = Some (Submitting c j) \<Longrightarrow> t_commands (pm_tasks m ! i) = []"
proof -
  have held: "held m i = awaited m i" using calls_okD(5) [OF assms] .
  have "size (awaited m i) \<le> 1" by (simp add: awaited_def split: option.splits configure_call.splits)
  with held show "length (t_commands (pm_tasks m ! i)) \<le> 1" by (simp add: held_def flip: held)
  show "t_commands (pm_tasks m ! i) = []" if "pm_configuring m = Some (Submitting c j)"
    using held that by (simp add: awaited_def held_def)
qed

lemma submission_never_waits:
  assumes "calls_ok m" "pm_configuring m = Some (Submitting c i)"
  shows "configure_submit m \<noteq> None"
  using command_queue_never_fills(2) [OF assms(1) _ assms(2)] assms(2)
  by (simp add: configure_submit_def PIPELINE_COMMAND_CAPACITY_def)

text \<open>
  C13. A call of \<open>configure_stream\<close> is never forgotten, whatever the interleaving: it never waits
  for room in the task's queue; while the phone is connected and no answer has been given, its
  command is the only one in that queue, is the one the actor is working on, or is the request
  the actor has pending (and so is answered at the end of that turn, by the phone's result, or
  by the timer); and in every other case the call can return at once. No call is answered
  twice.
\<close>

theorem configure_calls_are_answered:
  assumes "manager_reachable env m"
  shows "distinct (map fst (pm_replies m)) \<and>
    (\<forall>c i. pm_configuring m = Some (Submitting c i) \<longrightarrow> configure_submit m \<noteq> None) \<and>
    (\<forall>t i. pm_configuring m = Some (Awaiting t i) \<longrightarrow>
       (if is_streaming (phase_of m i) \<and> t \<notin> fst ` set (pm_replies m)
        then (\<exists>c. t_commands (pm_tasks m ! i) = [c] \<and> cmd_reply c = t) \<or>
             (\<exists>c s. phase_of m i = Turning (Command (Some c)) s \<and> cmd_reply c = t) \<or>
             (\<exists>s. actor_of (phase_of m i) = Some s \<and> pending_reply s = Some t)
        else configure_end m \<noteq> None))"
proof -
  have ok: "calls_ok m" by (rule reachable_calls_ok [OF assms])
  have "configure_end m \<noteq> None"
    if "pm_configuring m = Some (Awaiting t i)" "\<not> (is_streaming (phase_of m i) \<and> t \<notin> fst ` set (pm_replies m))" for t i
    using that by (auto simp: configure_end_def map_of_eq_None_iff split: option.splits)
  with calls_okD(3) [OF ok] submission_never_waits [OF ok] token_is_somewhere [OF ok, unfolded token_held_def]
  show ?thesis by auto
qed

theorem configure_calls_are_answered_witness:
  "\<exists>(m :: sample_manager) t. pm_configuring m = Some (Awaiting t 0) \<and>
     ((\<exists>c. t_commands (pm_tasks m ! 0) = [c] \<and> cmd_reply c = t) \<or>
      (\<exists>c s. phase_of m 0 = Turning (Command (Some c)) s \<and> cmd_reply c = t) \<or>
      (\<exists>s. actor_of (phase_of m 0) = Some s \<and> pending_reply s = Some t))"
proof -
  obtain m :: sample_manager where m: "calm_reachable sample_env m" "looping_at 0 m" "pm_configuring m = None"
    by (rule sample_looping)
  then have reach: "manager_reachable sample_env m" by (simp add: calm_reachable_inv)
  have ok: "calls_ok m" by (rule reachable_calls_ok [OF reach])
  have looping: "phase_of m 0 = Looping first_actor" using m(2) by (simp add: looping_at_def)
  obtain m1 c where m1: "configure_begin 1280 720 30 PreferAuto m = Some (None, m1)"
      "pm_configuring m1 = Some (Submitting c 0)" "pm_replies m1 = pm_replies m" "phase_of m1 0 = phase_of m 0"
    using m(2,3) by (simp add: configure_begin_def looping_at_def Let_def)
  have reach1: "manager_reachable sample_env m1"
    using manager_reachable.step [OF reach, of "ConfigureCall 1280 720 30 PreferAuto"] m1(1) by simp
  have ok1: "calls_ok m1" by (rule reachable_calls_ok [OF reach1])
  from submission_never_waits [OF ok1 m1(2)] obtain r m' where sub: "configure_submit m1 = Some (r, m')" by auto
  then have m': "pm_configuring m' = Some (Awaiting (cmd_reply c) 0)" "pm_replies m' = pm_replies m1"
      "phase_of m' 0 = phase_of m1 0"
    using m1(2,4) looping
    by (auto simp: manager_simps phase_of_update_task elim!: configure_submit_cases)
  have reach': "manager_reachable sample_env m'"
    using manager_reachable.step [OF reach1, of ConfigureSubmits] sub by simp
  have "cmd_reply c \<notin> fst ` set (pm_replies m')" using calls_okD(2) [OF ok1 m1(2)] m'(2) by simp
  with configure_calls_are_answered [OF reach'] m' m1(4) looping show ?thesis by auto
qed











end
