(* ===== verification/DesktopLib.thy ===== *)
theory DesktopLib
  imports Pipeline_Manager Mobile_Ffi
begin

text \<open>
  The commands of the desktop application (\<open>rust/phonecam-desktop/src-tauri/src/lib.rs\<close>): what
  the user's input selects, what is checked before the pipeline manager is called, and the
  connection URIs shown as a QR code. The network interfaces, the environment variables and
  the rendering of a QR code are parameters.
\<close>

section \<open>Connection URIs\<close>

definition DEFAULT_QR_DEVICE_NAME :: ustr where
  "DEFAULT_QR_DEVICE_NAME = lit ''PhoneCam Desktop''"

text \<open>\<open>var\<close> is \<open>std::env::var\<close>, \<open>None\<close> for its errors.\<close>

definition desktop_device_name :: "(ustr \<Rightarrow> ustr option) \<Rightarrow> ustr" where
  "desktop_device_name var =
     (case (case var (lit ''HOSTNAME'') of Some v \<Rightarrow> Some v | None \<Rightarrow> var (lit ''COMPUTERNAME'')) of
        Some v \<Rightarrow> if trim v \<noteq> [] then trim v else DEFAULT_QR_DEVICE_NAME
      | None \<Rightarrow> DEFAULT_QR_DEVICE_NAME)"

primrec is_loopback :: "ip_addr \<Rightarrow> bool" where
  "is_loopback (IpV4 a b c d) = (a = 127)"
| "is_loopback (IpV6 a b c d e f g h) = ([a, b, c, d, e, f, g, h] = [0, 0, 0, 0, 0, 0, 0, 1])"

primrec ip_family :: "ip_addr \<Rightarrow> nat" where
  "ip_family (IpV4 a b c d) = 0"
| "ip_family (IpV6 a b c d e f g h) = 1"

definition ip_key :: "ip_addr \<Rightarrow> nat \<times> ustr" where
  "ip_key ip = (ip_family ip, show_ip ip)"

datatype interface_error = InterfaceListingFailed ustr | NoInterface

definition local_interface_ips ::
  "ustr + (ustr \<times> ip_addr) list \<Rightarrow> (ip_addr list, interface_error) result" where
  "local_interface_ips listing =
     and_then (map_err InterfaceListingFailed (from_sum listing)) (\<lambda>interfaces.
       let ips = remdups_adj (sort_key ip_key (filter (\<lambda>ip. \<not> is_loopback ip) (map snd interfaces)))
       in if ips = [] then Err NoInterface else Ok ips)"

definition qr_connection_uris ::
  "(ustr \<Rightarrow> ustr option) \<Rightarrow> ustr + (ustr \<times> ip_addr) list \<Rightarrow> (ustr list, interface_error) result" where
  "qr_connection_uris var listing =
     and_then (local_interface_ips listing) (\<lambda>ips.
       Ok (map (\<lambda>ip. format_qr_code_uri ip DEFAULT_LISTEN_PORT (desktop_device_name var)) ips))"

datatype qr_error = QrUrisFailed interface_error | NoQrUri | QrFailed ustr

text \<open>\<open>qr_svg\<close> encodes the text as a QR code and draws it.\<close>

definition generate_qr_code ::
  "(ustr \<Rightarrow> ustr + ustr) \<Rightarrow> (ustr \<Rightarrow> ustr option) \<Rightarrow> ustr + (ustr \<times> ip_addr) list \<Rightarrow> (ustr, qr_error) result" where
  "generate_qr_code qr_svg var listing =
     and_then (map_err QrUrisFailed (qr_connection_uris var listing)) (\<lambda>uris.
     and_then (ok_or NoQrUri (case uris of [] \<Rightarrow> None | uri # _ \<Rightarrow> Some uri)) (\<lambda>primary_uri.
       map_err QrFailed (from_sum (qr_svg primary_uri))))"

section \<open>Connecting\<close>

datatype connection_target = Wifi | Usb "ustr option"

definition eq_ignore_ascii_case :: "ustr \<Rightarrow> ustr \<Rightarrow> bool" where
  "eq_ignore_ascii_case a b \<longleftrightarrow> map to_ascii_lowercase a = map to_ascii_lowercase b"

text \<open>The chain of \<open>or_else\<close>: the first prefix that matches.\<close>

fun strip_first :: "ustr list \<Rightarrow> ustr \<Rightarrow> ustr option" where
  "strip_first [] s = None"
| "strip_first (p # ps) s = (case strip_prefix p s of Some r \<Rightarrow> Some r | None \<Rightarrow> strip_first ps s)"

definition connection_target_from_input :: "ustr \<Rightarrow> connection_target" where
  "connection_target_from_input ip =
     (let trimmed = trim ip;
          serial = (case strip_first [lit ''usb:'', lit ''adb:'', lit ''usb://'', lit ''adb://''] trimmed of
                      Some r \<Rightarrow> if trim r \<noteq> [] then Some (trim r) else None
                    | None \<Rightarrow> None)
      in if serial \<noteq> None then Usb serial
         else if eq_ignore_ascii_case trimmed (lit ''usb'') \<or> eq_ignore_ascii_case trimmed (lit ''adb'') \<or>
                 eq_ignore_ascii_case trimmed (lit ''localhost'') \<or> trimmed = lit ''127.0.0.1''
         then Usb None
         else Wifi)"

primrec start_mode_of :: "connection_target \<Rightarrow> start_mode" where
  "start_mode_of Wifi = WifiMode"
| "start_mode_of (Usb serial) = UsbMode serial"

text \<open>\<open>connect\<close> once its call of \<open>stop\<close> has returned \<open>stopped\<close>.\<close>

datatype connect_error = StopFailed stop_error | StartFailed start_error

definition connect_command ::
  "'a adb_host \<Rightarrow> ustr \<Rightarrow> u16 \<Rightarrow> (unit, stop_error) result \<Rightarrow> ('a, 'l, 'm, 'w) manager \<Rightarrow>
   (unit, connect_error) result \<times> ('a, 'l, 'm, 'w) manager" where
  "connect_command h ip port stopped m =
     (let listen_port = (if port = 0 then DEFAULT_LISTEN_PORT else port) in
      and_next (map_err StopFailed stopped, m) (\<lambda>_ m.
        apfst (map_err StartFailed)
          (start_with_mode h listen_port (start_mode_of (connection_target_from_input ip)) m)))"

text \<open>The pipeline that \<open>run\<close> starts with the application.\<close>

definition run_desktop :: "'a adb_host \<Rightarrow> 'a adb_manager \<Rightarrow> ('a, 'l, 'm, 'w) manager" where
  "run_desktop h adb = snd (start_with_mode h DEFAULT_LISTEN_PORT WifiMode (manager_new adb))"

section \<open>Configuring the stream\<close>

datatype command_error =
    UnsupportedResolution u16 u16
  | UnsupportedRate u8
  | UnsupportedPreference ustr
  | ConfigureFailed configure_error

definition validate_stream_configuration :: "u16 \<Rightarrow> u16 \<Rightarrow> u8 \<Rightarrow> (unit, command_error) result" where
  "validate_stream_configuration w h rate =
     (if (w, h) \<notin> set SUPPORTED_DIMENSIONS then Err (UnsupportedResolution w h)
      else if rate \<notin> set SUPPORTED_FRAME_RATES then Err (UnsupportedRate rate)
      else Ok ())"

definition preference_of :: "ustr \<Rightarrow> (codec_preference, command_error) result" where
  "preference_of c =
     (if c = lit ''h264'' then Ok PreferH264
      else if c = lit ''hevc'' then Ok PreferHevc
      else if c = lit ''auto'' then Ok PreferAuto
      else Err (UnsupportedPreference c))"

text \<open>
  \<open>configure_stream\<close> as far as \<open>configure_begin\<close> goes: \<open>Some (Some e, m)\<close> returns the error.
  What \<open>configure_submit\<close> and \<open>configure_end\<close> return later is wrapped in the same way.
\<close>

definition configure_stream_command ::
  "u16 \<Rightarrow> u16 \<Rightarrow> u8 \<Rightarrow> ustr \<Rightarrow> ('a, 'l, 'm, 'w) manager \<Rightarrow>
   (command_error option \<times> ('a, 'l, 'm, 'w) manager) option" where
  "configure_stream_command w h rate c m =
     (case and_then (validate_stream_configuration w h rate) (\<lambda>_. preference_of c) of
        Ok preference \<Rightarrow>
          map_option (apfst (map_option ConfigureFailed)) (configure_begin w h rate preference m)
      | Err e \<Rightarrow> Some (Some e, m)
      | Panic \<Rightarrow> None)"

section \<open>Lemmas\<close>

lemma ip_key_inject [simp]: "ip_key a = ip_key b \<longleftrightarrow> a = b"
  by (auto simp: ip_key_def)

lemma strictly_sorted_remdups_adj:
  fixes xs :: "'a :: linorder list"
  shows "sorted xs \<Longrightarrow> sorted_wrt (<) (remdups_adj xs)"
proof (induction xs rule: remdups_adj.induct)
  case (3 x y xs)
  show ?case
  proof (cases "x = y")
    case False
    with 3 have "sorted_wrt (<) (remdups_adj (y # xs))" "x < y" "\<forall>z \<in> set (y # xs). y \<le> z" by auto
    then have "\<forall>z \<in> set (remdups_adj (y # xs)). x < z" by (auto simp: remdups_adj_set)
    with \<open>sorted_wrt (<) (remdups_adj (y # xs))\<close> False show ?thesis by simp
  qed (use 3 in simp)
qed simp_all

lemma interface_ips_sorted:
  assumes "local_interface_ips listing = Ok ips"
  shows "sorted_wrt (\<lambda>a b. ip_key a < ip_key b) ips"
proof -
  from assms obtain xs where ips: "ips = remdups_adj (sort_key ip_key xs)"
    by (auto simp: local_interface_ips_def result_eqs Let_def split: if_splits)
  have "map ip_key ips = remdups_adj (map ip_key (sort_key ip_key xs))"
    unfolding ips by (rule remdups_adj_map_injective [symmetric]) (simp add: inj_def)
  moreover have "sorted_wrt (<) (remdups_adj (map ip_key (sort_key ip_key xs)))"
    by (rule strictly_sorted_remdups_adj) simp
  ultimately show ?thesis by (simp flip: sorted_wrt_map)
qed

lemma interface_ips_set:
  assumes "local_interface_ips listing = Ok ips"
  shows "\<exists>interfaces. listing = Inr interfaces \<and> ips \<noteq> [] \<and>
    set ips = {ip. (\<exists>n. (n, ip) \<in> set interfaces) \<and> \<not> is_loopback ip}"
proof -
  from assms obtain interfaces where i: "listing = Inr interfaces"
      "ips = remdups_adj (sort_key ip_key (filter (\<lambda>ip. \<not> is_loopback ip) (map snd interfaces)))" "ips \<noteq> []"
    by (auto simp: local_interface_ips_def result_eqs Let_def split: if_splits)
  then show ?thesis by (intro exI [of _ interfaces]) force
qed

lemma validate_stream_configuration_Ok:
  "validate_stream_configuration w h rate = Ok u \<longleftrightarrow>
     well_formed_profile \<lparr>codec = c, width = w, height = h, fps = rate\<rparr>"
  by (simp add: validate_stream_configuration_def well_formed_profile_def)

lemma find_other_prefix:
  assumes "\<And>d. d \<in> set devices \<Longrightarrow> \<not> starts_with p (ad_serial d)"
  shows "List.find (\<lambda>d. ad_serial d = p @ s) devices = None"
proof -
  have "ad_serial d \<noteq> p @ s" if "d \<in> set devices" for d
    using assms [OF that] starts_with_append [of p s] by metis
  then show ?thesis by (simp add: find_None_iff)
qed

section \<open>Properties\<close>

text \<open>
  C35. The connection texts the desktop makes for itself, the first of which it draws as its QR
  code, lead back to it: there is one for every address of an interface that is not a
  loopback, none twice, IPv4 before IPv6, and each scans to that address, the default port,
  and the machine's name up to its first ampersand.
\<close>

theorem shown_codes_lead_back:
  assumes "qr_connection_uris var listing = Ok uris"
  shows "\<exists>interfaces ips. listing = Inr interfaces \<and>
    set ips = {ip. (\<exists>n. (n, ip) \<in> set interfaces) \<and> \<not> is_loopback ip} \<and> distinct ips \<and>
    sorted_wrt (\<lambda>a b. ip_family a \<le> ip_family b) ips \<and> uris \<noteq> [] \<and>
    map parse_qr_code_uri uris =
      map (\<lambda>ip. Ok \<lparr>qr_name = takeWhile (\<lambda>c. c \<noteq> of_char CHR ''&'') (desktop_device_name var),
                    qr_ip = ip, qr_port = DEFAULT_LISTEN_PORT\<rparr>) ips"
proof -
  from assms obtain ips where ips: "local_interface_ips listing = Ok ips"
      "uris = map (\<lambda>ip. format_qr_code_uri ip DEFAULT_LISTEN_PORT (desktop_device_name var)) ips"
    by (auto simp: qr_connection_uris_def result_eqs)
  from interface_ips_set [OF ips(1)] obtain interfaces where interfaces: "listing = Inr interfaces" "ips \<noteq> []"
      "set ips = {ip. (\<exists>n. (n, ip) \<in> set interfaces) \<and> \<not> is_loopback ip}" by blast
  note sorted = interface_ips_sorted [OF ips(1)]
  have "distinct (map ip_key ips)"
    using sorted strict_sorted_iff [of "map ip_key ips"] by (simp add: sorted_wrt_map)
  then have "distinct ips" by (simp add: distinct_map)
  moreover have "sorted_wrt (\<lambda>a b. ip_family a \<le> ip_family b) ips"
    by (rule sorted_wrt_mono_rel [OF _ sorted]) (auto simp: ip_key_def)
  ultimately show ?thesis
    using interfaces ips(2) by (intro exI [of _ interfaces] exI [of _ ips]) (simp add: qr_code_reads_back)
qed

theorem shown_codes_lead_back_witness:
  "\<exists>uris. qr_connection_uris (\<lambda>_. None)
     (Inr [(lit ''lo'', IpV4 127 0 0 1), (lit ''eth0'', IpV4 10 0 0 2), (lit ''wlan0'', IpV4 10 0 0 2)]) = Ok uris \<and>
     map parse_qr_code_uri uris =
       [Ok \<lparr>qr_name = DEFAULT_QR_DEVICE_NAME, qr_ip = IpV4 10 0 0 2, qr_port = 7878\<rparr>]"
proof -
  let ?listing = "Inr [(lit ''lo'', IpV4 127 0 0 1), (lit ''eth0'', IpV4 10 0 0 2), (lit ''wlan0'', IpV4 10 0 0 2)]
      :: ustr + (ustr \<times> ip_addr) list"
  obtain uris where uris: "qr_connection_uris (\<lambda>_. None) ?listing = Ok uris"
    by (simp add: qr_connection_uris_def local_interface_ips_def)
  from shown_codes_lead_back [OF uris] obtain interfaces ips where shown: "?listing = Inr interfaces"
      "set ips = {ip. (\<exists>n. (n, ip) \<in> set interfaces) \<and> \<not> is_loopback ip}" "distinct ips"
      "map parse_qr_code_uri uris = map (\<lambda>ip. Ok \<lparr>qr_name = takeWhile (\<lambda>c. c \<noteq> of_char CHR ''&'')
         (desktop_device_name (\<lambda>_. None)), qr_ip = ip, qr_port = DEFAULT_LISTEN_PORT\<rparr>) ips"
    by blast
  then have "set ips = {IpV4 10 0 0 2}" by auto
  with shown(3) have "ips = [IpV4 10 0 0 2]" by (metis distinct.simps(2) insert_not_empty list.set_cases list.simps(15) list.set(1) list.exhaust singleton_iff list.set_intros)
  with shown(4) uris show ?thesis
    by (simp add: desktop_device_name_def DEFAULT_QR_DEVICE_NAME_def DEFAULT_LISTEN_PORT_def)
qed

text \<open>
  \<open>usb:SERIAL\<close> selects the device with that serial. \<open>usb://SERIAL\<close>, which the code means to
  accept too, does not: \<open>usb:\<close> matches first and leaves the slashes in the serial, so setting
  up the tunnel fails unless a device's serial really begins with two slashes.
\<close>

theorem usb_urls_name_no_device:
  assumes "word serial" "devices \<noteq> []"
    and "\<And>d. d \<in> set devices \<Longrightarrow> \<not> starts_with (lit ''//'') (ad_serial d)"
  shows "connection_target_from_input (lit ''usb:'' @ serial) = Usb (Some serial) \<and>
    connection_target_from_input (lit ''usb://'' @ serial) = Usb (Some (lit ''//'' @ serial)) \<and>
    select_target (Some (lit ''//'' @ serial)) devices = Err (AdbDeviceNotFound (lit ''//'' @ serial))"
proof (intro conjI)
  have words: "word (lit ''usb:'' @ serial)" "word (lit ''usb://'' @ serial)" "word (lit ''//'' @ serial)"
    using assms(1) by (auto simp: word_def is_whitespace_def)
  note trims = trim_word [OF assms(1)] trim_word [OF words(1)] trim_word [OF words(2)] trim_word [OF words(3)]
  have nonempty: "serial \<noteq> []" using assms(1) by (simp add: word_def)
  have strip: "strip_prefix (lit ''usb:'') (lit ''usb:'' @ serial) = Some serial"
    "strip_prefix (lit ''usb:'') (lit ''usb://'' @ serial) = Some (lit ''//'' @ serial)"
    by simp_all
  show "connection_target_from_input (lit ''usb:'' @ serial) = Usb (Some serial)"
    by (simp add: connection_target_from_input_def Let_def strip trims nonempty del: lit_simps)
  show "connection_target_from_input (lit ''usb://'' @ serial) = Usb (Some (lit ''//'' @ serial))"
    using trims nonempty by (simp add: connection_target_from_input_def Let_def strip del: lit_simps)
  have "List.find (\<lambda>d. ad_serial d = lit ''//'' @ serial) devices = None"
    using assms(3) by (rule find_other_prefix)
  then show "select_target (Some (lit ''//'' @ serial)) devices = Err (AdbDeviceNotFound (lit ''//'' @ serial))"
    using trims nonempty assms(2) by (simp add: select_target_def blank_to_none_def del: lit_simps)
qed

theorem usb_urls_name_no_device_witness:
  "select_target (Some (lit ''//ABC1'')) [\<lparr>ad_serial = lit ''ABC1'', ad_state = Device, ad_product = None,
     ad_model = None, ad_device = None, ad_transport_id = None, ad_properties = []\<rparr>] =
   Err (AdbDeviceNotFound (lit ''//ABC1''))"
  using usb_urls_name_no_device [of "lit ''ABC1''" "[\<lparr>ad_serial = lit ''ABC1'', ad_state = Device, ad_product = None,
     ad_model = None, ad_device = None, ad_transport_id = None, ad_properties = []\<rparr>]"]
  by (simp add: word_def is_whitespace_def starts_with_def)

end
