(* ===== verification/Error_Texts.thy ===== *)
theory Error_Texts
  imports DesktopLib
begin

text \<open>
  What the user reads: the texts of ADB's errors (\<open>impl Display for AdbError\<close> in \<open>adb.rs\<close>) and
  of the desktop's commands (\<open>lib.rs\<close>), the commands that only pass a call on, and the status the
  interface polls. A path's text, the text of a failed join and that of an error of the
  connection's actor are parameters.
\<close>

section \<open>Errors of ADB\<close>

definition comma_separated :: "ustr list \<Rightarrow> ustr" where
  "comma_separated = join (lit '', '')"

text \<open>\<open>{:?}\<close> of an \<open>Option<i32>\<close>.\<close>

definition show_exit_code :: "int option \<Rightarrow> ustr" where
  "show_exit_code code =
     (case code of
        None \<Rightarrow> lit ''None''
      | Some c \<Rightarrow> lit ''Some('' @ (if c < 0 then lit ''-'' else []) @ show_dec (nat \<bar>c\<bar>) @ lit '')'')"

definition output_part :: "ustr \<Rightarrow> ustr \<Rightarrow> ustr" where
  "output_part label s = (if trim s \<noteq> [] then lit ''; '' @ label @ lit '': '' @ trim s else [])"

primrec show_adb_error :: "(path \<Rightarrow> ustr) \<Rightarrow> adb_error \<Rightarrow> ustr" where
  "show_adb_error show_path (AdbNotFound searched) =
     (if searched = [] then lit ''ADB binary not found''
      else lit ''ADB binary not found (searched: '' @ comma_separated (map show_path searched) @ lit '')'')"
| "show_adb_error show_path (AdbIo message) = message"
| "show_adb_error show_path (AdbUtf8 message) = message"
| "show_adb_error show_path (AdbParse message) = message"
| "show_adb_error show_path (AdbInvalidPort p) = lit ''invalid TCP port '' @ show_dec (unat p)"
| "show_adb_error show_path AdbNoDevices = lit ''no Android devices detected''"
| "show_adb_error show_path (AdbUnauthorizedDevices serials) =
     (if serials = [] then lit ''device is unauthorized; allow USB debugging on the phone''
      else lit ''unauthorized device(s): '' @ comma_separated serials @
           lit '' (allow USB debugging on the phone)'')"
| "show_adb_error show_path (AdbMultipleDevices serials) =
     lit ''multiple Android devices connected (specify serial): '' @ comma_separated serials"
| "show_adb_error show_path (AdbDeviceNotFound serial) = lit ''ADB device not found: '' @ serial"
| "show_adb_error show_path (AdbDeviceUnavailable serial st) =
     lit ''ADB device '' @ serial @ lit '' is not ready (state: '' @ show_device_state st @ lit '')''"
| "show_adb_error show_path (AdbCommandFailed command code stdout stderr) =
     lit ''ADB command failed: `'' @ command @ lit ''` (exit: '' @
     show_exit_code code @ lit '')'' @ output_part (lit ''stderr'') stderr @ output_part (lit ''stdout'') stdout"

section \<open>Errors of the commands\<close>

primrec show_start_error :: "(path \<Rightarrow> ustr) \<Rightarrow> start_error \<Rightarrow> ustr" where
  "show_start_error show_path (ReverseFailed e) =
     lit ''failed to set up ADB USB reverse tunnel: '' @ show_adb_error show_path e"

primrec show_stop_error :: "ustr \<Rightarrow> stop_error \<Rightarrow> ustr" where
  "show_stop_error join_error JoinFailed = lit ''pipeline worker join failed: '' @ join_error"

primrec show_connect_error :: "(path \<Rightarrow> ustr) \<Rightarrow> ustr \<Rightarrow> connect_error \<Rightarrow> ustr" where
  "show_connect_error show_path join_error (StopFailed e) = show_stop_error join_error e"
| "show_connect_error show_path join_error (StartFailed e) = show_start_error show_path e"

primrec show_camera_error :: "camera_error \<Rightarrow> ustr" where
  "show_camera_error NoConnectionForCamera = lit ''no active phone connection for camera switch''"
| "show_camera_error CameraSendFailed = lit ''failed to send camera switch: connection closed''"

primrec show_configure_error :: "(reply_error \<Rightarrow> ustr) \<Rightarrow> configure_error \<Rightarrow> ustr" where
  "show_configure_error show_reply NoConnectionForConfiguration =
     lit ''no active phone connection for stream configuration''"
| "show_configure_error show_reply ActorStopped = lit ''stream configuration actor stopped''"
| "show_configure_error show_reply ReplyDropped = lit ''stream configuration actor dropped its reply''"
| "show_configure_error show_reply (ActorAnswered e) = show_reply e"

primrec show_command_error :: "(reply_error \<Rightarrow> ustr) \<Rightarrow> command_error \<Rightarrow> ustr" where
  "show_command_error show_reply (UnsupportedResolution w h) =
     lit ''unsupported resolution '' @ show_dec (unat w) @ lit ''x'' @ show_dec (unat h)"
| "show_command_error show_reply (UnsupportedRate rate) = lit ''unsupported frame rate '' @ show_dec (unat rate)"
| "show_command_error show_reply (UnsupportedPreference c) = lit ''unsupported codec preference '' @ c"
| "show_command_error show_reply (ConfigureFailed e) =
     lit ''failed to configure phone stream: '' @ show_configure_error show_reply e"

section \<open>Commands that pass a call on\<close>

text \<open>\<open>disconnect\<close> once its call of \<open>stop\<close> has returned \<open>stopped\<close>.\<close>

definition disconnect_command :: "ustr \<Rightarrow> (unit, stop_error) result \<Rightarrow> (unit, ustr) result" where
  "disconnect_command join_error stopped = map_err (show_stop_error join_error) stopped"

definition switch_camera_command ::
  "bool \<Rightarrow> bool \<Rightarrow> ('a, 'l, 'm, 'w) manager \<Rightarrow> (unit, ustr) result \<times> ('a, 'l, 'm, 'w) manager" where
  "switch_camera_command front taken m =
     apfst (map_err (\<lambda>e. lit ''failed to send camera switch command: '' @ show_camera_error e))
       (switch_camera front taken m)"

record desktop_status =
  st_connected :: bool
  st_state :: pipeline_state
  st_last_error :: "pipeline_error option"
  st_supported_profiles :: "stream_profile list"
  st_active_profile :: "stream_profile option"
  st_output_format :: "native_output_format option"

definition get_status :: "('a, 'l, 'm, 'w) manager \<Rightarrow> desktop_status" where
  "get_status m =
     (let pipeline_status = pm_status m in
      \<lparr>st_connected = ps_connected pipeline_status, st_state = ps_state pipeline_status,
       st_last_error = ps_last_error pipeline_status,
       st_supported_profiles = ps_supported_profiles pipeline_status,
       st_active_profile = ps_active_profile pipeline_status,
       st_output_format = ps_output_format pipeline_status\<rparr>)"

section \<open>Lemmas\<close>

definition mentions :: "ustr \<Rightarrow> ustr \<Rightarrow> bool" where
  "mentions s t \<longleftrightarrow> (\<exists>a b. t = a @ s @ b)"

lemma mentions_self [simp]: "mentions s s"
  unfolding mentions_def by (metis append_Nil append_Nil2)

lemma mentions_append: "mentions s t \<Longrightarrow> mentions s (t @ u)" "mentions s t \<Longrightarrow> mentions s (u @ t)"
  unfolding mentions_def by (metis append.assoc)+

lemma mentions_joined: "s \<in> set ss \<Longrightarrow> mentions s (join sep ss)"
  by (induction ss) (auto intro: mentions_append)

lemma mentions_inside: "mentions s (a @ s @ b)"
  unfolding mentions_def by blast

lemma error_text_mentions:
  "mentions s (show_adb_error show_path (AdbDeviceNotFound s))"
  "mentions s (show_adb_error show_path (AdbDeviceUnavailable s st))"
  "s \<in> set ss \<Longrightarrow> mentions s (show_adb_error show_path (AdbUnauthorizedDevices ss))"
  "s \<in> set ss \<Longrightarrow> mentions s (show_adb_error show_path (AdbMultipleDevices ss))"
  using mentions_joined [of s ss "lit '', ''"]
  by (auto simp: comma_separated_def mentions_append mentions_inside simp del: lit_simps)

lemma start_text_mentions:
  "mentions s (show_adb_error show_path e) \<Longrightarrow> mentions s (show_start_error show_path (ReverseFailed e))"
  by (simp add: mentions_append del: lit_simps)

text \<open>
  When no device can be chosen although some are attached, the text names the device asked for
  or, if none was, all those among which the choice lies: the ready ones, else the unauthorized.
\<close>

lemma usb_errors_name_the_devices:
  assumes "select_target serial devices = Err e"
  shows "case blank_to_none serial of
      Some requested \<Rightarrow> devices = [] \<or> mentions requested (show_start_error show_path (ReverseFailed e))
    | None \<Rightarrow>
        (\<forall>d \<in> set devices. is_ready d \<longrightarrow> mentions (ad_serial d) (show_start_error show_path (ReverseFailed e))) \<and>
        ((\<forall>d \<in> set devices. \<not> is_ready d) \<longrightarrow>
          (\<forall>d \<in> set devices. ad_state d = Unauthorized \<longrightarrow>
             mentions (ad_serial d) (show_start_error show_path (ReverseFailed e))))"
proof (cases "blank_to_none serial")
  case (Some requested)
  with assms show ?thesis
    by (auto simp: select_target_def simp del: show_start_error.simps
        intro!: start_text_mentions error_text_mentions split: option.splits if_splits)
next
  case None
  show ?thesis
  proof (cases "filter is_ready devices")
    case Nil
    then have "\<not> is_ready d" if "d \<in> set devices" for d using that by (auto simp: filter_empty_conv)
    moreover have "mentions (ad_serial d) (show_start_error show_path (ReverseFailed e))"
      if "d \<in> set devices" "ad_state d = Unauthorized" for d
    proof -
      have "e = AdbUnauthorizedDevices (map ad_serial (filter (\<lambda>d. ad_state d = Unauthorized) devices))"
        "filter (\<lambda>d. ad_state d = Unauthorized) devices \<noteq> []"
        using assms None Nil that by (auto simp: select_target_def Let_def filter_empty_conv split: if_splits)
      with that show ?thesis
        by (auto intro!: start_text_mentions error_text_mentions simp del: show_start_error.simps)
    qed
    ultimately show ?thesis using None by simp
  next
    case (Cons d ds)
    then have "e = AdbMultipleDevices (map ad_serial (filter is_ready devices))"
      using assms None by (auto simp: select_target_def split: if_splits list.splits)
    then have "mentions (ad_serial d') (show_start_error show_path (ReverseFailed e))"
      if "d' \<in> set devices" "is_ready d'" for d'
      using that by (auto intro!: start_text_mentions error_text_mentions simp del: show_start_error.simps)
    moreover have "\<exists>d \<in> set devices. is_ready d" using Cons by (metis filter_empty_conv list.distinct(1))
    ultimately show ?thesis using None by auto
  qed
qed

end
