(* ===== verification/App_Group.thy ===== *)
theory App_Group
  imports Native_Driver Text_Utils
begin

text \<open>
  How the macOS driver finds the camera extension's socket (\<open>app_group_container_path\<close> and its
  helpers in \<open>rust/phonecam-desktop/src-tauri/src/driver_macos.rs\<close>): a chain of calls of the
  Objective-C runtime under an autorelease pool.

  The runtime is outside the repository. It is a pair of functions of the calls made so far,
  which is as much as a runtime that answers as it likes can be; the calls are the state, so
  that what the code asks of the runtime, and in which order, is visible. A pointer is a
  number, 0 the null pointer.
\<close>

section \<open>The runtime\<close>

datatype objc_call =
    GetEuid
  | PoolPush
  | PoolPop nat
  | GetClass ustr
  | RegisterSelector ustr
  | SendId nat nat
  | SendIdWithId nat nat nat
  | SendIdWithCStr nat nat ustr
  | SendCStr nat nat
  | ReadCStr nat

record objc =
  answer :: "objc_call list \<Rightarrow> nat"
  c_bytes :: "objc_call list \<Rightarrow> u8 list"
  utf8_error :: "u8 list \<Rightarrow> ustr"

datatype lookup_error =
    ClassMissing ustr
  | SelectorMissing ustr
  | IdentifierHasNul
  | NoNSString
  | NoFileManager
  | NoContainer ustr nat
  | NoPath
  | NoUtf8Path
  | PathNotUtf8 ustr

text \<open>A step makes calls and goes on with a value or returns with an error.\<close>

type_synonym 'a lookup = "objc_call list \<Rightarrow> (lookup_error + 'a) \<times> objc_call list"

definition returning :: "'a \<Rightarrow> 'a lookup" where
  "returning x h = (Inr x, h)"

definition failing :: "lookup_error \<Rightarrow> 'a lookup" where
  "failing e h = (Inl e, h)"

definition followed_by :: "'a lookup \<Rightarrow> ('a \<Rightarrow> 'b lookup) \<Rightarrow> 'b lookup" where
  "followed_by f g h =
     (case f h of
        (Inr x, h') \<Rightarrow> g x h'
      | (Inl e, h') \<Rightarrow> (Inl e, h'))"

definition asking :: "objc \<Rightarrow> objc_call \<Rightarrow> nat lookup" where
  "asking rt c h = (Inr (answer rt (h @ [c])), h @ [c])"

definition reading :: "objc \<Rightarrow> nat \<Rightarrow> u8 list lookup" where
  "reading rt p h = (Inr (c_bytes rt (h @ [ReadCStr p])), h @ [ReadCStr p])"

text \<open>The typed forms of \<open>objc_msgSend\<close>.\<close>

definition objc_msg_send_id :: "objc \<Rightarrow> nat \<Rightarrow> nat \<Rightarrow> nat lookup" where
  "objc_msg_send_id rt receiver selector = asking rt (SendId receiver selector)"

definition objc_msg_send_id_with_id :: "objc \<Rightarrow> nat \<Rightarrow> nat \<Rightarrow> nat \<Rightarrow> nat lookup" where
  "objc_msg_send_id_with_id rt receiver selector arg = asking rt (SendIdWithId receiver selector arg)"

definition objc_msg_send_id_with_cstr :: "objc \<Rightarrow> nat \<Rightarrow> nat \<Rightarrow> ustr \<Rightarrow> nat lookup" where
  "objc_msg_send_id_with_cstr rt receiver selector arg = asking rt (SendIdWithCStr receiver selector arg)"

definition objc_msg_send_cstr :: "objc \<Rightarrow> nat \<Rightarrow> nat \<Rightarrow> nat lookup" where
  "objc_msg_send_cstr rt receiver selector = asking rt (SendCStr receiver selector)"

lemmas send_defs =
  objc_msg_send_id_def objc_msg_send_id_with_id_def objc_msg_send_id_with_cstr_def objc_msg_send_cstr_def

text \<open>\<open>AutoreleasePool\<close>: pushed when it is made, popped when it is dropped, however the body returns.\<close>

definition with_autorelease_pool :: "objc \<Rightarrow> 'a lookup \<Rightarrow> 'a lookup" where
  "with_autorelease_pool rt body =
     followed_by (asking rt PoolPush) (\<lambda>pool h. case body h of (r, h') \<Rightarrow> (r, h' @ [PoolPop pool]))"

definition non_null :: "lookup_error \<Rightarrow> nat \<Rightarrow> nat lookup" where
  "non_null e p = (if p = 0 then failing e else returning p)"

section \<open>The lookup\<close>

definition get_objc_class :: "objc \<Rightarrow> ustr \<Rightarrow> nat lookup" where
  "get_objc_class rt name = followed_by (asking rt (GetClass name)) (non_null (ClassMissing name))"

definition get_selector :: "objc \<Rightarrow> ustr \<Rightarrow> nat lookup" where
  "get_selector rt name = followed_by (asking rt (RegisterSelector name)) (non_null (SelectorMissing name))"

text \<open>\<open>CString::new\<close> of the identifier, then the string object made of it.\<close>

definition app_group_string :: "objc \<Rightarrow> nat \<Rightarrow> ustr \<Rightarrow> nat lookup" where
  "app_group_string rt ns_string_class identifier =
     (if 0 \<in> set identifier then failing IdentifierHasNul
      else
        followed_by (get_selector rt (lit ''stringWithUTF8String:'')) (\<lambda>sel.
        followed_by (objc_msg_send_id_with_cstr rt ns_string_class sel identifier) (non_null NoNSString)))"

definition default_file_manager :: "objc \<Rightarrow> nat \<Rightarrow> nat lookup" where
  "default_file_manager rt file_manager_class =
     followed_by (get_selector rt (lit ''defaultManager'')) (\<lambda>sel.
     followed_by (objc_msg_send_id rt file_manager_class sel) (non_null NoFileManager))"

text \<open>The container's URL, its path, and the path's text, which is copied out.\<close>

definition container_path_text :: "objc \<Rightarrow> nat \<Rightarrow> ustr \<Rightarrow> nat \<Rightarrow> nat \<Rightarrow> ustr lookup" where
  "container_path_text rt euid identifier file_manager ns_group =
     followed_by (get_selector rt (lit ''containerURLForSecurityApplicationGroupIdentifier:'')) (\<lambda>sel.
     followed_by (objc_msg_send_id_with_id rt file_manager sel ns_group) (\<lambda>url.
     followed_by (non_null (NoContainer identifier euid) url) (\<lambda>url.
     followed_by (get_selector rt (lit ''path'')) (\<lambda>sel.
     followed_by (objc_msg_send_id rt url sel) (\<lambda>path.
     followed_by (non_null NoPath path) (\<lambda>path.
     followed_by (get_selector rt (lit ''UTF8String'')) (\<lambda>sel.
     followed_by (objc_msg_send_cstr rt path sel) (\<lambda>text_ptr.
     followed_by (non_null NoUtf8Path text_ptr) (\<lambda>text_ptr.
     followed_by (reading rt text_ptr) (\<lambda>bytes.
       case utf8_decode bytes of
         Some s \<Rightarrow> returning s
       | None \<Rightarrow> failing (PathNotUtf8 (utf8_error rt bytes))))))))))))"

definition app_group_container_path :: "objc \<Rightarrow> ustr \<Rightarrow> ustr lookup" where
  "app_group_container_path rt identifier =
     followed_by (asking rt GetEuid) (\<lambda>euid.
       with_autorelease_pool rt (
         followed_by (get_objc_class rt (lit ''NSString'')) (\<lambda>ns_string_class.
         followed_by (get_objc_class rt (lit ''NSFileManager'')) (\<lambda>file_manager_class.
         followed_by (app_group_string rt ns_string_class identifier) (\<lambda>ns_group.
         followed_by (default_file_manager rt file_manager_class) (\<lambda>file_manager.
           container_path_text rt euid identifier file_manager ns_group))))))"

definition APP_GROUP_IDENTIFIER :: ustr where
  "APP_GROUP_IDENTIFIER = lit ''group.com.phonecam.shared''"

definition SOCKET_FILE_NAME :: ustr where
  "SOCKET_FILE_NAME = lit ''phonecam.sock''"

text \<open>\<open>PathBuf::join\<close> with a relative file name.\<close>

definition join_file :: "ustr \<Rightarrow> ustr \<Rightarrow> ustr" where
  "join_file dir file =
     (if dir = [] \<or> last dir = of_char CHR ''/'' then dir @ file else dir @ lit ''/'' @ file)"

definition app_group_socket_path :: "objc \<Rightarrow> ustr \<Rightarrow> ustr lookup" where
  "app_group_socket_path rt identifier =
     followed_by (app_group_container_path rt identifier) (\<lambda>dir. returning (join_file dir SOCKET_FILE_NAME))"

definition quoted :: "ustr \<Rightarrow> ustr" where
  "quoted s = [39] @ s @ [39]"

definition show_lookup_error :: "lookup_error \<Rightarrow> ustr" where
  "show_lookup_error e =
     (case e of
        ClassMissing name \<Rightarrow> lit ''Objective-C class '' @ quoted name @ lit '' not found''
      | SelectorMissing name \<Rightarrow> lit ''Objective-C selector '' @ quoted name @ lit '' not found''
      | IdentifierHasNul \<Rightarrow> lit ''app group identifier contains interior NUL byte''
      | NoNSString \<Rightarrow> lit ''failed to allocate NSString for app group identifier''
      | NoFileManager \<Rightarrow> lit ''NSFileManager.defaultManager returned nil''
      | NoContainer identifier euid \<Rightarrow>
          lit ''App Group container unavailable for '' @ quoted identifier @ lit '' (euid='' @
          show_dec euid @ lit '')''
      | NoPath \<Rightarrow> lit ''container URL path is nil''
      | NoUtf8Path \<Rightarrow> lit ''container URL path UTF8String is nil''
      | PathNotUtf8 err \<Rightarrow> lit ''container URL path is not valid UTF-8: '' @ err)"

text \<open>
  The parameter \<open>mac_connect\<close> of the driver's model, made of the lookup and of
  \<open>UnixStream::connect\<close> on the path it gives.
\<close>

definition connect_extension ::
  "objc \<Rightarrow> (ustr \<Rightarrow> 'w \<Rightarrow> (ustr + unit) \<times> 'w) \<Rightarrow> objc_call list \<times> 'w \<Rightarrow>
   (ustr + unit) \<times> objc_call list \<times> 'w" where
  "connect_extension rt unix_connect = (\<lambda>(h, world).
     case app_group_socket_path rt APP_GROUP_IDENTIFIER h of
       (Inr path, h') \<Rightarrow>
         (case unix_connect path world of
            (Inr u, world') \<Rightarrow> (Inr (), h', world')
          | (Inl err, world') \<Rightarrow>
              (Inl (lit ''failed to connect to CMIO extension socket at '' @ path @ lit '': '' @ err), h', world'))
     | (Inl e, h') \<Rightarrow> (Inl (show_lookup_error e), h', world))"

section \<open>What the calls are\<close>

text \<open>
  What a pointer stands for is decided by where it comes from: the call whose answer it is, and
  that it is not null.
\<close>

definition answered :: "objc \<Rightarrow> objc_call \<Rightarrow> nat \<Rightarrow> objc_call list \<Rightarrow> bool" where
  "answered rt c p h \<longleftrightarrow> p \<noteq> 0 \<and> (\<exists>n < length h. h ! n = c \<and> p = answer rt (take (Suc n) h))"

definition is_class :: "objc \<Rightarrow> char list \<Rightarrow> nat \<Rightarrow> objc_call list \<Rightarrow> bool" where
  "is_class rt name p h \<longleftrightarrow> answered rt (GetClass (lit name)) p h"

definition is_selector :: "objc \<Rightarrow> char list \<Rightarrow> nat \<Rightarrow> objc_call list \<Rightarrow> bool" where
  "is_selector rt name p h \<longleftrightarrow> answered rt (RegisterSelector (lit name)) p h"

text \<open>
  The objects of the lookup: the string made of the identifier, the file manager, the URL it
  gives for that string, the path of the URL, and the text of the path.
\<close>

definition is_group_string :: "objc \<Rightarrow> ustr \<Rightarrow> nat \<Rightarrow> objc_call list \<Rightarrow> bool" where
  "is_group_string rt identifier p h \<longleftrightarrow>
     (\<exists>cls sel. is_class rt ''NSString'' cls h \<and> is_selector rt ''stringWithUTF8String:'' sel h \<and>
        answered rt (SendIdWithCStr cls sel identifier) p h)"

definition is_file_manager :: "objc \<Rightarrow> nat \<Rightarrow> objc_call list \<Rightarrow> bool" where
  "is_file_manager rt p h \<longleftrightarrow>
     (\<exists>cls sel. is_class rt ''NSFileManager'' cls h \<and> is_selector rt ''defaultManager'' sel h \<and>
        answered rt (SendId cls sel) p h)"

definition is_container_url :: "objc \<Rightarrow> ustr \<Rightarrow> nat \<Rightarrow> objc_call list \<Rightarrow> bool" where
  "is_container_url rt identifier p h \<longleftrightarrow>
     (\<exists>fm sel group. is_file_manager rt fm h \<and>
        is_selector rt ''containerURLForSecurityApplicationGroupIdentifier:'' sel h \<and>
        is_group_string rt identifier group h \<and> answered rt (SendIdWithId fm sel group) p h)"

definition is_path :: "objc \<Rightarrow> ustr \<Rightarrow> nat \<Rightarrow> objc_call list \<Rightarrow> bool" where
  "is_path rt identifier p h \<longleftrightarrow>
     (\<exists>url sel. is_container_url rt identifier url h \<and> is_selector rt ''path'' sel h \<and>
        answered rt (SendId url sel) p h)"

definition is_path_text :: "objc \<Rightarrow> ustr \<Rightarrow> nat \<Rightarrow> objc_call list \<Rightarrow> bool" where
  "is_path_text rt identifier p h \<longleftrightarrow>
     (\<exists>path sel. is_path rt identifier path h \<and> is_selector rt ''UTF8String'' sel h \<and>
        answered rt (SendCStr path sel) p h)"

text \<open>A call that fits what its receiver, selector and argument stand for after the calls \<open>h\<close>.\<close>

definition sound_call :: "objc \<Rightarrow> ustr \<Rightarrow> objc_call list \<Rightarrow> objc_call \<Rightarrow> bool" where
  "sound_call rt identifier h c \<longleftrightarrow>
     (case c of
        GetEuid \<Rightarrow> False
      | PoolPush \<Rightarrow> False
      | PoolPop p \<Rightarrow> False
      | GetClass name \<Rightarrow> name \<in> lit ` {''NSString'', ''NSFileManager''}
      | RegisterSelector name \<Rightarrow>
          name \<in> lit ` {''stringWithUTF8String:'', ''defaultManager'',
            ''containerURLForSecurityApplicationGroupIdentifier:'', ''path'', ''UTF8String''}
      | SendId r sel \<Rightarrow>
          is_class rt ''NSFileManager'' r h \<and> is_selector rt ''defaultManager'' sel h \<or>
          is_container_url rt identifier r h \<and> is_selector rt ''path'' sel h
      | SendIdWithId r sel arg \<Rightarrow>
          is_file_manager rt r h \<and>
          is_selector rt ''containerURLForSecurityApplicationGroupIdentifier:'' sel h \<and>
          is_group_string rt identifier arg h
      | SendIdWithCStr r sel arg \<Rightarrow>
          is_class rt ''NSString'' r h \<and> is_selector rt ''stringWithUTF8String:'' sel h \<and>
          arg = identifier \<and> 0 \<notin> set arg
      | SendCStr r sel \<Rightarrow> is_path rt identifier r h \<and> is_selector rt ''UTF8String'' sel h
      | ReadCStr p \<Rightarrow> is_path_text rt identifier p h)"

definition sound_calls :: "objc \<Rightarrow> ustr \<Rightarrow> objc_call list \<Rightarrow> objc_call list \<Rightarrow> bool" where
  "sound_calls rt identifier h cs \<longleftrightarrow> (\<forall>i < length cs. sound_call rt identifier (h @ take i cs) (cs ! i))"

lemma answered_append: "answered rt c p h \<Longrightarrow> answered rt c p (h @ cs)"
  by (force simp: answered_def nth_append)

lemma answered_last: "p = answer rt (h @ [c]) \<Longrightarrow> p \<noteq> 0 \<Longrightarrow> answered rt c p (h @ [c])"
  by (auto simp: answered_def intro!: exI [of _ "length h"])

lemma sound_calls_append:
  "sound_calls rt g h (cs @ ds) \<longleftrightarrow> sound_calls rt g h cs \<and> sound_calls rt g (h @ cs) ds"
  unfolding sound_calls_def
proof safe
  fix i
  assume all: "\<forall>i<length (cs @ ds). sound_call rt g (h @ take i (cs @ ds)) ((cs @ ds) ! i)"
  show "sound_call rt g (h @ take i cs) (cs ! i)" if "i < length cs"
    using all that by (auto simp: nth_append dest!: spec [of _ i])
  show "sound_call rt g ((h @ cs) @ take i ds) (ds ! i)" if "i < length ds"
    using all that by (auto simp: nth_append dest!: spec [of _ "length cs + i"])
next
  fix i
  assume "\<forall>i<length cs. sound_call rt g (h @ take i cs) (cs ! i)"
    "\<forall>i<length ds. sound_call rt g ((h @ cs) @ take i ds) (ds ! i)" "i < length (cs @ ds)"
  then show "sound_call rt g (h @ take i (cs @ ds)) ((cs @ ds) ! i)"
    by (cases "i < length cs") (auto simp: nth_append dest!: spec [of _ "i - length cs"])
qed

lemma sound_calls_simps [simp]:
  "sound_calls rt g h []" "sound_calls rt g h [c] \<longleftrightarrow> sound_call rt g h c"
  by (simp_all add: sound_calls_def)

text \<open>
  A lookup that from a history with \<open>P\<close> makes only sound calls, and when it returns a value
  does so with \<open>Q\<close>.
\<close>

definition lookup_spec ::
  "objc \<Rightarrow> ustr \<Rightarrow> (objc_call list \<Rightarrow> bool) \<Rightarrow> 'a lookup \<Rightarrow> ('a \<Rightarrow> objc_call list \<Rightarrow> bool) \<Rightarrow> bool" where
  "lookup_spec rt g P f Q \<longleftrightarrow>
     (\<forall>h. P h \<longrightarrow> (\<exists>r cs. f h = (r, h @ cs) \<and> sound_calls rt g h cs \<and>
        (\<forall>x. r = Inr x \<longrightarrow> Q x (h @ cs))))"

text \<open>What a pointer stands for lasts.\<close>

definition lasting :: "(objc_call list \<Rightarrow> bool) \<Rightarrow> bool" where
  "lasting P \<longleftrightarrow> (\<forall>h cs. P h \<longrightarrow> P (h @ cs))"

lemma lasting_answered: "lasting (answered rt c p)"
  by (simp add: lasting_def answered_append)

lemmas provenance_defs = is_class_def is_selector_def is_group_string_def is_file_manager_def
  is_container_url_def is_path_def is_path_text_def

lemma lasting_intros [intro, simp]:
  "lasting (\<lambda>h. True)" "lasting (is_class rt name p)" "lasting (is_selector rt name p)"
  "lasting (is_group_string rt g p)" "lasting (is_file_manager rt p)" "lasting (is_container_url rt g p)"
  "lasting (is_path rt g p)" "lasting (is_path_text rt g p)"
  "lasting P \<Longrightarrow> lasting Q \<Longrightarrow> lasting (\<lambda>h. P h \<and> Q h)"
  "lasting P \<Longrightarrow> lasting (\<lambda>h. b \<longrightarrow> P h)"
  using answered_append unfolding lasting_def provenance_defs by blast+

lemma lookup_bind:
  assumes "lookup_spec rt g P f Q" "lasting P" "\<And>x. lookup_spec rt g (\<lambda>h. P h \<and> Q x h) (k x) R"
  shows "lookup_spec rt g P (followed_by f k) R"
  unfolding lookup_spec_def
proof safe
  fix h
  assume "P h"
  with assms(1) obtain r cs where f: "f h = (r, h @ cs)" "sound_calls rt g h cs"
      "\<And>x. r = Inr x \<Longrightarrow> Q x (h @ cs)"
    unfolding lookup_spec_def by blast
  show "\<exists>r cs. followed_by f k h = (r, h @ cs) \<and> sound_calls rt g h cs \<and> (\<forall>x. r = Inr x \<longrightarrow> R x (h @ cs))"
  proof (cases r)
    case (Inr x)
    with f(3) assms(2) \<open>P h\<close> have "P (h @ cs) \<and> Q x (h @ cs)" by (simp add: lasting_def)
    with assms(3) [of x] obtain r' ds where "k x (h @ cs) = (r', (h @ cs) @ ds)" "sound_calls rt g (h @ cs) ds"
        "\<And>y. r' = Inr y \<Longrightarrow> R y ((h @ cs) @ ds)"
      unfolding lookup_spec_def by blast
    with f(1,2) Inr show ?thesis
      by (intro exI [of _ r'] exI [of _ "cs @ ds"]) (simp add: followed_by_def sound_calls_append)
  qed (use f in \<open>auto simp: followed_by_def\<close>)
qed

text \<open>A call that may be made, whose answer stands for \<open>K\<close> when it is not null.\<close>

lemma lookup_ask:
  assumes "\<And>h. P h \<Longrightarrow> sound_call rt g h c" "lasting P"
    and "\<And>p h. P h \<Longrightarrow> answered rt c p h \<Longrightarrow> K p h"
  shows "lookup_spec rt g P (asking rt c) (\<lambda>p h. p \<noteq> 0 \<longrightarrow> K p h)"
proof -
  have "K p (h @ [c])" if "P h" "p = answer rt (h @ [c])" "p \<noteq> 0" for p h
    using that assms(2) answered_last [OF that(2,3)] by (intro assms(3)) (simp add: lasting_def)
  with assms(1) show ?thesis by (auto simp: lookup_spec_def asking_def)
qed

lemma lookup_non_null: "lookup_spec rt g (\<lambda>h. P h \<and> (p \<noteq> 0 \<longrightarrow> K p h)) (non_null e p) K"
  by (auto simp: lookup_spec_def non_null_def failing_def returning_def)

lemmas lookup_asked = lookup_bind [OF lookup_ask _ lookup_non_null]

lemma lookup_class:
  assumes "lasting P" "sound_call rt g [] (GetClass (lit name))"
  shows "lookup_spec rt g P (get_objc_class rt (lit name)) (is_class rt name)"
  unfolding get_objc_class_def
  by (rule lookup_asked) (use assms in \<open>simp_all add: sound_call_def is_class_def\<close>)

lemma lookup_selector:
  assumes "lasting P" "sound_call rt g [] (RegisterSelector (lit name))"
  shows "lookup_spec rt g P (get_selector rt (lit name)) (is_selector rt name)"
  unfolding get_selector_def
  by (rule lookup_asked) (use assms in \<open>simp_all add: sound_call_def is_selector_def\<close>)

text \<open>A message sent with a selector registered for it, whose answer stands for \<open>K\<close>.\<close>

lemma lookup_send:
  assumes "lasting P" "sound_call rt g [] (RegisterSelector (lit name))"
    and "\<And>sel h. P h \<Longrightarrow> is_selector rt name sel h \<Longrightarrow> sound_call rt g h (c sel)"
    and "\<And>sel p h. P h \<Longrightarrow> is_selector rt name sel h \<Longrightarrow> answered rt (c sel) p h \<Longrightarrow> K p h"
    and "\<And>p. lookup_spec rt g (\<lambda>h. P h \<and> (p \<noteq> 0 \<longrightarrow> K p h)) (k p) R"
  shows "lookup_spec rt g P (followed_by (get_selector rt (lit name)) (\<lambda>sel. followed_by (asking rt (c sel)) k)) R"
proof (rule lookup_bind [OF lookup_selector [OF assms(1,2)] assms(1)])
  fix sel
  have P: "lasting (\<lambda>h. P h \<and> is_selector rt name sel h)" using assms(1) by simp
  show "lookup_spec rt g (\<lambda>h. P h \<and> is_selector rt name sel h) (followed_by (asking rt (c sel)) k) R"
  proof (rule lookup_bind [OF lookup_ask [where K = K] P])
    show "lookup_spec rt g (\<lambda>h. (P h \<and> is_selector rt name sel h) \<and> (p \<noteq> 0 \<longrightarrow> K p h)) (k p) R" for p
      using assms(5) [of p] by (auto simp: lookup_spec_def)
  qed (use assms(3,4) P in auto)
qed

lemma lookup_string:
  assumes "lasting P" "\<And>h. P h \<Longrightarrow> is_class rt ''NSString'' ns h"
  shows "lookup_spec rt g P (app_group_string rt ns g) (is_group_string rt g)"
proof (cases "0 \<in> set g")
  case True
  then show ?thesis by (auto simp: app_group_string_def lookup_spec_def failing_def)
next
  case False
  have "lookup_spec rt g P (followed_by (get_selector rt (lit ''stringWithUTF8String:'')) (\<lambda>sel.
      followed_by (asking rt (SendIdWithCStr ns sel g)) (non_null NoNSString))) (is_group_string rt g)"
    by (rule lookup_send [OF assms(1) _ _ _ lookup_non_null])
      (use assms False in \<open>auto simp: sound_call_def is_group_string_def\<close>)
  with False show ?thesis by (simp only: app_group_string_def send_defs if_False)
qed

lemma lookup_manager:
  assumes "lasting P" "\<And>h. P h \<Longrightarrow> is_class rt ''NSFileManager'' cls h"
  shows "lookup_spec rt g P (default_file_manager rt cls) (is_file_manager rt)"
  unfolding default_file_manager_def send_defs
  by (rule lookup_send [OF assms(1) _ _ _ lookup_non_null])
    (use assms in \<open>auto simp: sound_call_def is_file_manager_def\<close>)

text \<open>The text returned is that of the bytes read last, from the text of the container's path.\<close>

definition read_from :: "objc \<Rightarrow> ustr \<Rightarrow> ustr \<Rightarrow> objc_call list \<Rightarrow> bool" where
  "read_from rt identifier s h \<longleftrightarrow>
     (\<exists>g p. h = g @ [ReadCStr p] \<and> is_path_text rt identifier p g \<and> utf8_decode (c_bytes rt h) = Some s)"

lemma lookup_text:
  assumes "\<And>h. P h \<Longrightarrow> is_path_text rt g p h"
  shows "lookup_spec rt g P (followed_by (reading rt p) (\<lambda>bytes.
    case utf8_decode bytes of Some s \<Rightarrow> returning s | None \<Rightarrow> failing (e bytes))) (read_from rt g)"
  using assms
  by (auto simp: lookup_spec_def followed_by_def reading_def returning_def failing_def sound_call_def read_from_def
      split: option.splits)

text \<open>What the answer of a fitting call stands for.\<close>

lemma is_container_urlI:
  "is_file_manager rt fm h \<Longrightarrow> is_selector rt ''containerURLForSecurityApplicationGroupIdentifier:'' sel h \<Longrightarrow>
   is_group_string rt g s h \<Longrightarrow> answered rt (SendIdWithId fm sel s) p h \<Longrightarrow> is_container_url rt g p h"
  by (auto simp: is_container_url_def)

lemma is_pathI:
  "is_container_url rt g url h \<Longrightarrow> is_selector rt ''path'' sel h \<Longrightarrow> answered rt (SendId url sel) p h \<Longrightarrow>
   is_path rt g p h"
  by (auto simp: is_path_def)

lemma is_path_textI:
  "is_path rt g path h \<Longrightarrow> is_selector rt ''UTF8String'' sel h \<Longrightarrow> answered rt (SendCStr path sel) p h \<Longrightarrow>
   is_path_text rt g p h"
  by (auto simp: is_path_text_def)

lemma lookup_path_text:
  assumes "lasting P" "\<And>h. P h \<Longrightarrow> is_file_manager rt fm h" "\<And>h. P h \<Longrightarrow> is_group_string rt g ns h"
  shows "lookup_spec rt g P (container_path_text rt euid g fm ns) (read_from rt g)"
  unfolding container_path_text_def send_defs
proof (rule lookup_send [where K = "is_container_url rt g", OF assms(1)])
  fix url
  let ?P = "\<lambda>h. P h \<and> (url \<noteq> 0 \<longrightarrow> is_container_url rt g url h)"
  show "lookup_spec rt g ?P (followed_by (non_null (NoContainer g euid) url) (\<lambda>url.
     followed_by (get_selector rt (lit ''path'')) (\<lambda>sel.
     followed_by (asking rt (SendId url sel)) (\<lambda>path.
     followed_by (non_null NoPath path) (\<lambda>path.
     followed_by (get_selector rt (lit ''UTF8String'')) (\<lambda>sel.
     followed_by (asking rt (SendCStr path sel)) (\<lambda>text_ptr.
     followed_by (non_null NoUtf8Path text_ptr) (\<lambda>text_ptr.
     followed_by (reading rt text_ptr) (\<lambda>bytes.
       case utf8_decode bytes of Some s \<Rightarrow> returning s | None \<Rightarrow> failing (PathNotUtf8 (utf8_error rt bytes))))))))))) (read_from rt g)"
    by (intro lookup_bind [OF lookup_non_null [where K = "is_container_url rt g"]]
        lookup_send [where K = "is_path rt g"] lookup_bind [OF lookup_non_null [where K = "is_path rt g"]]
        lookup_send [where K = "is_path_text rt g" and name = "''UTF8String''"]
        lookup_bind [OF lookup_non_null [where K = "is_path_text rt g"]] lookup_text)
      (use assms(1) in \<open>auto simp: sound_call_def intro: is_pathI is_path_textI\<close>)
qed (use assms in \<open>auto simp: sound_call_def intro: is_container_urlI\<close>)

section \<open>Properties\<close>

text \<open>
  C23. Whatever the Objective-C runtime answers, the lookup of the app group's container keeps its
  rules: exactly one autorelease pool is pushed, before any object is touched, and popped at
  the end on every path. In between, only the two classes and the five selectors of the lookup
  are asked for, and every message goes with the selector registered under the name that fits
  it to a receiver that is not nil and comes from the call that gives such a thing: the
  identifier, free of NUL bytes, to the class of strings; \<open>defaultManager\<close> to the class of file
  managers; the request for the container, with that string, to that manager; \<open>path\<close> to the
  container's URL; and \<open>UTF8String\<close> to the path. Text is read only from what the last of these
  answered, and the path returned is the text of the bytes read there while the pool was live.
\<close>

theorem app_group_lookup_keeps_the_rules:
  "\<exists>cs. snd (app_group_container_path rt identifier []) =
      [GetEuid, PoolPush] @ cs @ [PoolPop (answer rt [GetEuid, PoolPush])] \<and>
    sound_calls rt identifier [GetEuid, PoolPush] cs \<and>
    (case fst (app_group_container_path rt identifier []) of
       Inr path \<Rightarrow> read_from rt identifier path ([GetEuid, PoolPush] @ cs)
     | Inl e \<Rightarrow> True)"
proof -
  define body where "body = followed_by (get_objc_class rt (lit ''NSString'')) (\<lambda>ns_string_class.
      followed_by (get_objc_class rt (lit ''NSFileManager'')) (\<lambda>file_manager_class.
      followed_by (app_group_string rt ns_string_class identifier) (\<lambda>ns_group.
      followed_by (default_file_manager rt file_manager_class) (\<lambda>file_manager.
        container_path_text rt (answer rt [GetEuid]) identifier file_manager ns_group))))"
  have "lookup_spec rt identifier (\<lambda>h. True) body (read_from rt identifier)"
    unfolding body_def
    by (intro lookup_bind [OF lookup_class] lookup_bind [OF lookup_string] lookup_bind [OF lookup_manager]
        lookup_path_text) (auto simp: sound_call_def)
  then obtain r cs where "body [GetEuid, PoolPush] = (r, [GetEuid, PoolPush] @ cs)"
      "sound_calls rt identifier [GetEuid, PoolPush] cs"
      "\<And>x. r = Inr x \<Longrightarrow> read_from rt identifier x ([GetEuid, PoolPush] @ cs)"
    unfolding lookup_spec_def by blast
  moreover from this(1) have "app_group_container_path rt identifier [] =
      (r, [GetEuid, PoolPush] @ cs @ [PoolPop (answer rt [GetEuid, PoolPush])])"
    by (simp add: app_group_container_path_def with_autorelease_pool_def followed_by_def asking_def body_def)
  ultimately show ?thesis by (intro exI [of _ cs]) (auto split: sum.splits)
qed

end
