(* ===== verification/Win_Handles.thy ===== *)
theory Win_Handles
  imports Native_Driver Text_Utils
begin

text \<open>
  The Windows driver on the calls of \<open>kernel32\<close> (\<open>driver_windows.rs\<close> in
  \<open>rust/phonecam-desktop/src-tauri/src\<close>). \<open>Native_Driver\<close> takes the system as a record of
  functions on an abstract world; here the world is the list of calls made so far and the
  handle in \<open>PipeHandle\<close>, and the record's functions are the calls the source makes, so that
  which handle is used when, and whether it is closed, can be seen.
\<close>

unbundle bit_operations_syntax

section \<open>Names and handles\<close>

definition PIPE_NAME :: ustr where
  "PIPE_NAME = [92, 92, 46, 92] @ lit ''pipe'' @ [92] @ lit ''PhoneCam''"

text \<open>\<open>str::encode_utf16\<close>: characters beyond the basic plane become surrogate pairs.\<close>

definition utf16_units :: "nat \<Rightarrow> u16 list" where
  "utf16_units c =
     (if c < 0x10000 then [of_nat c]
      else [of_nat (0xD800 + (c - 0x10000) div 0x400), of_nat (0xDC00 + (c - 0x10000) mod 0x400)])"

definition encode_utf16 :: "ustr \<Rightarrow> u16 list" where
  "encode_utf16 s = concat (map utf16_units s)"

definition windows_wide_string :: "ustr \<Rightarrow> u16 list" where
  "windows_wide_string s = encode_utf16 s @ [0]"

type_synonym handle = u64

definition INVALID_HANDLE_VALUE :: handle where
  "INVALID_HANDLE_VALUE = - 1"

definition GENERIC_READ :: u32 where "GENERIC_READ = 0x80000000"
definition GENERIC_WRITE :: u32 where "GENERIC_WRITE = 0x40000000"
definition FILE_SHARE_READ :: u32 where "FILE_SHARE_READ = 1"
definition FILE_SHARE_WRITE :: u32 where "FILE_SHARE_WRITE = 2"
definition OPEN_EXISTING :: u32 where "OPEN_EXISTING = 3"
definition FILE_ATTRIBUTE_NORMAL :: u32 where "FILE_ATTRIBUTE_NORMAL = 0x80"

section \<open>The kernel\<close>

text \<open>\<open>CreateFileW\<close> with its name, access, sharing, disposition and attributes.\<close>

datatype kernel_call =
    CreateFileW "u16 list" u32 u32 u32 u32
  | WaitNamedPipeW "u16 list" nat
  | WriteFile handle "u8 list"
  | ReadFile handle nat
  | CloseHandle handle

text \<open>What the calls answer, given those made so far; \<open>Inl\<close> is the last error after a failure.\<close>

record kernel32 =
  create_answer :: "kernel_call list \<Rightarrow> handle"
  last_error_code :: "kernel_call list \<Rightarrow> int"
  wait_answer :: "kernel_call list \<Rightarrow> bool"
  write_answer :: "kernel_call list \<Rightarrow> ustr + u32"
  read_answer :: "kernel_call list \<Rightarrow> ustr + u8 list"

record pipe_world =
  calls :: "kernel_call list"
  pipe_handle :: handle

definition create_pipe_call :: kernel_call where
  "create_pipe_call =
     (let pipe_name = windows_wide_string PIPE_NAME
      in CreateFileW pipe_name (GENERIC_READ OR GENERIC_WRITE) (FILE_SHARE_READ OR FILE_SHARE_WRITE)
           OPEN_EXISTING FILE_ATTRIBUTE_NORMAL)"

definition create_pipe :: "kernel32 \<Rightarrow> pipe_world \<Rightarrow> (int + unit) \<times> pipe_world" where
  "create_pipe k w =
     (let cs = calls w @ [create_pipe_call]; h = create_answer k cs
      in if h \<noteq> INVALID_HANDLE_VALUE then (Inr (), w\<lparr>calls := cs, pipe_handle := h\<rparr>)
         else (Inl (last_error_code k cs), w\<lparr>calls := cs\<rparr>))"

definition wait_pipe :: "kernel32 \<Rightarrow> pipe_world \<Rightarrow> nat \<Rightarrow> (int + unit) \<times> pipe_world" where
  "wait_pipe k w ms =
     (let cs = calls w @ [WaitNamedPipeW (windows_wide_string PIPE_NAME) ms]
      in (if wait_answer k cs then Inr () else Inl (last_error_code k cs), w\<lparr>calls := cs\<rparr>))"

definition write_pipe :: "kernel32 \<Rightarrow> pipe_world \<Rightarrow> u8 list \<Rightarrow> (ustr + u32) \<times> pipe_world" where
  "write_pipe k w bytes =
     (let cs = calls w @ [WriteFile (pipe_handle w) bytes] in (write_answer k cs, w\<lparr>calls := cs\<rparr>))"

definition read_pipe :: "kernel32 \<Rightarrow> pipe_world \<Rightarrow> nat \<Rightarrow> (ustr + u8 list) \<times> pipe_world" where
  "read_pipe k w n =
     (let cs = calls w @ [ReadFile (pipe_handle w) n] in (read_answer k cs, w\<lparr>calls := cs\<rparr>))"

definition drop_pipe_handle :: "pipe_world \<Rightarrow> pipe_world" where
  "drop_pipe_handle w =
     (if pipe_handle w = INVALID_HANDLE_VALUE \<or> pipe_handle w = 0 then w
      else w\<lparr>calls := calls w @ [CloseHandle (pipe_handle w)]\<rparr>)"

definition windows_os :: "kernel32 \<Rightarrow> pipe_world win_os" where
  "windows_os k =
     \<lparr>win_create_file = create_pipe k, win_wait_named_pipe = wait_pipe k,
      win_write_file = write_pipe k, win_read_file = read_pipe k, win_close = drop_pipe_handle\<rparr>"

lemma windows_os_simps [simp]:
  "win_create_file (windows_os k) = create_pipe k" "win_wait_named_pipe (windows_os k) = wait_pipe k"
  "win_write_file (windows_os k) = write_pipe k" "win_read_file (windows_os k) = read_pipe k"
  "win_close (windows_os k) = drop_pipe_handle"
  by (simp_all add: windows_os_def)

section \<open>A driver's life\<close>

datatype driver_call =
    Connect
  | WriteFrame u32 u32 u64 "u8 list"
  | ReadFormatEvent
  | Disconnect

primrec driver_call_step ::
  "kernel32 \<Rightarrow> driver_call \<Rightarrow> native_driver \<Rightarrow> pipe_world \<Rightarrow> bool \<times> native_driver \<times> pipe_world" where
  "driver_call_step k Connect d w =
     (case windows_connect (windows_os k) d w of (r, d', w') \<Rightarrow> (r = Panic, d', w'))"
| "driver_call_step k (WriteFrame x y ts bytes) d w =
     (case windows_write_frame (windows_os k) d w x y ts bytes of (r, w') \<Rightarrow> (r = Panic, d, w'))"
| "driver_call_step k ReadFormatEvent d w =
     (case windows_read_format_event (windows_os k) d w of (r, w') \<Rightarrow> (r = Panic, d, w'))"
| "driver_call_step k Disconnect d w =
     (case windows_disconnect (windows_os k) d w of (d', w') \<Rightarrow> (False, d', w'))"

text \<open>
  The driver is made, used, and dropped, which drops \<open>pipe\<close> as \<open>disconnect\<close> does. A panic ends
  its use, and unwinding drops it too.
\<close>

fun driver_life :: "kernel32 \<Rightarrow> driver_call list \<Rightarrow> native_driver \<Rightarrow> pipe_world \<Rightarrow> kernel_call list" where
  "driver_life k [] d w = calls (snd (windows_disconnect (windows_os k) d w))"
| "driver_life k (c # cs) d w =
     (case driver_call_step k c d w of
        (panicked, d', w') \<Rightarrow> if panicked then driver_life k [] d' w' else driver_life k cs d' w')"

section \<open>Keeping track of handles\<close>

definition wide_c_string :: "u16 list \<Rightarrow> bool" where
  "wide_c_string s \<longleftrightarrow> s \<noteq> [] \<and> last s = 0 \<and> 0 \<notin> set (butlast s)"

text \<open>
  The handle open after a list of calls. A call that breaks a rule has no result: a name that is
  not a C string, a second handle while one is open, the use of a handle that is not open.
\<close>

definition track :: "kernel32 \<Rightarrow> kernel_call list \<Rightarrow> kernel_call \<Rightarrow> handle option \<Rightarrow> handle option option" where
  "track k cs c opened =
     (case c of
        CreateFileW name a s d f \<Rightarrow>
          if wide_c_string name \<and> opened = None
          then Some (if create_answer k (cs @ [c]) = INVALID_HANDLE_VALUE then None else Some (create_answer k (cs @ [c])))
          else None
      | WaitNamedPipeW name ms \<Rightarrow> if wide_c_string name then Some opened else None
      | WriteFile h bytes \<Rightarrow> if opened = Some h then Some opened else None
      | ReadFile h n \<Rightarrow> if opened = Some h then Some opened else None
      | CloseHandle h \<Rightarrow> if opened = Some h then Some None else None)"

definition open_handle :: "kernel32 \<Rightarrow> kernel_call list \<Rightarrow> handle option option" where
  "open_handle k cs =
     foldl (\<lambda>acc i. Option.bind acc (track k (take i cs) (cs ! i))) (Some None) [0..<length cs]"

lemma open_handle_simps [simp]:
  "open_handle k [] = Some None"
  "open_handle k (cs @ [c]) = Option.bind (open_handle k cs) (track k cs c)"
proof -
  have "foldl (\<lambda>acc i. Option.bind acc (track k (take i (cs @ [c])) ((cs @ [c]) ! i))) (Some None) [0..<length cs] =
      foldl (\<lambda>acc i. Option.bind acc (track k (take i cs) (cs ! i))) (Some None) [0..<length cs]"
    by (rule foldl_cong) (auto simp: nth_append)
  then show "open_handle k (cs @ [c]) = Option.bind (open_handle k cs) (track k cs c)"
    by (simp add: open_handle_def)
qed (simp add: open_handle_def)

lemma zero_free_utf16:
  assumes "\<And>c. c \<in> set s \<Longrightarrow> 0 < c \<and> c < 0x110000"
  shows "0 \<notin> set (encode_utf16 s)"
proof -
  have small: "(of_nat n :: u16) \<noteq> 0" if "0 < n" "n < 0x10000" for n :: nat
    using that by (auto simp: word_of_nat_eq_0_iff dest: nat_dvd_not_less)
  have "0 \<notin> set (utf16_units c)" if "c \<in> set s" for c
  proof -
    have "c - 0x10000 < 0x100000" using assms [OF that] by linarith
    then have "(c - 0x10000) div 0x400 < 0x400" by (simp add: div_less_iff_less_mult)
    moreover have "(c - 0x10000) mod 0x400 < 0x400" by simp
    ultimately show ?thesis
      using assms [OF that] small [of c] small [of "0xD800 + (c - 0x10000) div 0x400"]
        small [of "0xDC00 + (c - 0x10000) mod 0x400"]
      by (auto simp: utf16_units_def)
  qed
  then show ?thesis by (auto simp: encode_utf16_def)
qed

lemma pipe_name_c_string: "wide_c_string (windows_wide_string PIPE_NAME)"
proof -
  have "0 \<notin> set (encode_utf16 PIPE_NAME)" by (rule zero_free_utf16) (auto simp: PIPE_NAME_def)
  then show ?thesis by (simp add: wide_c_string_def windows_wide_string_def)
qed

text \<open>The driver and the world agree: the open handle is the one in \<open>pipe\<close>.\<close>

definition handle_inv :: "kernel32 \<Rightarrow> native_driver \<Rightarrow> pipe_world \<Rightarrow> bool" where
  "handle_inv k d w \<longleftrightarrow>
     open_handle k (calls w) = Some (if d then Some (pipe_handle w) else None) \<and>
     (d \<longrightarrow> pipe_handle w \<noteq> INVALID_HANDLE_VALUE \<and> pipe_handle w \<noteq> 0)"

text \<open>What every read and write of the system keeps, the driver's loops keep.\<close>

locale pipe_contract =
  fixes os :: "'w win_os" and I :: "'w \<Rightarrow> bool"
  assumes write_keeps: "I world \<Longrightarrow> I (snd (win_write_file os world bytes))"
    and read_keeps: "I world \<Longrightarrow> I (snd (win_read_file os world n))"
begin

lemma write_all_keeps: "I world \<Longrightarrow> I (snd (write_all_to_pipe os world bytes))"
proof (induction "length bytes" arbitrary: world bytes rule: less_induct)
  case less
  then show ?case
    using write_keeps [OF less.prems, of "take (min (length bytes) (2 ^ 32 - 1)) bytes"]
    by (auto simp: write_all_to_pipe.simps [of os world] Let_def unat_gt_0 split: prod.splits sum.splits)
qed

lemma read_exact_keeps: "I world \<Longrightarrow> I (snd (read_exact_from_pipe os world n buffer))"
proof (induction n arbitrary: world buffer rule: less_induct)
  case (less n)
  then show ?case
    using read_keeps [OF less.prems, of "min n (2 ^ 32 - 1)"]
    by (auto simp: read_exact_from_pipe.simps [of os world] split: prod.splits sum.splits)
qed

lemma write_frame_keeps:
  assumes "I world"
  shows "I (snd (windows_write_frame os connected world x y ts bytes))"
proof -
  obtain r world1 where head: "write_all_to_pipe os world (native_frame_header x y ts) = (r, world1)" by fastforce
  with write_all_keeps [OF assms] have "I world1" by (metis snd_conv)
  with head assms write_all_keeps show ?thesis
    by (auto simp: windows_write_frame_def write_native_frame_def split: result.splits)
qed

lemma read_event_keeps: "I world \<Longrightarrow> I (snd (windows_read_format_event os connected world))"
  by (simp add: windows_read_format_event_def read_exact_keeps)

end

section \<open>Every call keeps the invariant\<close>

lemma pipe_calls_keep:
  assumes "handle_inv k True w"
  shows "handle_inv k True (snd (write_pipe k w bytes))" "handle_inv k True (snd (read_pipe k w n))"
  using assms by (simp_all add: handle_inv_def write_pipe_def read_pipe_def track_def Let_def)

interpretation open_pipe: pipe_contract "windows_os k" "handle_inv k True" for k
  by unfold_locales (simp_all add: pipe_calls_keep)

lemma unconnected_calls:
  "snd (windows_write_frame os False world x y ts bytes) = world"
  "snd (windows_read_format_event os False world) = world"
  by (auto simp: windows_write_frame_def write_native_frame_def windows_read_format_event_def split: result.splits)

lemma create_pipe_keeps:
  assumes "\<And>cs. create_answer k cs \<noteq> 0" "handle_inv k False w" "create_pipe k w = (a, w')"
  shows "handle_inv k (\<not> isl a) w'"
  using assms pipe_name_c_string
  by (auto simp: handle_inv_def create_pipe_def create_pipe_call_def track_def Let_def split: if_splits)

lemma wait_pipe_keeps:
  "handle_inv k False w \<Longrightarrow> wait_pipe k w ms = (a, w') \<Longrightarrow> handle_inv k False w'"
  using pipe_name_c_string by (auto simp: handle_inv_def wait_pipe_def track_def Let_def)

lemma connect_named_pipe_keeps:
  assumes "\<And>cs. create_answer k cs \<noteq> 0" "handle_inv k False w"
    and "connect_named_pipe (windows_os k) w = (r, w')"
  shows "handle_inv k (r = Ok ()) w'"
proof -
  note created = create_pipe_keeps [OF assms(1)]
  obtain a w1 where first: "create_pipe k w = (a, w1)" by fastforce
  obtain b w2 where second: "wait_pipe k w1 PIPE_WAIT_TIMEOUT_MS = (b, w2)" by fastforce
  obtain c w3 where third: "create_pipe k w2 = (c, w3)" by fastforce
  from created [OF assms(2) first] have one: "handle_inv k (\<not> isl a) w1" .
  from wait_pipe_keeps [OF _ second] have two: "handle_inv k False w1 \<Longrightarrow> handle_inv k False w2" .
  from created [OF _ third] have three: "handle_inv k False w2 \<Longrightarrow> handle_inv k (\<not> isl c) w3" .
  show ?thesis
    using assms(3) first second third one two three
    by (cases a; cases b; cases c) (auto simp: connect_named_pipe_def split: if_splits)
qed

lemma windows_connect_keeps:
  assumes "\<And>cs. create_answer k cs \<noteq> 0" "handle_inv k d w"
    and "windows_connect (windows_os k) d w = (r, d', w')"
  shows "handle_inv k d' w'"
proof (cases d)
  case False
  obtain a w1 where conn: "connect_named_pipe (windows_os k) w = (a, w1)" by fastforce
  from connect_named_pipe_keeps [OF assms(1) _ conn] assms(2) False have "handle_inv k (a = Ok ()) w1" by simp
  with assms(3) False conn show ?thesis by (cases a) (auto simp: windows_connect_def)
qed (use assms in \<open>simp add: windows_connect_def\<close>)

lemma windows_disconnect_keeps:
  "handle_inv k d w \<Longrightarrow> windows_disconnect (windows_os k) d w = (d', w') \<Longrightarrow> \<not> d' \<and> handle_inv k False w'"
  by (auto simp: windows_disconnect_def handle_inv_def drop_pipe_handle_def track_def split: if_splits)

lemma driver_call_keeps:
  assumes "\<And>cs. create_answer k cs \<noteq> 0" "handle_inv k d w" "driver_call_step k c d w = (panicked, d', w')"
  shows "handle_inv k d' w'"
proof (cases c)
  case Connect
  with assms windows_connect_keeps [OF assms(1,2)] show ?thesis by (auto split: prod.splits)
next
  case (WriteFrame x y ts bytes)
  with assms(2,3) open_pipe.write_frame_keeps [of k w d x y ts bytes]
    unconnected_calls(1) [of "windows_os k" w x y ts bytes]
  show ?thesis by (cases d) (auto split: prod.splits)
next
  case ReadFormatEvent
  with assms(2,3) open_pipe.read_event_keeps [of k w d] unconnected_calls(2) [of "windows_os k" w]
  show ?thesis by (cases d) (auto split: prod.splits)
next
  case Disconnect
  with assms windows_disconnect_keeps [OF assms(2)] show ?thesis by (auto split: prod.splits)
qed

lemma driver_life_keeps:
  "(\<And>cs. create_answer k cs \<noteq> 0) \<Longrightarrow> handle_inv k d w \<Longrightarrow> open_handle k (driver_life k cs d w) = Some None"
proof (induction k cs d w rule: driver_life.induct)
  case (1 k d w)
  then show ?case
    using windows_disconnect_keeps [OF 1(2)] by (cases "windows_disconnect (windows_os k) d w") (simp add: handle_inv_def)
next
  case (2 k c cs d w)
  obtain panicked d' w' where step: "driver_call_step k c d w = (panicked, d', w')" by (cases "driver_call_step k c d w")
  from driver_call_keeps [OF 2(3,4) step] have inv: "handle_inv k d' w'" .
  with 2(1,2) [OF step [symmetric] refl] step 2(3) show ?case
    by (cases panicked) simp_all
qed

section \<open>Properties\<close>

text \<open>
  C22. Whatever the system answers and whatever is asked of the driver, also when a call panics: the
  pipe is opened under a proper wide C string and never while a handle is still open, only the
  open handle is written to, read from and closed, and when the driver has been dropped no
  handle is left open. (\<open>CreateFileW\<close> never answers the null handle.)
\<close>

theorem pipe_handles_are_released:
  assumes "\<And>cs. create_answer k cs \<noteq> 0"
  shows "open_handle k (driver_life k cs driver_new \<lparr>calls = [], pipe_handle = h\<rparr>) = Some None"
  using driver_life_keeps [OF assms, of driver_new "\<lparr>calls = [], pipe_handle = h\<rparr>" cs]
  by (simp add: handle_inv_def driver_new_def)

definition sample_kernel :: kernel32 where
  "sample_kernel =
     \<lparr>create_answer = (\<lambda>cs. 7), last_error_code = (\<lambda>cs. 0), wait_answer = (\<lambda>cs. True),
      write_answer = (\<lambda>cs. Inr 9), read_answer = (\<lambda>cs. Inl [])\<rparr>"

text \<open>A system that claims to have written more than it was given: the driver panics and is dropped.\<close>

theorem pipe_handles_are_released_witness:
  "\<exists>cs. cs = driver_life sample_kernel [Connect, Disconnect, Connect, Connect, WriteFrame 2 2 5 [1, 2, 3, 4, 5, 6],
      WriteFrame 2 2 5 [1, 2, 3, 4, 5, 6]] driver_new \<lparr>calls = [], pipe_handle = 0\<rparr> \<and>
    cs = [create_pipe_call, CloseHandle 7, create_pipe_call, WriteFile 7 (native_frame_header 2 2 5),
      WriteFile 7 (drop 9 (native_frame_header 2 2 5)), CloseHandle 7] \<and>
    open_handle sample_kernel cs = Some None"
proof -
  have answers: "create_answer sample_kernel cs \<noteq> 0" "create_answer sample_kernel cs \<noteq> INVALID_HANDLE_VALUE"
    "create_answer sample_kernel cs = 7" "write_answer sample_kernel cs = Inr 9" for cs
    by (simp_all add: sample_kernel_def INVALID_HANDLE_VALUE_def)
  have size: "expected_nv12_payload_len 2 2 = Ok 6" by (simp add: expected_len_Ok USIZE_MAX_def)
  have header: "native_frame_header 2 2 5 \<noteq> []"
    using length_native_frame_header [of 2 2 5] by (metis list.size(3) zero_neq_numeral)
  have "driver_life sample_kernel [Connect, Disconnect, Connect, Connect, WriteFrame 2 2 5 [1, 2, 3, 4, 5, 6],
      WriteFrame 2 2 5 [1, 2, 3, 4, 5, 6]] driver_new \<lparr>calls = [], pipe_handle = 0\<rparr> =
    [create_pipe_call, CloseHandle 7, create_pipe_call, WriteFile 7 (native_frame_header 2 2 5),
      WriteFile 7 (drop 9 (native_frame_header 2 2 5)), CloseHandle 7]"
    using answers size header
    by (simp add: driver_new_def windows_connect_def connect_named_pipe_def create_pipe_def windows_disconnect_def
        drop_pipe_handle_def windows_write_frame_def write_native_frame_def write_all_to_pipe.simps write_pipe_def
        Let_def INVALID_HANDLE_VALUE_def)
  with pipe_handles_are_released [of sample_kernel, OF answers(1)] show ?thesis by metis
qed

end
