(* ===== verification/Discovery_Handles.thy ===== *)
theory Discovery_Handles
  imports Discovery
begin

text \<open>
  The lives of \<open>ServicePublisher\<close> and \<open>ServiceBrowser\<close>
  (\<open>rust/phonecam-discovery/src/lib.rs\<close>): what dropping one asks of the mDNS daemon. Both derive
  \<open>Clone\<close>; a clone holds the same daemon and the same name, and its drop asks the same.

  The daemon's calls are functions on an abstract world \<open>'w\<close>; their errors are ignored by the
  code.
\<close>

record ('d, 'w) mdns_end =
  unregister_service :: "'d \<Rightarrow> ustr \<Rightarrow> 'w \<Rightarrow> 'w"
  stop_browse :: "'d \<Rightarrow> ustr \<Rightarrow> 'w \<Rightarrow> 'w"
  shutdown_daemon :: "'d \<Rightarrow> 'w \<Rightarrow> 'w"

definition fullname :: "'d service_publisher \<Rightarrow> ustr" where
  "fullname p = sp_fullname p"

definition drop_publisher :: "('d, 'w) mdns_end \<Rightarrow> 'd service_publisher \<Rightarrow> 'w \<Rightarrow> 'w" where
  "drop_publisher api p world =
     shutdown_daemon api (sp_daemon p) (unregister_service api (sp_daemon p) (sp_fullname p) world)"

record 'd service_browser =
  sb_daemon :: 'd

definition browser_new_with_mdns_port ::
  "('d, 'i) mdns_api \<Rightarrow> u16 \<Rightarrow> ('d service_browser, discovery_error) result" where
  "browser_new_with_mdns_port api mdns_port =
     and_then (map_err Mdns (from_sum (new_with_port api mdns_port))) (\<lambda>daemon. Ok \<lparr>sb_daemon = daemon\<rparr>)"

definition browser_new :: "('d, 'i) mdns_api \<Rightarrow> ('d service_browser, discovery_error) result" where
  "browser_new api = browser_new_with_mdns_port api DEFAULT_MDNS_PORT"

definition drop_browser :: "('d, 'w) mdns_end \<Rightarrow> 'd service_browser \<Rightarrow> 'w \<Rightarrow> 'w" where
  "drop_browser api b world =
     shutdown_daemon api (sb_daemon b) (stop_browse api (sb_daemon b) SERVICE_TYPE world)"

text \<open>
  A published service is found under the name in \<open>fullname\<close> until the publisher is dropped, and
  dropping any clone of it withdraws it while the others live on: the world after the drop of a
  clone is the world after the drop of the original.
\<close>

lemma publisher_keeps_registered_name:
  assumes "publish_service api micros device_name p version = Ok publisher"
  shows "\<exists>daemon info. new_with_port api DEFAULT_MDNS_PORT = Inr daemon \<and>
    register_service api daemon info = Inr () \<and> fullname publisher = get_fullname api info \<and>
    sp_daemon publisher = daemon"
  using assms
  by (auto simp: publish_service_def publish_with_mdns_port_def fullname_def result_eqs Let_def from_sum_def
      split: sum.splits)

lemma dropping_a_clone_withdraws_the_service:
  assumes "\<And>d name world. name \<notin> registered (unregister_service api d name world)"
    and "\<And>d world. registered (shutdown_daemon api d world) \<subseteq> registered world"
  shows "fullname p \<notin> registered (drop_publisher api p world)"
  unfolding drop_publisher_def fullname_def using assms(1) subsetD [OF assms(2)] by metis

end
