(* ===== verification/Linux_Open.thy ===== *)
theory Linux_Open
  imports Output
begin

text \<open>
  Opening a V4L2 device (\<open>V4l2Device::open\<close> and \<open>list_devices\<close> in
  \<open>rust/phonecam-driver-linux/src/device.rs\<close>): the device node is opened twice, by the v4l crate
  for its controls and by the standard library for the frames.
\<close>

record ('d, 'f) v4l2_device =
  vd_path :: ustr
  vd_device :: 'd
  vd_writer :: 'f

text \<open>\<open>Device::with_path\<close>, opening for writing, and the nodes \<open>enum_devices\<close> finds.\<close>

record ('d, 'f, 'n, 'w) v4l2_files =
  with_path :: "ustr \<Rightarrow> 'w \<Rightarrow> (ustr + 'd) \<times> 'w"
  open_for_writing :: "ustr \<Rightarrow> 'w \<Rightarrow> (ustr + 'f) \<times> 'w"
  enum_devices :: "'w \<Rightarrow> 'n list"
  node_path :: "'n \<Rightarrow> ustr"

definition v4l2_device_open ::
  "('d, 'f, 'n, 'w) v4l2_files \<Rightarrow> ustr \<Rightarrow> 'w \<Rightarrow> (('d, 'f) v4l2_device, driver_error) result \<times> 'w" where
  "v4l2_device_open fs p world =
     (case with_path fs p world of
        (Inl e, world') \<Rightarrow> (Err (V4l2Error e), world')
      | (Inr device, world') \<Rightarrow>
          (case open_for_writing fs p world' of
             (Inl e, world'') \<Rightarrow> (Err (V4l2Error e), world'')
           | (Inr writer, world'') \<Rightarrow>
               (Ok \<lparr>vd_path = p, vd_device = device, vd_writer = writer\<rparr>, world'')))"

definition v4l2_device_path :: "('d, 'f) v4l2_device \<Rightarrow> ustr" where
  "v4l2_device_path d = vd_path d"

definition list_devices :: "('d, 'f, 'n, 'w) v4l2_files \<Rightarrow> 'w \<Rightarrow> ustr list" where
  "list_devices fs world = map (node_path fs) (enum_devices fs world)"

text \<open>The output opens the device named by the environment, or the first one listed.\<close>

definition open_device_of ::
  "('d, 'f, 'n, 'w) v4l2_files \<Rightarrow> ('d, 'f) v4l2_device option \<times> 'w \<Rightarrow> ustr \<Rightarrow>
   (ustr + unit) \<times> ('d, 'f) v4l2_device option \<times> 'w" where
  "open_device_of fs = (\<lambda>(held, world) p.
     case v4l2_device_open fs p world of
       (Ok d, world') \<Rightarrow> (Inr (), Some d, world')
     | (Err (V4l2Error e), world') \<Rightarrow> (Inl e, held, world')
     | (r, world') \<Rightarrow> (Inl [], held, world'))"

lemma open_device_of_Inr:
  "open_device_of fs (held, world) p = (Inr u, held', world') \<Longrightarrow> \<exists>d. held' = Some d \<and> v4l2_device_path d = p"
  by (auto simp: open_device_of_def v4l2_device_open_def v4l2_device_path_def
      split: prod.splits sum.splits result.splits driver_error.splits)

lemma linux_open_opens_the_chosen_device:
  assumes "linux_open (open_device_of fs) loaded env (list_devices fs world) (None, world) = Ok out"
  shows "\<exists>d. fst (lo_world out) = Some d \<and>
    (case preferred_output_device_path env of
       Some p \<Rightarrow> v4l2_device_path d = p
     | None \<Rightarrow> enum_devices fs world \<noteq> [] \<and> v4l2_device_path d = node_path fs (hd (enum_devices fs world))) \<and>
    lo_committed out = None"
proof -
  from assms obtain p held world' where chosen:
    "(case preferred_output_device_path env of Some p \<Rightarrow> Some p
      | None \<Rightarrow> (case list_devices fs world of [] \<Rightarrow> None | d # ds \<Rightarrow> Some d)) = Some p"
    and opened: "open_device_of fs (None, world) p = (Inr (), held, world')"
    and out: "out = \<lparr>lo_world = (held, world'), lo_converter = None, lo_committed = None\<rparr>"
    by (cases "open_device_of fs (None, world) (case preferred_output_device_path env of Some p \<Rightarrow> p
          | None \<Rightarrow> hd (list_devices fs world))")
      (auto simp: linux_open_def result_eqs split: option.splits list.splits sum.splits)
  from open_device_of_Inr [OF opened] obtain d where "held = Some d" "v4l2_device_path d = p" by blast
  with chosen out show ?thesis
    by (auto simp: list_devices_def split: option.splits list.splits)
qed

end
