(* ===== verification/Spec2Isabelle.thy ===== *)
theory Spec2Isabelle
  imports Wired_Claims Settling Live_Claims Frame_Limits Stream_Keyframes Mobile_Ffi Adb_Claims Manager_Claims DesktopLib Error_Texts App_Group
    Win_Handles Discovery_Handles Linux_Open
begin

text \<open>
  PhoneCam turns a phone into a webcam of a desktop computer. The phone encodes camera frames
  and sends them over TCP; the desktop decodes them and hands the pictures to a virtual camera.
  This development models the Rust code of both sides (\<open>src/rust\<close>) as executable definitions
  and proves what the parts guarantee, alone and together.

  \<^bold>\<open>The parts and how they interact.\<close> The phone's application (Kotlin or Swift) calls the C
  functions of \<open>phonecam-mobile-core\<close>, which keep a connection made by \<open>phonecam-transport\<close>
  (frames of \<open>phonecam-protocol\<close>, keepalive pings, a handshake). The desktop finds phones through
  \<open>phonecam-discovery\<close> or an ADB tunnel (\<open>adb.rs\<close>); its pipeline manager (\<open>pipeline.rs\<close>) spawns a
  task that listens, and for each connection runs an actor (\<open>stream_connection\<close>) which
  negotiates the stream profile, feeds a decode worker (\<open>decode.rs\<close>), and writes the pictures to
  an output device (\<open>output.rs\<close>, \<open>convert.rs\<close>, \<open>driver_macos.rs\<close>, \<open>driver_windows.rs\<close>,
  \<open>phonecam-driver-linux\<close>). The Tauri commands of \<open>lib.rs\<close> are what the user interface calls.

  \<^bold>\<open>Conventions.\<close> A call that may fail or panic has a value of \<open>('a, 'e) result\<close> with the
  constructors \<open>Ok\<close>, \<open>Err\<close> and \<open>Panic\<close>; \<open>?\<close> is \<open>and_then\<close>. Machine integers are words, \<open>usize\<close> is a natural
  number below \<open>2 ^ 64\<close> with checked operations, slices are lists with checked indexing, text is
  a list of Unicode scalar values. Structs are records, enums datatypes, hash and tree maps
  association lists in the order the code observes. Errors that the code tells apart only by
  their message are constructors; \<open>Error_Texts\<close> gives the texts of those the user sees.
  Code outside the repository (bincode, serde, openh264, the HEVC decoder, v4l, mdns-sd, kernel32,
  the Objective-C runtime, sockets, processes, clocks) is an argument: a record of functions, or
  the answers it gave. What the theorems assume of it is a named predicate such as \<open>bincode_ok\<close>.
  Concurrency is interleaving: atomic steps between the points where the code waits, in any
  order, as inductive reachability relations.

  \<^bold>\<open>The theories.\<close>

  \<^item> \<open>Rust_Prelude\<close>, \<open>Rust_BTree\<close>, \<open>Text_Utils\<close>, \<open>Net_Text\<close>: the pieces of Rust's standard library the code
    uses, with the lemma collections of the other theories. \<open>Net_Text\<close> has the text forms of IP
    addresses and the proof that the parser inverts the printer.
  \<^item> \<open>Step_Systems\<close>: the locales \<open>step_system\<close> (starts and steps that generate the reachable states, with
    induction and invariants), \<open>simulates\<close> (one system represents another) and \<open>refinement_map\<close> (a
    simulation by a function). They are interpreted on the phone's core, the pipeline manager and the
    composed machines below, so that what is proved of a session or of a player is read off the
    larger machine.
  \<^item> \<open>Protocol\<close>, \<open>Framing\<close> (\<open>phonecam-protocol\<close>): profiles, handshakes and their checks; messages and
    their frames. A decoded frame is a canonical one, whatever the bytes.
  \<^item> \<open>Transport\<close> (\<open>phonecam-transport\<close>): the reader and writer loops with keepalive, timeouts and
    close, and the exchange of handshakes. The locale \<open>framed_channel\<close> is what the loops need of an
    encoding; \<open>wire\<close> interprets it on the protocol.
  \<^item> \<open>Planes\<close>, \<open>AnnexB\<close>, \<open>Decoder\<close> (\<open>decode.rs\<close>, \<open>convert.rs\<close>, the packing of \<open>output.rs\<close>): pixel layouts, the
    H.264 byte-stream checks, and the worker thread with its three bounded queues as a step
    relation. The locales \<open>lossless_stage\<close> and \<open>lossless_chain\<close> compose picture conversions.
  \<^item> \<open>Native_Format\<close>, \<open>Native_Driver\<close>, \<open>Linux_Driver\<close>, \<open>Linux_Open\<close>, \<open>App_Group\<close>, \<open>Win_Handles\<close>: the format events
    and frames of the native drivers, V4L2, the lookup of the macOS app group call by call, with
    the call each receiver and selector comes from, and the
    Windows pipe driver with the handle each call uses. The locale \<open>pipe_contract\<close> carries an
    invariant through the driver's loops.
  \<^item> \<open>Output\<close>: the three platforms' \<open>OutputDevice\<close> behind the locale \<open>output_contract\<close>, interpreted on
    their sum as \<open>platform\<close>.
  \<^item> \<open>Profiles\<close>, \<open>Stream_Actor\<close>, \<open>Stream_Invariants\<close>, \<open>Stream_Properties\<close>, \<open>Stream_Claims\<close>, \<open>Stream_Keyframes\<close>: profile
    resolution and the connection actor, one definition per arm of its \<open>select!\<close>. The lemmas give
    its invariant, the account of replies, the refinement of the abstract negotiation
    \<open>negotiates\<close>, and a bound of the keyframes it asks for.
  \<^item> \<open>Playback\<close>, \<open>Playback_Claims\<close>: the actor composed with the decode worker, \<open>reset\<close> being the point
    where the loop waits for the thread.
  \<^item> \<open>Pipeline_Manager\<close>, \<open>Manager_Invariants\<close>, \<open>Manager_Calls\<close>, \<open>Manager_Calm\<close>, \<open>Manager_Claims\<close>: the manager's
    methods and its tasks, with the actor inside, cut at their waits: the two senders are behind
    two locks, each taken by a step of its own, and a turn whose body waits (for the decoder's
    reset, for room in the connection's queue) begins with one step and ends with another. For
    arbitrary callers and for callers that wait for each stop (\<open>calm_reachable\<close>). A call of
    \<open>stop\<close> waits for its worker alone, and as long as its worker does. The commands of adb and the
    camera call (clone of the sender and send) are one step each.
  \<^item> \<open>MobileCore\<close>, \<open>Mobile_Invariants\<close>, \<open>Mobile_Claims\<close>, \<open>Mobile_Ffi\<close>, \<open>Frame_Limits\<close>: the phone's C
    functions over its three slots and the two bounded channels of a connection; the strings
    they hand out and take back; and that a frame too large for a message is accepted and ends
    its connection.
  \<^item> \<open>Session\<close>, \<open>Session_Claims\<close>, \<open>Settling\<close>: phone and desktop over two queues of messages, the agreement
    of their profiles in sessions without timeouts, crossing changes and failed commits whose phone
    reports success of a request only with the size and rate requested, and that such a session
    can always come to rest.
  \<^item> \<open>Wired\<close>, \<open>Wired_Claims\<close>: the same two ends over the bytes that the transport's loops write and read, a
    simulation of \<open>Session\<close>, through which the agreement holds of the bytes.
  \<^item> \<open>Phone_To_Screen\<close>, \<open>Live_Claims\<close>: the whole path, from the phone's C functions over the bytes to
    the decoder's thread. A state of this machine is one of \<open>Wired\<close> with the decode worker of its
    desktop; it maps to a player of \<open>Playback\<close> and represents a session, so that what is shown can
    be traced to the frames the phone's core accepted.
  \<^item> \<open>Discovery\<close>, \<open>Discovery_Handles\<close>, \<open>Adb\<close>, \<open>Adb_Claims\<close>, \<open>DesktopLib\<close>, \<open>Error_Texts\<close>: QR codes, mDNS, the debug
    bridge (device lists in any layout of white space, headers and messages) with its device
    monitor, the commands of the desktop and the texts of their errors.

  \<^bold>\<open>Loops and bounds.\<close> Loops over data are structural or have a measure (the bytes left). The
  endless loops take the list of what the world does in each turn: the reader loop its timer and
  byte events, the actor and the tasks one input per step, the monitor and the browser one reading
  per poll. No fuel is used: a statement about a run is about every such list. The queue sizes
  are the source's constants (frames 2, events 2, control 2, commands 8, outbound 8, inbound 64).

  \<^bold>\<open>What the theorems show.\<close> Safety of the parts on arbitrary input (no panic, no access out of
  bounds), exact characterisations of the checks, round trips of every encoding, the invariants
  of actor, worker, manager and phone under every interleaving, the origin of what is shown,
  exactly-once answers, termination of stopping (up to the waits of the worker) and of the end
  of a connection, progress towards agreement, and the agreement of the two sides. Several
  theorems exhibit reachable states the code does not mean to reach: a jammed decoder that holds
  up its connection and a \<open>stop\<close> that waits for it, a late or crossing change that freezes the
  picture, a late stop that hides a live stream, a frame that ends its connection, a commit that
  is not atomic on any V4L2 device that keeps the size it has taken.

  \<^bold>\<open>Not modelled.\<close> The payload bytes of bincode and JSON text, the codecs' arithmetic, the kernel
  and the network beyond the answers they give; logging; the QR code's drawing; the bytes of C
  strings and frame buffers behind the pointers at the phone's interface (an argument is the data it
  points to, or null; a result is an address that is given away and taken back once); the
  Default, Clone and accessor boilerplate; declarations of foreign functions; the fairness of
  tokio's scheduler (liveness is stated as the existence or the bound of the remaining steps); the
  tests. The Kotlin, Swift, C++ and TypeScript parts of the repository are outside the model.
\<close>

end
